(* ===== verification/Prelude.thy ===== *)
theory Prelude
  imports Main "HOL-Library.Word" "HOL-Library.Sublist"
begin

text \<open>
  Shared ground of the development: the part of Go's control flow and of Go's string
  library that the controller, the director, the gateway, the gateway manager and the
  two wrappers use.

  A Go function that returns \<open>(T, error)\<close> is a state-passing function into
  \<open>'a outcome\<close>: \<open>Ok v\<close> is \<open>(v, nil)\<close>, \<open>Err e\<close> is a non-nil error, and
  \<open>Panic k\<close> is a run-time panic or a fatal exit, which no caller in this repository
  recovers from. \<open>bindE\<close> is the pattern \<open>x, err := f(); if err != nil { return err }\<close>.
\<close>

section \<open>Collections of facts\<close>

named_theorems outcome_simps \<open>evaluation of Go control flow\<close>
named_theorems view_simps \<open>what one operation does to the observable node state\<close>

section \<open>Errors, outcomes and programs\<close>

text \<open>
  The message of an error is represented by a constructor for the place that builds it.
  What the code inspects is kept: the exit status of an iptables error (the type
  \<open>*iptables.Error\<close>), a not-found answer of the API machinery, and the wrapped cause.
\<close>

datatype goerror =
    ErrText string
  | ErrIptables nat string        \<comment> \<open>\<open>*iptables.Error\<close>: exit status and stderr\<close>
  | ErrExit nat string            \<comment> \<open>\<open>*exec.ExitError\<close>: exit status and output\<close>
  | ErrStart string               \<comment> \<open>the command could not be started\<close>
  | ErrNotFound string            \<comment> \<open>\<open>k8serrors.IsNotFound\<close> holds of it\<close>
  | ErrWrap string goerror        \<comment> \<open>\<open>errors.New(msg + err.Error())\<close> and \<open>fmt.Errorf\<close>\<close>

datatype gopanic = NilDeref | NilMapWrite | CloseClosed | TypeAssertion | IndexRange | FatalExit | PanicErr goerror

datatype 'a outcome = Ok 'a | Err goerror | Panic gopanic

type_synonym ('s, 'a) prog = "'s \<Rightarrow> 'a outcome \<times> 's"

definition returnE :: "'a \<Rightarrow> ('s, 'a) prog" where
  "returnE v s = (Ok v, s)"

definition failE :: "goerror \<Rightarrow> ('s, 'a) prog" where
  "failE e s = (Err e, s)"

definition panicE :: "gopanic \<Rightarrow> ('s, 'a) prog" where
  "panicE k s = (Panic k, s)"

definition bindE :: "('s, 'a) prog \<Rightarrow> ('a \<Rightarrow> ('s, 'b) prog) \<Rightarrow> ('s, 'b) prog" where
  "bindE m f s =
     (case m s of
        (Ok v, s') \<Rightarrow> f v s'
      | (Err e, s') \<Rightarrow> (Err e, s')
      | (Panic k, s') \<Rightarrow> (Panic k, s'))"

text \<open>\<open>catchE m h\<close> hands a non-nil error to \<open>h\<close>; \<open>wrapE\<close> only rewords it.\<close>

definition catchE :: "('s, 'a) prog \<Rightarrow> (goerror \<Rightarrow> ('s, 'a) prog) \<Rightarrow> ('s, 'a) prog" where
  "catchE m h s =
     (case m s of
        (Ok v, s') \<Rightarrow> (Ok v, s')
      | (Err e, s') \<Rightarrow> h e s'
      | (Panic k, s') \<Rightarrow> (Panic k, s'))"

definition wrapE :: "string \<Rightarrow> ('s, 'a) prog \<Rightarrow> ('s, 'a) prog" where
  "wrapE msg m = catchE m (\<lambda>e. failE (ErrWrap msg e))"

text \<open>An error that the code only logs: \<open>if err != nil { glog.Errorf(\<dots>) }\<close>.\<close>

definition logE :: "('s, unit) prog \<Rightarrow> ('s, unit) prog" where
  "logE m = catchE m (\<lambda>e. returnE ())"

text \<open>\<open>for _, x := range xs { body }\<close> where the body may return an error.\<close>

primrec forE :: "'a list \<Rightarrow> ('a \<Rightarrow> ('s, unit) prog) \<Rightarrow> ('s, unit) prog" where
  "forE [] body = returnE ()"
| "forE (x # xs) body = bindE (body x) (\<lambda>_. forE xs body)"

text \<open>The same loop when the body also uses the index, as in \<open>for i, rule := range rules\<close>.\<close>

primrec foriE :: "nat \<Rightarrow> 'a list \<Rightarrow> (nat \<Rightarrow> 'a \<Rightarrow> ('s, unit) prog) \<Rightarrow> ('s, unit) prog" where
  "foriE i [] body = returnE ()"
| "foriE i (x # xs) body = bindE (body i x) (\<lambda>_. foriE (Suc i) xs body)"

lemma returnE_run [simp]: "returnE v s = (Ok v, s)"
  by (simp add: returnE_def)

lemma failE_run [simp]: "failE e s = (Err e, s)"
  by (simp add: failE_def)

lemma panicE_run [simp]: "panicE k s = (Panic k, s)"
  by (simp add: panicE_def)

lemma bindE_Ok: "m s = (Ok v, s') \<Longrightarrow> bindE m f s = f v s'"
  by (simp add: bindE_def)

lemma bindE_Err: "m s = (Err e, s') \<Longrightarrow> bindE m f s = (Err e, s')"
  by (simp add: bindE_def)

lemma bindE_Panic: "m s = (Panic k, s') \<Longrightarrow> bindE m f s = (Panic k, s')"
  by (simp add: bindE_def)

lemmas bindE_run [outcome_simps] = bindE_Ok bindE_Err bindE_Panic

lemma bindE_returnE [simp]: "bindE (returnE v) f = f v"
  by (rule ext) (simp add: bindE_def)

lemma bindE_assoc: "bindE (bindE m f) g = bindE m (\<lambda>x. bindE (f x) g)"
  by (rule ext) (simp add: bindE_def split: prod.split outcome.split)

text \<open>Inversion: a program that returned \<open>Ok\<close> ran every step with \<open>Ok\<close>.\<close>

lemma bindE_OkD:
  "bindE m f s = (Ok v, s') \<Longrightarrow> \<exists>u t. m s = (Ok u, t) \<and> f u t = (Ok v, s')"
  by (auto simp: bindE_def split: prod.splits outcome.splits)

lemma bindE_OkE:
  assumes "bindE m f s = (Ok v, s')"
  obtains u t where "m s = (Ok u, t)" and "f u t = (Ok v, s')"
  using bindE_OkD [OF assms] by blast

lemma wrapE_Ok_iff [simp]: "wrapE msg m s = (Ok v, s') \<longleftrightarrow> m s = (Ok v, s')"
  by (auto simp: wrapE_def catchE_def split: prod.splits outcome.splits)

lemma wrapE_Panic_iff [simp]: "wrapE msg m s = (Panic k, s') \<longleftrightarrow> m s = (Panic k, s')"
  by (auto simp: wrapE_def catchE_def split: prod.splits outcome.splits)

lemma wrapE_Err_iff:
  "wrapE msg m s = (Err e, s') \<longleftrightarrow> (\<exists>e0. m s = (Err e0, s') \<and> e = ErrWrap msg e0)"
  by (auto simp: wrapE_def catchE_def split: prod.splits outcome.splits)

lemma wrapE_run:
  "wrapE msg m s =
     (case m s of (Ok v, s') \<Rightarrow> (Ok v, s') | (Err e, s') \<Rightarrow> (Err (ErrWrap msg e), s')
      | (Panic k, s') \<Rightarrow> (Panic k, s'))"
  by (simp add: wrapE_def catchE_def split: prod.split outcome.split)

lemma logE_run:
  "logE m s = (case m s of (Panic k, s') \<Rightarrow> (Panic k, s') | (_, s') \<Rightarrow> (Ok (), s'))"
  by (auto simp: logE_def catchE_def split: prod.split outcome.split)

section \<open>What a program does to the state, however it ends\<close>

text \<open>
  \<open>moves R m\<close>: the states before and after \<open>m\<close> are related by \<open>R\<close>, whether \<open>m\<close> returns,
  fails or panics. For a reflexive and transitive \<open>R\<close> this composes along every construct,
  so a relation that the primitives respect is respected by every program built from them.
\<close>

definition moves :: "('s \<Rightarrow> 's \<Rightarrow> bool) \<Rightarrow> ('s, 'a) prog \<Rightarrow> bool" where
  "moves R m \<longleftrightarrow> (\<forall>s. R s (snd (m s)))"

lemma movesI: "(\<And>s r s'. m s = (r, s') \<Longrightarrow> R s s') \<Longrightarrow> moves R m"
  unfolding moves_def by (metis prod.collapse)

lemma movesD: "moves R m \<Longrightarrow> m s = (r, s') \<Longrightarrow> R s s'"
  by (auto simp: moves_def dest: spec [where x = s])

lemma moves_mono: "moves R m \<Longrightarrow> (\<And>s t. R s t \<Longrightarrow> S s t) \<Longrightarrow> moves S m"
  by (simp add: moves_def)

locale step_order =
  fixes R :: "'s \<Rightarrow> 's \<Rightarrow> bool"
  assumes R_refl: "R s s"
    and R_trans: "R s t \<Longrightarrow> R t u \<Longrightarrow> R s u"
begin

lemma moves_returnE: "moves R (returnE v)"
  by (simp add: moves_def R_refl)

lemma moves_failE: "moves R (failE e)"
  by (simp add: moves_def R_refl)

lemma moves_panicE: "moves R (panicE k)"
  by (simp add: moves_def R_refl)

lemma moves_bindE:
  assumes "moves R m" and "\<And>v. moves R (f v)"
  shows "moves R (bindE m f)"
proof (rule movesI)
  fix s r s'
  assume run: "bindE m f s = (r, s')"
  obtain r1 t where m: "m s = (r1, t)" by (cases "m s")
  have st: "R s t" using movesD [OF assms(1) m] .
  show "R s s'"
  proof (cases r1)
    case (Ok v)
    with run m have "f v t = (r, s')" by (simp add: bindE_def)
    then have "R t s'" by (rule movesD [OF assms(2)])
    with st show ?thesis by (rule R_trans)
  qed (use run m st in \<open>simp_all add: bindE_def\<close>)
qed

lemma moves_catchE:
  assumes "moves R m" and "\<And>e. moves R (f e)"
  shows "moves R (catchE m f)"
proof (rule movesI)
  fix s r s'
  assume run: "catchE m f s = (r, s')"
  obtain r1 t where m: "m s = (r1, t)" by (cases "m s")
  have st: "R s t" using movesD [OF assms(1) m] .
  show "R s s'"
  proof (cases r1)
    case (Err e)
    with run m have "f e t = (r, s')" by (simp add: catchE_def)
    then have "R t s'" by (rule movesD [OF assms(2)])
    with st show ?thesis by (rule R_trans)
  qed (use run m st in \<open>simp_all add: catchE_def\<close>)
qed

lemma moves_wrapE: "moves R m \<Longrightarrow> moves R (wrapE msg m)"
  unfolding wrapE_def by (rule moves_catchE) (simp_all add: moves_failE)

lemma moves_logE: "moves R m \<Longrightarrow> moves R (logE m)"
  unfolding logE_def by (rule moves_catchE) (simp_all add: moves_returnE)

lemma moves_forE: "(\<And>x. x \<in> set xs \<Longrightarrow> moves R (body x)) \<Longrightarrow> moves R (forE xs body)"
  by (induction xs) (auto intro: moves_returnE moves_bindE)

lemma moves_foriE: "(\<And>i x. x \<in> set xs \<Longrightarrow> moves R (body i x)) \<Longrightarrow> moves R (foriE i xs body)"
  by (induction xs arbitrary: i) (auto intro: moves_returnE moves_bindE)

lemma moves_foriE_nth:
  "(\<And>j. j < length xs \<Longrightarrow> moves R (body (i + j) (xs ! j))) \<Longrightarrow> moves R (foriE i xs body)"
proof (induction xs arbitrary: i)
  case (Cons x xs)
  have "moves R (body i x)" using Cons.prems [of 0] by simp
  moreover have "moves R (foriE (Suc i) xs body)"
  proof (rule Cons.IH)
    show "moves R (body (Suc i + j) (xs ! j))" if "j < length xs" for j
      using Cons.prems [of "Suc j"] that by simp
  qed
  ultimately show ?case by (simp add: moves_bindE)
qed (simp add: moves_returnE)

lemma moves_if: "(b \<Longrightarrow> moves R m) \<Longrightarrow> (\<not> b \<Longrightarrow> moves R n) \<Longrightarrow> moves R (if b then m else n)"
  by simp

lemma moves_at: "(\<And>s. moves R (f s)) \<Longrightarrow> moves R (\<lambda>s. f s s)"
  by (simp add: moves_def)

lemmas moves_rules =
  moves_returnE moves_failE moves_panicE moves_bindE moves_wrapE moves_logE moves_forE moves_foriE moves_if

end

text \<open>An invariant is the relation "if it held before, it holds after".\<close>

definition keeps :: "('s \<Rightarrow> bool) \<Rightarrow> ('s, 'a) prog \<Rightarrow> bool" where
  "keeps I m \<longleftrightarrow> moves (\<lambda>s t. I s \<longrightarrow> I t) m"

interpretation keep: step_order "\<lambda>s t. I s \<longrightarrow> I t" for I :: "'s \<Rightarrow> bool"
  by unfold_locales auto

lemma keepsD: "keeps I m \<Longrightarrow> I s \<Longrightarrow> m s = (r, s') \<Longrightarrow> I s'"
  unfolding keeps_def by (auto dest: movesD)

lemma keeps_bindE: "keeps I m \<Longrightarrow> (\<And>v. keeps I (f v)) \<Longrightarrow> keeps I (bindE m f)"
  unfolding keeps_def by (rule keep.moves_bindE)

text \<open>Programs that never panic.\<close>

definition calm :: "('s, 'a) prog \<Rightarrow> bool" where
  "calm m \<longleftrightarrow> (\<forall>s k s'. m s \<noteq> (Panic k, s'))"

lemma calmD: "calm m \<Longrightarrow> m s \<noteq> (Panic k, s')"
  by (simp add: calm_def)

lemma calm_returnE: "calm (returnE v)"
  by (simp add: calm_def)

lemma calm_failE: "calm (failE e)"
  by (simp add: calm_def)

lemma calm_bindE: "calm m \<Longrightarrow> (\<And>v. calm (f v)) \<Longrightarrow> calm (bindE m f)"
  by (auto simp: calm_def bindE_def split: prod.split outcome.split)

lemma calm_catchE: "calm m \<Longrightarrow> (\<And>e. calm (f e)) \<Longrightarrow> calm (catchE m f)"
  by (auto simp: calm_def catchE_def split: prod.split outcome.split)

lemma calm_wrapE: "calm m \<Longrightarrow> calm (wrapE msg m)"
  by (simp add: wrapE_def calm_catchE calm_failE)

lemma calm_forE: "(\<And>x. calm (body x)) \<Longrightarrow> calm (forE xs body)"
  by (induction xs) (simp_all add: calm_returnE calm_bindE)

lemma calm_if: "calm m \<Longrightarrow> calm n \<Longrightarrow> calm (if b then m else n)"
  by simp

lemma calm_at: "(\<And>s. calm (f s)) \<Longrightarrow> calm (\<lambda>s. f s s)"
  by (simp add: calm_def)

lemmas calm_rules = calm_returnE calm_failE calm_bindE calm_wrapE calm_forE calm_if

section \<open>The two shapes of guarded updates\<close>

text \<open>
  \<open>has, err := Exists(\<dots>); if err != nil { return err }; if !has { add }\<close>, and the same
  with \<open>if has { del }\<close>.
\<close>

definition ensure_with :: "('s, bool) prog \<Rightarrow> ('s, unit) prog \<Rightarrow> ('s, unit) prog" where
  "ensure_with check add = bindE check (\<lambda>has. if \<not> has then add else returnE ())"

definition remove_with :: "('s, bool) prog \<Rightarrow> ('s, unit) prog \<Rightarrow> ('s, unit) prog" where
  "remove_with check del = bindE check (\<lambda>has. if has then del else returnE ())"

lemma calm_ensure_with: "calm check \<Longrightarrow> calm add \<Longrightarrow> calm (ensure_with check add)"
  unfolding ensure_with_def by (intro calm_rules)

lemma calm_remove_with: "calm check \<Longrightarrow> calm del \<Longrightarrow> calm (remove_with check del)"
  unfolding remove_with_def by (intro calm_rules)

lemma bindE_res:
  "bindE m f s = (r, s') \<Longrightarrow>
     (\<exists>v t. m s = (Ok v, t) \<and> f v t = (r, s')) \<or>
     (\<exists>e. m s = (Err e, s') \<and> r = Err e) \<or> (\<exists>k. m s = (Panic k, s') \<and> r = Panic k)"
  by (auto simp: bindE_def split: prod.splits outcome.splits)

section \<open>Go strings\<close>

text \<open>
  A Go string is a byte sequence, here a list of \<open>char\<close>. \<open>contains\<close> is
  \<open>strings.Contains\<close>, \<open>remove_dots\<close> is \<open>strings.Replace(s, ".", "", -1)\<close>,
  \<open>split_on\<close> is \<open>strings.Split\<close> with a one-byte separator.
\<close>

fun contains :: "string \<Rightarrow> string \<Rightarrow> bool" where
  "contains [] sub \<longleftrightarrow> sub = []"
| "contains (c # s) sub \<longleftrightarrow> prefix sub (c # s) \<or> contains s sub"

lemma contains_iff_sublist: "contains s sub \<longleftrightarrow> sublist sub s"
  by (induction s) (auto simp: sublist_Cons_right)

lemma contains_append: "contains (a @ sub @ b) sub"
  by (simp add: contains_iff_sublist sublist_appendI)

lemma contains_refl [simp]: "contains s s"
  by (simp add: contains_iff_sublist)

lemma contains_trans: "contains a b \<Longrightarrow> contains b c \<Longrightarrow> contains a c"
  unfolding contains_iff_sublist by (rule sublist_order.order.trans)

definition remove_dots :: "string \<Rightarrow> string" where
  "remove_dots s = filter (\<lambda>c. c \<noteq> CHR ''.'') s"

fun split_on :: "char \<Rightarrow> string \<Rightarrow> string list" where
  "split_on d [] = [[]]"
| "split_on d (c # s) =
     (if c = d then [] # split_on d s
      else (case split_on d s of [] \<Rightarrow> [[c]] | p # ps \<Rightarrow> (c # p) # ps))"

lemma split_on_neq_Nil [simp]: "split_on d s \<noteq> []"
  by (cases s) (auto split: list.split)

lemma split_on_no_sep: "d \<notin> set s \<Longrightarrow> split_on d s = [s]"
  by (induction s) auto

lemma split_on_append_sep:
  "d \<notin> set a \<Longrightarrow> split_on d (a @ d # b) = a # split_on d b"
  by (induction a) auto

lemma split_on_parts: "p \<in> set (split_on d s) \<Longrightarrow> d \<notin> set p"
  by (induction s arbitrary: p) (fastforce split: if_splits list.splits)+

section \<open>strconv.Itoa\<close>

definition digit_char :: "nat \<Rightarrow> char" where
  "digit_char n = char_of (48 + n)"

fun dec_string :: "nat \<Rightarrow> string" where
  "dec_string n = (if n < 10 then [digit_char n] else dec_string (n div 10) @ [digit_char (n mod 10)])"

declare dec_string.simps [simp del]

definition Itoa :: "int \<Rightarrow> string" where
  "Itoa i = (if i < 0 then CHR ''-'' # dec_string (nat (- i)) else dec_string (nat i))"

lemma of_char_digit [simp]: "n < 10 \<Longrightarrow> (of_char (digit_char n) :: nat) = 48 + n"
  by (simp add: digit_char_def of_char_of)

lemma dec_string_small: "n < 10 \<Longrightarrow> dec_string n = [digit_char n]"
  by (subst dec_string.simps) simp

lemma dec_string_step: "10 \<le> n \<Longrightarrow> dec_string n = dec_string (n div 10) @ [digit_char (n mod 10)]"
  by (subst dec_string.simps) simp

lemma dec_string_neq_Nil [simp]: "dec_string n \<noteq> []"
  by (subst dec_string.simps) simp

lemma dec_string_digits: "c \<in> set (dec_string n) \<Longrightarrow> \<exists>d < 10. c = digit_char d"
proof (induction n rule: dec_string.induct)
  case (1 n)
  show ?case
  proof (cases "n < 10")
    case True
    with "1.prems" show ?thesis by (auto simp: dec_string_small)
  next
    case False
    with "1" show ?thesis
      by (cases "c \<in> set (dec_string (n div 10))")
        (auto simp: dec_string_step intro!: exI [of _ "n mod 10"])
  qed
qed

lemma digit_chars:
  "digit_char 0 = CHR ''0''" "digit_char 1 = CHR ''1''" "digit_char 2 = CHR ''2''"
  "digit_char 3 = CHR ''3''" "digit_char 4 = CHR ''4''" "digit_char 5 = CHR ''5''"
  "digit_char 6 = CHR ''6''" "digit_char 7 = CHR ''7''" "digit_char 8 = CHR ''8''"
  "digit_char 9 = CHR ''9''" "digit_char (Suc 0) = CHR ''1''"
  by (code_simp)+

lemma non_digit_not_in_dec_string:
  assumes "\<not> (48 \<le> (of_char c :: nat) \<and> (of_char c :: nat) \<le> 57)"
  shows "c \<notin> set (dec_string n)"
proof
  assume "c \<in> set (dec_string n)"
  then obtain d where "d < 10" and "c = digit_char d" by (auto dest: dec_string_digits)
  with assms show False by simp
qed

lemma dec_string_no_sep [simp]:
  "CHR ''.'' \<notin> set (dec_string n)" "CHR ''/'' \<notin> set (dec_string n)" "CHR '':'' \<notin> set (dec_string n)"
  by (rule non_digit_not_in_dec_string, simp)+

lemma in_dec_string_neq: "c \<in> set (dec_string n) \<Longrightarrow> c \<noteq> CHR ''.'' \<and> c \<noteq> CHR ''/'' \<and> c \<noteq> CHR '':''"
  using dec_string_no_sep by metis

lemma dec_string_inject [simp]: "dec_string m = dec_string n \<longleftrightarrow> m = n"
proof
  assume "dec_string m = dec_string n"
  then show "m = n"
  proof (induction m arbitrary: n rule: dec_string.induct)
    case (1 m)
    have len: "length (dec_string k) = 1 \<longleftrightarrow> k < 10" for k
      by (cases "k < 10") (simp_all add: dec_string_small dec_string_step)
    have dc: "digit_char i = digit_char j \<Longrightarrow> i < 10 \<Longrightarrow> j < 10 \<Longrightarrow> i = j" for i j
      by (auto dest!: arg_cong [where f = "of_char :: char \<Rightarrow> nat"])
    show ?case
    proof (cases "m < 10")
      case True
      then have "n < 10" using "1.prems" len by metis
      with True "1.prems" show ?thesis by (auto simp: dec_string_small intro: dc)
    next
      case False
      then have "\<not> n < 10" using "1.prems" len by metis
      with False "1.prems" have "dec_string (m div 10) = dec_string (n div 10)"
        and "digit_char (m mod 10) = digit_char (n mod 10)"
        by (simp_all add: dec_string_step)
      then have "m div 10 = n div 10" and "m mod 10 = n mod 10"
        using "1.IH" [OF False] dc by simp_all
      then show ?thesis by (metis div_mult_mod_eq)
    qed
  qed
qed simp

end
