(* ===== verification/GoNet.thy ===== *)
theory GoNet
  imports Prelude
begin

text \<open>
  The part of Go's package \<open>net\<close> (Go 1.10, the version of the build images) that
  \<open>pkg/utils/node.go\<close>, \<open>pkg/gateway/staticIP.go\<close> and \<open>pkg/director/director.go\<close>
  call: \<open>ParseIP\<close>, \<open>IP.To4\<close>, \<open>IP.String\<close>, \<open>ParseCIDR\<close> and \<open>IPNet.Contains\<close>.
  An \<open>IP\<close> is a byte slice; the nil slice is the empty list.
\<close>

unbundle bit_operations_syntax

type_synonym byte = "8 word"
type_synonym go_ip = "byte list"

record go_ipnet =
  netIP :: go_ip
  netMask :: "byte list"

section \<open>Numbers\<close>

text \<open>
  \<open>dtoi\<close> and \<open>xtoi\<close> read a decimal or hexadecimal prefix; both give up at
  \<open>big = 0xFFFFFF\<close>. The result is the number and the unread rest, or \<open>None\<close> where
  the Go function answers \<open>ok = false\<close>.
\<close>

definition dec_val :: "char \<Rightarrow> nat option" where
  "dec_val c = (let n = of_char c in if 48 \<le> n \<and> n \<le> 57 then Some (n - 48) else None)"

definition hex_val :: "char \<Rightarrow> nat option" where
  "hex_val c =
     (let n = of_char c in
      if 48 \<le> n \<and> n \<le> 57 then Some (n - 48)
      else if 97 \<le> n \<and> n \<le> 102 then Some (n - 87)
      else if 65 \<le> n \<and> n \<le> 70 then Some (n - 55) else None)"

fun read_num :: "(char \<Rightarrow> nat option) \<Rightarrow> nat \<Rightarrow> nat \<Rightarrow> string \<Rightarrow> (nat \<times> string) option" where
  "read_num dig b n [] = Some (n, [])"
| "read_num dig b n (c # s) =
     (case dig c of
        None \<Rightarrow> Some (n, c # s)
      | Some d \<Rightarrow> if b * n + d \<ge> 0xFFFFFF then None else read_num dig b (b * n + d) s)"

definition starts_with_digit :: "(char \<Rightarrow> nat option) \<Rightarrow> string \<Rightarrow> bool" where
  "starts_with_digit dig s = (case s of [] \<Rightarrow> False | c # _ \<Rightarrow> dig c \<noteq> None)"

definition dtoi :: "string \<Rightarrow> (nat \<times> string) option" where
  "dtoi s = (if starts_with_digit dec_val s then read_num dec_val 10 0 s else None)"

definition xtoi :: "string \<Rightarrow> (nat \<times> string) option" where
  "xtoi s = (if starts_with_digit hex_val s then read_num hex_val 16 0 s else None)"

section \<open>Parsing addresses\<close>

definition v4InV6Prefix :: "byte list" where
  "v4InV6Prefix = replicate 10 0 @ [0xFF, 0xFF]"

definition IPv4 :: "byte \<Rightarrow> byte \<Rightarrow> byte \<Rightarrow> byte \<Rightarrow> go_ip" where
  "IPv4 a b c d = v4InV6Prefix @ [a, b, c, d]"

text \<open>The loop \<open>for i := 0; i < IPv4len; i++\<close> of \<open>parseIPv4\<close>.\<close>

fun parse_octets :: "nat list \<Rightarrow> string \<Rightarrow> (byte list \<times> string) option" where
  "parse_octets [] s = Some ([], s)"
| "parse_octets (i # is) s =
     (if s = [] then None
      else if 0 < i \<and> hd s \<noteq> CHR ''.'' then None
      else
        (case dtoi (if 0 < i then tl s else s) of
           None \<Rightarrow> None
         | Some (n, rest) \<Rightarrow>
             if n > 0xFF then None
             else (case parse_octets is rest of
                     None \<Rightarrow> None
                   | Some (bs, r) \<Rightarrow> Some (of_nat n # bs, r))))"

definition parseIPv4 :: "string \<Rightarrow> go_ip" where
  "parseIPv4 s =
     (case parse_octets [0, 1, 2, 3] s of
        Some ([a, b, c, d], []) \<Rightarrow> IPv4 a b c d
      | _ \<Rightarrow> [])"

text \<open>
  The loop of \<open>parseIPv6\<close> (no zone). \<open>ip\<close> holds the bytes written so far
  (\<open>i = length ip\<close>), \<open>ell\<close> the position of the ellipsis. Every iteration writes two
  bytes or leaves the loop, so eight iterations fill the address; \<open>fuel\<close> is that
  bound. The result is the bytes, the ellipsis and the unread rest.
\<close>

fun parse6_loop :: "nat \<Rightarrow> byte list \<Rightarrow> nat option \<Rightarrow> string \<Rightarrow> (byte list \<times> nat option \<times> string) option" where
  "parse6_loop 0 ip ell s = Some (ip, ell, s)"
| "parse6_loop (Suc fuel) ip ell s =
     (if 16 \<le> length ip then Some (ip, ell, s)
      else
        (case xtoi s of
           None \<Rightarrow> None
         | Some (n, rest) \<Rightarrow>
             if n > 0xFFFF then None
             else if rest \<noteq> [] \<and> hd rest = CHR ''.'' then
               (if ell = None \<and> length ip \<noteq> 12 then None
                else if length ip + 4 > 16 then None
                else (let ip4 = parseIPv4 s in
                      if ip4 = [] then None else Some (ip @ drop 12 ip4, ell, [])))
             else
               (let ip' = ip @ [of_nat (n div 256), of_nat (n mod 256)] in
                if rest = [] then Some (ip', ell, [])
                else if hd rest \<noteq> CHR '':'' \<or> length rest = 1 then None
                else
                  (let s1 = tl rest in
                   if hd s1 = CHR '':'' then
                     (if ell \<noteq> None then None
                      else if tl s1 = [] then Some (ip', Some (length ip'), [])
                      else parse6_loop fuel ip' (Some (length ip')) (tl s1))
                   else parse6_loop fuel ip' ell s1))))"

definition parse6_finish :: "byte list \<times> nat option \<times> string \<Rightarrow> go_ip" where
  "parse6_finish r =
     (case r of (ip, ell, s) \<Rightarrow>
        if s \<noteq> [] then []
        else if length ip < 16 then
          (case ell of None \<Rightarrow> [] | Some e \<Rightarrow> take e ip @ replicate (16 - length ip) 0 @ drop e ip)
        else if ell \<noteq> None then []
        else ip)"

definition parseIPv6 :: "string \<Rightarrow> go_ip" where
  "parseIPv6 s =
     (let (ell, s1) = (if prefix ''::'' s then (Some 0, drop 2 s) else (None, s)) in
      if ell \<noteq> None \<and> s1 = [] then replicate 16 0
      else (case parse6_loop 8 [] ell s1 of None \<Rightarrow> [] | Some r \<Rightarrow> parse6_finish r))"

text \<open>\<open>ParseIP\<close> decides by the first dot or colon.\<close>

definition ParseIP :: "string \<Rightarrow> go_ip" where
  "ParseIP s =
     (case dropWhile (\<lambda>c. c \<noteq> CHR ''.'' \<and> c \<noteq> CHR '':'') s of
        [] \<Rightarrow> []
      | c # _ \<Rightarrow> if c = CHR ''.'' then parseIPv4 s else parseIPv6 s)"

section \<open>Masks and networks\<close>

definition To4 :: "go_ip \<Rightarrow> go_ip" where
  "To4 ip =
     (if length ip = 4 then ip
      else if length ip = 16 \<and> take 12 ip = v4InV6Prefix then drop 12 ip
      else [])"

text \<open>\<open>CIDRMask(ones, bits)\<close>: \<open>ones\<close> one bits, then zero bits, in bytes.\<close>

fun cidr_mask_bytes :: "nat \<Rightarrow> nat \<Rightarrow> byte list" where
  "cidr_mask_bytes 0 ones = []"
| "cidr_mask_bytes (Suc k) ones =
     (if ones \<ge> 8 then 0xFF # cidr_mask_bytes k (ones - 8)
      else (NOT (drop_bit ones 0xFF)) # cidr_mask_bytes k 0)"

definition CIDRMask :: "nat \<Rightarrow> nat \<Rightarrow> byte list" where
  "CIDRMask ones bits = cidr_mask_bytes (bits div 8) ones"

text \<open>
  \<open>IP.Mask\<close>: a 16-byte IPv4 address under a 4-byte mask is masked as 4 bytes.
  (A 16-byte mask on a 4-byte address does not arise from \<open>ParseCIDR\<close>.)
\<close>

definition ip_Mask :: "go_ip \<Rightarrow> byte list \<Rightarrow> go_ip" where
  "ip_Mask ip m =
     (let ip' = (if length m = 4 \<and> length ip = 16 \<and> take 12 ip = v4InV6Prefix then drop 12 ip else ip) in
      if length ip' \<noteq> length m then [] else map2 (AND) ip' m)"

definition ParseCIDR :: "string \<Rightarrow> (go_ip \<times> go_ipnet) option" where
  "ParseCIDR s =
     (if CHR ''/'' \<notin> set s then None
      else
        (let addr = takeWhile (\<lambda>c. c \<noteq> CHR ''/'') s;
             mask = tl (dropWhile (\<lambda>c. c \<noteq> CHR ''/'') s);
             ip4 = parseIPv4 addr;
             (iplen, ip) = (if ip4 = [] then (16, parseIPv6 addr) else (4, ip4))
         in (case dtoi mask of
               None \<Rightarrow> None
             | Some (n, rest) \<Rightarrow>
                 if ip = [] \<or> rest \<noteq> [] \<or> n > 8 * iplen then None
                 else (let m = CIDRMask n (8 * iplen)
                       in Some (ip, \<lparr>netIP = ip_Mask ip m, netMask = m\<rparr>)))))"

text \<open>
  \<open>IPNet.Contains\<close>, through \<open>networkNumberAndMask\<close>. The nets it is called on
  here come from \<open>ParseCIDR\<close>.
\<close>

definition network_number_and_mask :: "go_ipnet \<Rightarrow> go_ip \<times> byte list" where
  "network_number_and_mask n =
     (let ip = (if To4 (netIP n) \<noteq> [] then To4 (netIP n) else netIP n) in
      if ip \<noteq> [] \<and> length ip \<noteq> 4 \<and> length ip \<noteq> 16 then ([], [])
      else if ip = [] then ([], [])
      else if length (netMask n) = 4 then
        (if length ip \<noteq> 4 then ([], []) else (ip, netMask n))
      else if length (netMask n) = 16 then
        (if length ip = 4 then (ip, drop 12 (netMask n)) else (ip, netMask n))
      else ([], []))"

definition ipnet_Contains :: "go_ipnet \<Rightarrow> go_ip \<Rightarrow> bool" where
  "ipnet_Contains n ip =
     (let (nn, m) = network_number_and_mask n;
          x = (if To4 ip \<noteq> [] then To4 ip else ip) in
      length x = length nn \<and>
      list_all (\<lambda>(a, b). a = b) (zip (map2 (AND) nn m) (map2 (AND) x m)))"

section \<open>Printing addresses\<close>

definition dotted :: "byte list \<Rightarrow> string" where
  "dotted bs =
     (case bs of
        [a, b, c, d] \<Rightarrow>
          dec_string (unat a) @ ''.'' @ dec_string (unat b) @ ''.'' @
          dec_string (unat c) @ ''.'' @ dec_string (unat d)
      | _ \<Rightarrow> [])"

definition hex_char :: "nat \<Rightarrow> char" where
  "hex_char n = (if n < 10 then char_of (48 + n) else char_of (87 + n))"

fun hex_string :: "nat \<Rightarrow> string" where
  "hex_string n = (if n < 16 then [hex_char n] else hex_string (n div 16) @ [hex_char (n mod 16)])"

declare hex_string.simps [simp del]

definition hexString :: "byte list \<Rightarrow> string" where
  "hexString bs = concat (map (\<lambda>b. [hex_char (unat b div 16), hex_char (unat b mod 16)]) bs)"

fun groups16 :: "byte list \<Rightarrow> nat list" where
  "groups16 (a # b # bs) = (256 * unat a + unat b) # groups16 bs"
| "groups16 _ = []"

text \<open>
  The run of zero groups that is printed as \<open>::\<close>: the first of the longest runs, if
  it has at least two groups (\<open>e1 - e0 > 2\<close> bytes).
\<close>

definition zero_run_at :: "nat list \<Rightarrow> nat \<Rightarrow> nat" where
  "zero_run_at gs i = length (takeWhile (\<lambda>g. g = 0) (drop i gs))"

fun longest_zero_run :: "nat list \<Rightarrow> nat list \<Rightarrow> nat \<times> nat \<Rightarrow> nat \<times> nat" where
  "longest_zero_run gs [] best = best"
| "longest_zero_run gs (i # is) best =
     longest_zero_run gs is (if zero_run_at gs i > snd best then (i, zero_run_at gs i) else best)"

fun join_colon :: "string list \<Rightarrow> string" where
  "join_colon [] = []"
| "join_colon [x] = x"
| "join_colon (x # y # xs) = x @ '':'' @ join_colon (y # xs)"

definition ipv6_string :: "nat list \<Rightarrow> string" where
  "ipv6_string gs =
     (let (e0, n) = longest_zero_run gs [0..<8] (0, 0) in
      if n \<ge> 2 then
        join_colon (map hex_string (take e0 gs)) @ ''::'' @ join_colon (map hex_string (drop (e0 + n) gs))
      else join_colon (map hex_string gs))"

definition IP_String :: "go_ip \<Rightarrow> string" where
  "IP_String ip =
     (if ip = [] then ''<nil>''
      else if length (To4 ip) = 4 then dotted (To4 ip)
      else if length ip \<noteq> 16 then CHR ''?'' # hexString ip
      else ipv6_string (groups16 ip))"

section \<open>Reading back what was printed\<close>

lemma dec_val_digit [simp]: "n < 10 \<Longrightarrow> dec_val (digit_char n) = Some n"
  by (simp add: dec_val_def)

lemma dec_val_dot [simp]: "dec_val CHR ''.'' = None"
  by (simp add: dec_val_def)

lemma dec_val_slash [simp]: "dec_val CHR ''/'' = None"
  by (simp add: dec_val_def)

lemma starts_with_digit_dec_string [simp]: "starts_with_digit dec_val (dec_string n @ r)"
proof -
  obtain c s where cs: "dec_string n = c # s" by (cases "dec_string n") auto
  then obtain d where "d < 10" and "c = digit_char d" using dec_string_digits [of c n] by auto
  then show ?thesis by (simp add: starts_with_digit_def cs)
qed

lemma read_num_dec_string:
  "a * 10 ^ length (dec_string n) + n < 0xFFFFFF \<Longrightarrow>
     read_num dec_val 10 a (dec_string n @ r) =
     read_num dec_val 10 (a * 10 ^ length (dec_string n) + n) r"
proof (induction n arbitrary: r rule: dec_string.induct)
  case (1 n)
  show ?case
  proof (cases "n < 10")
    case True
    with "1.prems" show ?thesis by (simp add: dec_string_small mult.commute)
  next
    case False
    define l where "l = length (dec_string (n div 10))"
    have "10 * (a * 10 ^ l + n div 10) + n mod 10 = a * 10 ^ Suc l + n" by simp
    moreover have "length (dec_string n) = Suc l" using False by (simp add: dec_string_step l_def)
    ultimately have eq: "10 * (a * 10 ^ l + n div 10) + n mod 10 = a * 10 ^ length (dec_string n) + n"
      by simp
    have "a * 10 ^ l + n div 10 \<le> 10 * (a * 10 ^ l + n div 10) + n mod 10" by simp
    also have "\<dots> < 0xFFFFFF" using "1.prems" unfolding eq .
    finally have "a * 10 ^ l + n div 10 < 0xFFFFFF" .
    with "1.IH" False have IH: "read_num dec_val 10 a (dec_string (n div 10) @ digit_char (n mod 10) # r)
        = read_num dec_val 10 (a * 10 ^ l + n div 10) (digit_char (n mod 10) # r)"
      by (simp add: l_def)
    have "read_num dec_val 10 a (dec_string n @ r)
        = read_num dec_val 10 (a * 10 ^ l + n div 10) (digit_char (n mod 10) # r)"
      using False IH by (simp add: dec_string_step)
    also have "\<dots> = read_num dec_val 10 (10 * (a * 10 ^ l + n div 10) + n mod 10) r"
      using "1.prems" unfolding eq [symmetric] by simp
    finally show ?thesis unfolding eq .
  qed
qed

lemma read_num_stop: "\<not> starts_with_digit dec_val r \<Longrightarrow> read_num dec_val 10 n r = Some (n, r)"
  by (cases r) (auto simp: starts_with_digit_def)

lemma dtoi_dec_string:
  "n < 0xFFFFFF \<Longrightarrow> \<not> starts_with_digit dec_val r \<Longrightarrow> dtoi (dec_string n @ r) = Some (n, r)"
  using read_num_dec_string [of 0 n r] read_num_stop [of r n] by (simp add: dtoi_def)

lemma dtoi_dec_string_end: "n < 0xFFFFFF \<Longrightarrow> dtoi (dec_string n) = Some (n, [])"
  using dtoi_dec_string [of n "[]"] by (simp add: starts_with_digit_def)

lemma dtoi_dec_string_dot: "n < 0xFFFFFF \<Longrightarrow> dtoi (dec_string n @ CHR ''.'' # r) = Some (n, CHR ''.'' # r)"
  by (rule dtoi_dec_string) (simp_all add: starts_with_digit_def)

lemma unat_byte_less: "unat (b :: byte) < 256"
proof -
  have "unat b < 2 ^ LENGTH(8)" by (rule unsigned_less)
  then show ?thesis by simp
qed

lemma unat_byte_le [simp]: "unat (b :: byte) \<le> 255"
  using unat_byte_less [of b] by simp

lemma unat_byte_big [simp]: "unat (b :: byte) < 16777215"
  using unat_byte_less [of b] by simp

lemma parse_octets_dotted:
  "parse_octets [0, 1, 2, 3] (dotted [a, b, c, d]) = Some ([a, b, c, d], [])"
  by (simp add: dotted_def dtoi_dec_string_dot dtoi_dec_string_end not_less)

lemma parseIPv4_dotted: "parseIPv4 (dotted [a, b, c, d]) = IPv4 a b c d"
  unfolding parseIPv4_def parse_octets_dotted by simp

lemma dropWhile_stop: "(\<And>x. x \<in> set xs \<Longrightarrow> P x) \<Longrightarrow> \<not> P y \<Longrightarrow> dropWhile P (xs @ y # ys) = y # ys"
  by (induction xs) auto

lemma ParseIP_dotted: "ParseIP (dotted [a, b, c, d]) = IPv4 a b c d"
proof -
  have "dropWhile (\<lambda>c. c \<noteq> CHR ''.'' \<and> c \<noteq> CHR '':'') (dotted [a, b, c, d]) =
      CHR ''.'' # dec_string (unat b) @ ''.'' @ dec_string (unat c) @ ''.'' @ dec_string (unat d)"
    unfolding dotted_def list.case append.simps
    by (rule dropWhile_stop) (auto dest: in_dec_string_neq)
  then show ?thesis by (simp add: ParseIP_def parseIPv4_dotted)
qed

lemma To4_IPv4 [simp]: "To4 (IPv4 a b c d) = [a, b, c, d]"
  by (simp add: To4_def IPv4_def v4InV6Prefix_def)

lemma IPv4_neq_Nil [simp]: "IPv4 a b c d \<noteq> []"
  by (simp add: IPv4_def)

lemma IP_String_IPv4: "IP_String (IPv4 a b c d) = dotted [a, b, c, d]"
  by (simp add: IP_String_def)

lemma parseIPv4_cases: "parseIPv4 s = [] \<or> (\<exists>a b c d. parseIPv4 s = IPv4 a b c d)"
  by (auto simp: parseIPv4_def split: option.splits list.splits)

lemma length_cidr_mask_bytes [simp]: "length (cidr_mask_bytes k n) = k"
  by (induction k n rule: cidr_mask_bytes.induct) auto

lemma dotted_no_slash: "CHR ''/'' \<notin> set (dotted [a, b, c, d])"
  by (simp add: dotted_def)

lemma ParseCIDR_dotted:
  assumes "n \<le> 32"
  shows "ParseCIDR (dotted [a, b, c, d] @ ''/'' @ dec_string n) =
     Some (IPv4 a b c d, \<lparr>netIP = map2 (AND) [a, b, c, d] (CIDRMask n 32), netMask = CIDRMask n 32\<rparr>)"
proof -
  let ?s = "dotted [a, b, c, d] @ CHR ''/'' # dec_string n"
  have tw: "takeWhile (\<lambda>c. c \<noteq> CHR ''/'') ?s = dotted [a, b, c, d]"
    and dw: "dropWhile (\<lambda>c. c \<noteq> CHR ''/'') ?s = CHR ''/'' # dec_string n"
    using dotted_no_slash [of a b c d]
    by (simp_all add: takeWhile_append2 dropWhile_append2 takeWhile_append dropWhile_append)
  have "dtoi (dec_string n) = Some (n, [])" using assms by (intro dtoi_dec_string_end) simp
  then show ?thesis using assms
    by (simp add: ParseCIDR_def tw dw parseIPv4_dotted ip_Mask_def CIDRMask_def IPv4_def v4InV6Prefix_def Let_def
        del: cidr_mask_bytes.simps)
qed

text \<open>Destinations and addresses in CIDR notation.\<close>

definition cidr4 :: "byte \<Rightarrow> byte \<Rightarrow> byte \<Rightarrow> byte \<Rightarrow> nat \<Rightarrow> string" where
  "cidr4 a b c d n = dotted [a, b, c, d] @ ''/'' @ dec_string n"

section \<open>Containment in a network\<close>

text \<open>Bit \<open>i\<close> of an address, counted from the first bit of its first byte.\<close>

definition ip_bit :: "byte list \<Rightarrow> nat \<Rightarrow> bool" where
  "ip_bit bs i = bit (bs ! (i div 8)) (7 - i mod 8)"

lemma ff_mask: "(0xFF :: byte) = mask 8"
  by (simp add: mask_eq_exp_minus_1)

lemma mask_byte_bit: "n < 8 \<Longrightarrow> bit (NOT (drop_bit k 0xFF) :: byte) n \<longleftrightarrow> 7 - n < k"
  unfolding ff_mask by (auto simp: bit_not_iff bit_drop_bit_eq bit_mask_iff)

lemma full_byte_bit: "n < 8 \<Longrightarrow> bit (0xFF :: byte) n"
  unfolding ff_mask by (simp add: bit_mask_iff)

lemma cidr_mask_bit:
  "j < k \<Longrightarrow> n < 8 \<Longrightarrow> bit (cidr_mask_bytes k m ! j) n \<longleftrightarrow> 8 * j + (7 - n) < m"
proof (induction k m arbitrary: j rule: cidr_mask_bytes.induct)
  case (2 k m)
  show ?case
  proof (cases "8 \<le> m")
    case True
    then show ?thesis using 2 full_byte_bit [OF "2.prems"(2)] by (cases j) auto
  next
    case False
    then show ?thesis using 2 mask_byte_bit [OF "2.prems"(2), of m] by (cases j) auto
  qed
qed simp

lemma byte_eq_iff: "(a :: byte) = b \<longleftrightarrow> (\<forall>n < 8. bit a n = bit b n)"
  by (auto simp: bit_eq_iff)

lemma masked_eq_iff:
  assumes "m \<le> 32" and "length x = 4" and "length y = 4"
  shows "map2 (AND) x (cidr_mask_bytes 4 m) = map2 (AND) y (cidr_mask_bytes 4 m) \<longleftrightarrow>
     (\<forall>i < m. ip_bit x i = ip_bit y i)"
proof -
  have "map2 (AND) x (cidr_mask_bytes 4 m) = map2 (AND) y (cidr_mask_bytes 4 m) \<longleftrightarrow>
      (\<forall>j < 4. \<forall>n < 8. 8 * j + (7 - n) < m \<longrightarrow> bit (x ! j) n = bit (y ! j) n)"
    using assms(2,3)
    by (auto simp: list_eq_iff_nth_eq byte_eq_iff bit_and_iff cidr_mask_bit simp del: cidr_mask_bytes.simps)
  also have "\<dots> \<longleftrightarrow> (\<forall>i < m. ip_bit x i = ip_bit y i)"
  proof (rule iffI; intro allI impI)
    fix i
    assume all: "\<forall>j < 4. \<forall>n < 8. 8 * j + (7 - n) < m \<longrightarrow> bit (x ! j) n = bit (y ! j) n" and i: "i < m"
    have d: "i div 8 < 4" using i assms(1) by simp
    have "i mod 8 < 8" by simp
    then have n: "7 - i mod 8 < 8" "7 - (7 - i mod 8) = i mod 8" by linarith+
    then have "8 * (i div 8) + (7 - (7 - i mod 8)) < m" using i by simp
    then show "ip_bit x i = ip_bit y i" using all d n unfolding ip_bit_def by blast
  next
    fix j n assume all: "\<forall>i < m. ip_bit x i = ip_bit y i" and "j < 4" "n < 8" "8 * j + (7 - n) < m"
    then have "ip_bit x (8 * j + (7 - n)) = ip_bit y (8 * j + (7 - n))" by blast
    moreover have "(8 * j + q) div 8 = j \<and> (8 * j + q) mod 8 = q" if "q < 8" for q using that by simp
    then have q: "(8 * j + (7 - n)) div 8 = j \<and> (8 * j + (7 - n)) mod 8 = 7 - n" by simp
    have "7 - (7 - n) = n" using \<open>n < 8\<close> by linarith
    ultimately show "bit (x ! j) n = bit (y ! j) n" using q by (simp only: ip_bit_def)
  qed
  finally show ?thesis .
qed

lemma list_all_zip_eq: "length xs = length ys \<Longrightarrow> list_all (\<lambda>(a, b). a = b) (zip xs ys) \<longleftrightarrow> xs = ys"
  by (induction xs ys rule: list_induct2) auto

lemma map2_and_idem: "map2 (AND) (map2 (AND) x m) m = map2 (AND) x (m :: byte list)"
  by (induction x m rule: list_induct2') (auto simp: and.assoc)

lemma ipnet_Contains_4:
  assumes "length m = 4" and "length x = 4"
  shows "ipnet_Contains \<lparr>netIP = map2 (AND) x m, netMask = m\<rparr> (IPv4 e f g k) \<longleftrightarrow>
     map2 (AND) x m = map2 (AND) [e, f, g, k] m"
proof -
  have len: "length (map2 (AND) x m) = 4" using assms by simp
  have t: "To4 (map2 (AND) x m) = map2 (AND) x m" using len by (simp add: To4_def)
  have ne: "map2 (AND) x m \<noteq> []" using len by auto
  have nn: "network_number_and_mask \<lparr>netIP = map2 (AND) x m, netMask = m\<rparr> = (map2 (AND) x m, m)"
    using t ne len assms(1) unfolding network_number_and_mask_def Let_def by simp
  show ?thesis unfolding ipnet_Contains_def nn To4_IPv4 Let_def prod.case map2_and_idem
    using len assms by (simp add: list_all_zip_eq)
qed

end
