(* ===== verification/ApiTypes.thy ===== *)
theory ApiTypes
  imports Prelude
begin

text \<open>
  The API objects the program reads and writes: the custom resource of
  \<open>pkg/apis/egressip/v1alpha1/types.go\<close>, and of the Kubernetes types \<open>Node\<close> and
  \<open>Endpoints\<close> the fields that the code looks at. A nil pointer field is \<open>None\<close>.
\<close>

section \<open>StaticEgressIP\<close>

record egress_rule =
  ServiceName :: string
  EgressIP :: string
  Cidr :: string

record egress_spec =
  Rules :: "egress_rule list"

record egress_status =
  GatewayNode :: string
  GatewayIP :: string

record static_egress_ip =
  sName :: string
  sNamespace :: string
  Spec :: egress_spec
  Status :: egress_status

section \<open>Node\<close>

record node_condition =
  condType :: string
  condStatus :: string

record node_address =
  addrType :: string
  addrAddress :: string

record k8s_node =
  nodeName :: string
  nodeUID :: string
  nodeLabels :: "string \<rightharpoonup> string"
  nodeConditions :: "node_condition list"
  nodeAddresses :: "node_address list"

section \<open>Endpoints\<close>

record ep_address =
  epIP :: string
  epNodeName :: "string option"

record ep_port =
  portNumber :: int

record ep_subset =
  epAddresses :: "ep_address list"
  epPorts :: "ep_port list"

record endpoints =
  epSubsets :: "ep_subset list"

end
