(* ===== verification/Host.thy ===== *)
theory Host
  imports GoNet ApiTypes
begin

text \<open>
  What the program takes from outside the repository, as one record of functions over an
  abstract world \<open>'w\<close>: processes started through \<open>os/exec\<close>, files, environment, the
  xtables lock file, netlink, and the Kubernetes API server. Every operation of the
  model takes this record as an argument; nothing here says how the outside behaves.

  \<open>proc\<close> is the state of the running program: the world, and the package variable
  \<open>ipsetPath\<close> of \<open>github.com/janeczku/go-ipset\<close> and of \<open>pkg/ipset\<close>.
\<close>

section \<open>The outside as a parameter\<close>

datatype exec_status = Exited nat | NotStarted string

record exec_result =
  xStdout :: string
  xStderr :: string
  xStatus :: exec_status

text \<open>The answer of a non-blocking \<open>flock\<close>.\<close>

datatype flock_result = Flocked | FlockBusy | FlockErr string

record net_iface =
  ifIndex :: int
  ifName :: string

text \<open>\<open>netlink.Addr\<close>: what \<open>netlink.ParseAddr\<close> reads from a string, an address and a mask.\<close>

record nl_addr =
  nlIP :: go_ip
  nlMask :: "byte list"
  nlLabel :: string

record 'w host =
  hExec :: "string list \<Rightarrow> 'w \<Rightarrow> exec_result \<times> 'w"
  hLookPath :: "string \<Rightarrow> 'w \<Rightarrow> string option"
  hReadFile :: "string \<Rightarrow> 'w \<Rightarrow> string option"
  hOpenAppend :: "string \<Rightarrow> 'w \<Rightarrow> bool"
  hAppend :: "string \<Rightarrow> string \<Rightarrow> 'w \<Rightarrow> bool \<times> 'w"
  hWriteFile :: "string \<Rightarrow> string \<Rightarrow> 'w \<Rightarrow> bool \<times> 'w"
  hGetenv :: "string \<Rightarrow> 'w \<Rightarrow> string"
  hHostname :: "'w \<Rightarrow> string"
  hXtOpen :: "'w \<Rightarrow> string option \<times> 'w"
  hXtFlock :: "'w \<Rightarrow> flock_result \<times> 'w"
  hXtClose :: "'w \<Rightarrow> 'w"
  hInterfaces :: "'w \<Rightarrow> goerror + net_iface list"
  hIfAddrs :: "net_iface \<Rightarrow> 'w \<Rightarrow> goerror + string list"
  hRouteGet :: "go_ip \<Rightarrow> 'w \<Rightarrow> goerror + int list"
  hLinkByName :: "string \<Rightarrow> 'w \<Rightarrow> goerror + int"
  hAddrAdd :: "int \<Rightarrow> nl_addr \<Rightarrow> 'w \<Rightarrow> goerror option \<times> 'w"
  hAddrDel :: "int \<Rightarrow> nl_addr \<Rightarrow> 'w \<Rightarrow> goerror option \<times> 'w"
  hNodeGet :: "string \<Rightarrow> 'w \<Rightarrow> goerror + k8s_node"
  hNodeList :: "'w \<Rightarrow> goerror + k8s_node list"
  hEgressUpdate :: "string \<Rightarrow> static_egress_ip \<Rightarrow> 'w \<Rightarrow> goerror option \<times> 'w"

record 'w proc =
  os :: 'w
  ipsetPath :: string
  pkgIpsetPath :: string

section \<open>Calls into the outside as programs\<close>

text \<open>A call that only reads the world and may fail.\<close>

definition askE :: "('w \<Rightarrow> goerror + 'a) \<Rightarrow> ('w proc, 'a) prog" where
  "askE f p = (case f (os p) of Inl e \<Rightarrow> (Err e, p) | Inr v \<Rightarrow> (Ok v, p))"

definition readE :: "('w \<Rightarrow> 'a) \<Rightarrow> ('w proc, 'a) prog" where
  "readE f p = (Ok (f (os p)), p)"

text \<open>A call that changes the world and answers an error or nil.\<close>

definition actE :: "('w \<Rightarrow> goerror option \<times> 'w) \<Rightarrow> ('w proc, unit) prog" where
  "actE f p =
     (case f (os p) of
        (None, w) \<Rightarrow> (Ok (), p\<lparr>os := w\<rparr>)
      | (Some e, w) \<Rightarrow> (Err e, p\<lparr>os := w\<rparr>))"

definition cmd_error :: "exec_result \<Rightarrow> goerror option" where
  "cmd_error r =
     (case xStatus r of
        NotStarted msg \<Rightarrow> Some (ErrStart msg)
      | Exited n \<Rightarrow> if n = 0 then None else Some (ErrExit n (xStderr r)))"

text \<open>
  \<open>exec.Command(argv...)\<close> with \<open>Output()\<close>, \<open>Run()\<close> and \<open>CombinedOutput()\<close>. The
  combined output is the two streams; here standard error follows standard output.
\<close>

definition cmdResult :: "'w host \<Rightarrow> string list \<Rightarrow> ('w proc, exec_result) prog" where
  "cmdResult h argv p = (case hExec h argv (os p) of (r, w) \<Rightarrow> (Ok r, p\<lparr>os := w\<rparr>))"

definition cmdOutput :: "'w host \<Rightarrow> string list \<Rightarrow> ('w proc, string) prog" where
  "cmdOutput h argv =
     bindE (cmdResult h argv)
       (\<lambda>r. case cmd_error r of None \<Rightarrow> returnE (xStdout r) | Some e \<Rightarrow> failE e)"

definition cmdRun :: "'w host \<Rightarrow> string list \<Rightarrow> ('w proc, unit) prog" where
  "cmdRun h argv = bindE (cmdOutput h argv) (\<lambda>_. returnE ())"

definition cmdCombined :: "'w host \<Rightarrow> string list \<Rightarrow> ('w proc, string) prog" where
  "cmdCombined h argv =
     bindE (cmdResult h argv)
       (\<lambda>r. case cmd_error r of None \<Rightarrow> returnE (xStdout r @ xStderr r) | Some e \<Rightarrow> failE e)"

lemma askE_run [simp]: "askE f p = (case f (os p) of Inl e \<Rightarrow> (Err e, p) | Inr v \<Rightarrow> (Ok v, p))"
  by (simp add: askE_def)

lemma readE_run [simp]: "readE f p = (Ok (f (os p)), p)"
  by (simp add: readE_def)

lemma cmdOutput_run:
  "cmdOutput h argv p =
     (case hExec h argv (os p) of (r, w) \<Rightarrow>
        (case cmd_error r of None \<Rightarrow> (Ok (xStdout r), p\<lparr>os := w\<rparr>) | Some e \<Rightarrow> (Err e, p\<lparr>os := w\<rparr>)))"
  by (simp add: cmdOutput_def cmdResult_def bindE_def split: prod.split option.split)

lemma cmdRun_run:
  "cmdRun h argv p =
     (case hExec h argv (os p) of (r, w) \<Rightarrow>
        (case cmd_error r of None \<Rightarrow> (Ok (), p\<lparr>os := w\<rparr>) | Some e \<Rightarrow> (Err e, p\<lparr>os := w\<rparr>)))"
  by (simp add: cmdRun_def cmdOutput_run bindE_def split: prod.split option.split)

lemma cmdCombined_run:
  "cmdCombined h argv p =
     (case hExec h argv (os p) of (r, w) \<Rightarrow>
        (case cmd_error r of None \<Rightarrow> (Ok (xStdout r @ xStderr r), p\<lparr>os := w\<rparr>)
         | Some e \<Rightarrow> (Err e, p\<lparr>os := w\<rparr>)))"
  by (simp add: cmdCombined_def cmdResult_def bindE_def split: prod.split option.split)

end
