(* ===== verification/Iptables.thy ===== *)
theory Iptables
  imports Host
begin

text \<open>
  The wrapper \<open>vendor/github.com/coreos/go-iptables/iptables\<close> around the iptables
  command, as the director and the gateway use it: reading the version of the binary,
  running a command with \<open>--wait\<close> or under the xtables lock file, and the rule and
  chain operations.
\<close>

section \<open>The version of the binary\<close>

definition is_digit :: "char \<Rightarrow> bool" where
  "is_digit c \<longleftrightarrow> dec_val c \<noteq> None"

definition is_space :: "char \<Rightarrow> bool" where
  "is_space c \<longleftrightarrow> c \<in> {CHR '' '', CHR 0x09, CHR 0x0A, CHR 0x0C, CHR 0x0D}"

definition is_word_char :: "char \<Rightarrow> bool" where
  "is_word_char c \<longleftrightarrow>
     (let n = (of_char c :: nat) in
      48 \<le> n \<and> n \<le> 57 \<or> 65 \<le> n \<and> n \<le> 90 \<or> 97 \<le> n \<and> n \<le> 122 \<or> n = 95)"

text \<open>One or more characters of a class, as many as there are, and the rest.\<close>

definition take_class :: "(char \<Rightarrow> bool) \<Rightarrow> string \<Rightarrow> (string \<times> string) option" where
  "take_class P s = (if takeWhile P s = [] then None else Some (takeWhile P s, dropWhile P s))"

definition expect :: "char \<Rightarrow> string \<Rightarrow> string option" where
  "expect c s = (case s of [] \<Rightarrow> None | x # r \<Rightarrow> if x = c then Some r else None)"

text \<open>
  The regular expression \<^verbatim>\<open>v([0-9]+)\.([0-9]+)\.([0-9]+)(?:\s+\((\w+))?\<close> at the start
  of a string: the four submatches. Each part is followed by a character outside its
  class, so reading as much as possible is the only way to match.
\<close>

definition match_mode :: "string \<Rightarrow> string" where
  "match_mode s =
     (case take_class is_space s of
        None \<Rightarrow> []
      | Some (_, r) \<Rightarrow>
          (case expect CHR ''('' r of
             None \<Rightarrow> []
           | Some r' \<Rightarrow> (case take_class is_word_char r' of None \<Rightarrow> [] | Some (m, _) \<Rightarrow> m)))"

definition match_version_at :: "string \<Rightarrow> (string \<times> string \<times> string \<times> string) option" where
  "match_version_at s =
     Option.bind (expect CHR ''v'' s) (\<lambda>r0.
     Option.bind (take_class is_digit r0) (\<lambda>(d1, r1).
     Option.bind (expect CHR ''.'' r1) (\<lambda>r2.
     Option.bind (take_class is_digit r2) (\<lambda>(d2, r3).
     Option.bind (expect CHR ''.'' r3) (\<lambda>r4.
     Option.bind (take_class is_digit r4) (\<lambda>(d3, r5).
       Some (d1, d2, d3, match_mode r5)))))))"

fun find_version :: "string \<Rightarrow> (string \<times> string \<times> string \<times> string) option" where
  "find_version [] = match_version_at []"
| "find_version (c # s) =
     (case match_version_at (c # s) of Some m \<Rightarrow> Some m | None \<Rightarrow> find_version s)"

text \<open>\<open>strconv.Atoi\<close> on a string of digits: an error outside the 64-bit range.\<close>

definition digits_value :: "string \<Rightarrow> nat" where
  "digits_value s = foldl (\<lambda>a c. 10 * a + (case dec_val c of Some d \<Rightarrow> d | None \<Rightarrow> 0)) 0 s"

definition atoi_digits :: "string \<Rightarrow> int option" where
  "atoi_digits s = (if digits_value s < 2 ^ 63 then Some (int (digits_value s)) else None)"

definition extractIptablesVersion :: "string \<Rightarrow> (int \<times> int \<times> int \<times> string) option" where
  "extractIptablesVersion str =
     (case find_version str of
        None \<Rightarrow> None
      | Some (d1, d2, d3, m) \<Rightarrow>
          Option.bind (atoi_digits d1) (\<lambda>v1.
          Option.bind (atoi_digits d2) (\<lambda>v2.
          Option.bind (atoi_digits d3) (\<lambda>v3.
            Some (v1, v2, v3, if m \<noteq> [] then m else ''legacy'')))))"

definition iptablesHasCheckCommand :: "int \<Rightarrow> int \<Rightarrow> int \<Rightarrow> bool" where
  "iptablesHasCheckCommand v1 v2 v3 =
     (if v1 > 1 then True
      else if v1 = 1 \<and> v2 > 4 then True
      else if v1 = 1 \<and> v2 = 4 \<and> v3 \<ge> 11 then True
      else False)"

definition iptablesHasWaitCommand :: "int \<Rightarrow> int \<Rightarrow> int \<Rightarrow> bool" where
  "iptablesHasWaitCommand v1 v2 v3 =
     (if v1 > 1 then True
      else if v1 = 1 \<and> v2 > 4 then True
      else if v1 = 1 \<and> v2 = 4 \<and> v3 \<ge> 20 then True
      else False)"

definition iptablesHasRandomFully :: "int \<Rightarrow> int \<Rightarrow> int \<Rightarrow> bool" where
  "iptablesHasRandomFully v1 v2 v3 =
     (if v1 > 1 then True
      else if v1 = 1 \<and> v2 > 6 then True
      else if v1 = 1 \<and> v2 = 6 \<and> v3 \<ge> 2 then True
      else False)"

section \<open>The handle\<close>

datatype protocol = ProtocolIPv4 | ProtocolIPv6

record ip_tables =
  iptPath :: string
  iptProto :: protocol
  hasCheck :: bool
  hasWait :: bool
  hasRandomFully :: bool
  iptV1 :: int
  iptV2 :: int
  iptV3 :: int
  iptMode :: string

definition getIptablesCommand :: "protocol \<Rightarrow> string" where
  "getIptablesCommand proto = (if proto = ProtocolIPv6 then ''ip6tables'' else ''iptables'')"

definition getIptablesCommandSupport :: "int \<Rightarrow> int \<Rightarrow> int \<Rightarrow> bool \<times> bool \<times> bool" where
  "getIptablesCommandSupport v1 v2 v3 =
     (iptablesHasCheckCommand v1 v2 v3, iptablesHasWaitCommand v1 v2 v3, iptablesHasRandomFully v1 v2 v3)"

definition getIptablesVersionString :: "'w host \<Rightarrow> string \<Rightarrow> ('w proc, string) prog" where
  "getIptablesVersionString h path = cmdOutput h [path, ''--version'']"

text \<open>
  Both errors of the version query are dropped by the code: an unreadable version counts
  as 0.0.0 with an empty mode.
\<close>

definition NewWithProtocol :: "'w host \<Rightarrow> protocol \<Rightarrow> ('w proc, ip_tables) prog" where
  "NewWithProtocol h proto =
     bindE (askE (\<lambda>w. case hLookPath h (getIptablesCommand proto) w of
                        None \<Rightarrow> Inl (ErrText ''executable file not found in $PATH'')
                      | Some path \<Rightarrow> Inr path))
       (\<lambda>path.
     bindE (catchE (getIptablesVersionString h path) (\<lambda>e. returnE []))
       (\<lambda>vstring.
          let (v1, v2, v3, mode) =
                (case extractIptablesVersion vstring of None \<Rightarrow> (0, 0, 0, []) | Some v \<Rightarrow> v);
              (checkPresent, waitPresent, randomFullyPresent) = getIptablesCommandSupport v1 v2 v3
          in returnE \<lparr>iptPath = path, iptProto = proto, hasCheck = checkPresent,
                      hasWait = waitPresent, hasRandomFully = randomFullyPresent,
                      iptV1 = v1, iptV2 = v2, iptV3 = v3, iptMode = mode\<rparr>))"

definition iptables_New :: "'w host \<Rightarrow> ('w proc, ip_tables) prog" where
  "iptables_New h = NewWithProtocol h ProtocolIPv4"

section \<open>Running a command\<close>

text \<open>
  The lock file of \<open>lock.go\<close>, taken where the binary has no \<open>--wait\<close>: the result
  says whether there is a lock to release; a busy lock is not an error.
\<close>

definition acquireXtLock :: "'w host \<Rightarrow> ('w proc, bool) prog" where
  "acquireXtLock h p =
     (case hXtOpen h (os p) of
        (Some msg, w) \<Rightarrow> (Err (ErrText msg), p\<lparr>os := w\<rparr>)
      | (None, w) \<Rightarrow>
          (case hXtFlock h w of
             (Flocked, w') \<Rightarrow> (Ok True, p\<lparr>os := w'\<rparr>)
           | (FlockBusy, w') \<Rightarrow> (Ok False, p\<lparr>os := w'\<rparr>)
           | (FlockErr msg, w') \<Rightarrow> (Err (ErrText msg), p\<lparr>os := w'\<rparr>)))"

definition releaseXtLock :: "'w host \<Rightarrow> ('w proc, unit) prog" where
  "releaseXtLock h p = (Ok (), p\<lparr>os := hXtClose h (os p)\<rparr>)"

definition ipt_error :: "exec_result \<Rightarrow> goerror option" where
  "ipt_error r =
     (case xStatus r of
        NotStarted msg \<Rightarrow> Some (ErrStart msg)
      | Exited n \<Rightarrow> if n = 0 then None else Some (ErrIptables n (xStderr r)))"

definition ipt_runWithOutput :: "'w host \<Rightarrow> ip_tables \<Rightarrow> string list \<Rightarrow> ('w proc, string) prog" where
  "ipt_runWithOutput h ipt args =
     (let argv = iptPath ipt # args @ (if hasWait ipt then [''--wait''] else []) in
      bindE (if hasWait ipt then returnE False else acquireXtLock h)
        (\<lambda>locked.
      bindE (cmdResult h argv)
        (\<lambda>r.
      bindE (if locked then releaseXtLock h else returnE ())
        (\<lambda>_. case ipt_error r of None \<Rightarrow> returnE (xStdout r) | Some e \<Rightarrow> failE e))))"

definition ipt_run :: "'w host \<Rightarrow> ip_tables \<Rightarrow> string list \<Rightarrow> ('w proc, unit) prog" where
  "ipt_run h ipt args = bindE (ipt_runWithOutput h ipt args) (\<lambda>_. returnE ())"

section \<open>Rules and chains\<close>

fun join_space :: "string list \<Rightarrow> string" where
  "join_space [] = []"
| "join_space [x] = x"
| "join_space (x # y # xs) = x @ '' '' @ join_space (y # xs)"

definition existsForOldIptables ::
  "'w host \<Rightarrow> ip_tables \<Rightarrow> string \<Rightarrow> string \<Rightarrow> string list \<Rightarrow> ('w proc, bool) prog" where
  "existsForOldIptables h ipt table chain rulespec =
     bindE (ipt_runWithOutput h ipt [''-t'', table, ''-S''])
       (\<lambda>out. returnE (contains out (join_space ([''-A'', chain] @ rulespec))))"

definition ipt_Exists ::
  "'w host \<Rightarrow> ip_tables \<Rightarrow> string \<Rightarrow> string \<Rightarrow> string list \<Rightarrow> ('w proc, bool) prog" where
  "ipt_Exists h ipt table chain rulespec =
     (if \<not> hasCheck ipt then existsForOldIptables h ipt table chain rulespec
      else
        catchE (bindE (ipt_run h ipt ([''-t'', table, ''-C'', chain] @ rulespec)) (\<lambda>_. returnE True))
          (\<lambda>e. case e of
                 ErrIptables n msg \<Rightarrow> if n = 1 then returnE False else failE e
               | _ \<Rightarrow> failE e))"

definition ipt_Insert ::
  "'w host \<Rightarrow> ip_tables \<Rightarrow> string \<Rightarrow> string \<Rightarrow> int \<Rightarrow> string list \<Rightarrow> ('w proc, unit) prog" where
  "ipt_Insert h ipt table chain pos rulespec =
     ipt_run h ipt ([''-t'', table, ''-I'', chain, Itoa pos] @ rulespec)"

definition ipt_Append ::
  "'w host \<Rightarrow> ip_tables \<Rightarrow> string \<Rightarrow> string \<Rightarrow> string list \<Rightarrow> ('w proc, unit) prog" where
  "ipt_Append h ipt table chain rulespec = ipt_run h ipt ([''-t'', table, ''-A'', chain] @ rulespec)"

definition ipt_AppendUnique ::
  "'w host \<Rightarrow> ip_tables \<Rightarrow> string \<Rightarrow> string \<Rightarrow> string list \<Rightarrow> ('w proc, unit) prog" where
  "ipt_AppendUnique h ipt table chain rulespec =
     bindE (ipt_Exists h ipt table chain rulespec)
       (\<lambda>exists. if \<not> exists then ipt_Append h ipt table chain rulespec else returnE ())"

definition ipt_Delete ::
  "'w host \<Rightarrow> ip_tables \<Rightarrow> string \<Rightarrow> string \<Rightarrow> string list \<Rightarrow> ('w proc, unit) prog" where
  "ipt_Delete h ipt table chain rulespec = ipt_run h ipt ([''-t'', table, ''-D'', chain] @ rulespec)"

definition ipt_NewChain :: "'w host \<Rightarrow> ip_tables \<Rightarrow> string \<Rightarrow> string \<Rightarrow> ('w proc, unit) prog" where
  "ipt_NewChain h ipt table chain = ipt_run h ipt [''-t'', table, ''-N'', chain]"

definition ipt_ClearChain :: "'w host \<Rightarrow> ip_tables \<Rightarrow> string \<Rightarrow> string \<Rightarrow> ('w proc, unit) prog" where
  "ipt_ClearChain h ipt table chain =
     (let existsErr = (if iptMode ipt = ''nf_tables'' then 4 else 1) in
      catchE (ipt_NewChain h ipt table chain)
        (\<lambda>e. case e of
               ErrIptables n msg \<Rightarrow>
                 if n = existsErr then ipt_run h ipt [''-t'', table, ''-F'', chain] else failE e
             | _ \<Rightarrow> failE e))"

definition ipt_RenameChain ::
  "'w host \<Rightarrow> ip_tables \<Rightarrow> string \<Rightarrow> string \<Rightarrow> string \<Rightarrow> ('w proc, unit) prog" where
  "ipt_RenameChain h ipt table oldChain newChain = ipt_run h ipt [''-t'', table, ''-E'', oldChain, newChain]"

definition ipt_DeleteChain :: "'w host \<Rightarrow> ip_tables \<Rightarrow> string \<Rightarrow> string \<Rightarrow> ('w proc, unit) prog" where
  "ipt_DeleteChain h ipt table chain = ipt_run h ipt [''-t'', table, ''-X'', chain]"

definition ipt_ChangePolicy ::
  "'w host \<Rightarrow> ip_tables \<Rightarrow> string \<Rightarrow> string \<Rightarrow> string \<Rightarrow> ('w proc, unit) prog" where
  "ipt_ChangePolicy h ipt table chain target = ipt_run h ipt [''-t'', table, ''-P'', chain, target]"

end
