(* ===== verification/Semver.thy ===== *)
theory Semver
  imports Prelude
begin

text \<open>
  The comparison of \<open>vendor/github.com/coreos/go-semver/semver\<close>, by which both ipset
  packages decide whether the installed ipset is new enough.
\<close>

section \<open>Parsing\<close>

text \<open>\<open>strings.SplitN(s, d, n)\<close> for a one-byte separator and \<open>n > 0\<close>.\<close>

fun splitN :: "char \<Rightarrow> nat \<Rightarrow> string \<Rightarrow> string list" where
  "splitN d 0 s = []"
| "splitN d (Suc 0) s = [s]"
| "splitN d (Suc (Suc n)) s =
     (if d \<in> set s
      then takeWhile (\<lambda>c. c \<noteq> d) s # splitN d (Suc n) (tl (dropWhile (\<lambda>c. c \<noteq> d) s))
      else [s])"

text \<open>\<open>splitOff\<close>: the part before the delimiter and the part after it.\<close>

definition splitOff :: "string \<Rightarrow> char \<Rightarrow> string \<times> string" where
  "splitOff input delim =
     (case splitN delim 2 input of [a, b] \<Rightarrow> (a, b) | _ \<Rightarrow> (input, []))"

text \<open>\<open>strconv.ParseInt(s, 10, 64)\<close>: an optional sign, then digits, in the 64-bit range.\<close>

definition ascii_digit :: "char \<Rightarrow> nat option" where
  "ascii_digit c = (let n = of_char c in if 48 \<le> n \<and> n \<le> 57 then Some (n - 48) else None)"

fun digits_nat :: "nat \<Rightarrow> string \<Rightarrow> nat option" where
  "digits_nat a [] = Some a"
| "digits_nat a (c # s) =
     (case ascii_digit c of None \<Rightarrow> None | Some d \<Rightarrow> digits_nat (10 * a + d) s)"

definition ParseInt64 :: "string \<Rightarrow> int option" where
  "ParseInt64 s =
     (let (neg, ds) =
            (case s of
               [] \<Rightarrow> (False, [])
             | c # r \<Rightarrow> if c = CHR ''+'' then (False, r) else if c = CHR ''-'' then (True, r) else (False, s))
      in if ds = [] then None
         else (case digits_nat 0 ds of
                 None \<Rightarrow> None
               | Some n \<Rightarrow>
                   if neg then (if n \<le> 2 ^ 63 then Some (- int n) else None)
                   else (if n < 2 ^ 63 then Some (int n) else None)))"

record semver =
  Major :: int
  Minor :: int
  Patch :: int
  PreRelease :: string
  Metadata :: string

definition semver_NewVersion :: "string \<Rightarrow> semver option" where
  "semver_NewVersion version =
     (let (v1, metadata) = splitOff version CHR ''+'';
          (v2, preRelease) = splitOff v1 CHR ''-''
      in (case splitN CHR ''.'' 3 v2 of
            [a, b, c] \<Rightarrow>
              (case (ParseInt64 a, ParseInt64 b, ParseInt64 c) of
                 (Some x, Some y, Some z) \<Rightarrow>
                   Some \<lparr>Major = x, Minor = y, Patch = z, PreRelease = preRelease, Metadata = metadata\<rparr>
               | _ \<Rightarrow> None)
          | _ \<Rightarrow> None))"

section \<open>Comparison\<close>

definition semver_Slice :: "semver \<Rightarrow> int list" where
  "semver_Slice v = [Major v, Minor v, Patch v]"

fun recursiveCompare :: "int list \<Rightarrow> int list \<Rightarrow> int" where
  "recursiveCompare [] ys = 0"
| "recursiveCompare (a # xs) (b # ys) =
     (if a > b then 1 else if a < b then - 1 else recursiveCompare xs ys)"
| "recursiveCompare (a # xs) [] = 0"

text \<open>Go compares strings byte by byte.\<close>

fun str_less :: "string \<Rightarrow> string \<Rightarrow> bool" where
  "str_less [] ys \<longleftrightarrow> ys \<noteq> []"
| "str_less (x # xs) [] \<longleftrightarrow> False"
| "str_less (x # xs) (y # ys) \<longleftrightarrow>
     (of_char x :: nat) < of_char y \<or> x = y \<and> str_less xs ys"

fun recursivePreReleaseCompare :: "string list \<Rightarrow> string list \<Rightarrow> int" where
  "recursivePreReleaseCompare [] ys = (if ys \<noteq> [] then - 1 else 0)"
| "recursivePreReleaseCompare (a # xs) [] = 1"
| "recursivePreReleaseCompare (a # xs) (b # ys) =
     (let ints = (ParseInt64 a, ParseInt64 b);
          byInt = (case ints of (Some i, Some j) \<Rightarrow> if i > j then 1 else if i < j then - 1 else 0 | _ \<Rightarrow> 0)
      in if byInt \<noteq> 0 then byInt
         else if str_less b a then 1
         else if str_less a b then - 1
         else recursivePreReleaseCompare xs ys)"

definition preReleaseCompare :: "semver \<Rightarrow> semver \<Rightarrow> int" where
  "preReleaseCompare va vb =
     (let a = PreRelease va; b = PreRelease vb in
      if a = [] \<and> b \<noteq> [] then 1
      else if b = [] \<and> a \<noteq> [] then - 1
      else recursivePreReleaseCompare (split_on CHR ''.'' a) (split_on CHR ''.'' b))"

definition semver_Compare :: "semver \<Rightarrow> semver \<Rightarrow> int" where
  "semver_Compare v w =
     (let cmp = recursiveCompare (semver_Slice v) (semver_Slice w) in
      if cmp \<noteq> 0 then cmp else preReleaseCompare v w)"

definition semver_LessThan :: "semver \<Rightarrow> semver \<Rightarrow> bool" where
  "semver_LessThan v w \<longleftrightarrow> semver_Compare v w < 0"

section \<open>Laws\<close>

lemma splitN_2:
  "splitN d 2 s =
     (if d \<in> set s then [takeWhile (\<lambda>c. c \<noteq> d) s, tl (dropWhile (\<lambda>c. c \<noteq> d) s)] else [s])"
  by (simp add: numeral_2_eq_2)

lemma splitN_3:
  "splitN d 3 s =
     (if d \<in> set s then takeWhile (\<lambda>c. c \<noteq> d) s # splitN d 2 (tl (dropWhile (\<lambda>c. c \<noteq> d) s)) else [s])"
  by (simp add: numeral_2_eq_2 numeral_3_eq_3)

lemmas semver_eval =
  semver_NewVersion_def splitOff_def splitN_2 splitN_3 ParseInt64_def ascii_digit_def

lemma str_less_irrefl [simp]: "\<not> str_less s s"
  by (induction s) auto

lemma str_less_trichotomy: "\<not> str_less a b \<Longrightarrow> \<not> str_less b a \<Longrightarrow> a = b"
proof (induction a b rule: str_less.induct)
  case (3 x xs y ys)
  then have "(of_char x :: nat) = of_char y" by (auto simp: not_less)
  then have "x = y" by simp
  with 3 show ?case by auto
qed auto

lemma str_less_Nil [simp]: "\<not> str_less s []"
  by (cases s) auto

lemma str_less_asym: "str_less a b \<Longrightarrow> \<not> str_less b a"
  by (induction a b rule: str_less.induct) auto

lemma recursiveCompare_self [simp]: "recursiveCompare xs xs = 0"
  by (induction xs) auto

lemma recursivePreReleaseCompare_self [simp]: "recursivePreReleaseCompare xs xs = 0"
  by (induction xs) (auto simp: Let_def split: option.split)

lemma preReleaseCompare_none:
  "PreRelease v = [] \<Longrightarrow> PreRelease w = [] \<Longrightarrow> preReleaseCompare v w = 0"
  by (simp add: preReleaseCompare_def)

text \<open>Without pre-release parts the order is the lexicographic order of the three numbers.\<close>

lemma semver_LessThan_release:
  assumes "PreRelease v = []" and "PreRelease w = []"
  shows "semver_LessThan v w \<longleftrightarrow>
     Major v < Major w \<or> Major v = Major w \<and>
       (Minor v < Minor w \<or> Minor v = Minor w \<and> Patch v < Patch w)"
  using assms
  by (auto simp: semver_LessThan_def semver_Compare_def semver_Slice_def Let_def preReleaseCompare_none)

end
