(* ===== verification/GoIpset.thy ===== *)
theory GoIpset
  imports Iptables Semver
begin

text \<open>
  The two ipset wrappers of the repository. The director and the gateway use
  \<open>vendor/github.com/janeczku/go-ipset/ipset\<close> (definitions \<open>ipset_*\<close>); the package
  \<open>pkg/ipset\<close> (definitions \<open>pkg_*\<close>) is a variant of it that re-reads the version of
  the binary on every call and reports what the other one only logs. Both keep the path
  of the binary in a package variable, the fields \<open>ipsetPath\<close> and \<open>pkgIpsetPath\<close> of
  the process.
\<close>

section \<open>Parameters and handles\<close>

record ipset_params =
  pHashFamily :: string
  pHashSize :: int
  pMaxElem :: int
  pTimeout :: int

record ip_set =
  setName :: string
  setHashType :: string
  setHashFamily :: string
  setHashSize :: int
  setMaxElem :: int
  setTimeout :: int

definition zero_params :: ipset_params where
  "zero_params = \<lparr>pHashFamily = [], pHashSize = 0, pMaxElem = 0, pTimeout = 0\<rparr>"

section \<open>The installed version\<close>

text \<open>The regular expression \<^verbatim>\<open>v[0-9]+\.[0-9]+\<close>: the leftmost match.\<close>

definition match_short_version :: "string \<Rightarrow> string option" where
  "match_short_version s =
     Option.bind (expect CHR ''v'' s) (\<lambda>r0.
     Option.bind (take_class is_digit r0) (\<lambda>(d1, r1).
     Option.bind (expect CHR ''.'' r1) (\<lambda>r2.
     Option.bind (take_class is_digit r2) (\<lambda>(d2, r3).
       Some (''v'' @ d1 @ ''.'' @ d2)))))"

fun find_short_version :: "string \<Rightarrow> string option" where
  "find_short_version [] = None"
| "find_short_version (c # s) =
     (case match_short_version (c # s) of Some m \<Rightarrow> Some m | None \<Rightarrow> find_short_version s)"

text \<open>
  Both packages turn the match into \<open>X.Y.0\<close> and compare it with 6.0.0; \<open>None\<close> is the
  error of \<open>semver.NewVersion\<close>.
\<close>

definition version_supported :: "string \<Rightarrow> bool option" where
  "version_supported vstring =
     (case (semver_NewVersion ''6.0.0'', semver_NewVersion (tl (vstring @ ''.0''))) of
        (Some minVersion, Some version) \<Rightarrow> Some (\<not> semver_LessThan version minVersion)
      | _ \<Rightarrow> None)"

definition ipset_getIpsetVersionString :: "'w host \<Rightarrow> ('w proc, string) prog" where
  "ipset_getIpsetVersionString h p =
     bindE (cmdCombined h [ipsetPath p, ''--version''])
       (\<lambda>out. case find_short_version out of
                None \<Rightarrow> failE (ErrText ''no ipset version found'')
              | Some m \<Rightarrow> returnE m) p"

definition ipset_getIpsetSupportedVersion :: "'w host \<Rightarrow> ('w proc, bool) prog" where
  "ipset_getIpsetSupportedVersion h =
     bindE (ipset_getIpsetVersionString h)
       (\<lambda>v. case version_supported v of None \<Rightarrow> failE (ErrText ''version'') | Some b \<Rightarrow> returnE b)"

text \<open>
  \<open>initCheck\<close> of go-ipset looks the binary up only while \<open>ipsetPath\<close> is empty, and sets
  it before it asks for the version.
\<close>

definition ipset_initCheck :: "'w host \<Rightarrow> ('w proc, unit) prog" where
  "ipset_initCheck h p =
     (if ipsetPath p = [] then
        (case hLookPath h ''ipset'' (os p) of
           None \<Rightarrow> (Err (ErrText ''Ipset utility not found''), p)
         | Some path \<Rightarrow>
             bindE (catchE (ipset_getIpsetSupportedVersion h) (\<lambda>e. returnE True))
               (\<lambda>supported. if supported then returnE ()
                            else failE (ErrText ''Ipset utility version is not supported''))
               (p\<lparr>ipsetPath := path\<rparr>))
      else (Ok (), p))"

section \<open>Operations of go-ipset\<close>

definition ipset_create_args :: "ip_set \<Rightarrow> string \<Rightarrow> string list" where
  "ipset_create_args s name =
     [''create'', name, setHashType s, ''family'', setHashFamily s, ''hashsize'', Itoa (setHashSize s),
      ''maxelem'', Itoa (setMaxElem s), ''timeout'', Itoa (setTimeout s), ''-exist'']"

definition ipset_createHashSet :: "'w host \<Rightarrow> ip_set \<Rightarrow> string \<Rightarrow> ('w proc, unit) prog" where
  "ipset_createHashSet h s name p =
     bindE (wrapE ''error creating ipset'' (cmdCombined h (ipsetPath p # ipset_create_args s name)))
       (\<lambda>_. bindE (wrapE ''error flushing ipset'' (cmdCombined h [ipsetPath p, ''flush'', name]))
       (\<lambda>_. returnE ())) p"

definition ipset_defaults :: "ipset_params \<Rightarrow> ipset_params" where
  "ipset_defaults p =
     p\<lparr>pHashSize := (if pHashSize p = 0 then 1024 else pHashSize p),
       pMaxElem := (if pMaxElem p = 0 then 65536 else pMaxElem p),
       pHashFamily := (if pHashFamily p = [] then ''inet'' else pHashFamily p)\<rparr>"

definition ipset_New :: "'w host \<Rightarrow> string \<Rightarrow> string \<Rightarrow> ipset_params \<Rightarrow> ('w proc, ip_set) prog" where
  "ipset_New h name hashtype params =
     (let p = ipset_defaults params in
      if \<not> prefix ''hash:'' hashtype then failE (ErrText ''not a hash type'')
      else
        bindE (ipset_initCheck h) (\<lambda>_.
          let s = \<lparr>setName = name, setHashType = hashtype, setHashFamily = pHashFamily p,
                   setHashSize = pHashSize p, setMaxElem = pMaxElem p, setTimeout = pTimeout p\<rparr>
          in bindE (ipset_createHashSet h s name) (\<lambda>_. returnE s)))"

definition ipset_Add :: "'w host \<Rightarrow> ip_set \<Rightarrow> string \<Rightarrow> int \<Rightarrow> ('w proc, unit) prog" where
  "ipset_Add h s entry timeout p =
     bindE (wrapE ''error adding entry''
              (cmdCombined h [ipsetPath p, ''add'', setName s, entry, ''timeout'', Itoa timeout, ''-exist'']))
       (\<lambda>_. returnE ()) p"

definition ipset_Del :: "'w host \<Rightarrow> ip_set \<Rightarrow> string \<Rightarrow> ('w proc, unit) prog" where
  "ipset_Del h s entry p =
     bindE (wrapE ''error deleting entry'' (cmdCombined h [ipsetPath p, ''del'', setName s, entry, ''-exist'']))
       (\<lambda>_. returnE ()) p"

definition ipset_Flush :: "'w host \<Rightarrow> ip_set \<Rightarrow> ('w proc, unit) prog" where
  "ipset_Flush h s p =
     bindE (wrapE ''error flushing set'' (cmdCombined h [ipsetPath p, ''flush'', setName s]))
       (\<lambda>_. returnE ()) p"

definition ipset_Destroy :: "'w host \<Rightarrow> ip_set \<Rightarrow> ('w proc, unit) prog" where
  "ipset_Destroy h s p =
     bindE (wrapE ''error destroying set'' (cmdCombined h [ipsetPath p, ''destroy'', setName s]))
       (\<lambda>_. returnE ()) p"

definition ipset_Swap :: "'w host \<Rightarrow> string \<Rightarrow> string \<Rightarrow> ('w proc, unit) prog" where
  "ipset_Swap h from to p =
     bindE (wrapE ''error swapping ipset'' (cmdOutput h [ipsetPath p, ''swap'', from, to]))
       (\<lambda>_. returnE ()) p"

definition ipset_destroyIPSet :: "'w host \<Rightarrow> string \<Rightarrow> ('w proc, unit) prog" where
  "ipset_destroyIPSet h name p =
     bindE (wrapE ''error destroying ipset'' (cmdOutput h [ipsetPath p, ''destroy'', name]))
       (\<lambda>_. returnE ()) p"

text \<open>\<open>Refresh\<close> logs an entry that cannot be added and goes on.\<close>

definition ipset_Refresh :: "'w host \<Rightarrow> ip_set \<Rightarrow> string list \<Rightarrow> ('w proc, unit) prog" where
  "ipset_Refresh h s entries =
     (let tempName = setName s @ ''-temp'' in
      bindE (ipset_createHashSet h s tempName) (\<lambda>_.
      bindE (forE entries (\<lambda>entry p.
               logE (bindE (cmdCombined h [ipsetPath p, ''add'', tempName, entry, ''-exist''])
                       (\<lambda>_. returnE ())) p)) (\<lambda>_.
      bindE (ipset_Swap h tempName (setName s)) (\<lambda>_.
        ipset_destroyIPSet h tempName))))"

section \<open>Operations of pkg/ipset\<close>

definition pkg_getIpsetVersionString :: "'w host \<Rightarrow> ('w proc, string) prog" where
  "pkg_getIpsetVersionString h p =
     bindE (cmdCombined h [pkgIpsetPath p, ''--version''])
       (\<lambda>out. case find_short_version out of
                None \<Rightarrow> failE (ErrText ''no ipset version found'')
              | Some m \<Rightarrow> returnE m) p"

definition pkg_getIpsetSupportedVersion :: "'w host \<Rightarrow> ('w proc, bool) prog" where
  "pkg_getIpsetSupportedVersion h =
     bindE (pkg_getIpsetVersionString h)
       (\<lambda>v. case version_supported v of None \<Rightarrow> failE (ErrText ''version'') | Some b \<Rightarrow> returnE b)"

definition pkg_initCheck :: "'w host \<Rightarrow> ('w proc, unit) prog" where
  "pkg_initCheck h p =
     (case hLookPath h ''ipset'' (os p) of
        None \<Rightarrow> (Err (ErrText ''Ipset utility not found''), p)
      | Some path \<Rightarrow>
          bindE (pkg_getIpsetSupportedVersion h)
            (\<lambda>supported. if supported then returnE ()
                         else failE (ErrText ''Ipset utility version is not supported''))
            (p\<lparr>pkgIpsetPath := path\<rparr>))"

definition pkg_createHashSet :: "'w host \<Rightarrow> ip_set \<Rightarrow> string \<Rightarrow> ('w proc, unit) prog" where
  "pkg_createHashSet h s name p =
     bindE (wrapE ''error creating ipset''
              (cmdCombined h
                 (pkgIpsetPath p #
                  [''create'', name, setHashType s, ''family'', setHashFamily s, ''hashsize'',
                   Itoa (setHashSize s), ''maxelem'', Itoa (setMaxElem s), ''timeout'',
                   Itoa (setTimeout s), ''-exist''])))
       (\<lambda>_. bindE (wrapE ''error flushing ipset'' (cmdCombined h [pkgIpsetPath p, ''flush'', name]))
       (\<lambda>_. returnE ())) p"

definition pkg_New :: "'w host \<Rightarrow> string \<Rightarrow> string \<Rightarrow> ipset_params \<Rightarrow> ('w proc, ip_set) prog" where
  "pkg_New h name hashtype params =
     (let p = params\<lparr>pHashSize := (if pHashSize params = 0 then 1024 else pHashSize params),
                     pMaxElem := (if pMaxElem params = 0 then 65536 else pMaxElem params),
                     pHashFamily := (if pHashFamily params = [] then ''inet'' else pHashFamily params)\<rparr>
      in
      if \<not> prefix ''hash:'' hashtype then failE (ErrText ''not a hash type'')
      else
        bindE (pkg_initCheck h) (\<lambda>_.
          let s = \<lparr>setName = name, setHashType = hashtype, setHashFamily = pHashFamily p,
                   setHashSize = pHashSize p, setMaxElem = pMaxElem p, setTimeout = pTimeout p\<rparr>
          in bindE (pkg_createHashSet h s name) (\<lambda>_. returnE s)))"

definition pkg_Add :: "'w host \<Rightarrow> ip_set \<Rightarrow> string \<Rightarrow> int \<Rightarrow> ('w proc, unit) prog" where
  "pkg_Add h s entry timeout p =
     bindE (wrapE ''error adding entry''
              (cmdCombined h [pkgIpsetPath p, ''add'', setName s, entry, ''timeout'', Itoa timeout, ''-exist'']))
       (\<lambda>_. returnE ()) p"

definition pkg_Del :: "'w host \<Rightarrow> ip_set \<Rightarrow> string \<Rightarrow> ('w proc, unit) prog" where
  "pkg_Del h s entry p =
     bindE (wrapE ''error deleting entry'' (cmdCombined h [pkgIpsetPath p, ''del'', setName s, entry, ''-exist'']))
       (\<lambda>_. returnE ()) p"

definition pkg_Swap :: "'w host \<Rightarrow> string \<Rightarrow> string \<Rightarrow> ('w proc, unit) prog" where
  "pkg_Swap h from to p =
     bindE (wrapE ''error swapping ipset'' (cmdOutput h [pkgIpsetPath p, ''swap'', from, to]))
       (\<lambda>_. returnE ()) p"

definition pkg_destroyIPSet :: "'w host \<Rightarrow> string \<Rightarrow> ('w proc, unit) prog" where
  "pkg_destroyIPSet h name p =
     bindE (wrapE ''error destroying ipset'' (cmdOutput h [pkgIpsetPath p, ''destroy'', name]))
       (\<lambda>_. returnE ()) p"

text \<open>Here an entry that cannot be added ends the refresh with its error.\<close>

definition pkg_Refresh :: "'w host \<Rightarrow> ip_set \<Rightarrow> string list \<Rightarrow> ('w proc, unit) prog" where
  "pkg_Refresh h s entries =
     (let tempName = setName s @ ''-temp'' in
      bindE (pkg_createHashSet h s tempName) (\<lambda>_.
      bindE (forE entries (\<lambda>entry p.
               wrapE ''error adding entry''
                 (bindE (cmdCombined h [pkgIpsetPath p, ''add'', tempName, entry, ''-exist''])
                    (\<lambda>_. returnE ())) p)) (\<lambda>_.
      bindE (pkg_Swap h tempName (setName s)) (\<lambda>_.
        pkg_destroyIPSet h tempName))))"

end
