(* ===== verification/LinuxNode.thy ===== *)
theory LinuxNode
  imports GoIpset "HOL-Library.AList"
begin

text \<open>
  What the program relies on from the Linux node it configures. The commands iptables,
  ipset and ip are not part of the repository: they are reached through the parameter
  \<open>host\<close>. This theory states the behaviour their manual pages document, on the state
  \<open>linux\<close> that can be observed through them, as the hypothesis \<open>documented h t v\<close>:
  \<open>v\<close> reads the observable state off a world, and each documented command either acts as
  \<open>lx_step\<close> says or fails without effect. \<open>t\<close> holds what may differ between
  installations: where the binaries are, how listings are laid out, and the exit status
  of \<open>iptables -N\<close> for a chain that exists (1 for iptables-legacy, 4 for iptables-nft).
\<close>

section \<open>The observable state\<close>

datatype next_hop = ViaGateway string | OnDevice string

record linux =
  lxChains :: "((string \<times> string) \<times> string list list) list"
  lxSets :: "(string \<times> string set) list"
  lxLinks :: "string list"
  lxTunnels :: "(string \<times> (string \<times> string)) list"
  lxUp :: "string set"
  lxRoutes :: "(string \<times> (string \<times> next_hop) list) list"
  lxPolicy :: "(string \<times> string) list"

definition rules_of :: "linux \<Rightarrow> string \<Rightarrow> string \<Rightarrow> string list list option" where
  "rules_of lx tab ch = map_of (lxChains lx) (tab, ch)"

definition put_rules :: "string \<Rightarrow> string \<Rightarrow> string list list \<Rightarrow> linux \<Rightarrow> linux" where
  "put_rules tab ch rs lx = lx\<lparr>lxChains := AList.update (tab, ch) rs (lxChains lx)\<rparr>"

definition set_of :: "linux \<Rightarrow> string \<Rightarrow> string set option" where
  "set_of lx n = map_of (lxSets lx) n"

definition put_set :: "string \<Rightarrow> string set \<Rightarrow> linux \<Rightarrow> linux" where
  "put_set n es lx = lx\<lparr>lxSets := AList.update n es (lxSets lx)\<rparr>"

definition drop_set :: "string \<Rightarrow> linux \<Rightarrow> linux" where
  "drop_set n lx = lx\<lparr>lxSets := AList.delete n (lxSets lx)\<rparr>"

definition routes_of :: "linux \<Rightarrow> string \<Rightarrow> (string \<times> next_hop) list" where
  "routes_of lx tab = (case map_of (lxRoutes lx) tab of None \<Rightarrow> [] | Some rs \<Rightarrow> rs)"

definition put_routes :: "string \<Rightarrow> (string \<times> next_hop) list \<Rightarrow> linux \<Rightarrow> linux" where
  "put_routes tab rs lx = lx\<lparr>lxRoutes := AList.update tab rs (lxRoutes lx)\<rparr>"

definition tunnel_of :: "linux \<Rightarrow> string \<Rightarrow> (string \<times> string) option" where
  "tunnel_of lx n = map_of (lxTunnels lx) n"

lemma alist_update_same: "map_of al k = Some x \<Longrightarrow> AList.update k x al = al"
  by (induction al) auto

lemma alist_update_update: "AList.update k x (AList.update k y al) = AList.update k x al"
  by (induction al) auto

lemma put_rules_same: "rules_of lx tab ch = Some rs \<Longrightarrow> put_rules tab ch rs lx = lx"
  by (simp add: put_rules_def rules_of_def alist_update_same)

lemma put_set_same: "set_of lx n = Some es \<Longrightarrow> put_set n es lx = lx"
  by (simp add: put_set_def set_of_def alist_update_same)

lemma put_set_put_set [simp]: "put_set n es (put_set n es' lx) = put_set n es lx"
  by (simp add: put_set_def alist_update_update)

lemma put_rules_put_rules [simp]:
  "put_rules tab ch rs (put_rules tab ch rs' lx) = put_rules tab ch rs lx"
  by (simp add: put_rules_def alist_update_update)

lemma put_routes_put_routes [simp]:
  "put_routes tab rs (put_routes tab rs' lx) = put_routes tab rs lx"
  by (simp add: put_routes_def alist_update_update)

lemma rules_of_put_rules [simp]:
  "rules_of (put_rules tab ch rs lx) tab' ch' =
     (if tab' = tab \<and> ch' = ch then Some rs else rules_of lx tab' ch')"
  by (simp add: rules_of_def put_rules_def update_conv')

lemma set_of_put_set [simp]:
  "set_of (put_set n es lx) n' = (if n' = n then Some es else set_of lx n')"
  by (simp add: set_of_def put_set_def update_conv')

lemma set_of_drop_set [simp]:
  "set_of (drop_set n lx) n' = (if n' = n then None else set_of lx n')"
  by (simp add: set_of_def drop_set_def delete_conv')

lemma routes_of_put_routes [simp]:
  "routes_of (put_routes tab rs lx) tab' = (if tab' = tab then rs else routes_of lx tab')"
  by (simp add: routes_of_def put_routes_def update_conv')

text \<open>Each update leaves the other parts alone.\<close>

lemma put_rules_frame [simp]:
  "set_of (put_rules tab ch rs lx) = set_of lx" "routes_of (put_rules tab ch rs lx) = routes_of lx"
  "lxLinks (put_rules tab ch rs lx) = lxLinks lx" "lxUp (put_rules tab ch rs lx) = lxUp lx"
  "lxPolicy (put_rules tab ch rs lx) = lxPolicy lx" "lxTunnels (put_rules tab ch rs lx) = lxTunnels lx"
  "lxSets (put_rules tab ch rs lx) = lxSets lx" "lxRoutes (put_rules tab ch rs lx) = lxRoutes lx"
  by (auto simp: put_rules_def set_of_def routes_of_def fun_eq_iff)

lemma put_set_frame [simp]:
  "rules_of (put_set n es lx) = rules_of lx" "routes_of (put_set n es lx) = routes_of lx"
  "lxLinks (put_set n es lx) = lxLinks lx" "lxUp (put_set n es lx) = lxUp lx"
  "lxPolicy (put_set n es lx) = lxPolicy lx" "lxTunnels (put_set n es lx) = lxTunnels lx"
  "lxChains (put_set n es lx) = lxChains lx" "lxRoutes (put_set n es lx) = lxRoutes lx"
  by (auto simp: put_set_def rules_of_def routes_of_def fun_eq_iff)

lemma drop_set_frame [simp]:
  "rules_of (drop_set n lx) = rules_of lx" "routes_of (drop_set n lx) = routes_of lx"
  "lxLinks (drop_set n lx) = lxLinks lx" "lxUp (drop_set n lx) = lxUp lx"
  "lxPolicy (drop_set n lx) = lxPolicy lx" "lxTunnels (drop_set n lx) = lxTunnels lx"
  "lxChains (drop_set n lx) = lxChains lx" "lxRoutes (drop_set n lx) = lxRoutes lx"
  by (auto simp: drop_set_def rules_of_def routes_of_def fun_eq_iff)

lemma put_routes_frame [simp]:
  "rules_of (put_routes tab rs lx) = rules_of lx" "set_of (put_routes tab rs lx) = set_of lx"
  "lxLinks (put_routes tab rs lx) = lxLinks lx" "lxUp (put_routes tab rs lx) = lxUp lx"
  "lxPolicy (put_routes tab rs lx) = lxPolicy lx" "lxTunnels (put_routes tab rs lx) = lxTunnels lx"
  "lxChains (put_routes tab rs lx) = lxChains lx" "lxSets (put_routes tab rs lx) = lxSets lx"
  by (auto simp: put_routes_def rules_of_def set_of_def fun_eq_iff)

text \<open>Links, routes and policy rules.\<close>

definition add_tunnel :: "string \<Rightarrow> string \<Rightarrow> string \<Rightarrow> linux \<Rightarrow> linux" where
  "add_tunnel n remote loc lx =
     lx\<lparr>lxLinks := lxLinks lx @ [n], lxTunnels := AList.update n (remote, loc) (lxTunnels lx)\<rparr>"

definition link_up :: "string \<Rightarrow> linux \<Rightarrow> linux" where
  "link_up n lx = lx\<lparr>lxUp := insert n (lxUp lx)\<rparr>"

definition add_route :: "string \<Rightarrow> string \<Rightarrow> string \<Rightarrow> linux \<Rightarrow> linux" where
  "add_route tab d dev lx = put_routes tab (routes_of lx tab @ [(d, OnDevice dev)]) lx"

definition add_policy :: "string \<Rightarrow> string \<Rightarrow> linux \<Rightarrow> linux" where
  "add_policy mark tab lx = lx\<lparr>lxPolicy := lxPolicy lx @ [(mark, tab)]\<rparr>"

lemma add_tunnel_frame [simp]:
  "rules_of (add_tunnel n r l lx) = rules_of lx" "set_of (add_tunnel n r l lx) = set_of lx"
  "routes_of (add_tunnel n r l lx) = routes_of lx" "lxUp (add_tunnel n r l lx) = lxUp lx"
  "lxPolicy (add_tunnel n r l lx) = lxPolicy lx" "lxLinks (add_tunnel n r l lx) = lxLinks lx @ [n]"
  "lxChains (add_tunnel n r l lx) = lxChains lx" "lxSets (add_tunnel n r l lx) = lxSets lx"
  "tunnel_of (add_tunnel n r l lx) m = (if m = n then Some (r, l) else tunnel_of lx m)"
  by (auto simp: add_tunnel_def rules_of_def set_of_def routes_of_def tunnel_of_def update_conv' fun_eq_iff)

lemma link_up_frame [simp]:
  "rules_of (link_up n lx) = rules_of lx" "set_of (link_up n lx) = set_of lx"
  "routes_of (link_up n lx) = routes_of lx" "lxUp (link_up n lx) = insert n (lxUp lx)"
  "lxPolicy (link_up n lx) = lxPolicy lx" "lxLinks (link_up n lx) = lxLinks lx"
  "lxChains (link_up n lx) = lxChains lx" "lxSets (link_up n lx) = lxSets lx"
  "tunnel_of (link_up n lx) = tunnel_of lx"
  by (auto simp: link_up_def rules_of_def set_of_def routes_of_def tunnel_of_def fun_eq_iff)

lemma add_route_frame [simp]:
  "rules_of (add_route tab d dev lx) = rules_of lx" "set_of (add_route tab d dev lx) = set_of lx"
  "routes_of (add_route tab d dev lx) tab' =
     (if tab' = tab then routes_of lx tab @ [(d, OnDevice dev)] else routes_of lx tab')"
  "lxUp (add_route tab d dev lx) = lxUp lx"
  "lxPolicy (add_route tab d dev lx) = lxPolicy lx" "lxLinks (add_route tab d dev lx) = lxLinks lx"
  "lxChains (add_route tab d dev lx) = lxChains lx" "lxSets (add_route tab d dev lx) = lxSets lx"
  "tunnel_of (add_route tab d dev lx) = tunnel_of lx"
  by (auto simp: add_route_def tunnel_of_def fun_eq_iff)

lemma add_policy_frame [simp]:
  "rules_of (add_policy m tab lx) = rules_of lx" "set_of (add_policy m tab lx) = set_of lx"
  "routes_of (add_policy m tab lx) = routes_of lx" "lxUp (add_policy m tab lx) = lxUp lx"
  "lxPolicy (add_policy m tab lx) = lxPolicy lx @ [(m, tab)]" "lxLinks (add_policy m tab lx) = lxLinks lx"
  "lxChains (add_policy m tab lx) = lxChains lx" "lxSets (add_policy m tab lx) = lxSets lx"
  "tunnel_of (add_policy m tab lx) = tunnel_of lx"
  by (auto simp: add_policy_def rules_of_def set_of_def routes_of_def tunnel_of_def fun_eq_iff)

lemma put_tunnel_frame [simp]:
  "tunnel_of (put_rules tab ch rs lx) = tunnel_of lx" "tunnel_of (put_set n es lx) = tunnel_of lx"
  "tunnel_of (drop_set n lx) = tunnel_of lx" "tunnel_of (put_routes tab' rts lx) = tunnel_of lx"
  by (auto simp: tunnel_of_def fun_eq_iff)

section \<open>iptables\<close>

text \<open>
  A rule specification is a list of options with their arguments; it names sets with
  \<open>--match-set\<close> and a target with \<open>-j\<close>.
\<close>

definition one_argument :: "string list" where
  "one_argument = [''-m'', ''-s'', ''-d'', ''-j'', ''--to-source'', ''--set-mark'']"

fun spec_options :: "string list \<Rightarrow> (string \<times> string) list" where
  "spec_options [] = []"
| "spec_options [a] = [(a, [])]"
| "spec_options (a # b # r) =
     (if a = ''--match-set'' then (a, b) # spec_options (drop 1 r)
      else if a \<in> set one_argument then (a, b) # spec_options r
      else (a, []) # spec_options (b # r))"

definition match_sets :: "string list \<Rightarrow> string list" where
  "match_sets spec = map snd (filter (\<lambda>(a, _). a = ''--match-set'') (spec_options spec))"

definition jump_target :: "string list \<Rightarrow> string option" where
  "jump_target spec = map_of (spec_options spec) ''-j''"

definition builtin_targets :: "string list" where
  "builtin_targets =
     [''ACCEPT'', ''DROP'', ''RETURN'', ''MARK'', ''SNAT'', ''DNAT'', ''MASQUERADE'']"

definition spec_valid :: "linux \<Rightarrow> string \<Rightarrow> string list \<Rightarrow> bool" where
  "spec_valid lx tab spec \<longleftrightarrow>
     list_all (\<lambda>n. set_of lx n \<noteq> None) (match_sets spec) \<and>
     (case jump_target spec of
        None \<Rightarrow> True
      | Some j \<Rightarrow> j \<in> set builtin_targets \<or> rules_of lx tab j \<noteq> None)"

definition set_in_use :: "linux \<Rightarrow> string \<Rightarrow> bool" where
  "set_in_use lx n \<longleftrightarrow>
     list_ex (\<lambda>((tab, ch), _).
       (case rules_of lx tab ch of
          None \<Rightarrow> False
        | Some rs \<Rightarrow> list_ex (\<lambda>r. n \<in> set (match_sets r)) rs)) (lxChains lx)"

lemma set_in_use_iff:
  "set_in_use lx n \<longleftrightarrow> (\<exists>tab ch rs r. rules_of lx tab ch = Some rs \<and> r \<in> set rs \<and> n \<in> set (match_sets r))"
proof
  assume "set_in_use lx n"
  then show "\<exists>tab ch rs r. rules_of lx tab ch = Some rs \<and> r \<in> set rs \<and> n \<in> set (match_sets r)"
    unfolding set_in_use_def list_ex_iff by (fastforce split: option.splits)
next
  assume "\<exists>tab ch rs r. rules_of lx tab ch = Some rs \<and> r \<in> set rs \<and> n \<in> set (match_sets r)"
  then obtain tab ch rs r where r: "rules_of lx tab ch = Some rs" "r \<in> set rs" "n \<in> set (match_sets r)"
    by blast
  from r(1) have "((tab, ch), rs) \<in> set (lxChains lx)" by (auto simp: rules_of_def dest: map_of_SomeD)
  with r show "set_in_use lx n"
    unfolding set_in_use_def list_ex_iff by (intro bexI [of _ "((tab, ch), rs)"]) auto
qed

definition insert_at :: "nat \<Rightarrow> 'a \<Rightarrow> 'a list \<Rightarrow> 'a list" where
  "insert_at pos x xs = take (pos - 1) xs @ x # drop (pos - 1) xs"

definition strip_wait :: "string list \<Rightarrow> string list" where
  "strip_wait args = (if args \<noteq> [] \<and> last args = ''--wait'' then butlast args else args)"

definition known_tables :: "string list" where
  "known_tables = [''filter'', ''nat'', ''mangle'', ''raw'', ''security'']"

text \<open>
  The answer of a command: exit status, standard output, new state. \<open>None\<close> means that
  nothing is assumed of this command here.
\<close>

type_synonym answer = "(nat \<times> string \<times> linux) option"

definition rule_cmd :: "linux \<Rightarrow> string \<Rightarrow> string \<Rightarrow> string list \<Rightarrow> (string list list \<Rightarrow> answer) \<Rightarrow> answer" where
  "rule_cmd lx tab ch spec f =
     (if \<not> spec_valid lx tab spec then Some (2, [], lx)
      else (case rules_of lx tab ch of None \<Rightarrow> Some (1, [], lx) | Some rs \<Rightarrow> f rs))"

definition iptables_args :: "nat \<Rightarrow> string list \<Rightarrow> linux \<Rightarrow> answer" where
  "iptables_args existsStatus args lx =
     (case args of
        t0 # tab # op # ch # rest \<Rightarrow>
          if t0 \<noteq> ''-t'' then None
          else if tab \<notin> set known_tables then Some (3, [], lx)
          else if op = ''-C'' then
            rule_cmd lx tab ch rest (\<lambda>rs. Some (if rest \<in> set rs then 0 else 1, [], lx))
          else if op = ''-A'' then
            rule_cmd lx tab ch rest (\<lambda>rs. Some (0, [], put_rules tab ch (rs @ [rest]) lx))
          else if op = ''-D'' then
            rule_cmd lx tab ch rest
              (\<lambda>rs. if rest \<in> set rs then Some (0, [], put_rules tab ch (remove1 rest rs) lx)
                    else Some (1, [], lx))
          else if op = ''-I'' then
            (case rest of
               [] \<Rightarrow> None
             | pos # spec \<Rightarrow>
                 (case dtoi pos of
                    Some (k, []) \<Rightarrow>
                      rule_cmd lx tab ch spec
                        (\<lambda>rs. if 1 \<le> k \<and> k \<le> Suc (length rs)
                              then Some (0, [], put_rules tab ch (insert_at k spec rs) lx)
                              else Some (1, [], lx))
                  | _ \<Rightarrow> None))
          else if op = ''-N'' \<and> rest = [] then
            (case rules_of lx tab ch of
               None \<Rightarrow> Some (0, [], put_rules tab ch [] lx)
             | Some _ \<Rightarrow> Some (existsStatus, [], lx))
          else None
      | _ \<Rightarrow> None)"

definition iptables_cmd :: "nat \<Rightarrow> string list \<Rightarrow> linux \<Rightarrow> answer" where
  "iptables_cmd existsStatus args lx = iptables_args existsStatus (strip_wait args) lx"

section \<open>ipset\<close>

definition ipset_cmd :: "string list \<Rightarrow> linux \<Rightarrow> answer" where
  "ipset_cmd args lx =
     (case args of
        op # n # rest \<Rightarrow>
          if op = ''create'' then
            Some (0, [], if set_of lx n = None then put_set n {} lx else lx)
          else if op = ''swap'' then
            (case rest of
               [m] \<Rightarrow>
                 (case (set_of lx n, set_of lx m) of
                    (Some a, Some b) \<Rightarrow> Some (0, [], put_set m a (put_set n b lx))
                  | _ \<Rightarrow> Some (1, [], lx))
             | _ \<Rightarrow> None)
          else
            (case set_of lx n of
               None \<Rightarrow>
                 if op \<in> {''flush'', ''add'', ''del'', ''destroy''} then Some (1, [], lx) else None
             | Some es \<Rightarrow>
                 if op = ''flush'' then Some (0, [], put_set n {} lx)
                 else if op = ''add'' \<and> rest \<noteq> [] then Some (0, [], put_set n (insert (hd rest) es) lx)
                 else if op = ''del'' \<and> rest \<noteq> [] then Some (0, [], put_set n (es - {hd rest}) lx)
                 else if op = ''destroy'' then
                   (if set_in_use lx n then Some (1, [], lx) else Some (0, [], drop_set n lx))
                 else None)
      | _ \<Rightarrow> None)"

section \<open>ip\<close>

text \<open>
  \<open>tools\<close>: locations and layouts. \<open>tLinks\<close>, \<open>tRoutes\<close> and \<open>tPolicy\<close> are the texts of
  \<^verbatim>\<open>ip link list\<close>, \<^verbatim>\<open>ip route list table T\<close> and \<^verbatim>\<open>ip rule list\<close>.
\<close>

record tools =
  tIptables :: string
  tIpset :: string
  tChainExists :: nat
  tLinks :: "string list \<Rightarrow> string"
  tRoutes :: "(string \<times> next_hop) list \<Rightarrow> string"
  tPolicy :: "(string \<times> string) list \<Rightarrow> string"

text \<open>A route to a single host is listed without its \<^verbatim>\<open>/32\<close>.\<close>

definition shown_dest :: "string \<Rightarrow> string" where
  "shown_dest d = (if suffix ''/32'' d then take (length d - 3) d else d)"

definition ip_cmd :: "tools \<Rightarrow> string list \<Rightarrow> linux \<Rightarrow> answer" where
  "ip_cmd t args lx =
     (if args = [''rule'', ''list''] then Some (0, tPolicy t (lxPolicy lx), lx)
      else if args = [''link'', ''list''] then Some (0, tLinks t (lxLinks lx), lx)
      else if length args = 4 \<and> take 3 args = [''link'', ''set'', ''up''] then
        (let n = args ! 3 in
         if n \<in> set (lxLinks lx) then Some (0, [], link_up n lx) else Some (1, [], lx))
      else if length args = 4 \<and> take 3 args = [''route'', ''list'', ''table''] then
        Some (0, tRoutes t (routes_of lx (args ! 3)), lx)
      else if length args = 8 \<and> take 3 args = [''rule'', ''add'', ''prio''] then
        Some (0, [], add_policy (args ! 5) (args ! 7) lx)
      else if length args = 9 \<and> take 2 args = [''tunnel'', ''add''] then
        (let n = args ! 2 in
         if n \<in> set (lxLinks lx) then Some (1, [], lx)
         else Some (0, [], add_tunnel n (args ! 6) (args ! 8) lx))
      else if length args = 7 \<and> take 2 args = [''route'', ''add''] \<and> args ! 3 = ''dev'' then
        (let d = args ! 2; n = args ! 4; tab = args ! 6 in
         if n \<notin> set (lxLinks lx) then Some (1, [], lx)
         else if d \<in> fst ` set (routes_of lx tab) then Some (2, [], lx)
         else Some (0, [], add_route tab d n lx))
      else if length args = 7 \<and> take 2 args = [''route'', ''delete''] \<and> args ! 3 = ''via'' then
        (let d = args ! 2; g = args ! 4; tab = args ! 6 in
         if (d, ViaGateway g) \<in> set (routes_of lx tab)
         then Some (0, [], put_routes tab (remove1 (d, ViaGateway g) (routes_of lx tab)) lx)
         else Some (2, [], lx))
      else None)"

section \<open>The documented behaviour as a hypothesis on a host\<close>

definition lx_step :: "tools \<Rightarrow> string list \<Rightarrow> linux \<Rightarrow> answer" where
  "lx_step t argv lx =
     (case argv of
        [] \<Rightarrow> None
      | prog # args \<Rightarrow>
          if prog = tIptables t then iptables_cmd (tChainExists t) args lx
          else if prog = tIpset t then ipset_cmd args lx
          else if prog = ''ip'' then ip_cmd t args lx
          else None)"

text \<open>
  A command may also fail for reasons outside this state (resources, permissions, a
  killed process). iptables keeps exit status 1 for what the manual page documents.
\<close>

definition fault :: "tools \<Rightarrow> string list \<Rightarrow> exec_result \<Rightarrow> bool" where
  "fault t argv r \<longleftrightarrow>
     (case xStatus r of
        NotStarted _ \<Rightarrow> True
      | Exited n \<Rightarrow> n \<ge> (if hd argv = tIptables t then 2 else 1))"

definition tools_ok :: "tools \<Rightarrow> bool" where
  "tools_ok t \<longleftrightarrow>
     tIptables t \<noteq> tIpset t \<and> tIptables t \<noteq> ''ip'' \<and> tIpset t \<noteq> ''ip'' \<and> tIpset t \<noteq> [] \<and>
     0 < tChainExists t \<and>
     (\<forall>ls. \<forall>l \<in> set ls. contains (tLinks t ls) l) \<and>
     (\<forall>rs. \<forall>(d, _) \<in> set rs. contains (tRoutes t rs) (shown_dest d)) \<and>
     (\<forall>ps. \<forall>(_, tab) \<in> set ps. contains (tPolicy t ps) tab) \<and>
     tRoutes t [] = []"

definition commands_documented :: "'w host \<Rightarrow> tools \<Rightarrow> ('w \<Rightarrow> linux) \<Rightarrow> bool" where
  "commands_documented h t v \<longleftrightarrow>
     (\<forall>argv w n out lx'. lx_step t argv (v w) = Some (n, out, lx') \<longrightarrow>
        (case hExec h argv w of
           (r, w') \<Rightarrow>
             xStatus r = Exited n \<and> (n = 0 \<longrightarrow> xStdout r = out) \<and> v w' = lx' \<or>
             fault t argv r \<and> v w' = v w))"

text \<open>Everything else the program calls leaves this state alone.\<close>

definition others_quiet :: "'w host \<Rightarrow> tools \<Rightarrow> ('w \<Rightarrow> linux) \<Rightarrow> bool" where
  "others_quiet h t v \<longleftrightarrow>
     (\<forall>w. v (snd (hExec h [tIptables t, ''--version''] w)) = v w) \<and>
     (\<forall>w. v (snd (hExec h [tIpset t, ''--version''] w)) = v w) \<and>
     (\<forall>w. v (snd (hXtOpen h w)) = v w) \<and>
     (\<forall>w. v (snd (hXtFlock h w)) = v w) \<and>
     (\<forall>w. v (hXtClose h w) = v w) \<and>
     (\<forall>f s w. v (snd (hAppend h f s w)) = v w) \<and>
     (\<forall>f s w. v (snd (hWriteFile h f s w)) = v w) \<and>
     (\<forall>l a w. v (snd (hAddrAdd h l a w)) = v w) \<and>
     (\<forall>l a w. v (snd (hAddrDel h l a w)) = v w) \<and>
     (\<forall>w. hLookPath h ''ipset'' w \<in> {None, Some (tIpset t)})"

definition documented :: "'w host \<Rightarrow> tools \<Rightarrow> ('w \<Rightarrow> linux) \<Rightarrow> bool" where
  "documented h t v \<longleftrightarrow> tools_ok t \<and> commands_documented h t v \<and> others_quiet h t v"

end
