(* ===== verification/NodeContract.thy ===== *)
theory NodeContract
  imports LinuxNode
begin

text \<open>
  What the wrappers of go-iptables and go-ipset and the plain \<open>ip\<close> commands do to the
  observable state of a node that behaves as documented. The locale \<open>node_contract\<close> is
  the interface between the operating system and the program; the director, the gateway
  and the controller are verified against its lemmas only.
\<close>

definition view :: "('w \<Rightarrow> linux) \<Rightarrow> 'w proc \<Rightarrow> linux" where
  "view v p = v (os p)"

lemma view_ipsetPath [simp]: "view v (p\<lparr>ipsetPath := x\<rparr>) = view v p"
  by (simp add: view_def)

text \<open>The iptables handle of a node whose iptables knows \<open>-C\<close> and \<open>--wait\<close> (1.4.20 or later).\<close>

definition ipt_ready :: "tools \<Rightarrow> ip_tables \<Rightarrow> bool" where
  "ipt_ready t ipt \<longleftrightarrow> iptPath ipt = tIptables t \<and> hasCheck ipt \<and> hasWait ipt"

text \<open>The program has not looked ipset up yet, or has found the binary of this node.\<close>

definition path_ready :: "tools \<Rightarrow> 'w proc \<Rightarrow> bool" where
  "path_ready t p \<longleftrightarrow> ipsetPath p = [] \<or> ipsetPath p = tIpset t"

lemma strip_wait_snoc [simp]: "strip_wait (args @ [''--wait'']) = args"
  by (simp add: strip_wait_def)

definition exit1 :: "goerror \<Rightarrow> bool" where
  "exit1 e \<longleftrightarrow> (\<exists>m. e = ErrIptables 1 m)"

lemma exit1_simps [simp]:
  "exit1 (ErrIptables n m) \<longleftrightarrow> n = 1" "\<not> exit1 (ErrStart m)" "\<not> exit1 (ErrText m)" "\<not> exit1 (ErrExit n m)"
  "\<not> exit1 (ErrWrap m e)" "\<not> exit1 (ErrNotFound m)"
  by (simp_all add: exit1_def)

locale node_contract =
  fixes h :: "'w host" and t :: tools and v :: "'w \<Rightarrow> linux"
  assumes doc: "documented h t v"
begin

lemma tools: "tools_ok t"
  using doc by (simp add: documented_def)

lemma paths [simp]:
  "tIptables t \<noteq> tIpset t" "tIpset t \<noteq> tIptables t" "tIptables t \<noteq> ''ip''" "''ip'' \<noteq> tIptables t"
  "tIpset t \<noteq> ''ip''" "''ip'' \<noteq> tIpset t" "tIpset t \<noteq> []" "0 < tChainExists t"
  using tools by (auto simp: tools_ok_def)

lemma exec_cases:
  assumes "hExec h argv w = (r, w')" and "lx_step t argv (v w) = Some (n, out, lx')"
  shows "xStatus r = Exited n \<and> (n = 0 \<longrightarrow> xStdout r = out) \<and> v w' = lx' \<or>
         fault t argv r \<and> v w' = v w"
proof -
  have "commands_documented h t v" using doc by (simp add: documented_def)
  then show ?thesis using assms unfolding commands_documented_def by fastforce
qed

section \<open>iptables through go-iptables\<close>

lemma ipt_run_cases:
  assumes ready: "ipt_ready t ipt"
    and step: "iptables_args (tChainExists t) args (view v p) = Some (n, out, lx')"
    and run: "ipt_run h ipt args p = (res, p')"
  shows "ipsetPath p' = ipsetPath p \<and>
     (n = 0 \<and> res = Ok () \<and> view v p' = lx' \<or>
      n \<noteq> 0 \<and> (\<exists>m. res = Err (ErrIptables n m)) \<and> view v p' = lx' \<or>
      (\<exists>e. res = Err e \<and> \<not> exit1 e) \<and> view v p' = view v p)"
proof -
  obtain r w where ex: "hExec h (tIptables t # args @ [''--wait'']) (os p) = (r, w)"
    by (cases "hExec h (tIptables t # args @ [''--wait'']) (os p)")
  have p': "p' = p\<lparr>os := w\<rparr>" and res: "res = (case ipt_error r of None \<Rightarrow> Ok () | Some e \<Rightarrow> Err e)"
    using run ready ex
    by (auto simp: ipt_run_def ipt_runWithOutput_def ipt_ready_def bindE_def cmdResult_def
        split: option.splits)
  have "lx_step t (tIptables t # args @ [''--wait'']) (v (os p)) = Some (n, out, lx')"
    using step by (simp add: lx_step_def iptables_cmd_def view_def)
  from exec_cases [OF ex this]
  consider "xStatus r = Exited n" "v w = lx'"
    | "fault t (tIptables t # args @ [''--wait'']) r" "v w = v (os p)" by blast
  then show ?thesis
  proof cases
    case 1
    then show ?thesis using p' res by (cases "n = 0") (auto simp: ipt_error_def view_def)
  next
    case 2
    then show ?thesis using p' res
      by (auto simp: ipt_error_def view_def fault_def split: exec_status.splits if_splits)
  qed
qed

lemma iptables_check:
  "tab \<in> set known_tables \<Longrightarrow>
   iptables_args st ([''-t'', tab, ''-C'', ch] @ spec) lx =
     rule_cmd lx tab ch spec (\<lambda>rs. Some (if spec \<in> set rs then 0 else 1, [], lx))"
  by (simp add: iptables_args_def)

lemma iptables_append:
  "tab \<in> set known_tables \<Longrightarrow>
   iptables_args st ([''-t'', tab, ''-A'', ch] @ spec) lx =
     rule_cmd lx tab ch spec (\<lambda>rs. Some (0, [], put_rules tab ch (rs @ [spec]) lx))"
  by (simp add: iptables_args_def)

lemma iptables_delete:
  "tab \<in> set known_tables \<Longrightarrow>
   iptables_args st ([''-t'', tab, ''-D'', ch] @ spec) lx =
     rule_cmd lx tab ch spec
       (\<lambda>rs. if spec \<in> set rs then Some (0, [], put_rules tab ch (remove1 spec rs) lx) else Some (1, [], lx))"
  by (simp add: iptables_args_def)

lemma iptables_insert:
  "tab \<in> set known_tables \<Longrightarrow>
   iptables_args st ([''-t'', tab, ''-I'', ch, Itoa 1] @ spec) lx =
     rule_cmd lx tab ch spec (\<lambda>rs. Some (0, [], put_rules tab ch (spec # rs) lx))"
  by (simp add: iptables_args_def Itoa_def dtoi_dec_string_end insert_at_def)

lemma iptables_newchain:
  "tab \<in> set known_tables \<Longrightarrow>
   iptables_args st [''-t'', tab, ''-N'', ch] lx =
     (case rules_of lx tab ch of
        None \<Rightarrow> Some (0, [], put_rules tab ch [] lx) | Some _ \<Rightarrow> Some (st, [], lx))"
  by (simp add: iptables_args_def)

lemma rule_cmd_Some:
  assumes "\<And>rs. f rs \<noteq> None"
  obtains n out lx' where "rule_cmd lx tab ch spec f = Some (n, out, lx')"
proof -
  have "\<exists>n out lx'. rule_cmd lx tab ch spec f = Some (n, out, lx')"
    using assms by (auto simp: rule_cmd_def split: option.split)
  then show thesis using that by blast
qed

lemma rule_cmd_ok:
  assumes "rule_cmd lx tab ch spec f = Some (n, out, lx')"
  shows "n = 2 \<and> lx' = lx \<and> \<not> spec_valid lx tab spec \<or>
     n = 1 \<and> lx' = lx \<and> spec_valid lx tab spec \<and> rules_of lx tab ch = None \<or>
     spec_valid lx tab spec \<and> (\<exists>rs. rules_of lx tab ch = Some rs \<and> f rs = Some (n, out, lx'))"
  using assms by (auto simp: rule_cmd_def split: if_splits option.splits)

text \<open>The outcomes of the four rule operations, on a table that iptables knows.\<close>

lemma Exists_cases:
  assumes ready: "ipt_ready t ipt" and tab: "tab \<in> set known_tables"
    and run: "ipt_Exists h ipt tab ch spec p = (res, p')"
  shows "view v p' = view v p \<and> ipsetPath p' = ipsetPath p \<and>
     (res = Ok True \<and> spec_valid (view v p) tab spec \<and>
        (\<exists>rs. rules_of (view v p) tab ch = Some rs \<and> spec \<in> set rs) \<or>
      res = Ok False \<and> spec_valid (view v p) tab spec \<and>
        (\<forall>rs. rules_of (view v p) tab ch = Some rs \<longrightarrow> spec \<notin> set rs) \<or>
      (\<exists>e. res = Err e))"
proof -
  obtain n out lx' where st:
    "rule_cmd (view v p) tab ch spec (\<lambda>rs. Some (if spec \<in> set rs then 0 else 1, [], view v p)) = Some (n, out, lx')"
    by (rule rule_cmd_Some [rotated]) (assumption, simp)
  obtain r1 p1 where r1: "ipt_run h ipt ([''-t'', tab, ''-C'', ch] @ spec) p = (r1, p1)"
    by (cases "ipt_run h ipt ([''-t'', tab, ''-C'', ch] @ spec) p")
  note c = ipt_run_cases [OF ready _ r1, of n out lx', unfolded iptables_check [OF tab], OF st]
  have lx': "lx' = view v p" using rule_cmd_ok [OF st] by auto
  have res: "p' = p1 \<and> res = (case r1 of Ok _ \<Rightarrow> Ok True | Err e \<Rightarrow> (if exit1 e then Ok False else Err e) | Panic k \<Rightarrow> Panic k)"
    using run r1 ready
    by (cases r1) (auto simp: ipt_Exists_def ipt_ready_def catchE_def bindE_def exit1_def split: goerror.splits if_splits)
  have n: "n = 0 \<and> spec_valid (view v p) tab spec \<and>
        (\<exists>rs. rules_of (view v p) tab ch = Some rs \<and> spec \<in> set rs) \<or>
      n = 1 \<and> spec_valid (view v p) tab spec \<and> (\<forall>rs. rules_of (view v p) tab ch = Some rs \<longrightarrow> spec \<notin> set rs) \<or> n = 2"
    using rule_cmd_ok [OF st] by (auto split: if_splits)
  from c consider "n = 0" "r1 = Ok ()" | m where "n \<noteq> 0" "r1 = Err (ErrIptables n m)"
    | e where "r1 = Err e" "\<not> exit1 e" by blast
  then show ?thesis
  proof cases
    case 1
    then show ?thesis using c n res lx' by auto
  next
    case 2
    then show ?thesis using c n res lx' by auto
  next
    case 3
    then show ?thesis using c res lx' by auto
  qed
qed

lemma Append_cases:
  assumes ready: "ipt_ready t ipt" and tab: "tab \<in> set known_tables"
    and run: "ipt_Append h ipt tab ch spec p = (res, p')"
  shows "ipsetPath p' = ipsetPath p \<and>
     (res = Ok () \<and> spec_valid (view v p) tab spec \<and>
        (\<exists>rs. rules_of (view v p) tab ch = Some rs \<and> view v p' = put_rules tab ch (rs @ [spec]) (view v p)) \<or>
      (\<exists>e. res = Err e) \<and> view v p' = view v p)"
proof -
  obtain n out lx' where st:
    "rule_cmd (view v p) tab ch spec (\<lambda>rs. Some (0, [], put_rules tab ch (rs @ [spec]) (view v p))) = Some (n, out, lx')"
    by (rule rule_cmd_Some [rotated]) (assumption, simp)
  from ipt_run_cases [OF ready _ run [unfolded ipt_Append_def], unfolded iptables_append [OF tab], OF st]
    rule_cmd_ok [OF st]
  show ?thesis by auto
qed

lemma Insert_cases:
  assumes ready: "ipt_ready t ipt" and tab: "tab \<in> set known_tables"
    and run: "ipt_Insert h ipt tab ch 1 spec p = (res, p')"
  shows "ipsetPath p' = ipsetPath p \<and>
     (res = Ok () \<and> spec_valid (view v p) tab spec \<and>
        (\<exists>rs. rules_of (view v p) tab ch = Some rs \<and> view v p' = put_rules tab ch (spec # rs) (view v p)) \<or>
      (\<exists>e. res = Err e) \<and> view v p' = view v p)"
proof -
  obtain n out lx' where st:
    "rule_cmd (view v p) tab ch spec (\<lambda>rs. Some (0, [], put_rules tab ch (spec # rs) (view v p))) = Some (n, out, lx')"
    by (rule rule_cmd_Some [rotated]) (assumption, simp)
  from ipt_run_cases [OF ready _ run [unfolded ipt_Insert_def], unfolded iptables_insert [OF tab], OF st]
    rule_cmd_ok [OF st]
  show ?thesis by auto
qed

lemma Delete_cases:
  assumes ready: "ipt_ready t ipt" and tab: "tab \<in> set known_tables"
    and run: "ipt_Delete h ipt tab ch spec p = (res, p')"
  shows "ipsetPath p' = ipsetPath p \<and>
     (res = Ok () \<and> spec_valid (view v p) tab spec \<and>
        (\<exists>rs. rules_of (view v p) tab ch = Some rs \<and> spec \<in> set rs \<and>
              view v p' = put_rules tab ch (remove1 spec rs) (view v p)) \<or>
      (\<exists>e. res = Err e) \<and> view v p' = view v p)"
proof -
  obtain n out lx' where st:
    "rule_cmd (view v p) tab ch spec
       (\<lambda>rs. if spec \<in> set rs then Some (0, [], put_rules tab ch (remove1 spec rs) (view v p))
             else Some (1, [], view v p)) = Some (n, out, lx')"
    by (rule rule_cmd_Some [rotated]) (assumption, simp)
  from ipt_run_cases [OF ready _ run [unfolded ipt_Delete_def], unfolded iptables_delete [OF tab], OF st]
    rule_cmd_ok [OF st]
  show ?thesis by (auto split: if_splits)
qed

lemma NewChain_cases:
  assumes ready: "ipt_ready t ipt" and tab: "tab \<in> set known_tables"
    and run: "ipt_NewChain h ipt tab ch p = (res, p')"
  shows "ipsetPath p' = ipsetPath p \<and>
     (res = Ok () \<and> rules_of (view v p) tab ch = None \<and> view v p' = put_rules tab ch [] (view v p) \<or>
      (\<exists>m. res = Err (ErrIptables (tChainExists t) m)) \<and> rules_of (view v p) tab ch \<noteq> None \<and>
         view v p' = view v p \<or>
      (\<exists>e. res = Err e \<and> \<not> exit1 e) \<and> view v p' = view v p)"
proof (cases "rules_of (view v p) tab ch")
  case None
  then have st: "iptables_args (tChainExists t) [''-t'', tab, ''-N'', ch] (view v p) =
      Some (0, [], put_rules tab ch [] (view v p))"
    by (simp add: iptables_newchain [OF tab])
  from ipt_run_cases [OF ready st run [unfolded ipt_NewChain_def]] None show ?thesis by auto
next
  case (Some rs)
  then have st: "iptables_args (tChainExists t) [''-t'', tab, ''-N'', ch] (view v p) =
      Some (tChainExists t, [], view v p)"
    by (simp add: iptables_newchain [OF tab])
  have "tChainExists t \<noteq> 0" using paths(8) by simp
  with ipt_run_cases [OF ready st run [unfolded ipt_NewChain_def]] Some show ?thesis by auto
qed

section \<open>Plain commands\<close>

lemma cmd_error_None_iff: "cmd_error r = None \<longleftrightarrow> xStatus r = Exited 0"
  by (auto simp: cmd_error_def split: exec_status.splits)

lemma cmdOutput_cases:
  assumes step: "lx_step t argv (view v p) = Some (n, out, lx')"
    and run: "cmdOutput h argv p = (res, p')"
  shows "ipsetPath p' = ipsetPath p \<and>
     (n = 0 \<and> res = Ok out \<and> view v p' = lx' \<or>
      n \<noteq> 0 \<and> (\<exists>e. res = Err e) \<and> view v p' = lx' \<or>
      (\<exists>e. res = Err e) \<and> view v p' = view v p)"
proof -
  obtain r w where ex: "hExec h argv (os p) = (r, w)" by (cases "hExec h argv (os p)")
  from exec_cases [OF ex] step
  consider "xStatus r = Exited n" "n = 0 \<longrightarrow> xStdout r = out" "v w = lx'" | "fault t argv r" "v w = v (os p)"
    unfolding view_def by blast
  then show ?thesis
  proof cases
    case 1
    then show ?thesis using run ex
      by (cases "n = 0") (auto simp: cmdOutput_run cmd_error_def view_def split: option.splits)
  next
    case 2
    then show ?thesis using run ex
      by (auto simp: cmdOutput_run cmd_error_def fault_def view_def
          split: option.splits exec_status.splits if_splits)
  qed
qed

lemma cmdRun_cases:
  assumes step: "lx_step t argv (view v p) = Some (n, out, lx')"
    and run: "cmdRun h argv p = (res, p')"
  shows "ipsetPath p' = ipsetPath p \<and>
     (n = 0 \<and> res = Ok () \<and> view v p' = lx' \<or>
      n \<noteq> 0 \<and> (\<exists>e. res = Err e) \<and> view v p' = lx' \<or>
      (\<exists>e. res = Err e) \<and> view v p' = view v p)"
proof -
  obtain r1 where r1: "cmdOutput h argv p = (r1, p')"
    and res: "res = (case r1 of Ok _ \<Rightarrow> Ok () | Err e \<Rightarrow> Err e | Panic k \<Rightarrow> Panic k)"
    using run by (auto simp: cmdRun_def bindE_def split: prod.splits outcome.splits)
  from cmdOutput_cases [OF step r1] show ?thesis using res by auto
qed

lemma cmdCombined_cases:
  assumes step: "lx_step t argv (view v p) = Some (n, out, lx')"
    and run: "cmdCombined h argv p = (res, p')"
  shows "ipsetPath p' = ipsetPath p \<and>
     (n = 0 \<and> (\<exists>txt. res = Ok txt) \<and> view v p' = lx' \<or>
      n \<noteq> 0 \<and> (\<exists>e. res = Err e) \<and> view v p' = lx' \<or>
      (\<exists>e. res = Err e) \<and> view v p' = view v p)"
proof -
  obtain r1 where r1: "cmdOutput h argv p = (r1, p')"
    and res: "(\<exists>txt. r1 = Ok txt \<longrightarrow> (\<exists>txt'. res = Ok txt')) \<and> (\<forall>e. r1 = Err e \<longrightarrow> res = Err e) \<and>
      (\<forall>txt. r1 = Ok txt \<longrightarrow> (\<exists>txt'. res = Ok txt'))"
    using run by (auto simp: cmdCombined_run cmdOutput_run split: prod.splits option.splits)
  from cmdOutput_cases [OF step r1] show ?thesis using res by auto
qed

text \<open>\<open>ip\<close> commands, with the argument vectors that the program builds.\<close>

lemma link_list_cases:
  "cmdOutput h [''ip'', ''link'', ''list''] p = (res, p') \<Longrightarrow>
     ipsetPath p' = ipsetPath p \<and> view v p' = view v p \<and>
     (res = Ok (tLinks t (lxLinks (view v p))) \<or> (\<exists>e. res = Err e))"
  by (drule cmdOutput_cases [rotated]) (auto simp: lx_step_def ip_cmd_def)

lemma route_list_cases:
  "cmdOutput h [''ip'', ''route'', ''list'', ''table'', tab] p = (res, p') \<Longrightarrow>
     ipsetPath p' = ipsetPath p \<and> view v p' = view v p \<and>
     (res = Ok (tRoutes t (routes_of (view v p) tab)) \<or> (\<exists>e. res = Err e))"
  by (drule cmdOutput_cases [rotated]) (auto simp: lx_step_def ip_cmd_def)

lemma rule_list_cases:
  "cmdOutput h [''ip'', ''rule'', ''list''] p = (res, p') \<Longrightarrow>
     ipsetPath p' = ipsetPath p \<and> view v p' = view v p \<and>
     (res = Ok (tPolicy t (lxPolicy (view v p))) \<or> (\<exists>e. res = Err e))"
  by (drule cmdOutput_cases [rotated]) (auto simp: lx_step_def ip_cmd_def)

lemma rule_add_cases:
  "cmdRun h [''ip'', ''rule'', ''add'', ''prio'', prio, ''fwmark'', m, ''table'', tab] p = (res, p') \<Longrightarrow>
     ipsetPath p' = ipsetPath p \<and>
     (res = Ok () \<and> view v p' = add_policy m tab (view v p) \<or>
      (\<exists>e. res = Err e) \<and> view v p' = view v p)"
  by (drule cmdRun_cases [rotated]) (auto simp: lx_step_def ip_cmd_def)

lemma link_up_cases:
  "cmdRun h [''ip'', ''link'', ''set'', ''up'', n] p = (res, p') \<Longrightarrow>
     ipsetPath p' = ipsetPath p \<and>
     (res = Ok () \<and> n \<in> set (lxLinks (view v p)) \<and> view v p' = link_up n (view v p) \<or>
      (\<exists>e. res = Err e) \<and> view v p' = view v p)"
  by (cases "n \<in> set (lxLinks (view v p))"; drule cmdRun_cases [rotated])
    (auto simp: lx_step_def ip_cmd_def Let_def)

lemma tunnel_add_cases:
  "cmdRun h [''ip'', ''tunnel'', ''add'', n, ''mode'', ''gre'', ''remote'', r, ''local'', l] p = (res, p') \<Longrightarrow>
     ipsetPath p' = ipsetPath p \<and>
     (res = Ok () \<and> n \<notin> set (lxLinks (view v p)) \<and> view v p' = add_tunnel n r l (view v p) \<or>
      (\<exists>e. res = Err e) \<and> view v p' = view v p)"
  by (cases "n \<in> set (lxLinks (view v p))"; drule cmdRun_cases [rotated])
    (auto simp: lx_step_def ip_cmd_def Let_def)

lemma route_add_cases:
  "cmdRun h [''ip'', ''route'', ''add'', d, ''dev'', n, ''table'', tab] p = (res, p') \<Longrightarrow>
     ipsetPath p' = ipsetPath p \<and>
     (res = Ok () \<and> n \<in> set (lxLinks (view v p)) \<and> d \<notin> fst ` set (routes_of (view v p) tab) \<and>
        view v p' = add_route tab d n (view v p) \<or>
      (\<exists>e. res = Err e) \<and> view v p' = view v p)"
  by (cases "n \<in> set (lxLinks (view v p))";
      cases "d \<in> fst ` set (routes_of (view v p) tab)"; drule cmdRun_cases [rotated])
    (auto simp: lx_step_def ip_cmd_def Let_def)

lemma route_delete_cases:
  "cmdRun h [''ip'', ''route'', ''delete'', d, ''via'', g, ''table'', tab] p = (res, p') \<Longrightarrow>
     ipsetPath p' = ipsetPath p \<and>
     (res = Ok () \<and> (d, ViaGateway g) \<in> set (routes_of (view v p) tab) \<and>
        view v p' = put_routes tab (remove1 (d, ViaGateway g) (routes_of (view v p) tab)) (view v p) \<or>
      (\<exists>e. res = Err e) \<and> view v p' = view v p)"
  by (cases "(d, ViaGateway g) \<in> set (routes_of (view v p) tab)"; drule cmdRun_cases [rotated])
    (auto simp: lx_step_def ip_cmd_def Let_def)

section \<open>ipset through go-ipset\<close>

lemma quiet_version [simp]:
  "v (snd (hExec h [tIpset t, ''--version''] w)) = v w" "v (snd (hExec h [tIptables t, ''--version''] w)) = v w"
  using doc by (simp_all add: documented_def others_quiet_def)

lemma lookpath_ipset: "hLookPath h ''ipset'' w = Some path \<Longrightarrow> path = tIpset t"
proof -
  assume path: "hLookPath h ''ipset'' w = Some path"
  have "hLookPath h ''ipset'' w \<in> {None, Some (tIpset t)}"
    using doc unfolding documented_def others_quiet_def by blast
  with path show "path = tIpset t" by simp
qed

lemma supported_version_quiet:
  assumes run: "ipset_getIpsetSupportedVersion h p = (res, p')" and path: "ipsetPath p = tIpset t"
  shows "view v p' = view v p \<and> ipsetPath p' = ipsetPath p \<and> (\<forall>k. res \<noteq> Panic k)"
proof -
  obtain r w where ex: "hExec h [tIpset t, ''--version''] (os p) = (r, w)"
    by (cases "hExec h [tIpset t, ''--version''] (os p)")
  have w: "v w = v (os p)" using quiet_version(1) [of "os p"] ex by simp
  obtain r1 where c: "cmdCombined h [tIpset t, ''--version''] p = (r1, p\<lparr>os := w\<rparr>)"
    and r1: "\<forall>k. r1 \<noteq> Panic k"
    using ex by (cases "cmd_error r") (auto simp: cmdCombined_run)
  have "p' = p\<lparr>os := w\<rparr> \<and> (\<forall>k. res \<noteq> Panic k)"
    using run c path r1
    by (cases r1) (auto simp: ipset_getIpsetSupportedVersion_def ipset_getIpsetVersionString_def bindE_def
        split: option.splits)
  then show ?thesis using w by (simp add: view_def)
qed

lemma initCheck_cases:
  assumes run: "ipset_initCheck h p = (res, p')" and path: "path_ready t p"
  shows "view v p' = view v p \<and> path_ready t p' \<and>
     (res = Ok () \<and> ipsetPath p' = tIpset t \<or> (\<exists>e. res = Err e))"
proof (cases "ipsetPath p = []")
  case False
  then show ?thesis using run path by (auto simp: ipset_initCheck_def path_ready_def)
next
  case True
  show ?thesis
  proof (cases "hLookPath h ''ipset'' (os p)")
    case None
    then show ?thesis using True run path by (auto simp: ipset_initCheck_def)
  next
    case (Some path)
    then have path: "path = tIpset t" by (rule lookpath_ipset)
    define q where "q = p\<lparr>ipsetPath := tIpset t\<rparr>"
    obtain r1 q' where v1: "ipset_getIpsetSupportedVersion h q = (r1, q')"
      by (cases "ipset_getIpsetSupportedVersion h q")
    have q': "view v q' = view v p \<and> ipsetPath q' = tIpset t"
      using supported_version_quiet [OF v1] by (simp add: q_def)
    have np: "r1 \<noteq> Panic k" for k
      using supported_version_quiet [OF v1] by (simp add: q_def)
    show ?thesis
      using True Some path run v1 q' np
      by (cases r1) (auto simp: ipset_initCheck_def q_def [symmetric] catchE_def bindE_def path_ready_def
          split: if_splits)
  qed
qed

lemma createHashSet_cases:
  assumes run: "ipset_createHashSet h s n p = (res, p')" and path: "ipsetPath p = tIpset t"
  shows "ipsetPath p' = tIpset t \<and>
     (res = Ok () \<and> view v p' = put_set n {} (view v p) \<or>
      (\<exists>e. res = Err e) \<and>
        (view v p' = view v p \<or> set_of (view v p) n = None \<and> view v p' = put_set n {} (view v p)))"
proof -
  define lx1 where "lx1 = (if set_of (view v p) n = None then put_set n {} (view v p) else view v p)"
  have st1: "lx_step t (tIpset t # ipset_create_args s n) (view v p) = Some (0, [], lx1)"
    by (simp add: lx_step_def ipset_cmd_def ipset_create_args_def lx1_def)
  have ex: "set_of lx1 n \<noteq> None" by (simp add: lx1_def)
  have st2: "lx_step t [tIpset t, ''flush'', n] lx1 = Some (0, [], put_set n {} (view v p))"
    using ex by (auto simp: lx_step_def ipset_cmd_def lx1_def)
  obtain r1 p1 where c1: "cmdCombined h (tIpset t # ipset_create_args s n) p = (r1, p1)"
    by (cases "cmdCombined h (tIpset t # ipset_create_args s n) p")
  note c1' = cmdCombined_cases [OF st1 c1]
  obtain r2 p2 where c2: "cmdCombined h [tIpset t, ''flush'', n] p1 = (r2, p2)"
    by (cases "cmdCombined h [tIpset t, ''flush'', n] p1")
  show ?thesis
  proof (cases r1)
    case (Ok out1)
    with c1' have p1: "view v p1 = lx1" "ipsetPath p1 = ipsetPath p" by auto
    have "lx_step t [tIpset t, ''flush'', n] (view v p1) = Some (0, [], put_set n {} (view v p))"
      using st2 p1 by simp
    note c2' = cmdCombined_cases [OF this c2]
    show ?thesis
      using run path c1 Ok c2 c2' p1
      by (cases r2) (auto simp: ipset_createHashSet_def bindE_def wrapE_run lx1_def)
  next
    case (Err e)
    then show ?thesis using run path c1 c1'
      by (auto simp: ipset_createHashSet_def bindE_def wrapE_run lx1_def split: if_splits)
  next
    case (Panic k)
    then show ?thesis using c1' by auto
  qed
qed

lemma New_cases:
  assumes run: "ipset_New h n ''hash:ip'' zero_params p = (res, p')" and path: "path_ready t p"
  shows "path_ready t p' \<and>
     ((\<exists>s. res = Ok s \<and> setName s = n) \<and> ipsetPath p' = tIpset t \<and> view v p' = put_set n {} (view v p) \<or>
      (\<exists>e. res = Err e) \<and>
        (view v p' = view v p \<or> set_of (view v p) n = None \<and> view v p' = put_set n {} (view v p)))"
proof -
  define s where "s = \<lparr>setName = n, setHashType = ''hash:ip'', setHashFamily = ''inet'',
    setHashSize = 1024, setMaxElem = 65536, setTimeout = 0\<rparr>"
  have new: "ipset_New h n ''hash:ip'' zero_params =
      bindE (ipset_initCheck h) (\<lambda>_. bindE (ipset_createHashSet h s n) (\<lambda>_. returnE s))"
    by (simp add: ipset_New_def ipset_defaults_def zero_params_def s_def Let_def)
  obtain r1 p1 where i: "ipset_initCheck h p = (r1, p1)" by (cases "ipset_initCheck h p")
  note i' = initCheck_cases [OF i path]
  obtain r2 p2 where c: "ipset_createHashSet h s n p1 = (r2, p2)" by (cases "ipset_createHashSet h s n p1")
  show ?thesis
  proof (cases r1)
    case (Ok u)
    with i' have p1: "view v p1 = view v p" "ipsetPath p1 = tIpset t" by auto
    note c' = createHashSet_cases [OF c p1(2)]
    show ?thesis using run new i Ok c c' p1
      by (cases r2) (auto simp: bindE_def path_ready_def s_def)
  next
    case (Err e)
    then show ?thesis using run new i i' by (auto simp: bindE_def)
  next
    case (Panic k)
    then show ?thesis using i' by auto
  qed
qed

lemma Add_cases:
  assumes run: "ipset_Add h s e k p = (res, p')" and path: "ipsetPath p = tIpset t"
  shows "ipsetPath p' = tIpset t \<and>
     (res = Ok () \<and> (\<exists>es. set_of (view v p) (setName s) = Some es \<and>
                       view v p' = put_set (setName s) (insert e es) (view v p)) \<or>
      (\<exists>er. res = Err er) \<and> view v p' = view v p)"
proof -
  let ?argv = "[tIpset t, ''add'', setName s, e, ''timeout'', Itoa k, ''-exist'']"
  obtain r1 p1 where c: "cmdCombined h ?argv p = (r1, p1)" by (cases "cmdCombined h ?argv p")
  have p1: "p' = p1" and res: "(\<forall>x. r1 = Ok x \<longrightarrow> res = Ok ()) \<and> (\<forall>x. r1 = Err x \<longrightarrow> (\<exists>y. res = Err y))"
    using run c path by (auto simp: ipset_Add_def bindE_def wrapE_run split: outcome.splits)
  show ?thesis
  proof (cases "set_of (view v p) (setName s)")
    case None
    then have "lx_step t ?argv (view v p) = Some (1, [], view v p)"
      by (simp add: lx_step_def ipset_cmd_def)
    from cmdCombined_cases [OF this c] show ?thesis using p1 res path by auto
  next
    case (Some es)
    then have "lx_step t ?argv (view v p) = Some (0, [], put_set (setName s) (insert e es) (view v p))"
      by (simp add: lx_step_def ipset_cmd_def)
    from cmdCombined_cases [OF this c] show ?thesis using p1 res path Some by auto
  qed
qed

lemma Destroy_cases:
  assumes run: "ipset_Destroy h s p = (res, p')" and path: "ipsetPath p = tIpset t"
  shows "ipsetPath p' = tIpset t \<and>
     (res = Ok () \<and> set_of (view v p) (setName s) \<noteq> None \<and> \<not> set_in_use (view v p) (setName s) \<and>
        view v p' = drop_set (setName s) (view v p) \<or>
      (\<exists>er. res = Err er) \<and> view v p' = view v p)"
proof -
  let ?argv = "[tIpset t, ''destroy'', setName s]"
  obtain r1 p1 where c: "cmdCombined h ?argv p = (r1, p1)" by (cases "cmdCombined h ?argv p")
  have p1: "p' = p1" and res: "(\<forall>x. r1 = Ok x \<longrightarrow> res = Ok ()) \<and> (\<forall>x. r1 = Err x \<longrightarrow> (\<exists>y. res = Err y))"
    using run c path by (auto simp: ipset_Destroy_def bindE_def wrapE_run split: outcome.splits)
  show ?thesis
  proof (cases "set_of (view v p) (setName s) \<noteq> None \<and> \<not> set_in_use (view v p) (setName s)")
    case False
    then have "lx_step t ?argv (view v p) = Some (1, [], view v p)"
      by (auto simp: lx_step_def ipset_cmd_def split: option.split)
    from cmdCombined_cases [OF this c] show ?thesis using p1 res path by auto
  next
    case True
    then have "lx_step t ?argv (view v p) = Some (0, [], drop_set (setName s) (view v p))"
      by (auto simp: lx_step_def ipset_cmd_def)
    from cmdCombined_cases [OF this c] show ?thesis using p1 res path True by auto
  qed
qed

end

section \<open>A node without faults\<close>

text \<open>
  The same contract where no documented command fails for an outside reason, ipset is
  installed in a supported version and files can be read and extended: now the operations do return \<open>Ok\<close>.
\<close>

definition reliable :: "'w host \<Rightarrow> tools \<Rightarrow> ('w \<Rightarrow> linux) \<Rightarrow> bool" where
  "reliable h t v \<longleftrightarrow>
     (\<forall>argv w n out lx'. lx_step t argv (v w) = Some (n, out, lx') \<longrightarrow>
        (case hExec h argv w of
           (r, w') \<Rightarrow> xStatus r = Exited n \<and> (n = 0 \<longrightarrow> xStdout r = out) \<and> v w' = lx')) \<and>
     (\<forall>w. hLookPath h ''ipset'' w = Some (tIpset t)) \<and>
     (\<forall>w. case hExec h [tIpset t, ''--version''] w of
            (r, _) \<Rightarrow> cmd_error r = None \<and>
              (\<exists>m. find_short_version (xStdout r @ xStderr r) = Some m \<and> version_supported m = Some True)) \<and>
     (\<forall>f w. hReadFile h f w \<noteq> None \<and> hOpenAppend h f w) \<and>
     (\<forall>f s w. fst (hAppend h f s w))"

locale reliable_node = node_contract +
  assumes rel: "reliable h t v"
begin

lemma exec_exact:
  assumes "hExec h argv w = (r, w')" and "lx_step t argv (v w) = Some (n, out, lx')"
  shows "xStatus r = Exited n \<and> (n = 0 \<longrightarrow> xStdout r = out) \<and> v w' = lx'"
  using rel [unfolded reliable_def, THEN conjunct1] assms by fastforce

lemma ipt_run_exact:
  assumes ready: "ipt_ready t ipt"
    and step: "iptables_args (tChainExists t) args (view v p) = Some (n, out, lx')"
  shows "\<exists>m p'. ipt_run h ipt args p = (if n = 0 then Ok () else Err (ErrIptables n m), p')"
proof -
  obtain r w where ex: "hExec h (tIptables t # args @ [''--wait'']) (os p) = (r, w)"
    by (cases "hExec h (tIptables t # args @ [''--wait'']) (os p)")
  have "lx_step t (tIptables t # args @ [''--wait'']) (v (os p)) = Some (n, out, lx')"
    using step by (simp add: lx_step_def iptables_cmd_def view_def)
  from exec_exact [OF ex this] show ?thesis using ex ready
    by (auto simp: ipt_run_def ipt_runWithOutput_def ipt_ready_def bindE_def cmdResult_def ipt_error_def)
qed

lemma Exists_ok:
  assumes ready: "ipt_ready t ipt" and tab: "tab \<in> set known_tables"
    and valid: "spec_valid (view v p) tab spec"
  shows "\<exists>b p'. ipt_Exists h ipt tab ch spec p = (Ok b, p')"
proof -
  have "\<exists>n out lx'. n \<le> 1 \<and> iptables_args (tChainExists t) ([''-t'', tab, ''-C'', ch] @ spec) (view v p) = Some (n, out, lx')"
    unfolding iptables_check [OF tab] using valid by (auto simp: rule_cmd_def split: option.split)
  then obtain n out lx' where n: "n \<le> 1"
    and st: "iptables_args (tChainExists t) ([''-t'', tab, ''-C'', ch] @ spec) (view v p) = Some (n, out, lx')"
    by blast
  then consider "n = 0" | "n = 1" by linarith
  then show ?thesis using ipt_run_exact [OF ready st] ready
    by cases (auto simp: ipt_Exists_def ipt_ready_def catchE_def bindE_def)
qed

lemma edit_ok:
  assumes ready: "ipt_ready t ipt"
    and st: "\<exists>out lx'. iptables_args (tChainExists t) args (view v p) = Some (0, out, lx')"
  shows "\<exists>p'. ipt_run h ipt args p = (Ok (), p')"
  using st ipt_run_exact [OF ready] by fastforce

lemma Append_ok:
  "ipt_ready t ipt \<Longrightarrow> tab \<in> set known_tables \<Longrightarrow> spec_valid (view v p) tab spec \<Longrightarrow>
   rules_of (view v p) tab ch \<noteq> None \<Longrightarrow> \<exists>p'. ipt_Append h ipt tab ch spec p = (Ok (), p')"
  unfolding ipt_Append_def
  by (rule edit_ok, assumption) (subst iptables_append, assumption, auto simp: rule_cmd_def)

lemma Insert_ok:
  "ipt_ready t ipt \<Longrightarrow> tab \<in> set known_tables \<Longrightarrow> spec_valid (view v p) tab spec \<Longrightarrow>
   rules_of (view v p) tab ch \<noteq> None \<Longrightarrow> \<exists>p'. ipt_Insert h ipt tab ch 1 spec p = (Ok (), p')"
  unfolding ipt_Insert_def
  by (rule edit_ok, assumption) (subst iptables_insert, assumption, auto simp: rule_cmd_def)

lemma Delete_ok:
  "ipt_ready t ipt \<Longrightarrow> tab \<in> set known_tables \<Longrightarrow> spec_valid (view v p) tab spec \<Longrightarrow>
   rules_of (view v p) tab ch = Some rs \<Longrightarrow> spec \<in> set rs \<Longrightarrow>
   \<exists>p'. ipt_Delete h ipt tab ch spec p = (Ok (), p')"
  unfolding ipt_Delete_def
  by (rule edit_ok, assumption) (subst iptables_delete, assumption, auto simp: rule_cmd_def)

lemma NewChain_ok:
  assumes ready: "ipt_ready t ipt" and tab: "tab \<in> set known_tables"
  shows "\<exists>p'. ipt_NewChain h ipt tab ch p = (Ok (), p') \<or>
     rules_of (view v p) tab ch \<noteq> None \<and>
     (\<exists>m. ipt_NewChain h ipt tab ch p = (Err (ErrIptables (tChainExists t) m), p'))"
proof -
  obtain n out lx' where n: "n = 0 \<or> rules_of (view v p) tab ch \<noteq> None \<and> n = tChainExists t"
    and st: "iptables_args (tChainExists t) [''-t'', tab, ''-N'', ch] (view v p) = Some (n, out, lx')"
    by (cases "rules_of (view v p) tab ch") (auto simp: iptables_newchain [OF tab])
  from ipt_run_exact [OF ready st] n show ?thesis by (auto simp: ipt_NewChain_def split: if_splits)
qed

lemma cmdOutput_ok:
  "lx_step t argv (view v p) = Some (0, out, lx') \<Longrightarrow> \<exists>p'. cmdOutput h argv p = (Ok out, p')"
  by (cases "hExec h argv (os p)") (auto simp: cmdOutput_run cmd_error_def view_def dest: exec_exact)

lemma cmdRun_ok:
  "lx_step t argv (view v p) = Some (0, out, lx') \<Longrightarrow> \<exists>p'. cmdRun h argv p = (Ok (), p')"
  by (cases "hExec h argv (os p)") (auto simp: cmdRun_run cmd_error_def view_def dest: exec_exact)

lemma cmdCombined_ok:
  "lx_step t argv (view v p) = Some (0, out, lx') \<Longrightarrow> \<exists>x p'. cmdCombined h argv p = (Ok x, p')"
  by (cases "hExec h argv (os p)") (auto simp: cmdCombined_run cmd_error_def view_def dest: exec_exact)

lemma version_known:
  "case hExec h [tIpset t, ''--version''] w of
     (r, _) \<Rightarrow> cmd_error r = None \<and>
       (\<exists>m. find_short_version (xStdout r @ xStderr r) = Some m \<and> version_supported m = Some True)"
  by (rule rel [unfolded reliable_def, THEN conjunct2, THEN conjunct2, THEN conjunct1, THEN spec])

lemma initCheck_ok:
  assumes "path_ready t p" shows "\<exists>p'. ipset_initCheck h p = (Ok (), p')"
proof (cases "ipsetPath p = []")
  case False
  then show ?thesis by (simp add: ipset_initCheck_def)
next
  case True
  obtain r w where ex: "hExec h [tIpset t, ''--version''] (os p) = (r, w)"
    by (cases "hExec h [tIpset t, ''--version''] (os p)")
  have look: "hLookPath h ''ipset'' (os p) = Some (tIpset t)"
    by (rule rel [unfolded reliable_def, THEN conjunct2, THEN conjunct1, THEN spec])
  from version_known [of "os p"] ex obtain m where m: "cmd_error r = None"
      "find_short_version (xStdout r @ xStderr r) = Some m" "version_supported m = Some True"
    by (auto simp only: prod.case)
  define q where "q = p\<lparr>ipsetPath := tIpset t\<rparr>"
  have q: "os q = os p" "ipsetPath q = tIpset t" by (simp_all add: q_def)
  have c: "cmdCombined h [tIpset t, ''--version''] q = (Ok (xStdout r @ xStderr r), q\<lparr>os := w\<rparr>)"
    using ex m(1) q by (simp add: cmdCombined_run)
  have "ipset_getIpsetVersionString h q = (Ok m, q\<lparr>os := w\<rparr>)"
    by (simp only: ipset_getIpsetVersionString_def q(2) bindE_def c prod.case outcome.case m(2) option.case returnE_run)
  then have "ipset_getIpsetSupportedVersion h q = (Ok True, q\<lparr>os := w\<rparr>)"
    by (simp add: ipset_getIpsetSupportedVersion_def bindE_def m(3))
  then show ?thesis using True look
    by (simp add: ipset_initCheck_def catchE_def bindE_def q_def)
qed

lemma New_ok:
  assumes path: "path_ready t p"
  shows "\<exists>s p'. ipset_New h n ''hash:ip'' zero_params p = (Ok s, p')"
proof -
  obtain p1 where i: "ipset_initCheck h p = (Ok (), p1)" using initCheck_ok [OF path] by blast
  from initCheck_cases [OF i path] have p1: "ipsetPath p1 = tIpset t" by simp
  define s where "s = \<lparr>setName = n, setHashType = ''hash:ip'', setHashFamily = ''inet'',
    setHashSize = 1024, setMaxElem = 65536, setTimeout = 0\<rparr>"
  define lx1 where "lx1 = (if set_of (view v p1) n = None then put_set n {} (view v p1) else view v p1)"
  have st1: "lx_step t (tIpset t # ipset_create_args s n) (view v p1) = Some (0, [], lx1)"
    by (simp add: lx_step_def ipset_cmd_def ipset_create_args_def lx1_def)
  obtain x1 p2 where c1: "cmdCombined h (tIpset t # ipset_create_args s n) p1 = (Ok x1, p2)"
    using cmdCombined_ok [OF st1] by blast
  have p2: "view v p2 = lx1"
  proof -
    obtain r w where ex: "hExec h (tIpset t # ipset_create_args s n) (os p1) = (r, w)"
      by (cases "hExec h (tIpset t # ipset_create_args s n) (os p1)")
    from exec_exact [OF ex st1 [unfolded view_def]] show ?thesis
      using c1 ex by (auto simp: cmdCombined_run view_def split: option.splits)
  qed
  have "lx_step t [tIpset t, ''flush'', n] (view v p2) = Some (0, [], put_set n {} lx1)"
    unfolding p2 by (auto simp: lx_step_def ipset_cmd_def lx1_def)
  from cmdCombined_ok [OF this] obtain x2 p3 where c2: "cmdCombined h [tIpset t, ''flush'', n] p2 = (Ok x2, p3)"
    by blast
  have "ipset_createHashSet h s n p1 = (Ok (), p3)"
    using c1 c2 p1 by (auto simp: ipset_createHashSet_def bindE_def wrapE_run cmdCombined_run
        split: option.splits prod.splits)
  then show ?thesis using i
    by (auto simp: ipset_New_def ipset_defaults_def zero_params_def s_def Let_def bindE_def)
qed

lemma Add_ok:
  assumes "ipsetPath p = tIpset t" and "set_of (view v p) (setName s) \<noteq> None"
  shows "\<exists>p'. ipset_Add h s e k p = (Ok (), p')"
proof -
  from assms(2) obtain es where "set_of (view v p) (setName s) = Some es" by blast
  then have "lx_step t [tIpset t, ''add'', setName s, e, ''timeout'', Itoa k, ''-exist''] (view v p) =
      Some (0, [], put_set (setName s) (insert e es) (view v p))"
    by (simp add: lx_step_def ipset_cmd_def)
  from cmdCombined_ok [OF this] assms(1) show ?thesis
    by (auto simp: ipset_Add_def bindE_def wrapE_run)
qed

lemma Destroy_ok:
  assumes "ipsetPath p = tIpset t" and "set_of (view v p) (setName s) \<noteq> None"
    and "\<not> set_in_use (view v p) (setName s)"
  shows "\<exists>p'. ipset_Destroy h s p = (Ok (), p')"
proof -
  have "lx_step t [tIpset t, ''destroy'', setName s] (view v p) =
      Some (0, [], drop_set (setName s) (view v p))"
    using assms by (auto simp: lx_step_def ipset_cmd_def)
  from cmdCombined_ok [OF this] assms(1) show ?thesis
    by (auto simp: ipset_Destroy_def bindE_def wrapE_run)
qed

end

end
