(* ===== verification/RuleOps.thy ===== *)
theory RuleOps
  imports NodeContract
begin

text \<open>
  The building blocks that the director and the gateway share: filling an ipset, adding a
  rule unless it exists, removing a rule if it exists. On a documented node each of them
  refines a function on the observable state, and whatever happens it only makes edits
  of the relation \<open>node_edit\<close>.
\<close>

section \<open>The program\<close>

text \<open>\<open>director.go\<close> 109-123 and, with the same statements, \<open>gateway.go\<close> 82-96.\<close>

definition fill_set :: "'w host \<Rightarrow> string \<Rightarrow> string list \<Rightarrow> ('w proc, unit) prog" where
  "fill_set h name ips =
     bindE (wrapE ''Failed to create ipset'' (ipset_New h name ''hash:ip'' zero_params))
       (\<lambda>set. forE ips (\<lambda>ip. wrapE ''Failed to add an ip'' (ipset_Add h set ip 0)))"

text \<open>
  \<open>err := ipt.NewChain(\<dots>); if err != nil && err.(*iptables.Error).ExitStatus() != 1\<close>: the
  type assertion panics on an error that iptables did not report itself.
\<close>

definition newChainOrPanic :: "'w host \<Rightarrow> ip_tables \<Rightarrow> string \<Rightarrow> string \<Rightarrow> string \<Rightarrow> ('w proc, unit) prog" where
  "newChainOrPanic h ipt tab ch msg =
     catchE (ipt_NewChain h ipt tab ch)
       (\<lambda>e. case e of
              ErrIptables n m \<Rightarrow> if n \<noteq> 1 then failE (ErrWrap msg e) else returnE ()
            | _ \<Rightarrow> panicE TypeAssertion)"

section \<open>The same on the observable state\<close>

text \<open>
  \<open>None\<close> where the kernel refuses: the chain is missing, or the rule names a set or a
  chain that does not exist.
\<close>

definition has_rule :: "linux \<Rightarrow> string \<Rightarrow> string \<Rightarrow> string list \<Rightarrow> bool option" where
  "has_rule lx tab ch spec =
     (if spec_valid lx tab spec
      then Some (case rules_of lx tab ch of None \<Rightarrow> False | Some rs \<Rightarrow> spec \<in> set rs) else None)"

definition have_front :: "string \<Rightarrow> string \<Rightarrow> string list \<Rightarrow> linux \<Rightarrow> linux option" where
  "have_front tab ch spec lx =
     (if \<not> spec_valid lx tab spec then None
      else map_option (\<lambda>rs. if spec \<in> set rs then lx else put_rules tab ch (spec # rs) lx) (rules_of lx tab ch))"

definition have_back :: "string \<Rightarrow> string \<Rightarrow> string list \<Rightarrow> linux \<Rightarrow> linux option" where
  "have_back tab ch spec lx =
     (if \<not> spec_valid lx tab spec then None
      else map_option (\<lambda>rs. if spec \<in> set rs then lx else put_rules tab ch (rs @ [spec]) lx) (rules_of lx tab ch))"

definition have_not :: "string \<Rightarrow> string \<Rightarrow> string list \<Rightarrow> linux \<Rightarrow> linux option" where
  "have_not tab ch spec lx =
     (if \<not> spec_valid lx tab spec then None
      else case rules_of lx tab ch of
             None \<Rightarrow> Some lx
           | Some rs \<Rightarrow> Some (if spec \<in> set rs then put_rules tab ch (remove1 spec rs) lx else lx))"

text \<open>Deleting without asking first: an absent rule is an error.\<close>

definition take_out :: "string \<Rightarrow> string \<Rightarrow> string list \<Rightarrow> linux \<Rightarrow> linux option" where
  "take_out tab ch spec lx =
     (if \<not> spec_valid lx tab spec then None
      else Option.bind (rules_of lx tab ch)
             (\<lambda>rs. if spec \<in> set rs then Some (put_rules tab ch (remove1 spec rs) lx) else None))"

text \<open>Creating a chain, an existing one tolerated when iptables reports it with status 1.\<close>

definition have_chain :: "tools \<Rightarrow> string \<Rightarrow> string \<Rightarrow> linux \<Rightarrow> linux option" where
  "have_chain t tab ch lx =
     (if rules_of lx tab ch = None then Some (put_rules tab ch [] lx)
      else if tChainExists t = 1 then Some lx else None)"

definition have_set :: "string \<Rightarrow> string list \<Rightarrow> linux \<Rightarrow> linux option" where
  "have_set n ips lx = Some (put_set n (set ips) lx)"

definition free_set :: "string \<Rightarrow> linux \<Rightarrow> linux option" where
  "free_set n lx = (if set_of lx n = None \<or> set_in_use lx n then None else Some (drop_set n lx))"

text \<open>Steps in a row.\<close>

definition steps :: "(linux \<Rightarrow> linux option) list \<Rightarrow> linux \<Rightarrow> linux option" where
  "steps fs lx = foldl (\<lambda>m f. Option.bind m f) (Some lx) fs"

lemma foldl_bind_None [simp]: "foldl (\<lambda>m f. Option.bind m f) None fs = None"
  by (induction fs) auto

lemma steps_simps [simp]:
  "steps [] lx = Some lx" "steps (f # fs) lx = Option.bind (f lx) (steps fs)"
  by (cases "f lx"; simp add: steps_def)+

lemma steps_Nil: "steps [] = Some"
  by (rule ext) simp

lemma Option_bind_Some_iff: "Option.bind m f = Some y \<longleftrightarrow> (\<exists>x. m = Some x \<and> f x = Some y)"
  by (cases m) auto

section \<open>Edits\<close>

text \<open>
  One step of what this program may do to a node. A rule goes in only where it is absent,
  names only sets and chains that exist, and a set is dropped only when no rule uses it.
\<close>

inductive node_edit :: "linux \<Rightarrow> linux \<Rightarrow> bool" where
  edit_set: "node_edit lx (put_set n es lx)"
| edit_drop: "\<not> set_in_use lx n \<Longrightarrow> node_edit lx (drop_set n lx)"
| edit_front: "rules_of lx tab ch = Some rs \<Longrightarrow> spec \<notin> set rs \<Longrightarrow> spec_valid lx tab spec \<Longrightarrow>
     node_edit lx (put_rules tab ch (spec # rs) lx)"
| edit_back: "rules_of lx tab ch = Some rs \<Longrightarrow> spec \<notin> set rs \<Longrightarrow> spec_valid lx tab spec \<Longrightarrow>
     node_edit lx (put_rules tab ch (rs @ [spec]) lx)"
| edit_remove: "rules_of lx tab ch = Some rs \<Longrightarrow> spec \<in> set rs \<Longrightarrow>
     node_edit lx (put_rules tab ch (remove1 spec rs) lx)"
| edit_chain: "rules_of lx tab ch = None \<Longrightarrow> node_edit lx (put_rules tab ch [] lx)"
| edit_tunnel: "n \<notin> set (lxLinks lx) \<Longrightarrow> node_edit lx (add_tunnel n r l lx)"
| edit_up: "n \<in> set (lxLinks lx) \<Longrightarrow> node_edit lx (link_up n lx)"
| edit_route: "n \<in> set (lxLinks lx) \<Longrightarrow> d \<notin> fst ` set (routes_of lx tab) \<Longrightarrow>
     node_edit lx (add_route tab d n lx)"
| edit_unroute: "(d, ViaGateway g) \<in> set (routes_of lx tab) \<Longrightarrow>
     node_edit lx (put_routes tab (remove1 (d, ViaGateway g) (routes_of lx tab)) lx)"
| edit_policy: "node_edit lx (add_policy m tab lx)"

abbreviation node_edits :: "linux \<Rightarrow> linux \<Rightarrow> bool" where
  "node_edits \<equiv> node_edit\<^sup>*\<^sup>*"

lemma node_edits1: "node_edit lx lx' \<Longrightarrow> node_edits lx lx'"
  by (rule r_into_rtranclp)

lemmas node_edits_intros = node_edit.intros [THEN node_edits1]

text \<open>Invariants of every edit, hence of every sequence of edits.\<close>

definition rules_once :: "linux \<Rightarrow> bool" where
  "rules_once lx \<longleftrightarrow> (\<forall>tab ch rs. rules_of lx tab ch = Some rs \<longrightarrow> distinct rs)"

definition sets_present :: "linux \<Rightarrow> bool" where
  "sets_present lx \<longleftrightarrow>
     (\<forall>tab ch rs r n. rules_of lx tab ch = Some rs \<longrightarrow> r \<in> set rs \<longrightarrow> n \<in> set (match_sets r) \<longrightarrow>
        set_of lx n \<noteq> None)"

definition routes_once :: "linux \<Rightarrow> bool" where
  "routes_once lx \<longleftrightarrow> (\<forall>tab. distinct (map fst (routes_of lx tab)))"

definition route_devs_exist :: "linux \<Rightarrow> bool" where
  "route_devs_exist lx \<longleftrightarrow>
     (\<forall>tab d n. (d, OnDevice n) \<in> set (routes_of lx tab) \<longrightarrow> n \<in> set (lxLinks lx))"

definition node_wf :: "linux \<Rightarrow> bool" where
  "node_wf lx \<longleftrightarrow> rules_once lx \<and> sets_present lx \<and> routes_once lx \<and> route_devs_exist lx \<and>
     distinct (lxLinks lx) \<and> lxUp lx \<subseteq> set (lxLinks lx)"

lemma spec_valid_sets: "spec_valid lx tab spec \<Longrightarrow> n \<in> set (match_sets spec) \<Longrightarrow> set_of lx n \<noteq> None"
  by (simp add: spec_valid_def list_all_iff)

lemma node_edit_rules_once: "node_edit lx lx' \<Longrightarrow> rules_once lx \<Longrightarrow> rules_once lx'"
  by (induction rule: node_edit.induct) (auto simp: rules_once_def distinct_remove1)

lemma sets_presentD:
  "sets_present lx \<Longrightarrow> rules_of lx tab ch = Some rs \<Longrightarrow> r \<in> set rs \<Longrightarrow> n \<in> set (match_sets r) \<Longrightarrow>
     set_of lx n \<noteq> None"
  by (simp add: sets_present_def)

lemma sets_present_put_rules:
  assumes "sets_present lx"
    and "\<And>r n. r \<in> set rs \<Longrightarrow> n \<in> set (match_sets r) \<Longrightarrow> set_of lx n \<noteq> None"
  shows "sets_present (put_rules tab ch rs lx)"
  using assms by (simp add: sets_present_def)

lemma node_edit_sets_present:
  assumes "node_edit lx lx'" and wf: "sets_present lx"
  shows "sets_present lx'"
  using assms(1)
proof cases
  case (edit_drop n)
  then show ?thesis using wf by (auto simp: sets_present_def set_in_use_iff)
next
  case (edit_front tab ch rs spec)
  show ?thesis unfolding edit_front(1)
    using sets_presentD [OF wf edit_front(2)] spec_valid_sets [OF edit_front(4)]
    by (intro sets_present_put_rules [OF wf]) auto
next
  case (edit_back tab ch rs spec)
  show ?thesis unfolding edit_back(1)
    using sets_presentD [OF wf edit_back(2)] spec_valid_sets [OF edit_back(4)]
    by (intro sets_present_put_rules [OF wf]) auto
next
  case (edit_remove tab ch rs spec)
  show ?thesis unfolding edit_remove(1)
    using sets_presentD [OF wf edit_remove(2)]
    by (intro sets_present_put_rules [OF wf]) (auto dest: notin_set_remove1)
qed (use wf in \<open>auto simp: sets_present_def\<close>)

lemma map_fst_remove1: "distinct (map fst xs) \<Longrightarrow> distinct (map fst (remove1 x xs))"
proof (induction xs)
  case (Cons a xs)
  have "fst ` set (remove1 x xs) \<subseteq> fst ` set xs" by (intro image_mono set_remove1_subset)
  with Cons show ?case by auto
qed simp

lemma node_edit_routes_once: "node_edit lx lx' \<Longrightarrow> routes_once lx \<Longrightarrow> routes_once lx'"
  by (induction rule: node_edit.induct) (auto simp: routes_once_def intro: map_fst_remove1)

lemma node_edit_route_devs: "node_edit lx lx' \<Longrightarrow> route_devs_exist lx \<Longrightarrow> route_devs_exist lx'"
  by (induction rule: node_edit.induct)
    (auto simp: route_devs_exist_def dest: notin_set_remove1 split: if_splits)

lemma node_edit_links:
  "node_edit lx lx' \<Longrightarrow> distinct (lxLinks lx) \<and> lxUp lx \<subseteq> set (lxLinks lx) \<Longrightarrow>
     distinct (lxLinks lx') \<and> lxUp lx' \<subseteq> set (lxLinks lx')"
  by (induction rule: node_edit.induct) auto

lemma node_edit_wf: "node_edit lx lx' \<Longrightarrow> node_wf lx \<Longrightarrow> node_wf lx'"
  unfolding node_wf_def
  using node_edit_rules_once node_edit_sets_present node_edit_routes_once node_edit_route_devs
    node_edit_links
  by blast

lemma node_edits_wf: "node_edits lx lx' \<Longrightarrow> node_wf lx \<Longrightarrow> node_wf lx'"
  by (induction rule: rtranclp_induct) (auto intro: node_edit_wf)

lemma known_tables_simps [simp]:
  "''nat'' \<in> set known_tables" "''filter'' \<in> set known_tables" "''mangle'' \<in> set known_tables"
  by (simp_all add: known_tables_def)

section \<open>Which rules there are\<close>

definition rule_in :: "linux \<Rightarrow> string \<Rightarrow> string \<Rightarrow> string list \<Rightarrow> bool" where
  "rule_in lx tab ch spec \<longleftrightarrow> (case rules_of lx tab ch of None \<Rightarrow> False | Some rs \<Rightarrow> spec \<in> set rs)"

definition chain_in :: "linux \<Rightarrow> string \<Rightarrow> string \<Rightarrow> bool" where
  "chain_in lx tab ch \<longleftrightarrow> rules_of lx tab ch \<noteq> None"

text \<open>The parts of the state that rules and chains are not.\<close>

definition same_rest :: "linux \<Rightarrow> linux \<Rightarrow> bool" where
  "same_rest lx lx' \<longleftrightarrow> routes_of lx' = routes_of lx \<and> lxLinks lx' = lxLinks lx \<and> lxUp lx' = lxUp lx \<and>
     lxPolicy lx' = lxPolicy lx \<and> tunnel_of lx' = tunnel_of lx"

lemma jump_valid [simp]:
  "match_sets [''-j'', ch] = []"
  "spec_valid lx tab [''-j'', ch] \<longleftrightarrow> ch \<in> set builtin_targets \<or> chain_in lx tab ch"
  by (simp_all add: spec_valid_def match_sets_def jump_target_def one_argument_def chain_in_def)

lemma same_rest_refl [simp]: "same_rest lx lx"
  by (simp add: same_rest_def)

lemma same_rest_trans: "same_rest a b \<Longrightarrow> same_rest b c \<Longrightarrow> same_rest a c"
  by (simp add: same_rest_def)

lemma same_rest_put [simp]:
  "same_rest lx (put_rules tab ch rs lx)" "same_rest lx (put_set n es lx)" "same_rest lx (drop_set n lx)"
  by (simp_all add: same_rest_def)

lemma rule_in_put_rules:
  "rule_in (put_rules tab ch rs lx) tab' ch' spec \<longleftrightarrow>
     (if tab' = tab \<and> ch' = ch then spec \<in> set rs else rule_in lx tab' ch' spec)"
  by (simp add: rule_in_def)

lemma chain_in_put [simp]:
  "chain_in (put_rules tab ch rs lx) tab' ch' \<longleftrightarrow> tab' = tab \<and> ch' = ch \<or> chain_in lx tab' ch'"
  "chain_in (put_set n es lx) tab' ch' \<longleftrightarrow> chain_in lx tab' ch'"
  "chain_in (drop_set n lx) tab' ch' \<longleftrightarrow> chain_in lx tab' ch'"
  by (auto simp: chain_in_def)

lemma rule_in_put_set [simp]:
  "rule_in (put_set n es lx) = rule_in lx" "rule_in (drop_set n lx) = rule_in lx"
  by (simp_all add: rule_in_def fun_eq_iff)

lemma have_front_Some:
  assumes "have_front tab ch spec lx = Some lx'"
  shows "chain_in lx tab ch" and "spec_valid lx tab spec" and "same_rest lx lx'" and "set_of lx' = set_of lx"
    and "chain_in lx' = chain_in lx"
    and "rule_in lx' tab' ch' r \<longleftrightarrow> rule_in lx tab' ch' r \<or> tab' = tab \<and> ch' = ch \<and> r = spec"
proof -
  obtain rs where rs: "rules_of lx tab ch = Some rs" "spec_valid lx tab spec"
      "lx' = (if spec \<in> set rs then lx else put_rules tab ch (spec # rs) lx)"
    using assms by (auto simp: have_front_def split: if_splits)
  show "chain_in lx tab ch" and "spec_valid lx tab spec" and "same_rest lx lx'" and "set_of lx' = set_of lx"
    and "chain_in lx' = chain_in lx"
    and "rule_in lx' tab' ch' r \<longleftrightarrow> rule_in lx tab' ch' r \<or> tab' = tab \<and> ch' = ch \<and> r = spec"
    unfolding rs(3) using rs(1,2)
    by (cases "spec \<in> set rs"; auto simp: chain_in_def rule_in_def fun_eq_iff)+
qed

lemma have_back_Some:
  assumes "have_back tab ch spec lx = Some lx'"
  shows "chain_in lx tab ch" and "spec_valid lx tab spec" and "same_rest lx lx'" and "set_of lx' = set_of lx"
    and "chain_in lx' = chain_in lx"
    and "rule_in lx' tab' ch' r \<longleftrightarrow> rule_in lx tab' ch' r \<or> tab' = tab \<and> ch' = ch \<and> r = spec"
proof -
  obtain rs where rs: "rules_of lx tab ch = Some rs" "spec_valid lx tab spec"
      "lx' = (if spec \<in> set rs then lx else put_rules tab ch (rs @ [spec]) lx)"
    using assms by (auto simp: have_back_def split: if_splits)
  show "chain_in lx tab ch" and "spec_valid lx tab spec" and "same_rest lx lx'" and "set_of lx' = set_of lx"
    and "chain_in lx' = chain_in lx"
    and "rule_in lx' tab' ch' r \<longleftrightarrow> rule_in lx tab' ch' r \<or> tab' = tab \<and> ch' = ch \<and> r = spec"
    unfolding rs(3) using rs(1,2)
    by (cases "spec \<in> set rs"; auto simp: chain_in_def rule_in_def fun_eq_iff)+
qed

lemma have_chain_Some:
  assumes "have_chain t tab ch lx = Some lx'"
  shows "same_rest lx lx'" and "set_of lx' = set_of lx"
    and "chain_in lx' tab' ch' \<longleftrightarrow> chain_in lx tab' ch' \<or> tab' = tab \<and> ch' = ch"
    and "rule_in lx' = rule_in lx"
  using assms by (auto simp: have_chain_def chain_in_def rule_in_def fun_eq_iff split: if_splits option.splits)

text \<open>Removing needs that a rule occurs once, which \<open>rules_once\<close> says.\<close>

lemma have_not_Some:
  assumes "have_not tab ch spec lx = Some lx'"
  shows "spec_valid lx tab spec" and "same_rest lx lx'" and "set_of lx' = set_of lx" and "chain_in lx' = chain_in lx"
    and "rules_once lx \<Longrightarrow>
      rule_in lx' tab' ch' r \<longleftrightarrow> rule_in lx tab' ch' r \<and> \<not> (tab' = tab \<and> ch' = ch \<and> r = spec)"
  using assms
  by (auto simp: have_not_def chain_in_def rule_in_def fun_eq_iff rules_once_def split: if_splits option.splits)

lemma take_out_Some:
  assumes "take_out tab ch spec lx = Some lx'"
  shows "rule_in lx tab ch spec" and "same_rest lx lx'" and "set_of lx' = set_of lx" and "chain_in lx' = chain_in lx"
    and "rules_once lx \<Longrightarrow>
      rule_in lx' tab' ch' r \<longleftrightarrow> rule_in lx tab' ch' r \<and> \<not> (tab' = tab \<and> ch' = ch \<and> r = spec)"
  using assms
  by (auto simp: take_out_def chain_in_def rule_in_def fun_eq_iff rules_once_def Option_bind_Some_iff
      split: if_splits option.splits)

lemma set_in_use_rule_in:
  "set_in_use lx n \<longleftrightarrow> (\<exists>tab ch r. rule_in lx tab ch r \<and> n \<in> set (match_sets r))"
  unfolding set_in_use_iff rule_in_def by (fastforce split: option.splits)

lemma unused_set:
  assumes "node_wf lx" and "set_of lx n = None" and "rule_in lx tab ch r"
  shows "n \<notin> set (match_sets r)"
proof
  assume n: "n \<in> set (match_sets r)"
  from assms(3) obtain rs where "rules_of lx tab ch = Some rs" "r \<in> set rs"
    by (auto simp: rule_in_def split: option.splits)
  from sets_presentD [OF _ this n] assms(1,2) show False by (simp add: node_wf_def)
qed

text \<open>Where the effects are defined.\<close>

lemma have_front_ex: "chain_in lx tab ch \<Longrightarrow> spec_valid lx tab spec \<Longrightarrow> \<exists>lx'. have_front tab ch spec lx = Some lx'"
  by (auto simp: have_front_def chain_in_def)

lemma have_back_ex: "chain_in lx tab ch \<Longrightarrow> spec_valid lx tab spec \<Longrightarrow> \<exists>lx'. have_back tab ch spec lx = Some lx'"
  by (auto simp: have_back_def chain_in_def)

lemma have_chain_ex: "tChainExists t = 1 \<or> \<not> chain_in lx tab ch \<Longrightarrow> \<exists>lx'. have_chain t tab ch lx = Some lx'"
  by (auto simp: have_chain_def chain_in_def)

lemma have_not_ex: "spec_valid lx tab spec \<Longrightarrow> \<exists>lx'. have_not tab ch spec lx = Some lx'"
  by (auto simp: have_not_def split: option.split)

lemma take_out_ex: "rule_in lx tab ch spec \<Longrightarrow> spec_valid lx tab spec \<Longrightarrow> \<exists>lx'. take_out tab ch spec lx = Some lx'"
  by (auto simp: take_out_def rule_in_def split: option.splits)

lemma have_front_again: "rule_in lx tab ch spec \<Longrightarrow> spec_valid lx tab spec \<Longrightarrow> have_front tab ch spec lx = Some lx"
  by (cases "rules_of lx tab ch") (simp_all add: have_front_def rule_in_def)

lemma have_back_again: "rule_in lx tab ch spec \<Longrightarrow> spec_valid lx tab spec \<Longrightarrow> have_back tab ch spec lx = Some lx"
  by (cases "rules_of lx tab ch") (simp_all add: have_back_def rule_in_def)

lemma node_edits_keep_once: "node_edits lx lx' \<Longrightarrow> rules_once lx \<Longrightarrow> rules_once lx'"
  by (induction rule: rtranclp_induct) (auto intro: node_edit_rules_once)

lemma rules_once_take_out: "take_out tab ch spec lx = Some lx' \<Longrightarrow> rules_once lx \<Longrightarrow> rules_once lx'"
  by (auto simp: take_out_def rules_once_def Option_bind_Some_iff distinct_remove1 split: if_splits)

lemma rules_once_have_not: "have_not tab ch spec lx = Some lx' \<Longrightarrow> rules_once lx \<Longrightarrow> rules_once lx'"
  by (auto simp: have_not_def rules_once_def distinct_remove1 split: if_splits option.splits)

section \<open>Implementing an effect\<close>

text \<open>
  \<open>implements h t v k m f\<close>: started with ipset looked up (\<open>k\<close>) or possibly not yet, the
  program \<open>m\<close> makes only edits, however it ends; when it returns \<open>Ok\<close> the state is the one
  \<open>f\<close> computes; and on a node without faults it does return \<open>Ok\<close> wherever \<open>f\<close> is defined.
\<close>

definition path_at :: "tools \<Rightarrow> bool \<Rightarrow> 'w proc \<Rightarrow> bool" where
  "path_at t k p \<longleftrightarrow> (if k then ipsetPath p = tIpset t else path_ready t p)"

lemma path_at_simps [simp]:
  "path_at t True p \<longleftrightarrow> ipsetPath p = tIpset t" "path_at t False p \<longleftrightarrow> path_ready t p"
  by (simp_all add: path_at_def)

lemma path_at_same: "path_at t k p \<Longrightarrow> ipsetPath p' = ipsetPath p \<Longrightarrow> path_at t k p'"
  by (auto simp: path_at_def path_ready_def)

definition implements ::
  "'w host \<Rightarrow> tools \<Rightarrow> ('w \<Rightarrow> linux) \<Rightarrow> bool \<Rightarrow> ('w proc, 'a) prog \<Rightarrow> (linux \<Rightarrow> linux option) \<Rightarrow> bool" where
  "implements h t v k m f \<longleftrightarrow>
     (\<forall>p r p'. path_at t k p \<longrightarrow> m p = (r, p') \<longrightarrow>
        path_at t k p' \<and> node_edits (view v p) (view v p') \<and>
        (\<forall>x. r = Ok x \<longrightarrow> f (view v p) = Some (view v p')) \<and>
        (reliable h t v \<longrightarrow> f (view v p) \<noteq> None \<longrightarrow> (\<exists>x. r = Ok x)))"

text \<open>The same from the states where \<open>P\<close> holds.\<close>

definition implements_when ::
  "'w host \<Rightarrow> tools \<Rightarrow> ('w \<Rightarrow> linux) \<Rightarrow> bool \<Rightarrow> (linux \<Rightarrow> bool) \<Rightarrow> ('w proc, 'a) prog \<Rightarrow>
     (linux \<Rightarrow> linux option) \<Rightarrow> bool" where
  "implements_when h t v k P m f \<longleftrightarrow>
     (\<forall>p r p'. path_at t k p \<longrightarrow> P (view v p) \<longrightarrow> m p = (r, p') \<longrightarrow>
        path_at t k p' \<and> node_edits (view v p) (view v p') \<and>
        (\<forall>x. r = Ok x \<longrightarrow> f (view v p) = Some (view v p')) \<and>
        (reliable h t v \<longrightarrow> f (view v p) \<noteq> None \<longrightarrow> (\<exists>x. r = Ok x)))"

text \<open>A question: the state is left alone and the answer, where there is one, is a function of it.\<close>

definition asks ::
  "'w host \<Rightarrow> tools \<Rightarrow> ('w \<Rightarrow> linux) \<Rightarrow> bool \<Rightarrow> ('w proc, 'a) prog \<Rightarrow> (linux \<Rightarrow> 'a option) \<Rightarrow> bool" where
  "asks h t v k m q \<longleftrightarrow>
     (\<forall>p r p'. path_at t k p \<longrightarrow> m p = (r, p') \<longrightarrow>
        path_at t k p' \<and> view v p' = view v p \<and> (\<forall>x. r = Ok x \<longrightarrow> q (view v p) = Some x) \<and>
        (reliable h t v \<longrightarrow> q (view v p) \<noteq> None \<longrightarrow> (\<exists>x. r = Ok x)))"

lemma implementsI:
  assumes "\<And>p r p'. path_at t k p \<Longrightarrow> m p = (r, p') \<Longrightarrow>
      path_at t k p' \<and> node_edits (view v p) (view v p') \<and>
      (\<forall>x. r = Ok x \<longrightarrow> f (view v p) = Some (view v p')) \<and>
      (reliable h t v \<longrightarrow> f (view v p) \<noteq> None \<longrightarrow> (\<exists>x. r = Ok x))"
  shows "implements h t v k m f"
  using assms by (simp add: implements_def)

lemma implementsD:
  assumes "implements h t v k m f" and "path_at t k p" and "m p = (r, p')"
  shows "path_at t k p'" and "node_edits (view v p) (view v p')"
    and "\<And>x. r = Ok x \<Longrightarrow> f (view v p) = Some (view v p')"
    and "reliable h t v \<Longrightarrow> f (view v p) \<noteq> None \<Longrightarrow> \<exists>x. r = Ok x"
  using assms unfolding implements_def by blast+

lemma asksD:
  assumes "asks h t v k m q" and "path_at t k p" and "m p = (r, p')"
  shows "path_at t k p'" and "view v p' = view v p" and "\<And>x. r = Ok x \<Longrightarrow> q (view v p) = Some x"
    and "reliable h t v \<Longrightarrow> q (view v p) \<noteq> None \<Longrightarrow> \<exists>x. r = Ok x"
  using assms unfolding asks_def by blast+

lemma implements_whenD:
  assumes "implements_when h t v k P m f" and "path_at t k p" and "P (view v p)" and "m p = (r, p')"
  shows "path_at t k p'" and "node_edits (view v p) (view v p')"
    and "\<And>x. r = Ok x \<Longrightarrow> f (view v p) = Some (view v p')"
    and "reliable h t v \<Longrightarrow> f (view v p) \<noteq> None \<Longrightarrow> \<exists>x. r = Ok x"
  using assms unfolding implements_when_def by blast+

lemma implements_imp_when: "implements h t v k m f \<Longrightarrow> implements_when h t v k P m f"
  by (simp add: implements_def implements_when_def)

lemma implements_when_wrap:
  "implements_when h t v k P m f \<Longrightarrow> implements_when h t v k P (wrapE msg m) f"
  unfolding implements_when_def wrapE_run by (fastforce split: prod.splits outcome.splits)

lemma implements_return: "implements h t v k (returnE x) Some"
  by (simp add: implements_def)

lemma implements_fail: "implements h t v k (failE e) (\<lambda>lx. None)"
  by (simp add: implements_def)

lemma implements_bind:
  assumes m: "implements h t v k m f" and g: "\<And>x. implements h t v k (g x) f'"
  shows "implements h t v k (bindE m g) (\<lambda>lx. Option.bind (f lx) f')"
proof (rule implementsI)
  fix p r p'
  assume path: "path_at t k p" and run: "bindE m g p = (r, p')"
  obtain r1 p1 where m1: "m p = (r1, p1)" by (cases "m p")
  note d = implementsD [OF m path m1]
  show "path_at t k p' \<and> node_edits (view v p) (view v p') \<and>
      (\<forall>x. r = Ok x \<longrightarrow> Option.bind (f (view v p)) f' = Some (view v p')) \<and>
      (reliable h t v \<longrightarrow> Option.bind (f (view v p)) f' \<noteq> None \<longrightarrow> (\<exists>x. r = Ok x))"
  proof (cases r1)
    case (Ok x)
    with run m1 have "g x p1 = (r, p')" by (simp add: bindE_def)
    note e = implementsD [OF g d(1) this]
    show ?thesis using e d(3) [OF Ok] rtranclp_trans [OF d(2) e(2)] by simp
  next
    case (Err e)
    then show ?thesis using run m1 d(1,2,4) by (auto simp: bindE_def Option.bind_eq_None_conv)
  next
    case (Panic c)
    then show ?thesis using run m1 d(1,2,4) by (auto simp: bindE_def Option.bind_eq_None_conv)
  qed
qed

lemma implements_ask_when:
  assumes m: "asks h t v k m q"
    and g: "\<And>x. implements_when h t v k (\<lambda>lx. q lx = Some x) (g x) (f x)"
  shows "implements h t v k (bindE m g) (\<lambda>lx. Option.bind (q lx) (\<lambda>x. f x lx))"
proof (rule implementsI)
  fix p r p'
  assume path: "path_at t k p" and run: "bindE m g p = (r, p')"
  obtain r1 p1 where m1: "m p = (r1, p1)" by (cases "m p")
  note d = asksD [OF m path m1]
  show "path_at t k p' \<and> node_edits (view v p) (view v p') \<and>
      (\<forall>x. r = Ok x \<longrightarrow> Option.bind (q (view v p)) (\<lambda>x. f x (view v p)) = Some (view v p')) \<and>
      (reliable h t v \<longrightarrow> Option.bind (q (view v p)) (\<lambda>x. f x (view v p)) \<noteq> None \<longrightarrow> (\<exists>x. r = Ok x))"
  proof (cases r1)
    case (Ok x)
    with run m1 have g1: "g x p1 = (r, p')" by (simp add: bindE_def)
    have "q (view v p1) = Some x" using d(2) d(3) [OF Ok] by simp
    note e = implements_whenD [OF g d(1) this g1]
    show ?thesis using e d(2) d(3) [OF Ok] by simp
  next
    case (Err e)
    then show ?thesis using run m1 d(1,2,4) by (auto simp: bindE_def Option.bind_eq_None_conv)
  next
    case (Panic c)
    then show ?thesis using run m1 d(1,2,4) by (auto simp: bindE_def Option.bind_eq_None_conv)
  qed
qed

lemma implements_ask:
  "asks h t v k m q \<Longrightarrow> (\<And>x. implements h t v k (g x) (f x)) \<Longrightarrow>
   implements h t v k (bindE m g) (\<lambda>lx. Option.bind (q lx) (\<lambda>x. f x lx))"
  by (rule implements_ask_when) (auto intro: implements_imp_when)

lemma implements_wrap: "implements h t v k m f \<Longrightarrow> implements h t v k (wrapE msg m) f"
  by (rule implementsI, subst (asm) wrapE_run)
    (auto split: prod.splits outcome.splits dest: implementsD)

lemma asks_wrap: "asks h t v k m q \<Longrightarrow> asks h t v k (wrapE msg m) q"
  unfolding asks_def wrapE_run by (fastforce split: prod.splits outcome.splits)

lemma implements_if:
  "implements h t v k m f \<Longrightarrow> implements h t v k n g \<Longrightarrow>
   implements h t v k (if b then m else n) (if b then f else g)"
  by simp

lemma implements_cong: "implements h t v k m f \<Longrightarrow> (\<And>lx. f lx = g lx) \<Longrightarrow> implements h t v k m g"
  by (simp add: implements_def)

lemma implements_steps:
  "implements h t v k m f \<Longrightarrow> (\<And>x. implements h t v k (g x) (steps fs)) \<Longrightarrow>
   implements h t v k (bindE m g) (steps (f # fs))"
  by (rule implements_cong [OF implements_bind [of h t v k m f g "steps fs"]]) simp_all

lemma implements_ask_steps:
  assumes ask: "asks h t v k m q" and act: "\<And>x. implements h t v k (g x) (F x)"
    and rest: "\<And>y. implements h t v k (n y) (steps fs)"
    and f: "\<And>lx. f lx = Option.bind (q lx) (\<lambda>x. F x lx)"
  shows "implements h t v k (bindE m (\<lambda>x. bindE (g x) n)) (steps (f # fs))"
proof -
  have "implements h t v k (bindE m g) f"
    by (rule implements_cong [OF implements_ask [OF ask act]]) (simp add: f)
  from implements_steps [OF this rest] show ?thesis by (simp add: bindE_assoc)
qed

lemma implements_ask_last:
  assumes ask: "asks h t v k m q" and act: "\<And>x. implements h t v k (g x) (F x)"
    and f: "\<And>lx. f lx = Option.bind (q lx) (\<lambda>x. F x lx)"
  shows "implements h t v k (bindE m g) (steps [f])"
  by (rule implements_cong [OF implements_ask [OF ask act]]) (simp add: f steps_Nil)

lemma implements_last: "implements h t v k m f \<Longrightarrow> implements h t v k m (steps [f])"
  by (erule implements_cong) (simp add: steps_Nil)

section \<open>Nothing here panics\<close>

lemma calm_askE: "calm (askE f)"
  by (simp add: calm_def askE_def split: sum.split)

lemma calm_cmdResult: "calm (cmdResult h argv)"
  by (simp add: calm_def cmdResult_def split: prod.split)

lemma calm_cmdOutput: "calm (cmdOutput h argv)"
  unfolding cmdOutput_def
  by (rule calm_bindE [OF calm_cmdResult]) (simp add: calm_returnE calm_failE split: option.split)

lemma calm_cmdRun: "calm (cmdRun h argv)"
  unfolding cmdRun_def by (intro calm_rules calm_cmdOutput)

lemma calm_cmdCombined: "calm (cmdCombined h argv)"
  unfolding cmdCombined_def
  by (rule calm_bindE [OF calm_cmdResult]) (simp add: calm_returnE calm_failE split: option.split)

lemma calm_ipt_run: "calm (ipt_run h ipt args)"
proof -
  have lock: "calm (acquireXtLock h)"
    by (simp add: calm_def acquireXtLock_def split: prod.split option.split flock_result.split)
  have unlock: "calm (releaseXtLock h)"
    by (simp add: calm_def releaseXtLock_def)
  have fin: "calm (case ipt_error r of None \<Rightarrow> returnE (xStdout r) | Some e \<Rightarrow> failE e)" for r
    by (simp add: calm_returnE calm_failE split: option.split)
  have "calm (ipt_runWithOutput h ipt args)"
    unfolding ipt_runWithOutput_def Let_def by (intro calm_rules lock unlock fin calm_cmdResult)
  then show ?thesis unfolding ipt_run_def by (intro calm_rules)
qed

lemma calm_ipt_runWithOutput: "calm (ipt_runWithOutput h ipt args)"
  using calm_ipt_run [of h ipt args] unfolding calm_def ipt_run_def bindE_def
  by (auto split: prod.splits outcome.splits)

lemma calm_Exists: "calm (ipt_Exists h ipt tab ch spec)"
  unfolding ipt_Exists_def existsForOldIptables_def
  by (auto intro!: calm_if calm_bindE calm_catchE calm_returnE calm_failE calm_ipt_run calm_ipt_runWithOutput
      split: goerror.split)

lemma calm_ipt_edits:
  "calm (ipt_Insert h ipt tab ch pos spec)" "calm (ipt_Append h ipt tab ch spec)"
  "calm (ipt_Delete h ipt tab ch spec)" "calm (ipt_NewChain h ipt tab ch)"
  by (simp_all add: ipt_Insert_def ipt_Append_def ipt_Delete_def ipt_NewChain_def calm_ipt_run)

lemma calm_initCheck: "calm (ipset_initCheck h)"
proof -
  have str: "calm (ipset_getIpsetVersionString h)"
    unfolding ipset_getIpsetVersionString_def
    by (rule calm_at) (auto intro!: calm_bindE calm_cmdCombined calm_returnE calm_failE split: option.split)
  have sup: "calm (ipset_getIpsetSupportedVersion h)"
    unfolding ipset_getIpsetSupportedVersion_def
    by (auto intro!: calm_bindE str calm_returnE calm_failE split: option.split)
  have "calm (bindE (catchE (ipset_getIpsetSupportedVersion h) (\<lambda>e. returnE True))
      (\<lambda>supported. if supported then returnE () else failE (ErrText ''Ipset utility version is not supported'')))"
    by (intro calm_rules calm_catchE sup)
  then show ?thesis by (simp add: calm_def ipset_initCheck_def split: option.split)
qed

lemma calm_ipset_ops:
  "calm (ipset_createHashSet h s n)" "calm (ipset_Add h s e k)" "calm (ipset_Destroy h s)"
  unfolding ipset_createHashSet_def ipset_Add_def ipset_Destroy_def
  by (rule calm_at, intro calm_rules calm_cmdCombined)+

lemma calm_New: "calm (ipset_New h n ht ps)"
  unfolding ipset_New_def Let_def by (intro calm_rules calm_initCheck calm_ipset_ops)

lemma calm_fill_set: "calm (fill_set h n ips)"
  unfolding fill_set_def by (intro calm_rules calm_New calm_ipset_ops)

lemmas calm_ops = calm_rules calm_ensure_with calm_remove_with calm_Exists calm_ipt_edits calm_ipset_ops
  calm_New calm_fill_set calm_cmdRun calm_cmdOutput

section \<open>The building blocks on a documented node\<close>

context node_contract
begin

lemma reliable_here: "reliable h t v \<Longrightarrow> reliable_node h t v"
  by unfold_locales

lemma asks_of_cases:
  assumes "\<And>p res p'. m p = (res, p') \<Longrightarrow>
      ipsetPath p' = ipsetPath p \<and> view v p' = view v p \<and> ((\<exists>x. res = Ok x \<and> q (view v p) = Some x) \<or> (\<exists>e. res = Err e))"
    and "\<And>p. reliable h t v \<Longrightarrow> q (view v p) \<noteq> None \<Longrightarrow> \<exists>x p'. m p = (Ok x, p')"
  shows "asks h t v k m q"
  unfolding asks_def using assms by (metis Pair_inject outcome.distinct(1) outcome.inject(1) path_at_same)

lemma asks_link_list: "asks h t v k (cmdOutput h [''ip'', ''link'', ''list'']) (\<lambda>lx. Some (tLinks t (lxLinks lx)))"
  by (rule asks_of_cases, drule link_list_cases, blast)
    (rule exI, rule reliable_node.cmdOutput_ok [OF reliable_here], assumption, simp add: lx_step_def ip_cmd_def)

lemma asks_route_list:
  "asks h t v k (cmdOutput h [''ip'', ''route'', ''list'', ''table'', tab]) (\<lambda>lx. Some (tRoutes t (routes_of lx tab)))"
  by (rule asks_of_cases, drule route_list_cases, blast)
    (rule exI, rule reliable_node.cmdOutput_ok [OF reliable_here], assumption, simp add: lx_step_def ip_cmd_def)

lemma asks_rule_list:
  "asks h t v k (cmdOutput h [''ip'', ''rule'', ''list'']) (\<lambda>lx. Some (tPolicy t (lxPolicy lx)))"
  by (rule asks_of_cases, drule rule_list_cases, blast)
    (rule exI, rule reliable_node.cmdOutput_ok [OF reliable_here], assumption, simp add: lx_step_def ip_cmd_def)

text \<open>A command that either does \<open>f\<close> or leaves the state alone.\<close>

lemma implements_of_cases:
  assumes cases: "\<And>p res p'. m p = (res, p') \<Longrightarrow>
      ipsetPath p' = ipsetPath p \<and>
      (res = Ok x \<and> f (view v p) = Some (view v p') \<and> node_edits (view v p) (view v p') \<or>
       (\<exists>e. res = Err e) \<and> view v p' = view v p)"
    and ok: "\<And>p. reliable h t v \<Longrightarrow> f (view v p) \<noteq> None \<Longrightarrow> \<exists>x p'. m p = (Ok x, p')"
  shows "implements h t v k m f"
proof (rule implementsI)
  fix p r p'
  assume path: "path_at t k p" and run: "m p = (r, p')"
  show "path_at t k p' \<and> node_edits (view v p) (view v p') \<and>
      (\<forall>x. r = Ok x \<longrightarrow> f (view v p) = Some (view v p')) \<and>
      (reliable h t v \<longrightarrow> f (view v p) \<noteq> None \<longrightarrow> (\<exists>x. r = Ok x))"
    using cases [OF run] path_at_same [OF path] ok [of p] run by auto
qed

text \<open>A plain command whose documented answer is success exactly where \<open>f\<close> is defined.\<close>

lemma implements_cmdRun:
  assumes step: "\<And>lx. \<exists>n out. lx_step t argv lx = Some (n, out, case f lx of None \<Rightarrow> lx | Some lx' \<Rightarrow> lx') \<and>
      (n = 0 \<longleftrightarrow> f lx \<noteq> None)"
    and edit: "\<And>lx lx'. f lx = Some lx' \<Longrightarrow> node_edit lx lx'"
  shows "implements h t v k (cmdRun h argv) f"
proof (rule implements_of_cases)
  fix p res p'
  assume run: "cmdRun h argv p = (res, p')"
  obtain n out where st: "lx_step t argv (view v p) =
      Some (n, out, case f (view v p) of None \<Rightarrow> view v p | Some lx' \<Rightarrow> lx')"
    and n: "n = 0 \<longleftrightarrow> f (view v p) \<noteq> None"
    using step by blast
  from cmdRun_cases [OF st run] n
  show "ipsetPath p' = ipsetPath p \<and>
      (res = Ok () \<and> f (view v p) = Some (view v p') \<and> node_edits (view v p) (view v p') \<or>
       (\<exists>e. res = Err e) \<and> view v p' = view v p)"
    by (cases "f (view v p)") (auto intro: node_edits1 edit)
next
  fix p
  assume rel: "reliable h t v" and "f (view v p) \<noteq> None"
  then obtain out lx' where "lx_step t argv (view v p) = Some (0, out, lx')" using step by metis
  then show "\<exists>x p'. cmdRun h argv p = (Ok x, p')"
    using reliable_node.cmdRun_ok [OF reliable_here [OF rel]] by blast
qed

lemma implements_rule_add:
  "implements h t v k (cmdRun h [''ip'', ''rule'', ''add'', ''prio'', prio, ''fwmark'', m, ''table'', tab])
     (\<lambda>lx. Some (add_policy m tab lx))"
  by (rule implements_cmdRun) (auto simp: lx_step_def ip_cmd_def intro: node_edit.intros)

lemma implements_link_up:
  "implements h t v k (cmdRun h [''ip'', ''link'', ''set'', ''up'', n])
     (\<lambda>lx. if n \<in> set (lxLinks lx) then Some (link_up n lx) else None)"
  by (rule implements_cmdRun)
    (auto simp: lx_step_def ip_cmd_def Let_def intro: node_edit.intros split: if_splits)

lemma implements_tunnel_add:
  "implements h t v k
     (cmdRun h [''ip'', ''tunnel'', ''add'', n, ''mode'', ''gre'', ''remote'', r, ''local'', l])
     (\<lambda>lx. if n \<in> set (lxLinks lx) then None else Some (add_tunnel n r l lx))"
  by (rule implements_cmdRun)
    (auto simp: lx_step_def ip_cmd_def Let_def intro: node_edit.intros split: if_splits)

lemma implements_route_add:
  "implements h t v k (cmdRun h [''ip'', ''route'', ''add'', d, ''dev'', n, ''table'', tab])
     (\<lambda>lx. if n \<in> set (lxLinks lx) \<and> d \<notin> fst ` set (routes_of lx tab) then Some (add_route tab d n lx) else None)"
  by (rule implements_cmdRun)
    (auto simp: lx_step_def ip_cmd_def Let_def intro: node_edit.intros split: if_splits)

lemma implements_route_delete:
  "implements h t v k (cmdRun h [''ip'', ''route'', ''delete'', d, ''via'', g, ''table'', tab])
     (\<lambda>lx. if (d, ViaGateway g) \<in> set (routes_of lx tab)
           then Some (put_routes tab (remove1 (d, ViaGateway g) (routes_of lx tab)) lx) else None)"
  by (rule implements_cmdRun)
    (auto simp: lx_step_def ip_cmd_def Let_def intro: node_edit.intros split: if_splits)

subsection \<open>Rules\<close>

lemma asks_Exists:
  assumes ready: "ipt_ready t ipt" and tab: "tab \<in> set known_tables"
  shows "asks h t v k (ipt_Exists h ipt tab ch spec) (\<lambda>lx. has_rule lx tab ch spec)"
proof (rule asks_of_cases)
  fix p res p'
  assume "ipt_Exists h ipt tab ch spec p = (res, p')"
  from Exists_cases [OF ready tab this]
  show "ipsetPath p' = ipsetPath p \<and> view v p' = view v p \<and>
      ((\<exists>x. res = Ok x \<and> has_rule (view v p) tab ch spec = Some x) \<or> (\<exists>e. res = Err e))"
    by (auto simp: has_rule_def split: option.splits)
next
  fix p
  assume "reliable h t v" and "has_rule (view v p) tab ch spec \<noteq> None"
  then show "\<exists>x p'. ipt_Exists h ipt tab ch spec p = (Ok x, p')"
    using reliable_node.Exists_ok [OF reliable_here ready tab, of p spec ch]
    by (simp add: has_rule_def split: if_splits)
qed

text \<open>A guarded change: \<open>cond\<close> says on which answer it is made.\<close>

lemma implements_guarded:
  assumes check: "asks h t v k check (\<lambda>lx. has_rule lx tab ch spec)"
    and change: "implements_when h t v k (\<lambda>lx. has_rule lx tab ch spec = Some b) change f"
    and f: "\<And>lx. g lx = (case has_rule lx tab ch spec of
        None \<Rightarrow> None | Some has \<Rightarrow> if has = b then f lx else Some lx)"
  shows "implements h t v k (bindE check (\<lambda>has. if has = b then change else returnE ())) g"
proof (rule implements_cong)
  show "implements h t v k (bindE check (\<lambda>has. if has = b then change else returnE ()))
      (\<lambda>lx. Option.bind (has_rule lx tab ch spec) (\<lambda>has. (if has = b then f else Some) lx))"
  proof (rule implements_ask_when [OF check])
    fix x
    show "implements_when h t v k (\<lambda>lx. has_rule lx tab ch spec = Some x)
        (if x = b then change else returnE ()) (if x = b then f else Some)"
      using change implements_imp_when [OF implements_return] by (cases "x = b") simp_all
  qed
  show "Option.bind (has_rule lx tab ch spec) (\<lambda>has. (if has = b then f else Some) lx) = g lx" for lx
    by (subst f) (simp split: option.split)
qed

lemma ensure_guarded: "ensure_with check add = bindE check (\<lambda>has. if has = False then add else returnE ())"
  by (simp add: ensure_with_def)

lemma remove_guarded: "remove_with check del = bindE check (\<lambda>has. if has = True then del else returnE ())"
  by (simp add: remove_with_def)

lemma implements_when_of_cases:
  assumes cases: "\<And>p res p'. P (view v p) \<Longrightarrow> m p = (res, p') \<Longrightarrow>
      ipsetPath p' = ipsetPath p \<and>
      (res = Ok x \<and> f (view v p) = Some (view v p') \<and> node_edits (view v p) (view v p') \<or>
       (\<exists>e. res = Err e) \<and> view v p' = view v p)"
    and ok: "\<And>p. reliable h t v \<Longrightarrow> f (view v p) \<noteq> None \<Longrightarrow> \<exists>x p'. m p = (Ok x, p')"
  shows "implements_when h t v k P m f"
  unfolding implements_when_def
proof (intro allI impI)
  fix p r p'
  assume path: "path_at t k p" and P: "P (view v p)" and run: "m p = (r, p')"
  show "path_at t k p' \<and> node_edits (view v p) (view v p') \<and>
      (\<forall>x. r = Ok x \<longrightarrow> f (view v p) = Some (view v p')) \<and>
      (reliable h t v \<longrightarrow> f (view v p) \<noteq> None \<longrightarrow> (\<exists>x. r = Ok x))"
    using cases [OF P run] path_at_same [OF path] ok [of p] run by auto
qed

lemma implements_Insert:
  assumes ready: "ipt_ready t ipt" and tab: "tab \<in> set known_tables"
  shows "implements_when h t v k (\<lambda>lx. has_rule lx tab ch spec = Some False)
     (ipt_Insert h ipt tab ch 1 spec) (have_front tab ch spec)"
proof (rule implements_when_of_cases)
  fix p res p'
  assume "has_rule (view v p) tab ch spec = Some False" "ipt_Insert h ipt tab ch 1 spec p = (res, p')"
  with Insert_cases [OF ready tab this(2)]
  show "ipsetPath p' = ipsetPath p \<and>
      (res = Ok () \<and> have_front tab ch spec (view v p) = Some (view v p') \<and> node_edits (view v p) (view v p') \<or>
       (\<exists>e. res = Err e) \<and> view v p' = view v p)"
    by (auto simp: has_rule_def have_front_def split: if_splits intro: edit_front [THEN node_edits1])
next
  fix p
  assume "reliable h t v" and "have_front tab ch spec (view v p) \<noteq> None"
  then show "\<exists>x p'. ipt_Insert h ipt tab ch 1 spec p = (Ok x, p')"
    using reliable_node.Insert_ok [OF reliable_here ready tab, of p spec ch]
    by (auto simp: have_front_def split: if_splits)
qed

lemma implements_Append:
  assumes ready: "ipt_ready t ipt" and tab: "tab \<in> set known_tables"
  shows "implements_when h t v k (\<lambda>lx. has_rule lx tab ch spec = Some False)
     (ipt_Append h ipt tab ch spec) (have_back tab ch spec)"
proof (rule implements_when_of_cases)
  fix p res p'
  assume "has_rule (view v p) tab ch spec = Some False" "ipt_Append h ipt tab ch spec p = (res, p')"
  with Append_cases [OF ready tab this(2)]
  show "ipsetPath p' = ipsetPath p \<and>
      (res = Ok () \<and> have_back tab ch spec (view v p) = Some (view v p') \<and> node_edits (view v p) (view v p') \<or>
       (\<exists>e. res = Err e) \<and> view v p' = view v p)"
    by (auto simp: has_rule_def have_back_def split: if_splits intro: edit_back [THEN node_edits1])
next
  fix p
  assume "reliable h t v" and "have_back tab ch spec (view v p) \<noteq> None"
  then show "\<exists>x p'. ipt_Append h ipt tab ch spec p = (Ok x, p')"
    using reliable_node.Append_ok [OF reliable_here ready tab, of p spec ch]
    by (auto simp: have_back_def split: if_splits)
qed

lemma implements_Delete:
  assumes ready: "ipt_ready t ipt" and tab: "tab \<in> set known_tables"
  shows "implements h t v k (ipt_Delete h ipt tab ch spec) (take_out tab ch spec)"
proof (rule implements_of_cases)
  fix p res p'
  assume "ipt_Delete h ipt tab ch spec p = (res, p')"
  from Delete_cases [OF ready tab this]
  show "ipsetPath p' = ipsetPath p \<and>
      (res = Ok () \<and> take_out tab ch spec (view v p) = Some (view v p') \<and> node_edits (view v p) (view v p') \<or>
       (\<exists>e. res = Err e) \<and> view v p' = view v p)"
    by (auto simp: take_out_def intro: edit_remove [THEN node_edits1])
next
  fix p
  assume "reliable h t v" and "take_out tab ch spec (view v p) \<noteq> None"
  then show "\<exists>x p'. ipt_Delete h ipt tab ch spec p = (Ok x, p')"
    using reliable_node.Delete_ok [OF reliable_here ready tab, of p spec ch]
    by (auto simp: take_out_def Option_bind_Some_iff split: if_splits)
qed

lemma front_cases:
  "have_front tab ch spec lx = (case has_rule lx tab ch spec of
     None \<Rightarrow> None | Some has \<Rightarrow> if has = False then have_front tab ch spec lx else Some lx)"
  "have_back tab ch spec lx = (case has_rule lx tab ch spec of
     None \<Rightarrow> None | Some has \<Rightarrow> if has = False then have_back tab ch spec lx else Some lx)"
  "have_not tab ch spec lx = (case has_rule lx tab ch spec of
     None \<Rightarrow> None | Some has \<Rightarrow> if has = True then take_out tab ch spec lx else Some lx)"
  by (auto simp: have_front_def have_back_def have_not_def take_out_def has_rule_def split: option.split)

lemma implements_front:
  assumes "ipt_ready t ipt" and "tab \<in> set known_tables"
  shows "implements h t v k
     (ensure_with (wrapE m1 (ipt_Exists h ipt tab ch spec)) (wrapE m2 (ipt_Insert h ipt tab ch 1 spec)))
     (have_front tab ch spec)"
  unfolding ensure_guarded
  by (rule implements_guarded [OF asks_wrap [OF asks_Exists [OF assms]]
        implements_when_wrap [OF implements_Insert [OF assms]] front_cases(1)])

lemma implements_front_plain:
  assumes "ipt_ready t ipt" and "tab \<in> set known_tables"
  shows "implements h t v k
     (ensure_with (ipt_Exists h ipt tab ch spec) (ipt_Insert h ipt tab ch 1 spec)) (have_front tab ch spec)"
  unfolding ensure_guarded
  by (rule implements_guarded [OF asks_Exists [OF assms] implements_Insert [OF assms] front_cases(1)])

lemma implements_back:
  assumes "ipt_ready t ipt" and "tab \<in> set known_tables"
  shows "implements h t v k
     (ensure_with (wrapE m1 (ipt_Exists h ipt tab ch spec)) (wrapE m2 (ipt_Append h ipt tab ch spec)))
     (have_back tab ch spec)"
  unfolding ensure_guarded
  by (rule implements_guarded [OF asks_wrap [OF asks_Exists [OF assms]]
        implements_when_wrap [OF implements_Append [OF assms]] front_cases(2)])

lemma implements_not:
  assumes "ipt_ready t ipt" and "tab \<in> set known_tables"
  shows "implements h t v k
     (remove_with (wrapE m1 (ipt_Exists h ipt tab ch spec)) (wrapE m2 (ipt_Delete h ipt tab ch spec)))
     (have_not tab ch spec)"
  unfolding remove_guarded
  by (rule implements_guarded [OF asks_wrap [OF asks_Exists [OF assms]]
        implements_imp_when [OF implements_wrap [OF implements_Delete [OF assms]]] front_cases(3)])

subsection \<open>Chains and sets\<close>

text \<open>
  The two ways of the code to tolerate an existing chain agree with \<open>have_chain\<close>: what
  they do with an error that is no exit status 1 is \<open>other\<close>, which does not return.
\<close>

lemma implements_chain:
  assumes ready: "ipt_ready t ipt" and tab: "tab \<in> set known_tables"
    and other1: "\<And>e. exit1 e \<Longrightarrow> other e = returnE ()"
    and other: "\<And>e p. \<not> exit1 e \<Longrightarrow> \<exists>r. other e p = (r, p) \<and> r \<noteq> Ok ()"
  shows "implements h t v k (catchE (ipt_NewChain h ipt tab ch) other) (have_chain t tab ch)"
proof (rule implementsI)
  fix p r p'
  assume path: "path_at t k p" and run: "catchE (ipt_NewChain h ipt tab ch) other p = (r, p')"
  obtain r1 p1 where n: "ipt_NewChain h ipt tab ch p = (r1, p1)" by (cases "ipt_NewChain h ipt tab ch p")
  note c = NewChain_cases [OF ready tab n]
  have rel: "reliable h t v \<Longrightarrow> r1 = Ok () \<or>
      (\<exists>m. r1 = Err (ErrIptables (tChainExists t) m)) \<and> rules_of (view v p) tab ch \<noteq> None"
    using reliable_node.NewChain_ok [OF reliable_here ready tab, where p = p and ch = ch] n by auto
  show "path_at t k p' \<and> node_edits (view v p) (view v p') \<and>
      (\<forall>x. r = Ok x \<longrightarrow> have_chain t tab ch (view v p) = Some (view v p')) \<and>
      (reliable h t v \<longrightarrow> have_chain t tab ch (view v p) \<noteq> None \<longrightarrow> (\<exists>x. r = Ok x))"
  proof (cases r1)
    case (Ok u)
    then have "p' = p1" "r = Ok ()" using run n by (auto simp: catchE_def)
    then show ?thesis using c Ok path_at_same [OF path, of p1]
      by (auto simp: have_chain_def intro: edit_chain [THEN node_edits1])
  next
    case (Err e)
    have v1: "view v p1 = view v p" and path1: "path_at t k p1" using c Err path_at_same [OF path, of p1] by auto
    show ?thesis
    proof (cases "exit1 e")
      case True
      then have "p' = p1" "r = Ok ()" using run n Err other1 by (auto simp: catchE_def)
      moreover have "tChainExists t = 1" "rules_of (view v p) tab ch \<noteq> None" using c Err True by auto
      ultimately show ?thesis using v1 path1 by (auto simp: have_chain_def)
    next
      case False
      then obtain r' where "p' = p1" "r = r'" "r' \<noteq> Ok ()"
        using run n Err other [OF False, of p1] by (auto simp: catchE_def)
      moreover have "reliable h t v \<Longrightarrow> have_chain t tab ch (view v p) = None"
        using rel c Err False by (auto simp: have_chain_def)
      ultimately show ?thesis using v1 path1 by auto
    qed
  next
    case (Panic q)
    then show ?thesis using c by auto
  qed
qed

lemma implements_newChainOrPanic:
  assumes "ipt_ready t ipt" and "tab \<in> set known_tables"
  shows "implements h t v k (newChainOrPanic h ipt tab ch msg) (have_chain t tab ch)"
  unfolding newChainOrPanic_def
  by (rule implements_chain [OF assms]) (auto simp: exit1_def split: goerror.splits)

text \<open>
  Whatever follows \<open>ipset.New\<close> runs with ipset looked up, on a state where the set
  exists and is empty.
\<close>

lemma implements_New:
  assumes rest: "\<And>s. setName s = n \<Longrightarrow> implements h t v True (g s) f"
  shows "implements h t v False (bindE (wrapE msg (ipset_New h n ''hash:ip'' zero_params)) g)
     (\<lambda>lx. f (put_set n {} lx))"
proof (rule implementsI)
  fix p r p'
  assume "path_at t False p"
    and run: "bindE (wrapE msg (ipset_New h n ''hash:ip'' zero_params)) g p = (r, p')"
  then have path: "path_ready t p" by simp
  obtain r1 p1 where n: "ipset_New h n ''hash:ip'' zero_params p = (r1, p1)"
    by (cases "ipset_New h n ''hash:ip'' zero_params p")
  note c = New_cases [OF n path]
  have ok: "reliable h t v \<Longrightarrow> \<exists>s. r1 = Ok s"
    using reliable_node.New_ok [OF reliable_here path, of n] n by auto
  show "path_at t False p' \<and> node_edits (view v p) (view v p') \<and>
      (\<forall>x. r = Ok x \<longrightarrow> f (put_set n {} (view v p)) = Some (view v p')) \<and>
      (reliable h t v \<longrightarrow> f (put_set n {} (view v p)) \<noteq> None \<longrightarrow> (\<exists>x. r = Ok x))"
  proof (cases r1)
    case (Ok s)
    then have g: "g s p1 = (r, p')" using run n by (simp add: bindE_def wrapE_run)
    have p1: "setName s = n" "path_at t True p1" "view v p1 = put_set n {} (view v p)" using c Ok by auto
    note d = implementsD [OF rest [OF p1(1)] p1(2) g]
    have "path_ready t p'" using d(1) by (simp add: path_ready_def)
    moreover have "node_edits (view v p) (view v p')"
      using d(2) p1(3) node_edits1 [OF edit_set] rtranclp_trans by metis
    ultimately show ?thesis using d(3,4) p1(3) by auto
  next
    case (Err e)
    then show ?thesis using run n c ok by (auto simp: bindE_def wrapE_run intro: edit_set [THEN node_edits1])
  next
    case (Panic q)
    then show ?thesis using c by auto
  qed
qed

lemma implements_Add:
  assumes "setName s = n"
  shows "implements h t v True (ipset_Add h s e k)
     (\<lambda>lx. map_option (\<lambda>es. put_set n (insert e es) lx) (set_of lx n))"
proof (rule implementsI)
  fix p r p'
  assume "path_at t True p" and run: "ipset_Add h s e k p = (r, p')"
  then have path: "ipsetPath p = tIpset t" by simp
  have "reliable h t v \<Longrightarrow> set_of (view v p) n \<noteq> None \<Longrightarrow> r = Ok ()"
    using reliable_node.Add_ok [OF reliable_here path, of s e k] run assms by auto
  then show "path_at t True p' \<and> node_edits (view v p) (view v p') \<and>
      (\<forall>x. r = Ok x \<longrightarrow> map_option (\<lambda>es. put_set n (insert e es) (view v p)) (set_of (view v p) n) = Some (view v p')) \<and>
      (reliable h t v \<longrightarrow> map_option (\<lambda>es. put_set n (insert e es) (view v p)) (set_of (view v p) n) \<noteq> None \<longrightarrow>
         (\<exists>x. r = Ok x))"
    using Add_cases [OF run path] assms by (auto intro: edit_set [THEN node_edits1])
qed

lemma implements_Destroy:
  assumes "setName s = n"
  shows "implements h t v True (ipset_Destroy h s) (free_set n)"
proof (rule implementsI)
  fix p r p'
  assume "path_at t True p" and run: "ipset_Destroy h s p = (r, p')"
  then have path: "ipsetPath p = tIpset t" by simp
  have "reliable h t v \<Longrightarrow> set_of (view v p) n \<noteq> None \<Longrightarrow> \<not> set_in_use (view v p) n \<Longrightarrow> r = Ok ()"
    using reliable_node.Destroy_ok [OF reliable_here path, of s] run assms by auto
  then show "path_at t True p' \<and> node_edits (view v p) (view v p') \<and>
      (\<forall>x. r = Ok x \<longrightarrow> free_set n (view v p) = Some (view v p')) \<and>
      (reliable h t v \<longrightarrow> free_set n (view v p) \<noteq> None \<longrightarrow> (\<exists>x. r = Ok x))"
    using Destroy_cases [OF run path] assms
    by (auto simp: free_set_def intro: edit_drop [THEN node_edits1])
qed

lemma implements_adds:
  assumes n: "setName s = n"
  shows "implements h t v True (forE ips (\<lambda>ip. wrapE msg (ipset_Add h s ip k)))
     (\<lambda>lx. if ips = [] then Some lx else map_option (\<lambda>es. put_set n (es \<union> set ips) lx) (set_of lx n))"
proof (induction ips)
  case Nil
  show ?case by (simp add: implements_def)
next
  case (Cons ip ips)
  have eq: "Option.bind (map_option (\<lambda>es. put_set n (insert ip es) lx) (set_of lx n))
      (\<lambda>lx. if ips = [] then Some lx else map_option (\<lambda>es. put_set n (es \<union> set ips) lx) (set_of lx n)) =
    (if ip # ips = [] then Some lx else map_option (\<lambda>es. put_set n (es \<union> set (ip # ips)) lx) (set_of lx n))" for lx
    by (cases "set_of lx n") auto
  show ?case unfolding forE.simps(2)
    by (rule implements_cong [OF implements_bind [OF implements_wrap [OF implements_Add [OF n]] Cons] eq])
qed

lemma implements_fill_set: "implements h t v False (fill_set h n ips) (have_set n ips)"
  unfolding fill_set_def
  by (rule implements_cong [OF implements_New [OF implements_adds]]) (auto simp: have_set_def)

end

end
