(* ===== verification/RefNode.thy ===== *)
theory RefNode
  imports RuleOps
begin

text \<open>
  A concrete node: a host whose commands run \<open>lx_step\<close>, with versions of iptables and
  ipset that the program accepts. It shows that the documented behaviour the other
  theories rely on can be had, and it is where their properties are run on concrete
  inputs. The parameter is the exit status of \<open>iptables -N\<close> on an existing chain: 1 for
  the legacy binary, 4 for the nftables one.
\<close>

record ref_world =
  rwNode :: linux
  rwTables :: string
  rwHostname :: string
  rwNodes :: "k8s_node list"
  rwEgress :: "(string \<times> static_egress_ip) list"

definition ref_tools :: "nat \<Rightarrow> tools" where
  "ref_tools n =
     \<lparr>tIptables = ''/sbin/iptables'', tIpset = ''/sbin/ipset'', tChainExists = n,
      tLinks = (\<lambda>ls. concat (map (\<lambda>l. ''1: '' @ l @ '': <UP> '') ls)),
      tRoutes = (\<lambda>rs. concat (map (\<lambda>(d, nh). shown_dest d @
                   (case nh of ViaGateway g \<Rightarrow> '' via '' @ g | OnDevice n \<Rightarrow> '' dev '' @ n) @ '' '') rs)),
      tPolicy = (\<lambda>ps. concat (map (\<lambda>(m, tab). ''fwmark '' @ m @ '' lookup '' @ tab @ '' '') ps))\<rparr>"

definition ref_exec :: "nat \<Rightarrow> string list \<Rightarrow> ref_world \<Rightarrow> exec_result \<times> ref_world" where
  "ref_exec n argv w =
     (case lx_step (ref_tools n) argv (rwNode w) of
        Some (st, out, lx) \<Rightarrow> (\<lparr>xStdout = out, xStderr = [], xStatus = Exited st\<rparr>, w\<lparr>rwNode := lx\<rparr>)
      | None \<Rightarrow>
          if argv = [''/sbin/ipset'', ''--version'']
          then (\<lparr>xStdout = ''ipset v6.34, protocol version: 6'', xStderr = [], xStatus = Exited 0\<rparr>, w)
          else if argv = [''/sbin/iptables'', ''--version'']
          then (\<lparr>xStdout = ''iptables v1.6.2'', xStderr = [], xStatus = Exited 0\<rparr>, w)
          else (\<lparr>xStdout = [], xStderr = ''unknown command'', xStatus = Exited 127\<rparr>, w))"

definition ref_host :: "nat \<Rightarrow> ref_world host" where
  "ref_host n =
     \<lparr>hExec = ref_exec n,
      hLookPath = (\<lambda>name w. if name = ''ipset'' then Some ''/sbin/ipset''
                            else if name = ''iptables'' then Some ''/sbin/iptables'' else None),
      hReadFile = (\<lambda>f w. Some (rwTables w)),
      hOpenAppend = (\<lambda>f w. True),
      hAppend = (\<lambda>f s w. (True, w\<lparr>rwTables := rwTables w @ s\<rparr>)),
      hWriteFile = (\<lambda>f s w. (True, w)),
      hGetenv = (\<lambda>k w. []),
      hHostname = rwHostname,
      hXtOpen = (\<lambda>w. (None, w)),
      hXtFlock = (\<lambda>w. (Flocked, w)),
      hXtClose = (\<lambda>w. w),
      hInterfaces = (\<lambda>w. Inr [\<lparr>ifIndex = 2, ifName = ''eth0''\<rparr>]),
      hIfAddrs = (\<lambda>i w. Inr [cidr4 192 168 1 10 24]),
      hRouteGet = (\<lambda>a w. Inr [2]),
      hLinkByName = (\<lambda>n w. Inr 2),
      hAddrAdd = (\<lambda>l a w. (None, w)),
      hAddrDel = (\<lambda>l a w. (None, w)),
      hNodeGet = (\<lambda>n w. case find (\<lambda>x. nodeName x = n) (rwNodes w) of
                          None \<Rightarrow> Inl (ErrNotFound n) | Some x \<Rightarrow> Inr x),
      hNodeList = (\<lambda>w. Inr (rwNodes w)),
      hEgressUpdate = (\<lambda>ns o' w. (None, w\<lparr>rwEgress := (ns, o') # rwEgress w\<rparr>))\<rparr>"

lemma ref_host_sel [simp]:
  "hInterfaces (ref_host n) w = Inr [\<lparr>ifIndex = 2, ifName = ''eth0''\<rparr>]"
  "hIfAddrs (ref_host n) i w = Inr [cidr4 192 168 1 10 24]" "hRouteGet (ref_host n) a w = Inr [2]"
  "hLinkByName (ref_host n) name w = Inr 2" "hAddrAdd (ref_host n) l addr w = (None, w)"
  "hAddrDel (ref_host n) l addr w = (None, w)" "hGetenv (ref_host n) k w = []"
  "hHostname (ref_host n) w = rwHostname w" "hNodeList (ref_host n) w = Inr (rwNodes w)"
  "hNodeGet (ref_host n) name w =
     (case find (\<lambda>x. nodeName x = name) (rwNodes w) of None \<Rightarrow> Inl (ErrNotFound name) | Some x \<Rightarrow> Inr x)"
  by (simp_all add: ref_host_def)

lemma ref_tools_sel [simp]:
  "tIptables (ref_tools n) = ''/sbin/iptables''" "tIpset (ref_tools n) = ''/sbin/ipset''"
  "tChainExists (ref_tools n) = n" "tRoutes (ref_tools n) [] = []" "tLinks (ref_tools n) [] = []"
  "tPolicy (ref_tools n) [] = []"
  by (simp_all add: ref_tools_def)

lemma contains_inside: "contains s y \<Longrightarrow> contains (p @ s @ q) y"
  using contains_trans [OF contains_append] by blast

lemma contains_front: "contains s y \<Longrightarrow> contains (s @ q) y"
  using contains_inside [of s y "[]" q] by simp

lemma contains_concat: "x \<in> set xs \<Longrightarrow> contains (f x) y \<Longrightarrow> contains (concat (map f xs)) y"
proof (induction xs)
  case (Cons a xs)
  then show ?case
    using contains_front [of "f a" y] contains_inside [of "concat (map f xs)" y "f a" "[]"] by auto
qed simp

lemma ref_listings:
  "contains (''1: '' @ l @ '': <UP> '') l" "contains (d @ x) d" "contains (''fwmark '' @ m @ '' lookup '' @ r @ '' '') r"
proof -
  show "contains (''1: '' @ l @ '': <UP> '') l" by (rule contains_append)
  show "contains (d @ x) d" by (rule contains_front) simp
  have "contains ((''fwmark '' @ m @ '' lookup '') @ r @ '' '') r" by (rule contains_append)
  then show "contains (''fwmark '' @ m @ '' lookup '' @ r @ '' '') r" by (simp only: append_assoc)
qed

lemma ref_tools_ok: "0 < n \<Longrightarrow> tools_ok (ref_tools n)"
  unfolding tools_ok_def ref_tools_def
  by (simp del: append.simps)
    (fastforce intro: contains_concat simp: ref_listings split: prod.split next_hop.split simp del: append.simps)

lemma ref_version_args:
  "lx_step (ref_tools n) [''/sbin/ipset'', ''--version''] lx = None"
  "lx_step (ref_tools n) [''/sbin/iptables'', ''--version''] lx = None"
  by (simp_all add: lx_step_def ipset_cmd_def iptables_cmd_def iptables_args_def strip_wait_def)

lemma ref_exec_documented: "lx_step (ref_tools n) argv (rwNode w) = Some (st, out, lx) \<Longrightarrow>
    ref_exec n argv w = (\<lparr>xStdout = out, xStderr = [], xStatus = Exited st\<rparr>, w\<lparr>rwNode := lx\<rparr>)"
  by (simp add: ref_exec_def)

lemma ref_host_documented: "0 < n \<Longrightarrow> documented (ref_host n) (ref_tools n) rwNode"
  unfolding documented_def
proof (intro conjI)
  show "commands_documented (ref_host n) (ref_tools n) rwNode"
    by (simp add: commands_documented_def ref_host_def ref_exec_documented)
  show "others_quiet (ref_host n) (ref_tools n) rwNode"
    by (simp add: others_quiet_def ref_host_def ref_exec_def ref_version_args)
qed (rule ref_tools_ok)

lemma ref_ipset_version: "find_short_version ''ipset v6.34, protocol version: 6'' = Some ''v6.34''"
  by code_simp

lemma ref_ipset_supported: "version_supported ''v6.34'' = Some True"
  by (simp add: version_supported_def semver_eval semver_LessThan_release)

lemma ref_host_reliable: "reliable (ref_host n) (ref_tools n) rwNode"
  unfolding reliable_def
proof (intro conjI)
  show "\<forall>w. case hExec (ref_host n) [tIpset (ref_tools n), ''--version''] w of
      (r, _) \<Rightarrow> cmd_error r = None \<and>
        (\<exists>m. find_short_version (xStdout r @ xStderr r) = Some m \<and> version_supported m = Some True)"
    using ref_ipset_version ref_ipset_supported
    by (simp add: ref_host_def ref_exec_def ref_version_args cmd_error_def del: find_short_version.simps)
qed (simp_all add: ref_host_def ref_exec_documented)

interpretation ref: reliable_node "ref_host (Suc n)" "ref_tools (Suc n)" rwNode for n
  by unfold_locales (simp_all add: ref_host_documented ref_host_reliable)

lemma ref_documented: "documented (ref_host 1) (ref_tools 1) rwNode"
  by (rule ref_host_documented) simp

lemma ref_reliable: "reliable (ref_host 1) (ref_tools 1) rwNode"
  by (rule ref_host_reliable)

section \<open>A fresh node\<close>

text \<open>The built-in chains and one link; nothing of this program yet.\<close>

definition fresh_lx :: linux where
  "fresh_lx =
     \<lparr>lxChains = [((''filter'', ''FORWARD''), []), ((''nat'', ''POSTROUTING''), []), ((''mangle'', ''PREROUTING''), [])],
      lxSets = [], lxLinks = [''eth0''], lxTunnels = [], lxUp = {}, lxRoutes = [], lxPolicy = []\<rparr>"

definition ref_proc :: "linux \<Rightarrow> ref_world proc" where
  "ref_proc lx =
     \<lparr>os = \<lparr>rwNode = lx, rwTables = [], rwHostname = ''node1'', rwNodes = [], rwEgress = []\<rparr>,
      ipsetPath = [], pkgIpsetPath = []\<rparr>"

definition ref_ipt :: ip_tables where
  "ref_ipt = \<lparr>iptPath = ''/sbin/iptables'', iptProto = ProtocolIPv4, hasCheck = True, hasWait = True,
     hasRandomFully = True, iptV1 = 1, iptV2 = 6, iptV3 = 2, iptMode = ''legacy''\<rparr>"

lemma ref_proc_simps [simp]:
  "view rwNode (ref_proc lx) = lx" "path_ready t (ref_proc lx)" "ipsetPath (ref_proc lx) = []"
  by (simp_all add: ref_proc_def view_def path_ready_def)

lemma ref_ipt_ready [simp]: "ipt_ready (ref_tools n) ref_ipt"
  by (simp add: ipt_ready_def ref_ipt_def)

lemma fresh_lx_simps [simp]:
  "rules_of fresh_lx ''filter'' ''FORWARD'' = Some []" "rules_of fresh_lx ''nat'' ''POSTROUTING'' = Some []"
  "rules_of fresh_lx ''mangle'' ''PREROUTING'' = Some []" "set_of fresh_lx n = None"
  "routes_of fresh_lx tab = []" "lxLinks fresh_lx = [''eth0'']" "lxPolicy fresh_lx = []" "lxUp fresh_lx = {}"
  by (simp_all add: fresh_lx_def rules_of_def set_of_def routes_of_def)

lemma fresh_lx_rules: "rules_of fresh_lx tab ch =
    (if (tab, ch) \<in> {(''filter'', ''FORWARD''), (''nat'', ''POSTROUTING''), (''mangle'', ''PREROUTING'')}
     then Some [] else None)"
  by (auto simp: fresh_lx_def rules_of_def)

lemma fresh_lx_wf: "node_wf fresh_lx"
  by (auto simp: node_wf_def rules_once_def sets_present_def routes_once_def route_devs_exist_def
      fresh_lx_rules split: if_splits)

end
