(* ===== verification/NodeUtils.thy ===== *)
theory NodeUtils
  imports RefNode
begin

text \<open>
  \<open>pkg/utils/node.go\<close>: finding the API object of the node the program runs on and the
  addresses of nodes.
\<close>

section \<open>The program\<close>

text \<open>\<open>clientset.Core().Nodes().Get(name)\<close>.\<close>

definition getNode :: "'w host \<Rightarrow> string \<Rightarrow> ('w proc, k8s_node) prog" where
  "getNode h name = askE (hNodeGet h name)"

definition GetNodeObject :: "'w host \<Rightarrow> string \<Rightarrow> ('w proc, k8s_node) prog" where
  "GetNodeObject h hostnameOverride p =
     (let nodeName = hGetenv h ''NODE_NAME'' (os p);
          hostName = hHostname h (os p);
          byOverride =
            (if hostnameOverride \<noteq> []
             then catchE (getNode h hostnameOverride) (\<lambda>_. failE (ErrText ''Failed to identify the node''))
             else failE (ErrText ''Failed to identify the node''));
          byHostname = catchE (getNode h hostName) (\<lambda>_. byOverride)
      in (if nodeName \<noteq> [] then catchE (getNode h nodeName) (\<lambda>_. byHostname) else byHostname) p)"

text \<open>
  The map from address types to addresses, built by appending in the order of the list.
  A list in the map is never empty, so \<open>addresses[0]\<close> is its head.
\<close>

definition add_address ::
  "(string \<Rightarrow> node_address list option) \<Rightarrow> node_address \<Rightarrow> string \<Rightarrow> node_address list option" where
  "add_address m a =
     m(addrType a \<mapsto> (case m (addrType a) of None \<Rightarrow> [] | Some as \<Rightarrow> as) @ [a])"

definition GetNodeIP :: "k8s_node \<Rightarrow> goerror + go_ip" where
  "GetNodeIP node =
     (let addressMap = foldl add_address (\<lambda>_. None) (nodeAddresses node) in
      case addressMap ''InternalIP'' of
        Some as \<Rightarrow> Inr (ParseIP (addrAddress (hd as)))
      | None \<Rightarrow>
          (case addressMap ''ExternalIP'' of
             Some as \<Rightarrow> Inr (ParseIP (addrAddress (hd as)))
           | None \<Rightarrow> Inl (ErrText ''host IP unknown'')))"

definition GetNodeIPByNodeName :: "'w host \<Rightarrow> string \<Rightarrow> ('w proc, go_ip) prog" where
  "GetNodeIPByNodeName h name =
     bindE (getNode h name)
       (\<lambda>node. case GetNodeIP node of Inl e \<Rightarrow> failE e | Inr ip \<Rightarrow> returnE ip)"

text \<open>The address of the flannel interface; an empty answer when there is none.\<close>

fun gatewayIPFrom :: "'w host \<Rightarrow> net_iface list \<Rightarrow> ('w proc, string) prog" where
  "gatewayIPFrom h [] = returnE []"
| "gatewayIPFrom h (iface # ifaces) =
     (if ifName iface = ''flannel.1'' then
        bindE (askE (hIfAddrs h iface))
          (\<lambda>addresses. case addresses of
             [] \<Rightarrow> panicE IndexRange
           | a # _ \<Rightarrow> (case ParseCIDR a of
                       None \<Rightarrow> failE (ErrText ''invalid CIDR address'')
                     | Some (addr, _) \<Rightarrow> returnE (IP_String addr)))
      else gatewayIPFrom h ifaces)"

definition GetGatewayIP :: "'w host \<Rightarrow> ('w proc, string) prog" where
  "GetGatewayIP h = bindE (askE (hInterfaces h)) (gatewayIPFrom h)"

section \<open>Laws\<close>

text \<open>The first address of a type.\<close>

definition first_of_type :: "string \<Rightarrow> k8s_node \<Rightarrow> node_address option" where
  "first_of_type ty node = find (\<lambda>a. addrType a = ty) (nodeAddresses node)"

lemma address_map:
  "foldl add_address m as ty =
     (case m ty of
        Some xs \<Rightarrow> Some (xs @ filter (\<lambda>a. addrType a = ty) as)
      | None \<Rightarrow> if filter (\<lambda>a. addrType a = ty) as = [] then None else Some (filter (\<lambda>a. addrType a = ty) as))"
proof (induction as arbitrary: m)
  case (Cons a as)
  then show ?case by (cases "m ty") (auto simp: add_address_def)
qed (auto split: option.split)

lemma find_filter: "find P xs = (case filter P xs of [] \<Rightarrow> None | x # _ \<Rightarrow> Some x)"
  by (induction xs) auto

lemma GetNodeIP_first:
  "GetNodeIP node =
     (case first_of_type ''InternalIP'' node of
        Some a \<Rightarrow> Inr (ParseIP (addrAddress a))
      | None \<Rightarrow>
          (case first_of_type ''ExternalIP'' node of
             Some a \<Rightarrow> Inr (ParseIP (addrAddress a))
           | None \<Rightarrow> Inl (ErrText ''host IP unknown'')))"
  by (auto simp: GetNodeIP_def Let_def address_map first_of_type_def find_filter split: list.split)

text \<open>
  \<open>GetNodeIP\<close> parses the first internal address of the node, the first external one
  when there is no internal address at all, and is an error exactly when there is neither;
  the order of the two kinds in the list does not matter.
\<close>

lemma GetNodeIP_preference:
  "GetNodeIP node =
     (case first_of_type ''InternalIP'' node of
        Some a \<Rightarrow> Inr (ParseIP (addrAddress a))
      | None \<Rightarrow>
          (case first_of_type ''ExternalIP'' node of
             Some a \<Rightarrow> Inr (ParseIP (addrAddress a))
           | None \<Rightarrow> Inl (ErrText ''host IP unknown''))) \<and>
   (GetNodeIP node = Inl (ErrText ''host IP unknown'') \<longleftrightarrow>
      filter (\<lambda>a. addrType a = ''InternalIP'' \<or> addrType a = ''ExternalIP'') (nodeAddresses node) = [])"
  unfolding GetNodeIP_first
  by (auto simp: first_of_type_def find_None_iff filter_empty_conv split: option.split)
    (auto simp: find_Some_iff)

text \<open>The names \<open>GetNodeObject\<close> tries, in its order.\<close>

definition node_candidates :: "'w host \<Rightarrow> string \<Rightarrow> 'w proc \<Rightarrow> string list" where
  "node_candidates h hostnameOverride p =
     (let env = hGetenv h ''NODE_NAME'' (os p) in
      (if env = [] then [] else [env]) @ [hHostname h (os p)] @
      (if hostnameOverride = [] then [] else [hostnameOverride]))"

lemma catch_getNode:
  "catchE (getNode h n) f p =
     (case hNodeGet h n (os p) of Inl e \<Rightarrow> f e p | Inr x \<Rightarrow> (Ok x, p))"
  by (simp add: catchE_def getNode_def split: sum.split)

text \<open>
  \<open>GetNodeObject\<close> answers with the node named by \<open>NODE_NAME\<close> when that is set and known, else
  with the node registered under the host name, else with the override when one is given,
  and fails only when none of the three names a node; it changes nothing.
\<close>

lemma GetNodeObject_order:
  "GetNodeObject h hostnameOverride p =
     (case find (\<lambda>n. \<not> isl (hNodeGet h n (os p))) (node_candidates h hostnameOverride p) of
        None \<Rightarrow> (Err (ErrText ''Failed to identify the node''), p)
      | Some n \<Rightarrow> (Ok (projr (hNodeGet h n (os p))), p))"
  by (simp add: GetNodeObject_def node_candidates_def catch_getNode Let_def split: sum.split)

lemma GetNodeIPByNodeName_run:
  "GetNodeIPByNodeName h name p =
     (case hNodeGet h name (os p) of
        Inl e \<Rightarrow> (Err e, p)
      | Inr node \<Rightarrow> (case GetNodeIP node of Inl e \<Rightarrow> (Err e, p) | Inr ip \<Rightarrow> (Ok ip, p)))"
  by (simp add: GetNodeIPByNodeName_def getNode_def bindE_def split: sum.split)

lemma calm_GetNodeObject: "calm (GetNodeObject h ov)"
  unfolding calm_def GetNodeObject_order by (auto split: option.split)

end
