(* ===== verification/Director.thy ===== *)
theory Director
  imports NodeUtils
begin

text \<open>
  \<open>pkg/director/director.go\<close>: policy routing on the nodes whose pods send traffic to
  the egress gateway. Each operation is the statements of its Go function in order; each
  implements an effect on the observable state of the node.
\<close>

section \<open>The program\<close>

record egress_director =
  dirIpt :: ip_tables
  dirNodeIP :: string

definition customStaticEgressIPRouteTableID :: string where
  "customStaticEgressIPRouteTableID = ''99''"
definition customStaticEgressIPRouteTableName :: string where
  "customStaticEgressIPRouteTableName = ''kube-static-egress-ip''"
definition directorFWMARK :: string where
  "directorFWMARK = ''1000''"
definition bypassCNIMasquradeChainName :: string where
  "bypassCNIMasquradeChainName = ''STATIC-EGRESS-BYPASS-CNI''"

definition NewEgressDirector :: "'w host \<Rightarrow> ('w proc, egress_director) prog" where
  "NewEgressDirector h =
     bindE (wrapE ''failed to locate iptables'' (iptables_New h))
       (\<lambda>ipt.
     bindE (GetNodeObject h [])
       (\<lambda>nodeObject.
     bindE (wrapE ''Failed to get node IP'' (case GetNodeIP nodeObject of Inl e \<Rightarrow> failE e | Inr ip \<Rightarrow> returnE ip))
       (\<lambda>nodeIP. returnE \<lparr>dirIpt = ipt, dirNodeIP = IP_String nodeIP\<rparr>)))"

definition rt_tables :: string where
  "rt_tables = ''/etc/iproute2/rt_tables''"

text \<open>\<open>os.OpenFile\<close> for appending and \<open>f.WriteString\<close>.\<close>

definition appendFile :: "'w host \<Rightarrow> string \<Rightarrow> string \<Rightarrow> ('w proc, unit) prog" where
  "appendFile h file s p =
     (if \<not> hOpenAppend h file (os p) then (Err (ErrText ''Failed to open''), p)
      else (case hAppend h file s (os p) of
              (ok, w) \<Rightarrow> (if ok then Ok () else Err (ErrText ''Failed to add custom routing table''), p\<lparr>os := w\<rparr>)))"

definition director_Setup :: "'w host \<Rightarrow> egress_director \<Rightarrow> ('w proc, unit) prog" where
  "director_Setup h d =
     bindE (wrapE ''Failed to add custom routing table''
              (askE (\<lambda>w. case hReadFile h rt_tables w of None \<Rightarrow> Inl (ErrText ''read'') | Some b \<Rightarrow> Inr b)))
       (\<lambda>b.
     bindE (if \<not> contains b customStaticEgressIPRouteTableName
            then appendFile h rt_tables
                   (customStaticEgressIPRouteTableID @ '' '' @ customStaticEgressIPRouteTableName @ [CHR 0x0A])
            else returnE ())
       (\<lambda>_.
     bindE (wrapE ''Failed to verify if `ip rule` exists'' (cmdOutput h [''ip'', ''rule'', ''list'']))
       (\<lambda>out.
     bindE (if \<not> contains out customStaticEgressIPRouteTableName
            then wrapE ''Failed to add policy rule''
                   (cmdRun h [''ip'', ''rule'', ''add'', ''prio'', ''32764'', ''fwmark'', directorFWMARK, ''table'',
                              customStaticEgressIPRouteTableName])
            else returnE ())
       (\<lambda>_.
     bindE (newChainOrPanic h (dirIpt d) ''nat'' bypassCNIMasquradeChainName ''Failed to add a chain in NAT table'')
       (\<lambda>_.
     ensure_with
       (wrapE ''Failed to verify bypass CNI masqurade rule exists''
          (ipt_Exists h (dirIpt d) ''nat'' ''POSTROUTING'' [''-j'', bypassCNIMasquradeChainName]))
       (wrapE ''Failed to run iptables command to add a rule to jump''
          (ipt_Insert h (dirIpt d) ''nat'' ''POSTROUTING'' 1 [''-j'', bypassCNIMasquradeChainName])))))))"

definition mark_spec :: "string \<Rightarrow> string \<Rightarrow> string list" where
  "mark_spec n destinationIP =
     [''-m'', ''set'', ''--match-set'', n, ''src'', ''-d'', destinationIP, ''-j'', ''MARK'',
      ''--set-mark'', directorFWMARK]"

definition bypass_spec :: "string \<Rightarrow> string \<Rightarrow> string list" where
  "bypass_spec n destinationIP =
     [''-m'', ''set'', ''--match-set'', n, ''src'', ''-d'', destinationIP, ''-j'', ''ACCEPT'']"

definition tunnel_name :: "string \<Rightarrow> string" where
  "tunnel_name egressGateway = ''tun'' @ remove_dots egressGateway"

text \<open>\<open>destAddr.String()\<close>: of a nil address when the destination is no CIDR.\<close>

definition dest_addr_string :: "string \<Rightarrow> string" where
  "dest_addr_string destinationIP =
     (case ParseCIDR destinationIP of None \<Rightarrow> IP_String [] | Some (destAddr, _) \<Rightarrow> IP_String destAddr)"

definition AddRouteToGateway ::
  "'w host \<Rightarrow> egress_director \<Rightarrow> string \<Rightarrow> string list \<Rightarrow> string \<Rightarrow> string \<Rightarrow> ('w proc, unit) prog" where
  "AddRouteToGateway h d n sourceIPs destinationIP egressGateway =
     bindE (fill_set h n sourceIPs)
       (\<lambda>_.
     bindE (ensure_with
              (wrapE ''Failed to verify rule exists in PREROUTING chain''
                 (ipt_Exists h (dirIpt d) ''mangle'' ''PREROUTING'' (mark_spec n destinationIP)))
              (wrapE ''Failed to add rule in PREROUTING chain''
                 (ipt_Insert h (dirIpt d) ''mangle'' ''PREROUTING'' 1 (mark_spec n destinationIP))))
       (\<lambda>_.
     bindE (ensure_with
              (wrapE ''Failed to verify rule exists in BYPASS_CNI_MASQURADE chain''
                 (ipt_Exists h (dirIpt d) ''nat'' bypassCNIMasquradeChainName (bypass_spec n destinationIP)))
              (wrapE ''Failed to run iptables command to add a rule to ACCEPT traffic''
                 (ipt_Append h (dirIpt d) ''nat'' bypassCNIMasquradeChainName (bypass_spec n destinationIP))))
       (\<lambda>_.
     bindE (wrapE ''Failed to verify required tunnel to gatewat exists'' (cmdOutput h [''ip'', ''link'', ''list'']))
       (\<lambda>out.
     bindE (if \<not> contains out (tunnel_name egressGateway)
            then wrapE ''Failed to tunnel interface to gateway node''
                   (cmdRun h [''ip'', ''tunnel'', ''add'', tunnel_name egressGateway, ''mode'', ''gre'', ''remote'',
                              egressGateway, ''local'', dirNodeIP d])
            else returnE ())
       (\<lambda>_.
     bindE (wrapE ''Failed to set tunnel interface to up''
              (cmdRun h [''ip'', ''link'', ''set'', ''up'', tunnel_name egressGateway]))
       (\<lambda>_.
     bindE (wrapE ''Failed to verify required default route to gatewat exists''
              (cmdOutput h [''ip'', ''route'', ''list'', ''table'', customStaticEgressIPRouteTableName]))
       (\<lambda>out.
     if \<not> contains out destinationIP \<and> \<not> contains out (dest_addr_string destinationIP)
     then wrapE ''Failed to add route in custom route table''
            (cmdRun h [''ip'', ''route'', ''add'', destinationIP, ''dev'', tunnel_name egressGateway, ''table'',
                       customStaticEgressIPRouteTableName])
     else returnE ())))))))"

definition DeleteRouteToGateway ::
  "'w host \<Rightarrow> egress_director \<Rightarrow> string \<Rightarrow> string \<Rightarrow> string \<Rightarrow> ('w proc, unit) prog" where
  "DeleteRouteToGateway h d n destinationIP egressGateway =
     bindE (wrapE ''Failed to get ipset'' (ipset_New h n ''hash:ip'' zero_params))
       (\<lambda>set.
     bindE (remove_with
              (wrapE ''Failed to verify rule exists in PREROUTING chain''
                 (ipt_Exists h (dirIpt d) ''mangle'' ''PREROUTING'' (mark_spec n destinationIP)))
              (wrapE ''Failed to delete rule in PREROUTING chain''
                 (ipt_Delete h (dirIpt d) ''mangle'' ''PREROUTING'' (mark_spec n destinationIP))))
       (\<lambda>_.
     bindE (remove_with
              (wrapE ''Failed to verify rule exists in BYPASS_CNI_MASQURADE chain''
                 (ipt_Exists h (dirIpt d) ''nat'' bypassCNIMasquradeChainName (bypass_spec n destinationIP)))
              (wrapE ''Failed to delete iptables command''
                 (ipt_Delete h (dirIpt d) ''nat'' bypassCNIMasquradeChainName (bypass_spec n destinationIP))))
       (\<lambda>_.
     bindE (wrapE ''Failed to verify required default route to gatewat exists''
              (cmdOutput h [''ip'', ''route'', ''list'', ''table'', customStaticEgressIPRouteTableName]))
       (\<lambda>out.
     bindE (if \<not> contains out destinationIP
            then wrapE ''Failed to delete route in custom route table''
                   (cmdRun h [''ip'', ''route'', ''delete'', destinationIP, ''via'', egressGateway, ''table'',
                              customStaticEgressIPRouteTableName])
            else returnE ())
       (\<lambda>_.
     wrapE ''Failed to delete ipset'' (ipset_Destroy h set))))))"

definition ClearStaleRouteToGateway ::
  "'w host \<Rightarrow> egress_director \<Rightarrow> string \<Rightarrow> string \<Rightarrow> string \<Rightarrow> ('w proc, unit) prog" where
  "ClearStaleRouteToGateway h d n destinationIP egressGateway =
     bindE (remove_with
              (wrapE ''Failed to verify rule exists in PREROUTING chain''
                 (ipt_Exists h (dirIpt d) ''mangle'' ''PREROUTING'' (mark_spec n destinationIP)))
              (wrapE ''Failed to delete rule in PREROUTING chain''
                 (ipt_Delete h (dirIpt d) ''mangle'' ''PREROUTING'' (mark_spec n destinationIP))))
       (\<lambda>_.
     bindE (remove_with
              (wrapE ''Failed to verify rule exists in BYPASS_CNI_MASQURADE chain''
                 (ipt_Exists h (dirIpt d) ''nat'' bypassCNIMasquradeChainName (bypass_spec n destinationIP)))
              (wrapE ''Failed to delete iptables command''
                 (ipt_Delete h (dirIpt d) ''nat'' bypassCNIMasquradeChainName (bypass_spec n destinationIP))))
       (\<lambda>_.
     bindE (wrapE ''Failed to verify required default route to gatewat exists''
              (cmdOutput h [''ip'', ''route'', ''list'', ''table'', customStaticEgressIPRouteTableName]))
       (\<lambda>out.
     if \<not> contains out destinationIP
     then wrapE ''Failed to delete route in custom route table''
            (cmdRun h [''ip'', ''route'', ''delete'', destinationIP, ''via'', egressGateway, ''table'',
                       customStaticEgressIPRouteTableName])
     else returnE ())))"

section \<open>The effects\<close>

abbreviation route_table :: string where
  "route_table \<equiv> customStaticEgressIPRouteTableName"

text \<open>The program takes a destination for routed when the listing of the table contains its text.\<close>

definition route_listed :: "tools \<Rightarrow> linux \<Rightarrow> string \<Rightarrow> bool" where
  "route_listed t lx s \<longleftrightarrow> contains (tRoutes t (routes_of lx route_table)) s"

definition link_listed :: "tools \<Rightarrow> linux \<Rightarrow> string \<Rightarrow> bool" where
  "link_listed t lx s \<longleftrightarrow> contains (tLinks t (lxLinks lx)) s"

definition have_policy :: "tools \<Rightarrow> linux \<Rightarrow> linux option" where
  "have_policy t lx =
     (if contains (tPolicy t (lxPolicy lx)) route_table then Some lx
      else Some (add_policy directorFWMARK route_table lx))"

definition have_tunnel :: "tools \<Rightarrow> string \<Rightarrow> string \<Rightarrow> string \<Rightarrow> linux \<Rightarrow> linux option" where
  "have_tunnel t n remote loc lx =
     (if link_listed t lx n then Some lx
      else if n \<in> set (lxLinks lx) then None else Some (add_tunnel n remote loc lx))"

definition have_up :: "string \<Rightarrow> linux \<Rightarrow> linux option" where
  "have_up n lx = (if n \<in> set (lxLinks lx) then Some (link_up n lx) else None)"

definition have_route :: "tools \<Rightarrow> string \<Rightarrow> string \<Rightarrow> linux \<Rightarrow> linux option" where
  "have_route t d n lx =
     (if \<not> route_listed t lx d \<and> \<not> route_listed t lx (dest_addr_string d)
      then (if n \<in> set (lxLinks lx) \<and> d \<notin> fst ` set (routes_of lx route_table)
            then Some (add_route route_table d n lx) else None)
      else Some lx)"

definition drop_route :: "tools \<Rightarrow> string \<Rightarrow> string \<Rightarrow> linux \<Rightarrow> linux option" where
  "drop_route t d g lx =
     (if \<not> route_listed t lx d
      then (if (d, ViaGateway g) \<in> set (routes_of lx route_table)
            then Some (put_routes route_table (remove1 (d, ViaGateway g) (routes_of lx route_table)) lx) else None)
      else Some lx)"

definition director_setup_effect :: "tools \<Rightarrow> linux \<Rightarrow> linux option" where
  "director_setup_effect t =
     steps [Some, Some, have_policy t, have_chain t ''nat'' bypassCNIMasquradeChainName,
            have_front ''nat'' ''POSTROUTING'' [''-j'', bypassCNIMasquradeChainName]]"

definition director_add_effect ::
  "tools \<Rightarrow> string \<Rightarrow> string \<Rightarrow> string list \<Rightarrow> string \<Rightarrow> string \<Rightarrow> linux \<Rightarrow> linux option" where
  "director_add_effect t nodeIP n ips dst gw =
     steps [have_set n ips,
            have_front ''mangle'' ''PREROUTING'' (mark_spec n dst),
            have_back ''nat'' bypassCNIMasquradeChainName (bypass_spec n dst),
            have_tunnel t (tunnel_name gw) gw nodeIP,
            have_up (tunnel_name gw),
            have_route t dst (tunnel_name gw)]"

definition director_clear_effect :: "tools \<Rightarrow> string \<Rightarrow> string \<Rightarrow> string \<Rightarrow> linux \<Rightarrow> linux option" where
  "director_clear_effect t n dst gw =
     steps [have_not ''mangle'' ''PREROUTING'' (mark_spec n dst),
            have_not ''nat'' bypassCNIMasquradeChainName (bypass_spec n dst),
            drop_route t dst gw]"

definition director_delete_effect :: "tools \<Rightarrow> string \<Rightarrow> string \<Rightarrow> string \<Rightarrow> linux \<Rightarrow> linux option" where
  "director_delete_effect t n dst gw =
     (\<lambda>lx. steps [have_not ''mangle'' ''PREROUTING'' (mark_spec n dst),
             have_not ''nat'' bypassCNIMasquradeChainName (bypass_spec n dst),
             drop_route t dst gw,
             free_set n] (put_set n {} lx))"

context node_contract
begin

lemma implements_read:
  "implements h t v k (askE (\<lambda>w. case hReadFile h f w of None \<Rightarrow> Inl e | Some b \<Rightarrow> Inr b)) Some"
proof (rule implementsI)
  fix p r p'
  assume "path_at t k p" and "askE (\<lambda>w. case hReadFile h f w of None \<Rightarrow> Inl e | Some b \<Rightarrow> Inr b) p = (r, p')"
  moreover have "reliable h t v \<Longrightarrow> hReadFile h f (os p) \<noteq> None"
    unfolding reliable_def by blast
  ultimately show "path_at t k p' \<and> node_edits (view v p) (view v p') \<and>
      (\<forall>x. r = Ok x \<longrightarrow> Some (view v p) = Some (view v p')) \<and>
      (reliable h t v \<longrightarrow> Some (view v p) \<noteq> None \<longrightarrow> (\<exists>x. r = Ok x))"
    by (auto split: option.splits)
qed

lemma implements_append: "implements h t v k (appendFile h f s) Some"
proof (rule implementsI)
  fix p r p'
  assume path: "path_at t k p" and run: "appendFile h f s p = (r, p')"
  have quiet: "v (snd (hAppend h f s w)) = v w" for w
    using doc unfolding documented_def others_quiet_def by blast
  have rel: "reliable h t v \<Longrightarrow> hOpenAppend h f w \<and> fst (hAppend h f s w)" for w
    unfolding reliable_def by blast
  obtain ok w where w: "hAppend h f s (os p) = (ok, w)" by (rule prod.exhaust)
  have "v w = v (os p)" using quiet [of "os p"] w by simp
  moreover have "reliable h t v \<Longrightarrow> hOpenAppend h f (os p) \<and> ok" using rel [of "os p"] w by simp
  ultimately show "path_at t k p' \<and> node_edits (view v p) (view v p') \<and>
      (\<forall>x. r = Ok x \<longrightarrow> Some (view v p) = Some (view v p')) \<and>
      (reliable h t v \<longrightarrow> Some (view v p) \<noteq> None \<longrightarrow> (\<exists>x. r = Ok x))"
    using run w path_at_same [OF path, of p'] by (auto simp: appendFile_def view_def split: if_splits)
qed

lemma implements_optional:
  "implements h t v k m f \<Longrightarrow> implements h t v k (if b then m else returnE ()) (if b then f else Some)"
  by (simp add: implements_return)

lemma implements_table_entry:
  "implements h t v k (if \<not> b then appendFile h f s else returnE ()) Some"
  using implements_append implements_return by (cases b) simp_all

lemma implements_director_Setup:
  assumes "ipt_ready t (dirIpt d)"
  shows "implements h t v False (director_Setup h d) (director_setup_effect t)"
  unfolding director_Setup_def director_setup_effect_def
  by (intro implements_steps [OF implements_wrap [OF implements_read]] implements_steps [OF implements_table_entry]
      implements_ask_steps [OF asks_wrap [OF asks_rule_list]
        implements_optional [OF implements_wrap [OF implements_rule_add]]]
      implements_steps [OF implements_newChainOrPanic] implements_last implements_front assms known_tables_simps)
    (simp add: have_policy_def)

lemma implements_director_Add:
  assumes "ipt_ready t (dirIpt d)"
  shows "implements h t v False (AddRouteToGateway h d n ips dst gw) (director_add_effect t (dirNodeIP d) n ips dst gw)"
  unfolding AddRouteToGateway_def director_add_effect_def have_up_def [abs_def]
  by (intro implements_steps [OF implements_fill_set] implements_steps [OF implements_front]
      implements_steps [OF implements_back] implements_steps [OF implements_wrap [OF implements_link_up]]
      implements_ask_steps [OF asks_wrap [OF asks_link_list]
        implements_optional [OF implements_wrap [OF implements_tunnel_add]]]
      implements_ask_last [OF asks_wrap [OF asks_route_list]
        implements_optional [OF implements_wrap [OF implements_route_add]]] assms known_tables_simps)
    (simp_all add: have_tunnel_def have_route_def link_listed_def route_listed_def)

lemma implements_director_Clear:
  assumes "ipt_ready t (dirIpt d)"
  shows "implements h t v k (ClearStaleRouteToGateway h d n dst gw) (director_clear_effect t n dst gw)"
  unfolding ClearStaleRouteToGateway_def director_clear_effect_def
  by (intro implements_steps [OF implements_not] implements_ask_last [OF asks_wrap [OF asks_route_list]
        implements_optional [OF implements_wrap [OF implements_route_delete]]] assms known_tables_simps)
    (simp add: drop_route_def route_listed_def)

lemma implements_director_Delete:
  assumes "ipt_ready t (dirIpt d)"
  shows "implements h t v False (DeleteRouteToGateway h d n dst gw) (director_delete_effect t n dst gw)"
  unfolding DeleteRouteToGateway_def director_delete_effect_def
  by (intro implements_New implements_steps [OF implements_not] implements_ask_steps [OF asks_wrap [OF asks_route_list]
        implements_optional [OF implements_wrap [OF implements_route_delete]]]
      implements_last implements_wrap [OF implements_Destroy] assms known_tables_simps)
    (simp_all add: drop_route_def route_listed_def)

end

section \<open>What the effects say\<close>

lemma director_specs [simp]:
  "match_sets (mark_spec n dst) = [n]" "match_sets (bypass_spec n dst) = [n]"
  "spec_valid lx tab (mark_spec n dst) \<longleftrightarrow> set_of lx n \<noteq> None"
  "spec_valid lx tab (bypass_spec n dst) \<longleftrightarrow> set_of lx n \<noteq> None"
  by (simp_all add: mark_spec_def bypass_spec_def spec_valid_def match_sets_def jump_target_def
      one_argument_def builtin_targets_def)

text \<open>Tunnels, links and routes do not touch rules, sets, chains or the policy.\<close>

definition same_rules :: "linux \<Rightarrow> linux \<Rightarrow> bool" where
  "same_rules lx lx' \<longleftrightarrow> rules_of lx' = rules_of lx \<and> set_of lx' = set_of lx \<and> lxPolicy lx' = lxPolicy lx"

lemma same_rules_in: "same_rules lx lx' \<Longrightarrow> rule_in lx' = rule_in lx \<and> chain_in lx' = chain_in lx"
  by (simp add: same_rules_def rule_in_def chain_in_def fun_eq_iff)

lemma have_tunnel_Some:
  assumes "have_tunnel t n r l lx = Some lx'"
  shows "same_rules lx lx'" and "routes_of lx' = routes_of lx" and "lxUp lx' = lxUp lx"
    and "lxLinks lx' = (if link_listed t lx n then lxLinks lx else lxLinks lx @ [n])"
    and "tunnel_of lx' = (if link_listed t lx n then tunnel_of lx else (tunnel_of lx)(n \<mapsto> (r, l)))"
  using assms by (auto simp: have_tunnel_def same_rules_def fun_eq_iff split: if_splits)

lemma have_up_Some:
  assumes "have_up n lx = Some lx'"
  shows "same_rules lx lx'" and "routes_of lx' = routes_of lx" and "lxLinks lx' = lxLinks lx"
    and "lxUp lx' = insert n (lxUp lx)" and "n \<in> set (lxLinks lx)" and "tunnel_of lx' = tunnel_of lx"
  using assms by (auto simp: have_up_def same_rules_def split: if_splits)

lemma have_route_Some:
  assumes "have_route t d n lx = Some lx'"
  shows "same_rules lx lx'" and "lxLinks lx' = lxLinks lx" and "lxUp lx' = lxUp lx" and "tunnel_of lx' = tunnel_of lx"
    and "routes_of lx' tab =
      (if tab = route_table \<and> \<not> route_listed t lx d \<and> \<not> route_listed t lx (dest_addr_string d)
       then routes_of lx tab @ [(d, OnDevice n)] else routes_of lx tab)"
  using assms by (auto simp: have_route_def same_rules_def split: if_splits)

text \<open>What \<open>AddRouteToGateway\<close> promises when it returns nil.\<close>

definition director_added ::
  "tools \<Rightarrow> string \<Rightarrow> string \<Rightarrow> string list \<Rightarrow> string \<Rightarrow> string \<Rightarrow> linux \<Rightarrow> linux \<Rightarrow> bool" where
  "director_added t nodeIP n ips dst gw lx lx' \<longleftrightarrow>
     set_of lx' = (set_of lx)(n \<mapsto> set ips) \<and> chain_in lx' = chain_in lx \<and> lxPolicy lx' = lxPolicy lx \<and>
     (\<forall>tab ch s. rule_in lx' tab ch s \<longleftrightarrow> rule_in lx tab ch s \<or>
        (tab, ch, s) \<in> {(''mangle'', ''PREROUTING'', mark_spec n dst),
                        (''nat'', bypassCNIMasquradeChainName, bypass_spec n dst)}) \<and>
     tunnel_name gw \<in> set (lxLinks lx') \<and> lxUp lx' = insert (tunnel_name gw) (lxUp lx) \<and>
     (if link_listed t lx (tunnel_name gw) then lxLinks lx' = lxLinks lx \<and> tunnel_of lx' = tunnel_of lx
      else lxLinks lx' = lxLinks lx @ [tunnel_name gw] \<and> tunnel_of lx' = (tunnel_of lx)(tunnel_name gw \<mapsto> (gw, nodeIP))) \<and>
     (\<forall>tab. routes_of lx' tab =
        (if tab = route_table \<and> \<not> route_listed t lx dst \<and> \<not> route_listed t lx (dest_addr_string dst)
         then routes_of lx tab @ [(dst, OnDevice (tunnel_name gw))] else routes_of lx tab))"

lemma director_add_Some:
  assumes "director_add_effect t ip n ips dst gw lx = Some lx'"
  shows "director_added t ip n ips dst gw lx lx'"
proof -
  obtain l2 l3 l4 l5 where l2: "have_front ''mangle'' ''PREROUTING'' (mark_spec n dst) (put_set n (set ips) lx) = Some l2"
    and l3: "have_back ''nat'' bypassCNIMasquradeChainName (bypass_spec n dst) l2 = Some l3"
    and l4: "have_tunnel t (tunnel_name gw) gw ip l3 = Some l4"
    and l5: "have_up (tunnel_name gw) l4 = Some l5"
    and l6: "have_route t dst (tunnel_name gw) l5 = Some lx'"
    using assms by (auto simp: director_add_effect_def have_set_def Option_bind_Some_iff)
  note a = have_front_Some [OF l2] and b = have_back_Some [OF l3] and c = have_tunnel_Some [OF l4]
    and d = have_up_Some [OF l5] and e = have_route_Some [OF l6]
  have rr: "same_rest lx l3" using a(3) b(3) by (simp add: same_rest_def)
  have sr: "same_rules l3 lx'" using c(1) d(1) e(1) by (simp add: same_rules_def)
  note ri = same_rules_in [OF sr]
  have sets: "set_of lx' = (set_of lx)(n \<mapsto> set ips)"
    using sr a(4) b(4) by (simp add: same_rules_def fun_eq_iff)
  have ch: "chain_in lx' = chain_in lx" using ri a(5) b(5) by (simp add: fun_eq_iff)
  have pol: "lxPolicy lx' = lxPolicy lx" using sr rr by (simp add: same_rules_def same_rest_def)
  have rules: "rule_in lx' tab ch s \<longleftrightarrow> rule_in lx tab ch s \<or>
        (tab, ch, s) \<in> {(''mangle'', ''PREROUTING'', mark_spec n dst),
                        (''nat'', bypassCNIMasquradeChainName, bypass_spec n dst)}" for tab ch s
    using ri a(6) b(6) by auto
  have listed: "link_listed t l3 = link_listed t lx" "route_listed t l5 = route_listed t lx" "routes_of l5 = routes_of lx"
    using rr c(2) d(2) by (simp_all add: link_listed_def route_listed_def same_rest_def fun_eq_iff)
  show ?thesis unfolding director_added_def
    using sets ch pol rules rr c(3-5) d(3-6) e(2-5) by (simp add: listed same_rest_def)
qed

definition director_ready :: "linux \<Rightarrow> bool" where
  "director_ready lx \<longleftrightarrow> chain_in lx ''mangle'' ''PREROUTING'' \<and> chain_in lx ''nat'' bypassCNIMasquradeChainName"

text \<open>The substring tests agree with what is there.\<close>

definition names_apart :: "tools \<Rightarrow> linux \<Rightarrow> string \<Rightarrow> string \<Rightarrow> bool" where
  "names_apart t lx dst gw \<longleftrightarrow>
     (link_listed t lx (tunnel_name gw) \<longleftrightarrow> tunnel_name gw \<in> set (lxLinks lx)) \<and>
     (dst \<in> fst ` set (routes_of lx route_table) \<longrightarrow>
        route_listed t lx dst \<or> route_listed t lx (dest_addr_string dst))"

lemma director_add_defined:
  assumes ready: "director_ready lx" and apart: "names_apart t lx dst gw"
  shows "director_add_effect t ip n ips dst gw lx \<noteq> None"
proof -
  let ?l1 = "put_set n (set ips) lx"
  obtain l2 where l2: "have_front ''mangle'' ''PREROUTING'' (mark_spec n dst) ?l1 = Some l2"
    using have_front_ex [of ?l1 "''mangle''" "''PREROUTING''" "mark_spec n dst"] ready by (auto simp: director_ready_def)
  note a = have_front_Some [OF l2]
  obtain l3 where l3: "have_back ''nat'' bypassCNIMasquradeChainName (bypass_spec n dst) l2 = Some l3"
    using have_back_ex [of l2 "''nat''" bypassCNIMasquradeChainName "bypass_spec n dst"] ready a(4,5)
    by (auto simp: director_ready_def)
  note b = have_back_Some [OF l3]
  have rr: "lxLinks l3 = lxLinks lx" "routes_of l3 = routes_of lx" using a(3) b(3) by (simp_all add: same_rest_def)
  obtain l4 where l4: "have_tunnel t (tunnel_name gw) gw ip l3 = Some l4"
    using apart rr by (auto simp: have_tunnel_def names_apart_def link_listed_def)
  note c = have_tunnel_Some [OF l4]
  have tun: "tunnel_name gw \<in> set (lxLinks l4)"
    using c(4) rr apart by (auto simp: names_apart_def link_listed_def)
  then obtain l5 where l5: "have_up (tunnel_name gw) l4 = Some l5" by (auto simp: have_up_def)
  note d = have_up_Some [OF l5]
  have "have_route t dst (tunnel_name gw) l5 \<noteq> None"
    using apart tun rr c(2) d(2,3) by (auto simp: have_route_def names_apart_def route_listed_def)
  with l2 l3 l4 l5 show ?thesis by (auto simp: director_add_effect_def have_set_def)
qed

text \<open>A rule's route once listed: adding again changes nothing.\<close>

lemma link_up_same: "n \<in> lxUp lx \<Longrightarrow> link_up n lx = lx"
  by (simp add: link_up_def insert_absorb)

lemma director_add_again:
  assumes added: "director_added t ip n ips dst gw lx lx'" and tools: "tools_ok t"
    and listed: "route_listed t lx' dst \<or> route_listed t lx' (dest_addr_string dst)"
  shows "director_add_effect t ip n ips dst gw lx' = Some lx'"
proof -
  have set: "set_of lx' n = Some (set ips)" and up: "tunnel_name gw \<in> lxUp lx'"
    and link: "tunnel_name gw \<in> set (lxLinks lx')"
    and rules: "rule_in lx' ''mangle'' ''PREROUTING'' (mark_spec n dst)"
      "rule_in lx' ''nat'' bypassCNIMasquradeChainName (bypass_spec n dst)"
    using added by (auto simp: director_added_def)
  have "link_listed t lx' (tunnel_name gw)"
    using tools link by (auto simp: tools_ok_def link_listed_def)
  then show ?thesis
    using rules set link listed up
    by (auto simp: director_add_effect_def have_set_def put_set_same have_front_again have_back_again
        have_tunnel_def have_up_def have_route_def link_up_same)
qed

lemma dest_addr_cidr4: "n \<le> 32 \<Longrightarrow> dest_addr_string (cidr4 a b c d n) = dotted [a, b, c, d]"
  by (simp add: dest_addr_string_def cidr4_def ParseCIDR_dotted [simplified] IP_String_IPv4)

lemma last_sep_unique:
  assumes "a @ c # b = a' @ c # b'" and "c \<notin> set b" and "c \<notin> set b'"
  shows "a = a'"
proof -
  have "rev b @ c # rev a = rev b' @ c # rev a'" using arg_cong [OF assms(1), of rev] by simp
  then have "dropWhile (\<lambda>x. x \<noteq> c) (rev b @ c # rev a) = dropWhile (\<lambda>x. x \<noteq> c) (rev b' @ c # rev a')"
    by simp
  moreover have "dropWhile (\<lambda>x. x \<noteq> c) (rev s @ c # r) = c # r" if "c \<notin> set s" for s r
    using that by (intro dropWhile_stop) auto
  ultimately show ?thesis using assms(2,3) by simp
qed

lemma shown_cidr4: "shown_dest (cidr4 a b c d n) = cidr4 a b c d n \<or> shown_dest (cidr4 a b c d n) = dotted [a, b, c, d]"
proof (cases "suffix ''/32'' (cidr4 a b c d n)")
  case True
  then obtain x where x: "cidr4 a b c d n = x @ ''/32''" by (auto simp: suffix_def)
  then have "dotted [a, b, c, d] @ CHR ''/'' # dec_string n = x @ CHR ''/'' # ''32''"
    by (simp add: cidr4_def)
  then have "dotted [a, b, c, d] = x" by (rule last_sep_unique) simp_all
  then show ?thesis using True x by (simp add: shown_dest_def)
qed (simp add: shown_dest_def)

lemma listed_cidr4:
  assumes "tools_ok t" and "(cidr4 a b c d n, nh) \<in> set (routes_of lx route_table)" and "n \<le> 32"
  shows "route_listed t lx (cidr4 a b c d n) \<or> route_listed t lx (dest_addr_string (cidr4 a b c d n))"
proof -
  have "contains (tRoutes t (routes_of lx route_table)) (shown_dest (cidr4 a b c d n))"
    using assms(1,2) by (fastforce simp: tools_ok_def)
  then show ?thesis using shown_cidr4 [of a b c d n] dest_addr_cidr4 [OF assms(3)]
    by (auto simp: route_listed_def)
qed

text \<open>
  No edit of this program takes a route away from a table that has only device routes, as
  the ones it adds are.
\<close>

definition device_routes :: "linux \<Rightarrow> bool" where
  "device_routes lx \<longleftrightarrow> (\<forall>tab d g. (d, ViaGateway g) \<notin> set (routes_of lx tab))"



lemma have_policy_Some:
  assumes "have_policy t lx = Some l1"
  shows "rule_in l1 = rule_in lx" and "chain_in l1 = chain_in lx" and "set_of l1 = set_of lx"
    and "lxLinks l1 = lxLinks lx" and "routes_of l1 = routes_of lx"
    and "lxUp l1 = lxUp lx" and "tunnel_of l1 = tunnel_of lx"
    and "lxPolicy l1 = lxPolicy lx @
      (if contains (tPolicy t (lxPolicy lx)) route_table then [] else [(directorFWMARK, route_table)])"
  using assms by (auto simp: have_policy_def rule_in_def chain_in_def fun_eq_iff split: if_splits)

text \<open>What \<open>Setup\<close> leaves behind, and where it goes through.\<close>

lemma director_setup_Some:
  assumes "director_setup_effect t lx = Some lx'"
  shows "(\<forall>tab ch. chain_in lx' tab ch \<longleftrightarrow> chain_in lx tab ch \<or> tab = ''nat'' \<and> ch = bypassCNIMasquradeChainName) \<and>
     (\<forall>tab ch s. rule_in lx' tab ch s \<longleftrightarrow> rule_in lx tab ch s \<or>
        (tab, ch, s) = (''nat'', ''POSTROUTING'', [''-j'', bypassCNIMasquradeChainName])) \<and>
     lxPolicy lx' = lxPolicy lx @
       (if contains (tPolicy t (lxPolicy lx)) route_table then [] else [(directorFWMARK, route_table)]) \<and>
     set_of lx' = set_of lx \<and> lxLinks lx' = lxLinks lx \<and> lxUp lx' = lxUp lx \<and> tunnel_of lx' = tunnel_of lx \<and>
     routes_of lx' = routes_of lx"
proof -
  obtain l1 l2 where l1: "have_policy t lx = Some l1"
    and l2: "have_chain t ''nat'' bypassCNIMasquradeChainName l1 = Some l2"
    and l3: "have_front ''nat'' ''POSTROUTING'' [''-j'', bypassCNIMasquradeChainName] l2 = Some lx'"
    using assms by (auto simp: director_setup_effect_def Option_bind_Some_iff)
  note p = have_policy_Some [OF l1] and a = have_chain_Some [OF l2] and b = have_front_Some [OF l3]
  have rest: "same_rest l1 lx'" using same_rest_trans [OF a(1) b(3)] .
  have chains: "chain_in lx' tab ch \<longleftrightarrow> chain_in lx tab ch \<or> tab = ''nat'' \<and> ch = bypassCNIMasquradeChainName" for tab ch
    using a(3) b(5) p(2) by simp
  have rules: "rule_in lx' tab ch s \<longleftrightarrow> rule_in lx tab ch s \<or>
      (tab, ch, s) = (''nat'', ''POSTROUTING'', [''-j'', bypassCNIMasquradeChainName])" for tab ch s
    using a(4) b(6) p(1) by simp
  have sets: "set_of lx' = set_of lx" using a(2) b(4) p(3) by simp
  have others: "lxPolicy lx' = lxPolicy l1" "lxLinks lx' = lxLinks lx" "routes_of lx' = routes_of lx"
      "lxUp lx' = lxUp lx" "tunnel_of lx' = tunnel_of lx"
    using rest p(4-7) by (simp_all add: same_rest_def)
  show ?thesis using chains rules sets others p(8) by simp
qed

lemma director_setup_defined:
  assumes "chain_in lx ''nat'' ''POSTROUTING''"
    and "tChainExists t = 1 \<or> \<not> chain_in lx ''nat'' bypassCNIMasquradeChainName"
  shows "director_setup_effect t lx \<noteq> None"
proof -
  obtain l1 where l1: "have_policy t lx = Some l1" unfolding have_policy_def by (metis (full_types))
  note p = have_policy_Some [OF l1]
  obtain l2 where l2: "have_chain t ''nat'' bypassCNIMasquradeChainName l1 = Some l2"
    using have_chain_ex [of t l1] assms(2) p(2) by metis
  note a = have_chain_Some [OF l2]
  have "\<exists>l3. have_front ''nat'' ''POSTROUTING'' [''-j'', bypassCNIMasquradeChainName] l2 = Some l3"
    using assms(1) a(3) p(2) by (intro have_front_ex) auto
  then show ?thesis using l1 l2 by (auto simp: director_setup_effect_def)
qed

section \<open>Properties of the director\<close>

definition ref_director :: egress_director where
  "ref_director = \<lparr>dirIpt = ref_ipt, dirNodeIP = ''192.168.1.11''\<rparr>"

definition ref_director_lx :: linux where
  "ref_director_lx = put_rules ''nat'' bypassCNIMasquradeChainName [] fresh_lx"

lemma ref_director_simps [simp]:
  "ipt_ready (ref_tools n) (dirIpt ref_director)" "director_ready ref_director_lx"
  "lxLinks ref_director_lx = [''eth0'']" "routes_of ref_director_lx tab = []" "set_of ref_director_lx n' = None"
  "dirNodeIP ref_director = ''192.168.1.11''"
  by (auto simp: ref_director_def ref_director_lx_def director_ready_def chain_in_def)

text \<open>
  \<open>Setup\<close> of the director, when it returns nil: the bypass chain exists and POSTROUTING
  jumps to it, a policy rule for the custom table is there unless one was listed before,
  and rules, sets and links are otherwise as before; on a node without faults it returns
  nil, on a restart too where iptables answers exit status 1 for an existing chain.
\<close>

lemma director_Setup_correct:
  assumes "documented h t v" and "ipt_ready t (dirIpt d)" and "path_ready t p"
    and "director_Setup h d p = (r, p')"
  shows "(r = Ok () \<longrightarrow>
       (\<forall>tab ch. chain_in (view v p') tab ch \<longleftrightarrow> chain_in (view v p) tab ch \<or>
          tab = ''nat'' \<and> ch = bypassCNIMasquradeChainName) \<and>
       (\<forall>tab ch s. rule_in (view v p') tab ch s \<longleftrightarrow> rule_in (view v p) tab ch s \<or>
          (tab, ch, s) = (''nat'', ''POSTROUTING'', [''-j'', bypassCNIMasquradeChainName])) \<and>
       lxPolicy (view v p') = lxPolicy (view v p) @
         (if contains (tPolicy t (lxPolicy (view v p))) ''kube-static-egress-ip'' then []
          else [(''1000'', ''kube-static-egress-ip'')]) \<and>
       set_of (view v p') = set_of (view v p) \<and> lxLinks (view v p') = lxLinks (view v p) \<and>
       routes_of (view v p') = routes_of (view v p)) \<and>
     (reliable h t v \<and> chain_in (view v p) ''nat'' ''POSTROUTING'' \<and>
      (tChainExists t = 1 \<or> \<not> chain_in (view v p) ''nat'' bypassCNIMasquradeChainName) \<longrightarrow> r = Ok ())"
proof -
  have nc: "node_contract h t v" using assms(1) by unfold_locales
  note d = implementsD [OF node_contract.implements_director_Setup [OF nc assms(2)] _ assms(4)]
  show ?thesis
    using d(3,4) director_setup_Some director_setup_defined assms(3)
    by (fastforce simp: customStaticEgressIPRouteTableName_def directorFWMARK_def)
qed

lemma director_Setup_correct_witness:
  "\<exists>p'. director_Setup (ref_host 1) ref_director (ref_proc fresh_lx) = (Ok (), p') \<and>
     lxPolicy (view rwNode p') = [(''1000'', ''kube-static-egress-ip'')]"
proof -
  obtain r p' where run: "director_Setup (ref_host 1) ref_director (ref_proc fresh_lx) = (r, p')" by (rule prod.exhaust)
  show ?thesis
    using director_Setup_correct [OF ref_documented ref_director_simps(1) ref_proc_simps(2) run] run ref_reliable
    by (auto simp: chain_in_def)
qed

text \<open>
  C8 (director_Add_correct). \<open>AddRouteToGateway\<close>, when it returns nil: the set holds exactly the given source
  addresses, the mark and the bypass rule are there, the tunnel link to the gateway exists
  and is up, the routing table has gained the route over the tunnel unless the destination
  was already listed, and nothing else changed; on a node without faults that went through
  \<open>Setup\<close> it does return nil, as long as the substring tests tell the tunnel and the
  destination from the others on the node.
\<close>

theorem director_Add_correct:
  assumes "documented h t v" and "ipt_ready t (dirIpt d)" and "path_ready t p"
    and "AddRouteToGateway h d n ips dst gw p = (r, p')"
  shows "(r = Ok () \<longrightarrow> director_added t (dirNodeIP d) n ips dst gw (view v p) (view v p')) \<and>
     (reliable h t v \<and> director_ready (view v p) \<and> names_apart t (view v p) dst gw \<longrightarrow> r = Ok ())"
proof -
  have nc: "node_contract h t v" using assms(1) by unfold_locales
  note d = implementsD [OF node_contract.implements_director_Add [OF nc assms(2)] _ assms(4)]
  show ?thesis using d(3,4) assms(3) director_add_Some director_add_defined by fastforce
qed

theorem director_Add_correct_witness:
  "\<exists>p'. AddRouteToGateway (ref_host 1) ref_director ''set1'' [''10.1.0.4''] ''8.8.8.0/24'' ''192.168.1.10''
       (ref_proc ref_director_lx) = (Ok (), p') \<and>
     ''tun192168110'' \<in> lxUp (view rwNode p')"
proof -
  obtain r p' where run: "AddRouteToGateway (ref_host 1) ref_director ''set1'' [''10.1.0.4''] ''8.8.8.0/24''
      ''192.168.1.10'' (ref_proc ref_director_lx) = (r, p')" by (rule prod.exhaust)
  have tun: "tunnel_name ''192.168.1.10'' = ''tun192168110''"
    by (simp add: tunnel_name_def remove_dots_def)
  have "names_apart (ref_tools 1) ref_director_lx ''8.8.8.0/24'' ''192.168.1.10''"
    by (simp add: names_apart_def link_listed_def tun) (simp add: ref_tools_def)
  then show ?thesis
    using director_Add_correct [OF ref_documented ref_director_simps(1) ref_proc_simps(2) run] run ref_reliable
    by (auto simp: director_added_def tun)
qed

text \<open>
  Adding the same IPv4 destination again, after it was added, on a node without faults:
  the second call returns nil and changes nothing.
\<close>

lemma director_Add_idempotent:
  assumes "documented h t v" and rel: "reliable h t v" and "ipt_ready t (dirIpt d)" and "path_ready t p"
    and "m \<le> 32"
    and first: "AddRouteToGateway h d n ips (cidr4 a b c e m) gw p = (Ok (), p')"
    and second: "AddRouteToGateway h d n ips (cidr4 a b c e m) gw p' = (r, p'')"
  shows "r = Ok () \<and> view v p'' = view v p'"
proof -
  have nc: "node_contract h t v" using assms(1) by unfold_locales
  have tools: "tools_ok t" using assms(1) by (simp add: documented_def)
  note i = node_contract.implements_director_Add [OF nc assms(3)]
  note d = implementsD [OF i _ first] and d2 = implementsD [OF i _ second]
  have added: "director_added t (dirNodeIP d) n ips (cidr4 a b c e m) gw (view v p) (view v p')"
    using d(3) assms(4) director_add_Some by simp
  have "route_listed t (view v p') (cidr4 a b c e m) \<or> route_listed t (view v p') (dest_addr_string (cidr4 a b c e m))"
  proof (cases "route_listed t (view v p) (cidr4 a b c e m) \<or> route_listed t (view v p) (dest_addr_string (cidr4 a b c e m))")
    case True
    then have "routes_of (view v p') route_table = routes_of (view v p) route_table"
      using added by (auto simp: director_added_def)
    with True show ?thesis by (simp add: route_listed_def)
  next
    case False
    then have "(cidr4 a b c e m, OnDevice (tunnel_name gw)) \<in> set (routes_of (view v p') route_table)"
      using added by (simp add: director_added_def)
    from listed_cidr4 [OF tools this assms(5)] show ?thesis .
  qed
  from director_add_again [OF added tools this]
  have "director_add_effect t (dirNodeIP d) n ips (cidr4 a b c e m) gw (view v p') = Some (view v p')" .
  then show ?thesis using d2(3,4) d(1) assms(4) rel by fastforce
qed

lemma director_Add_idempotent_witness:
  "\<exists>p' p''. AddRouteToGateway (ref_host 1) ref_director ''set1'' [] (cidr4 8 8 8 0 24) ''192.168.1.10''
       (ref_proc ref_director_lx) = (Ok (), p') \<and>
     AddRouteToGateway (ref_host 1) ref_director ''set1'' [] (cidr4 8 8 8 0 24) ''192.168.1.10'' p' = (Ok (), p'') \<and>
     view rwNode p'' = view rwNode p'"
proof -
  let ?add = "AddRouteToGateway (ref_host 1) ref_director ''set1'' [] (cidr4 8 8 8 0 24) ''192.168.1.10''"
  obtain r p' where run: "?add (ref_proc ref_director_lx) = (r, p')" by (rule prod.exhaust)
  obtain r2 p'' where run2: "?add p' = (r2, p'')" by (rule prod.exhaust)
  have nc: "node_contract (ref_host 1) (ref_tools 1) rwNode" using ref_documented by unfold_locales
  have apart: "names_apart (ref_tools 1) ref_director_lx (cidr4 8 8 8 0 24) ''192.168.1.10''"
    by (simp add: names_apart_def link_listed_def tunnel_name_def remove_dots_def) (simp add: ref_tools_def)
  have "r = Ok ()"
    using implementsD(4) [OF node_contract.implements_director_Add [OF nc ref_director_simps(1)] _ run ref_reliable]
      director_add_defined [OF ref_director_simps(2) apart] by fastforce
  with run run2 director_Add_idempotent [OF ref_documented ref_reliable ref_director_simps(1) ref_proc_simps(2) _
      run [unfolded this] run2]
  show ?thesis by auto
qed

text \<open>
  Moving a destination to another gateway: when the table already has a route for the
  destination, \<open>AddRouteToGateway\<close> with a new gateway leaves the table as it is, so the
  traffic still goes through the old tunnel although the call returns nil.
\<close>

lemma director_Add_keeps_old_gateway:
  assumes "documented h t v" and "ipt_ready t (dirIpt d)" and "path_ready t p" and "m \<le> 32"
    and old: "(cidr4 a b c e m, OnDevice oldtun) \<in> set (routes_of (view v p) ''kube-static-egress-ip'')"
    and "AddRouteToGateway h d n ips (cidr4 a b c e m) gw p = (Ok (), p')"
  shows "routes_of (view v p') ''kube-static-egress-ip'' = routes_of (view v p) ''kube-static-egress-ip''"
proof -
  have nc: "node_contract h t v" using assms(1) by unfold_locales
  have tools: "tools_ok t" using assms(1) by (simp add: documented_def)
  have tab: "''kube-static-egress-ip'' = route_table" by (simp add: customStaticEgressIPRouteTableName_def)
  have "director_added t (dirNodeIP d) n ips (cidr4 a b c e m) gw (view v p) (view v p')"
    using implementsD(3) [OF node_contract.implements_director_Add [OF nc assms(2)] _ assms(6)] assms(3)
      director_add_Some by simp
  then show ?thesis using listed_cidr4 [OF tools old [unfolded tab] assms(4)] unfolding tab
    by (auto simp: director_added_def)
qed

text \<open>A director that has sent 8.8.8.0/24 to the gateway 192.168.1.9.\<close>

definition ref_routed_lx :: linux where
  "ref_routed_lx = add_route route_table (cidr4 8 8 8 0 24) ''tun19216819'' (add_tunnel ''tun19216819'' ''192.168.1.9'' ''192.168.1.11'' ref_director_lx)"

lemma ref_routed_simps [simp]:
  "director_ready ref_routed_lx" "lxLinks ref_routed_lx = [''eth0'', ''tun19216819'']"
  "routes_of ref_routed_lx route_table = [(cidr4 8 8 8 0 24, OnDevice ''tun19216819'')]"
  "device_routes ref_routed_lx"
proof -
  show "director_ready ref_routed_lx" using ref_director_simps(2)
    by (simp add: director_ready_def chain_in_def ref_routed_lx_def)
qed (simp_all add: ref_routed_lx_def device_routes_def)

lemma director_Add_keeps_old_gateway_witness:
  "\<exists>p'. AddRouteToGateway (ref_host 1) ref_director ''set1'' [] (cidr4 8 8 8 0 24) ''192.168.1.20''
       (ref_proc ref_routed_lx) = (Ok (), p') \<and>
     routes_of (view rwNode p') ''kube-static-egress-ip'' = [(cidr4 8 8 8 0 24, OnDevice ''tun19216819'')]"
proof -
  let ?add = "AddRouteToGateway (ref_host 1) ref_director ''set1'' [] (cidr4 8 8 8 0 24) ''192.168.1.20''"
  obtain r p' where run: "?add (ref_proc ref_routed_lx) = (r, p')" by (rule prod.exhaust)
  have nc: "node_contract (ref_host 1) (ref_tools 1) rwNode" using ref_documented by unfold_locales
  have tools: "tools_ok (ref_tools 1)" by (rule ref_tools_ok) simp
  have "route_listed (ref_tools 1) ref_routed_lx (cidr4 8 8 8 0 24) \<or>
      route_listed (ref_tools 1) ref_routed_lx (dest_addr_string (cidr4 8 8 8 0 24))"
    by (rule listed_cidr4 [OF tools]) simp_all
  then have apart: "names_apart (ref_tools 1) ref_routed_lx (cidr4 8 8 8 0 24) ''192.168.1.20''"
    by (simp add: names_apart_def link_listed_def tunnel_name_def remove_dots_def) (simp add: ref_tools_def)
  have "r = Ok ()"
    using implementsD(4) [OF node_contract.implements_director_Add [OF nc ref_director_simps(1)] _ run ref_reliable]
      director_add_defined [OF ref_routed_simps(1) apart] by fastforce
  then have ok: "?add (ref_proc ref_routed_lx) = (Ok (), p')" using run by simp
  have old: "(cidr4 8 8 8 0 24, OnDevice ''tun19216819'') \<in>
      set (routes_of (view rwNode (ref_proc ref_routed_lx)) ''kube-static-egress-ip'')"
    using ref_routed_simps(3) by (simp add: customStaticEgressIPRouteTableName_def)
  from director_Add_keeps_old_gateway [OF ref_documented ref_director_simps(1) ref_proc_simps(2) _ old ok] ok
  show ?thesis using ref_routed_simps(3) by (auto simp: customStaticEgressIPRouteTableName_def)
qed



lemma length_octet: "length (dec_string (unat (b :: byte))) \<le> 3"
proof -
  have "unat b < 256" by (rule unat_byte_less)
  then show ?thesis
    by (subst dec_string.simps, subst dec_string.simps, subst dec_string.simps) auto
qed

lemma filter_dots_dec [simp]: "filter (\<lambda>c. c \<noteq> CHR ''.'') (dec_string n) = dec_string n"
  using in_dec_string_neq by (auto simp: filter_id_conv)

lemma tunnel_name_dotted:
  "tunnel_name (dotted [a, b, c, d]) =
     ''tun'' @ dec_string (unat a) @ dec_string (unat b) @ dec_string (unat c) @ dec_string (unat d)"
  by (simp add: tunnel_name_def dotted_def remove_dots_def)

text \<open>
  C30 (tunnel_name_fits). The tunnel name of an IPv4 gateway has at most 15 characters, what the kernel allows for
  the name of an interface, and no dot; but it forgets where the dots were, so two
  gateways can share it.
\<close>

theorem tunnel_name_fits:
  "length (tunnel_name (dotted [a, b, c, d])) \<le> 15 \<and> CHR ''.'' \<notin> set (tunnel_name (dotted [a, b, c, d])) \<and>
   tunnel_name (dotted [1, 11, 1, 1]) = tunnel_name (dotted [11, 1, 1, 1])"
proof (intro conjI)
  show "length (tunnel_name (dotted [a, b, c, d])) \<le> 15"
    using length_octet [of a] length_octet [of b] length_octet [of c] length_octet [of d]
    by (simp add: tunnel_name_dotted)
  show "tunnel_name (dotted [1, 11, 1, 1]) = tunnel_name (dotted [11, 1, 1, 1])"
    by (simp add: tunnel_name_dotted) (simp add: dec_string.simps digit_chars)
qed (simp add: tunnel_name_dotted)

text \<open>
  The test for the tunnel is a substring test on the listing of all links: when the name
  occurs there, as part of a longer name, but no such link exists, no tunnel is created
  and \<open>AddRouteToGateway\<close> cannot return nil.
\<close>

lemma director_tunnel_shadowed:
  assumes "documented h t v" and "ipt_ready t (dirIpt d)" and "path_ready t p"
    and other: "other \<in> set (lxLinks (view v p))" and "contains other (tunnel_name gw)"
    and "tunnel_name gw \<notin> set (lxLinks (view v p))"
    and "AddRouteToGateway h d n ips dst gw p = (r, p')"
  shows "r \<noteq> Ok ()"
proof
  assume r: "r = Ok ()"
  have nc: "node_contract h t v" using assms(1) by unfold_locales
  have "contains (tLinks t (lxLinks (view v p))) other"
    using assms(1) other by (auto simp: documented_def tools_ok_def)
  then have listed: "link_listed t (view v p) (tunnel_name gw)"
    unfolding link_listed_def using assms(5) by (rule contains_trans)
  have "director_added t (dirNodeIP d) n ips dst gw (view v p) (view v p')"
    using implementsD(3) [OF node_contract.implements_director_Add [OF nc assms(2)] _ assms(7)] assms(3) r
      director_add_Some by simp
  then show False using listed assms(6) by (auto simp: director_added_def)
qed

text \<open>A director with a tunnel to 192.168.1.10 asked to use the gateway 192.168.1.1.\<close>

end
