(* ===== verification/Gateway.thy ===== *)
theory Gateway
  imports RefNode
begin

text \<open>
  \<open>pkg/gateway/gateway.go\<close>: the rules of a node that acts as egress gateway. Each
  operation is the statements of its Go function in order; each implements an effect on
  the observable state of the node, and from the effect follow the rules and sets there
  are afterwards.
\<close>

section \<open>The program\<close>

record egress_gateway =
  gwIpt :: ip_tables

definition defaultNATIptable :: string where "defaultNATIptable = ''nat''"
definition egressGatewayNATChainName :: string where "egressGatewayNATChainName = ''STATIC-EGRESS-NAT-CHAIN''"
definition egressGatewayFWChainName :: string where "egressGatewayFWChainName = ''STATIC-EGRESS-FORWARD-CHAIN''"
definition staticEgressIPFWMARK :: string where "staticEgressIPFWMARK = ''1000''"

definition NewEgressGateway :: "'w host \<Rightarrow> ('w proc, egress_gateway) prog" where
  "NewEgressGateway h =
     bindE (wrapE ''failed to locate iptables'' (iptables_New h)) (\<lambda>ipt. returnE \<lparr>gwIpt = ipt\<rparr>)"

definition createChainIfNotExist :: "'w host \<Rightarrow> egress_gateway \<Rightarrow> string \<Rightarrow> string \<Rightarrow> ('w proc, unit) prog" where
  "createChainIfNotExist h gw table chain =
     catchE (ipt_NewChain h (gwIpt gw) table chain)
       (\<lambda>e. case e of
              ErrIptables n m \<Rightarrow> if n = 1 then returnE () else failE e
            | _ \<Rightarrow> failE e)"

definition deleteChain :: "'w host \<Rightarrow> egress_gateway \<Rightarrow> string \<Rightarrow> string \<Rightarrow> ('w proc, unit) prog" where
  "deleteChain h gw table chain = ipt_DeleteChain h (gwIpt gw) table chain"

definition insertRule ::
  "'w host \<Rightarrow> egress_gateway \<Rightarrow> string \<Rightarrow> string \<Rightarrow> int \<Rightarrow> string list \<Rightarrow> ('w proc, unit) prog" where
  "insertRule h gw table chain pos ruleSpec =
     bindE (ipt_Exists h (gwIpt gw) table chain ruleSpec)
       (\<lambda>exist. if exist then returnE () else ipt_Insert h (gwIpt gw) table chain pos ruleSpec)"

definition deleteRule ::
  "'w host \<Rightarrow> egress_gateway \<Rightarrow> string \<Rightarrow> string \<Rightarrow> string list \<Rightarrow> ('w proc, unit) prog" where
  "deleteRule h gw table chain ruleSpec = ipt_Delete h (gwIpt gw) table chain ruleSpec"

definition gateway_Setup :: "'w host \<Rightarrow> egress_gateway \<Rightarrow> ('w proc, unit) prog" where
  "gateway_Setup h gw =
     bindE (wrapE ''Failed to add a chain in filter table'' (createChainIfNotExist h gw ''filter'' egressGatewayFWChainName))
       (\<lambda>_.
     bindE (ensure_with
              (wrapE ''Failed to verify rule exists in FORWARD chain''
                 (ipt_Exists h (gwIpt gw) ''filter'' ''FORWARD'' [''-j'', egressGatewayFWChainName]))
              (wrapE ''Failed to add iptables command to permit traffic''
                 (ipt_Append h (gwIpt gw) ''filter'' ''FORWARD'' [''-j'', egressGatewayFWChainName])))
       (\<lambda>_.
     bindE (newChainOrPanic h (gwIpt gw) ''nat'' egressGatewayNATChainName ''Failed to add a chain in NAT table'')
       (\<lambda>_.
     ensure_with
       (wrapE ''Failed to verify rule exists in POSTROUTING chain''
          (ipt_Exists h (gwIpt gw) ''nat'' ''POSTROUTING'' [''-j'', egressGatewayNATChainName]))
       (wrapE ''Failed to run iptables command to add a rule to jump''
          (ipt_Insert h (gwIpt gw) ''nat'' ''POSTROUTING'' 1 [''-j'', egressGatewayNATChainName])))))"

text \<open>The rule specifications of \<open>AddStaticIptablesRule\<close> and its counterparts.\<close>

definition accept_spec :: "string \<Rightarrow> string \<Rightarrow> string list" where
  "accept_spec name destinationIP =
     [''-m'', ''set'', ''--match-set'', name, ''src'', ''-d'', destinationIP, ''-j'', ''ACCEPT'']"

definition snat_spec :: "string \<Rightarrow> string \<Rightarrow> string \<Rightarrow> string list" where
  "snat_spec name destinationIP egressIP =
     [''-m'', ''set'', ''--match-set'', name, ''src'', ''-d'', destinationIP, ''-j'', ''SNAT'',
      ''--to-source'', egressIP]"

definition return_mark_spec :: "string \<Rightarrow> string \<Rightarrow> string list" where
  "return_mark_spec destinationIP egressIP =
     [''-s'', destinationIP, ''-d'', egressIP, ''-j'', ''MARK'', ''--set-mark'', staticEgressIPFWMARK]"

definition AddStaticIptablesRule ::
  "'w host \<Rightarrow> egress_gateway \<Rightarrow> string \<Rightarrow> string list \<Rightarrow> string \<Rightarrow> string \<Rightarrow> ('w proc, unit) prog" where
  "AddStaticIptablesRule h gw name sourceIPs destinationIP egressIP =
     bindE (fill_set h name sourceIPs)
       (\<lambda>_.
     bindE (ensure_with
              (wrapE ''Failed to verify rule exists in filter table''
                 (ipt_Exists h (gwIpt gw) ''filter'' egressGatewayFWChainName (accept_spec name destinationIP)))
              (wrapE ''Failed to add iptables command to ACCEPT traffic''
                 (ipt_Append h (gwIpt gw) ''filter'' egressGatewayFWChainName (accept_spec name destinationIP))))
       (\<lambda>_.
     bindE (wrapE ''failed to insert rule to chain POSTROUTING''
              (insertRule h gw defaultNATIptable egressGatewayNATChainName 1
                 (snat_spec name destinationIP egressIP)))
       (\<lambda>_.
     ensure_with
       (wrapE ''Failed to verify rule exists in PREROUTING chain''
          (ipt_Exists h (gwIpt gw) ''mangle'' ''PREROUTING'' (return_mark_spec destinationIP egressIP)))
       (wrapE ''Failed to add rule in PREROUTING chain''
          (ipt_Insert h (gwIpt gw) ''mangle'' ''PREROUTING'' 1 (return_mark_spec destinationIP egressIP))))))"

definition DeleteStaticIptablesRule ::
  "'w host \<Rightarrow> egress_gateway \<Rightarrow> string \<Rightarrow> string \<Rightarrow> string \<Rightarrow> ('w proc, unit) prog" where
  "DeleteStaticIptablesRule h gw name destinationIP egressIP =
     bindE (wrapE ''failed to delete rule in chain''
              (deleteRule h gw defaultNATIptable egressGatewayNATChainName
                 (snat_spec name destinationIP egressIP)))
       (\<lambda>_.
     bindE (remove_with
              (wrapE ''Failed to verify rule exists''
                 (ipt_Exists h (gwIpt gw) ''filter'' egressGatewayFWChainName (accept_spec name destinationIP)))
              (wrapE ''Failed to delete iptables command''
                 (ipt_Delete h (gwIpt gw) ''filter'' egressGatewayFWChainName (accept_spec name destinationIP))))
       (\<lambda>_.
     bindE (wrapE ''Failed to get ipset'' (ipset_New h name ''hash:ip'' zero_params))
       (\<lambda>set. wrapE ''Failed to delete ipset'' (ipset_Destroy h set))))"

definition ClearStaticIptablesRule ::
  "'w host \<Rightarrow> egress_gateway \<Rightarrow> string \<Rightarrow> string \<Rightarrow> string \<Rightarrow> ('w proc, unit) prog" where
  "ClearStaticIptablesRule h gw name destinationIP egressIP =
     bindE (wrapE ''failed to delete rule in chain''
              (deleteRule h gw defaultNATIptable egressGatewayNATChainName
                 (snat_spec name destinationIP egressIP)))
       (\<lambda>_.
     bindE (remove_with
              (wrapE ''Failed to verify rule exists''
                 (ipt_Exists h (gwIpt gw) ''filter'' egressGatewayFWChainName (accept_spec name destinationIP)))
              (wrapE ''Failed to delete iptables command''
                 (ipt_Delete h (gwIpt gw) ''filter'' egressGatewayFWChainName (accept_spec name destinationIP))))
       (\<lambda>_.
     bindE (wrapE ''Failed to get ipset'' (ipset_New h name ''hash:ip'' zero_params))
       (\<lambda>set. wrapE ''Failed to delete ipset'' (ipset_Destroy h set))))"

section \<open>The effects\<close>

definition gateway_setup_effect :: "tools \<Rightarrow> linux \<Rightarrow> linux option" where
  "gateway_setup_effect t =
     steps [have_chain t ''filter'' egressGatewayFWChainName,
            have_back ''filter'' ''FORWARD'' [''-j'', egressGatewayFWChainName],
            have_chain t ''nat'' egressGatewayNATChainName,
            have_front ''nat'' ''POSTROUTING'' [''-j'', egressGatewayNATChainName]]"

definition gateway_add_effect :: "string \<Rightarrow> string list \<Rightarrow> string \<Rightarrow> string \<Rightarrow> linux \<Rightarrow> linux option" where
  "gateway_add_effect n ips dst eip =
     steps [have_set n ips,
            have_back ''filter'' egressGatewayFWChainName (accept_spec n dst),
            have_front ''nat'' egressGatewayNATChainName (snat_spec n dst eip),
            have_front ''mangle'' ''PREROUTING'' (return_mark_spec dst eip)]"

definition gateway_clear_effect :: "string \<Rightarrow> string \<Rightarrow> string \<Rightarrow> linux \<Rightarrow> linux option" where
  "gateway_clear_effect n dst eip =
     steps [take_out ''nat'' egressGatewayNATChainName (snat_spec n dst eip),
            have_not ''filter'' egressGatewayFWChainName (accept_spec n dst),
            \<lambda>lx. free_set n (put_set n {} lx)]"

lemma insertRule_ensure:
  "insertRule h gw table chain pos spec =
     ensure_with (ipt_Exists h (gwIpt gw) table chain spec) (ipt_Insert h (gwIpt gw) table chain pos spec)"
  unfolding insertRule_def ensure_with_def by (rule arg_cong [where f = "bindE _"]) auto

context node_contract
begin

lemma implements_createChain:
  assumes "ipt_ready t (gwIpt gw)" and "tab \<in> set known_tables"
  shows "implements h t v k (createChainIfNotExist h gw tab ch) (have_chain t tab ch)"
  unfolding createChainIfNotExist_def
  by (rule implements_chain [OF assms]) (auto simp: exit1_def split: goerror.splits)

lemma implements_gateway_Setup:
  assumes "ipt_ready t (gwIpt gw)"
  shows "implements h t v False (gateway_Setup h gw) (gateway_setup_effect t)"
  unfolding gateway_Setup_def gateway_setup_effect_def
  by (intro implements_steps implements_last implements_wrap implements_createChain implements_back
      implements_newChainOrPanic implements_front assms known_tables_simps)

lemma implements_gateway_Add:
  assumes "ipt_ready t (gwIpt gw)"
  shows "implements h t v False (AddStaticIptablesRule h gw n ips dst eip) (gateway_add_effect n ips dst eip)"
  unfolding AddStaticIptablesRule_def gateway_add_effect_def insertRule_ensure defaultNATIptable_def
  by (intro implements_steps implements_last implements_fill_set implements_back implements_wrap
      implements_front implements_front_plain assms known_tables_simps)

lemma implements_gateway_Clear:
  assumes "ipt_ready t (gwIpt gw)"
  shows "implements h t v False (ClearStaticIptablesRule h gw n dst eip) (gateway_clear_effect n dst eip)"
  unfolding ClearStaticIptablesRule_def gateway_clear_effect_def deleteRule_def defaultNATIptable_def
  by (intro implements_steps implements_last implements_not implements_wrap implements_Delete
      implements_New implements_Destroy assms known_tables_simps)

end

lemma Delete_is_Clear: "DeleteStaticIptablesRule = ClearStaticIptablesRule"
  by (intro ext) (simp add: DeleteStaticIptablesRule_def ClearStaticIptablesRule_def)

section \<open>What the effects say\<close>

definition gateway_rules :: "string \<Rightarrow> string \<Rightarrow> string \<Rightarrow> (string \<times> string \<times> string list) set" where
  "gateway_rules n dst eip =
     {(''filter'', egressGatewayFWChainName, accept_spec n dst),
      (''nat'', egressGatewayNATChainName, snat_spec n dst eip),
      (''mangle'', ''PREROUTING'', return_mark_spec dst eip)}"

definition gateway_ready :: "linux \<Rightarrow> bool" where
  "gateway_ready lx \<longleftrightarrow> chain_in lx ''filter'' egressGatewayFWChainName \<and>
     chain_in lx ''nat'' egressGatewayNATChainName \<and> chain_in lx ''mangle'' ''PREROUTING''"

lemma gateway_specs_sets [simp]:
  "match_sets (accept_spec n dst) = [n]" "jump_target (accept_spec n dst) = Some ''ACCEPT''"
  "match_sets (snat_spec n dst eip) = [n]" "jump_target (snat_spec n dst eip) = Some ''SNAT''"
  "match_sets (return_mark_spec dst eip) = []" "jump_target (return_mark_spec dst eip) = Some ''MARK''"
  by (simp_all add: accept_spec_def snat_spec_def return_mark_spec_def match_sets_def jump_target_def one_argument_def)

lemma gateway_specs_valid [simp]:
  "spec_valid lx tab (accept_spec n dst) \<longleftrightarrow> set_of lx n \<noteq> None"
  "spec_valid lx tab (snat_spec n dst eip) \<longleftrightarrow> set_of lx n \<noteq> None"
  "spec_valid lx tab (return_mark_spec dst eip)"
  by (simp_all add: spec_valid_def builtin_targets_def)

lemma gateway_names:
  "egressGatewayFWChainName \<notin> set builtin_targets" "egressGatewayNATChainName \<notin> set builtin_targets"
  by (simp_all add: egressGatewayFWChainName_def egressGatewayNATChainName_def builtin_targets_def)

lemma gateway_add_Some:
  assumes "gateway_add_effect n ips dst eip lx = Some lx'"
  shows "same_rest lx lx' \<and> set_of lx' = (set_of lx)(n \<mapsto> set ips) \<and> chain_in lx' = chain_in lx \<and>
     (\<forall>tab ch r. rule_in lx' tab ch r \<longleftrightarrow> rule_in lx tab ch r \<or> (tab, ch, r) \<in> gateway_rules n dst eip)"
proof -
  obtain l2 l3 where l2: "have_back ''filter'' egressGatewayFWChainName (accept_spec n dst) (put_set n (set ips) lx) = Some l2"
    and l3: "have_front ''nat'' egressGatewayNATChainName (snat_spec n dst eip) l2 = Some l3"
    and l4: "have_front ''mangle'' ''PREROUTING'' (return_mark_spec dst eip) l3 = Some lx'"
    using assms by (auto simp: gateway_add_effect_def have_set_def Option_bind_Some_iff)
  note a = have_back_Some [OF l2] and b = have_front_Some [OF l3] and c = have_front_Some [OF l4]
  have "same_rest lx lx'"
    using a(3) b(3) c(3) by (simp add: same_rest_def)
  moreover have "set_of lx' = (set_of lx)(n \<mapsto> set ips)"
    unfolding a(4) b(4) c(4) by (rule ext) simp
  moreover have "chain_in lx' = chain_in lx"
    unfolding a(5) b(5) c(5) by (simp add: fun_eq_iff)
  ultimately show ?thesis using a(6) b(6) c(6) by (auto simp: gateway_rules_def)
qed

lemma gateway_add_defined: "gateway_ready lx \<Longrightarrow> gateway_add_effect n ips dst eip lx \<noteq> None"
proof -
  assume ready: "gateway_ready lx"
  let ?l1 = "put_set n (set ips) lx"
  obtain l2 where l2: "have_back ''filter'' egressGatewayFWChainName (accept_spec n dst) ?l1 = Some l2"
    using have_back_ex [of ?l1 _ _ "accept_spec n dst"] ready by (auto simp: gateway_ready_def)
  note a = have_back_Some [OF l2]
  obtain l3 where l3: "have_front ''nat'' egressGatewayNATChainName (snat_spec n dst eip) l2 = Some l3"
    using have_front_ex [of l2 _ _ "snat_spec n dst eip"] ready a(4,5) by (auto simp: gateway_ready_def)
  note b = have_front_Some [OF l3]
  obtain l4 where "have_front ''mangle'' ''PREROUTING'' (return_mark_spec dst eip) l3 = Some l4"
    using have_front_ex [of l3 _ _ "return_mark_spec dst eip"] ready a(5) b(5) by (auto simp: gateway_ready_def)
  with l2 l3 show ?thesis by (simp add: gateway_add_effect_def have_set_def)
qed

definition setup_rules :: "(string \<times> string \<times> string list) set" where
  "setup_rules =
     {(''filter'', ''FORWARD'', [''-j'', egressGatewayFWChainName]),
      (''nat'', ''POSTROUTING'', [''-j'', egressGatewayNATChainName])}"

lemma gateway_setup_Some:
  assumes "gateway_setup_effect t lx = Some lx'"
  shows "same_rest lx lx' \<and> set_of lx' = set_of lx \<and>
     (\<forall>tab ch. chain_in lx' tab ch \<longleftrightarrow> chain_in lx tab ch \<or>
        (tab, ch) \<in> {(''filter'', egressGatewayFWChainName), (''nat'', egressGatewayNATChainName)}) \<and>
     (\<forall>tab ch r. rule_in lx' tab ch r \<longleftrightarrow> rule_in lx tab ch r \<or> (tab, ch, r) \<in> setup_rules)"
proof -
  obtain l1 l2 l3 where l1: "have_chain t ''filter'' egressGatewayFWChainName lx = Some l1"
    and l2: "have_back ''filter'' ''FORWARD'' [''-j'', egressGatewayFWChainName] l1 = Some l2"
    and l3: "have_chain t ''nat'' egressGatewayNATChainName l2 = Some l3"
    and l4: "have_front ''nat'' ''POSTROUTING'' [''-j'', egressGatewayNATChainName] l3 = Some lx'"
    using assms by (auto simp: gateway_setup_effect_def Option_bind_Some_iff)
  note a = have_chain_Some [OF l1] and b = have_back_Some [OF l2]
    and c = have_chain_Some [OF l3] and d = have_front_Some [OF l4]
  have "same_rest lx lx'" using a(1) b(3) c(1) d(3) by (simp add: same_rest_def)
  moreover have "set_of lx' = set_of lx" using a(2) b(4) c(2) d(4) by simp
  ultimately show ?thesis using a(3,4) b(5,6) c(3,4) d(5,6) by (auto simp: setup_rules_def)
qed

lemma gateway_setup_defined:
  assumes "chain_in lx ''filter'' ''FORWARD''" and "chain_in lx ''nat'' ''POSTROUTING''"
    and "tChainExists t = 1 \<or> \<not> chain_in lx ''filter'' egressGatewayFWChainName \<and>
           \<not> chain_in lx ''nat'' egressGatewayNATChainName"
  shows "gateway_setup_effect t lx \<noteq> None"
proof -
  obtain l1 where l1: "have_chain t ''filter'' egressGatewayFWChainName lx = Some l1"
    using assms(3) have_chain_ex [of t lx] by blast
  note a = have_chain_Some [OF l1]
  obtain l2 where l2: "have_back ''filter'' ''FORWARD'' [''-j'', egressGatewayFWChainName] l1 = Some l2"
    using have_back_ex [of l1 "''filter''" "''FORWARD''" "[''-j'', egressGatewayFWChainName]"] assms(1) a(3) by auto
  note b = have_back_Some [OF l2]
  have "tChainExists t = 1 \<or> \<not> chain_in l2 ''nat'' egressGatewayNATChainName"
    using assms(3) a(3) b(5) by (auto simp: egressGatewayFWChainName_def egressGatewayNATChainName_def)
  then obtain l3 where l3: "have_chain t ''nat'' egressGatewayNATChainName l2 = Some l3"
    using have_chain_ex [of t l2] by blast
  note c = have_chain_Some [OF l3]
  obtain l4 where "have_front ''nat'' ''POSTROUTING'' [''-j'', egressGatewayNATChainName] l3 = Some l4"
    using have_front_ex [of l3 "''nat''" "''POSTROUTING''" "[''-j'', egressGatewayNATChainName]"]
      assms(2) a(3) b(5) c(3) by auto
  with l1 l2 l3 show ?thesis by (simp add: gateway_setup_effect_def)
qed

lemma gateway_setup_again:
  assumes "chain_in lx ''filter'' egressGatewayFWChainName"
  shows "tChainExists t \<noteq> 1 \<Longrightarrow> gateway_setup_effect t lx = None"
  using assms by (auto simp: gateway_setup_effect_def have_chain_def chain_in_def)

lemma gateway_clear_Some:
  assumes eff: "gateway_clear_effect n dst eip lx = Some lx'" and once: "rules_once lx"
  shows "same_rest lx lx' \<and> set_of lx' = (set_of lx)(n := None) \<and> chain_in lx' = chain_in lx \<and>
     (\<forall>tab ch r. rule_in lx' tab ch r \<longleftrightarrow> rule_in lx tab ch r \<and>
        (tab, ch, r) \<notin> {(''nat'', egressGatewayNATChainName, snat_spec n dst eip),
                        (''filter'', egressGatewayFWChainName, accept_spec n dst)})"
proof -
  obtain l1 l2 where l1: "take_out ''nat'' egressGatewayNATChainName (snat_spec n dst eip) lx = Some l1"
    and l2: "have_not ''filter'' egressGatewayFWChainName (accept_spec n dst) l1 = Some l2"
    and l3: "free_set n (put_set n {} l2) = Some lx'"
    using eff by (auto simp: gateway_clear_effect_def Option_bind_Some_iff)
  note a = take_out_Some [OF l1] and b = have_not_Some [OF l2]
  have lx': "lx' = drop_set n (put_set n {} l2)" using l3 by (auto simp: free_set_def split: if_splits)
  have once1: "rules_once l1"
    by (rule rules_once_take_out [OF l1 once])
  have "same_rest lx lx'" using a(2) b(2) unfolding lx' by (simp add: same_rest_def)
  moreover have "set_of lx' = (set_of lx)(n := None)" using a(3) b(3) unfolding lx' by (simp add: fun_eq_iff)
  moreover have "chain_in lx' = chain_in lx" using a(4) b(4) unfolding lx' by (simp add: fun_eq_iff)
  ultimately show ?thesis using a(5) [OF once] b(5) [OF once1] unfolding lx' by auto
qed

lemma gateway_clear_defined:
  assumes wf: "node_wf lx" and snat: "rule_in lx ''nat'' egressGatewayNATChainName (snat_spec n dst eip)"
    and only: "\<And>tab ch r. rule_in lx tab ch r \<Longrightarrow> n \<in> set (match_sets r) \<Longrightarrow>
      (tab, ch, r) \<in> gateway_rules n dst eip"
  shows "gateway_clear_effect n dst eip lx \<noteq> None"
proof -
  have once: "rules_once lx" using wf by (simp add: node_wf_def)
  have set: "set_of lx n \<noteq> None"
    using wf snat by (auto simp: node_wf_def sets_present_def rule_in_def split: option.splits)
  then obtain l1 where l1: "take_out ''nat'' egressGatewayNATChainName (snat_spec n dst eip) lx = Some l1"
    using take_out_ex [OF snat] by auto
  note a = take_out_Some [OF l1]
  obtain l2 where l2: "have_not ''filter'' egressGatewayFWChainName (accept_spec n dst) l1 = Some l2"
    using have_not_ex [of l1 "''filter''" "accept_spec n dst"] set a(3) by auto
  note b = have_not_Some [OF l2]
  have once1: "rules_once l1"
    by (rule rules_once_take_out [OF l1 once])
  have "\<not> set_in_use l2 n"
    using only a(5) [OF once] b(5) [OF once1] unfolding set_in_use_rule_in gateway_rules_def by fastforce
  then have "\<not> set_in_use (put_set n {} l2) n" by (simp add: set_in_use_rule_in)
  with l1 l2 show ?thesis by (simp add: gateway_clear_effect_def free_set_def)
qed

section \<open>Properties of the gateway\<close>

definition ref_gateway :: egress_gateway where
  "ref_gateway = \<lparr>gwIpt = ref_ipt\<rparr>"

text \<open>The fresh node after \<open>Setup\<close>, up to the two jumps.\<close>

definition ref_gateway_lx :: linux where
  "ref_gateway_lx = put_rules ''nat'' egressGatewayNATChainName [] (put_rules ''filter'' egressGatewayFWChainName [] fresh_lx)"

lemma ref_gateway_ipt [simp]: "ipt_ready (ref_tools n) (gwIpt ref_gateway)"
  by (simp add: ref_gateway_def)

lemma ref_gateway_lx_ready [simp]: "gateway_ready ref_gateway_lx" "set_of ref_gateway_lx n = None"
  "\<not> rule_in ref_gateway_lx tab ch r"
  by (auto simp: gateway_ready_def ref_gateway_lx_def chain_in_def rule_in_def fresh_lx_rules)

lemma ref_gateway_lx_wf [simp]: "node_wf ref_gateway_lx"
  using fresh_lx_wf
  by (auto simp: node_wf_def rules_once_def sets_present_def routes_once_def route_devs_exist_def
      ref_gateway_lx_def fresh_lx_rules split: if_splits)

text \<open>The same node with one SNAT rule.\<close>

definition ref_snat_lx :: linux where
  "ref_snat_lx =
     put_rules ''nat'' egressGatewayNATChainName [snat_spec ''set1'' ''8.8.8.0/24'' ''192.168.1.200'']
       (put_set ''set1'' {''10.1.0.4''} ref_gateway_lx)"

lemma ref_snat_lx_simps [simp]:
  "rule_in ref_snat_lx tab ch r \<longleftrightarrow>
     tab = ''nat'' \<and> ch = egressGatewayNATChainName \<and> r = snat_spec ''set1'' ''8.8.8.0/24'' ''192.168.1.200''"
  "node_wf ref_snat_lx"
proof -
  show "rule_in ref_snat_lx tab ch r \<longleftrightarrow>
     tab = ''nat'' \<and> ch = egressGatewayNATChainName \<and> r = snat_spec ''set1'' ''8.8.8.0/24'' ''192.168.1.200''"
    by (auto simp: ref_snat_lx_def rule_in_put_rules)
  have "node_edit (put_set ''set1'' {''10.1.0.4''} ref_gateway_lx) ref_snat_lx"
    unfolding ref_snat_lx_def by (rule edit_front [where rs = "[]"]) (simp_all add: ref_gateway_lx_def)
  then show "node_wf ref_snat_lx" using node_edit_wf [OF edit_set ref_gateway_lx_wf] node_edit_wf by blast
qed

text \<open>
  \<open>Setup\<close> of the gateway, on a node that behaves as documented: when it returns nil, the
  forward chain and the NAT chain exist, FORWARD and POSTROUTING jump to them, and nothing
  else changed; and on a node without faults it does return nil, on a first start always
  and on a restart where iptables answers exit status 1 for an existing chain.
\<close>

lemma gateway_Setup_correct:
  assumes "documented h t v" and "ipt_ready t (gwIpt gw)" and "path_ready t p"
    and "gateway_Setup h gw p = (r, p')"
  shows "(r = Ok () \<longrightarrow>
       (\<forall>tab ch. chain_in (view v p') tab ch \<longleftrightarrow> chain_in (view v p) tab ch \<or>
          (tab, ch) \<in> {(''filter'', egressGatewayFWChainName), (''nat'', egressGatewayNATChainName)}) \<and>
       (\<forall>tab ch s. rule_in (view v p') tab ch s \<longleftrightarrow> rule_in (view v p) tab ch s \<or>
          (tab, ch, s) \<in> {(''filter'', ''FORWARD'', [''-j'', egressGatewayFWChainName]),
                          (''nat'', ''POSTROUTING'', [''-j'', egressGatewayNATChainName])}) \<and>
       set_of (view v p') = set_of (view v p) \<and> same_rest (view v p) (view v p')) \<and>
     (reliable h t v \<and> chain_in (view v p) ''filter'' ''FORWARD'' \<and> chain_in (view v p) ''nat'' ''POSTROUTING'' \<and>
      (tChainExists t = 1 \<or> \<not> chain_in (view v p) ''filter'' egressGatewayFWChainName \<and>
         \<not> chain_in (view v p) ''nat'' egressGatewayNATChainName) \<longrightarrow> r = Ok ())"
proof -
  have "node_contract h t v" using assms(1) by unfold_locales
  note d = implementsD [OF node_contract.implements_gateway_Setup [OF this assms(2)] _ assms(4)]
  show ?thesis using d(3,4) gateway_setup_Some gateway_setup_defined assms(3,4)
    by (fastforce simp: setup_rules_def)
qed

lemma gateway_Setup_correct_witness:
  "\<exists>p'. gateway_Setup (ref_host 1) ref_gateway (ref_proc fresh_lx) = (Ok (), p') \<and>
     chain_in (view rwNode p') ''nat'' ''STATIC-EGRESS-NAT-CHAIN''"
proof -
  obtain r p' where run: "gateway_Setup (ref_host 1) ref_gateway (ref_proc fresh_lx) = (r, p')"
    by (cases "gateway_Setup (ref_host 1) ref_gateway (ref_proc fresh_lx)")
  show ?thesis
    using gateway_Setup_correct [OF ref_documented ref_gateway_ipt ref_proc_simps(2) run] run ref_reliable
    by (auto simp: chain_in_def fresh_lx_rules egressGatewayNATChainName_def egressGatewayFWChainName_def)
qed

text \<open>
  A restart on an nftables iptables, which answers exit status 4 for a chain that exists:
  \<open>Setup\<close> accepts status 1 only, so on such a node it never succeeds again, and it leaves
  the node as it is.
\<close>

lemma gateway_Setup_restart_nft:
  assumes "documented h t v" and "ipt_ready t (gwIpt gw)" and "path_ready t p"
    and "tChainExists t \<noteq> 1" and "chain_in (view v p) ''filter'' egressGatewayFWChainName"
    and "gateway_Setup h gw p = (r, p')"
  shows "(\<exists>e. r = Err e) \<and> view v p' = view v p"
proof -
  have nc: "node_contract h t v" using assms(1) by unfold_locales
  obtain r1 p1 where n: "ipt_NewChain h (gwIpt gw) ''filter'' egressGatewayFWChainName p = (r1, p1)"
    by (cases "ipt_NewChain h (gwIpt gw) ''filter'' egressGatewayFWChainName p")
  from node_contract.NewChain_cases [OF nc assms(2) known_tables_simps(2) n] assms(4,5)
  obtain e where e: "r1 = Err e" "\<not> exit1 e" "view v p1 = view v p"
    by (auto simp: chain_in_def)
  have "createChainIfNotExist h gw ''filter'' egressGatewayFWChainName p = (Err e, p1)"
    using n e by (auto simp: createChainIfNotExist_def catchE_def split: goerror.split)
  then show ?thesis using assms(6) e by (auto simp: gateway_Setup_def bindE_def wrapE_run)
qed

lemma gateway_Setup_restart_nft_witness:
  "\<exists>e p'. gateway_Setup (ref_host 4) ref_gateway (ref_proc ref_gateway_lx) = (Err e, p')"
proof -
  obtain r p' where run: "gateway_Setup (ref_host 4) ref_gateway (ref_proc ref_gateway_lx) = (r, p')"
    by (cases "gateway_Setup (ref_host 4) ref_gateway (ref_proc ref_gateway_lx)")
  have "chain_in ref_gateway_lx ''filter'' egressGatewayFWChainName"
    using ref_gateway_lx_ready(1) by (simp add: gateway_ready_def)
  with gateway_Setup_restart_nft [OF ref_host_documented ref_gateway_ipt ref_proc_simps(2) _ _ run]
  show ?thesis using run by auto
qed

text \<open>
  C9 (gateway_Add_correct). \<open>AddStaticIptablesRule\<close>: when it returns nil, the set holds exactly the given source
  addresses, the accept, SNAT and mark rules are there, and every other rule, set, chain,
  route and link is as before; on a node without faults that went through \<open>Setup\<close> it
  does return nil.
\<close>

theorem gateway_Add_correct:
  assumes "documented h t v" and "ipt_ready t (gwIpt gw)" and "path_ready t p"
    and "AddStaticIptablesRule h gw n ips dst eip p = (r, p')"
  shows "(r = Ok () \<longrightarrow>
       set_of (view v p') = (set_of (view v p))(n \<mapsto> set ips) \<and>
       (\<forall>tab ch s. rule_in (view v p') tab ch s \<longleftrightarrow> rule_in (view v p) tab ch s \<or>
          (tab, ch, s) \<in> {(''filter'', egressGatewayFWChainName, accept_spec n dst),
                          (''nat'', egressGatewayNATChainName, snat_spec n dst eip),
                          (''mangle'', ''PREROUTING'', return_mark_spec dst eip)}) \<and>
       chain_in (view v p') = chain_in (view v p) \<and> same_rest (view v p) (view v p')) \<and>
     (reliable h t v \<and> gateway_ready (view v p) \<longrightarrow> r = Ok ())"
proof -
  have "node_contract h t v" using assms(1) by unfold_locales
  note d = implementsD [OF node_contract.implements_gateway_Add [OF this assms(2)] _ assms(4)]
  show ?thesis using d(3,4) gateway_add_Some gateway_add_defined assms(3,4)
    by (fastforce simp: gateway_rules_def)
qed

theorem gateway_Add_correct_witness:
  "\<exists>p'. AddStaticIptablesRule (ref_host 1) ref_gateway ''set1'' [''10.1.0.4'', ''10.1.0.5''] ''8.8.8.0/24''
       ''192.168.1.200'' (ref_proc ref_gateway_lx) = (Ok (), p') \<and>
     set_of (view rwNode p') ''set1'' = Some {''10.1.0.4'', ''10.1.0.5''}"
proof -
  obtain r p' where run: "AddStaticIptablesRule (ref_host 1) ref_gateway ''set1'' [''10.1.0.4'', ''10.1.0.5'']
      ''8.8.8.0/24'' ''192.168.1.200'' (ref_proc ref_gateway_lx) = (r, p')"
    by (rule prod.exhaust)
  show ?thesis
    using gateway_Add_correct [OF ref_documented ref_gateway_ipt ref_proc_simps(2) run] run ref_reliable by simp
qed

text \<open>
  C23 (gateway_Clear_correct). \<open>ClearStaticIptablesRule\<close>: when it returns nil, the SNAT rule, the accept rule and the
  set are gone and everything else is as before, so the mark rule that
  \<open>AddStaticIptablesRule\<close> put into the mangle table stays; on a node without faults it
  returns nil where the SNAT rule is there and no rule of anybody else uses the set.
\<close>

theorem gateway_Clear_correct:
  assumes "documented h t v" and "ipt_ready t (gwIpt gw)" and "path_ready t p" and "node_wf (view v p)"
    and "ClearStaticIptablesRule h gw n dst eip p = (r, p')"
  shows "(r = Ok () \<longrightarrow>
       set_of (view v p') = (set_of (view v p))(n := None) \<and>
       (\<forall>tab ch s. rule_in (view v p') tab ch s \<longleftrightarrow> rule_in (view v p) tab ch s \<and>
          (tab, ch, s) \<notin> {(''nat'', egressGatewayNATChainName, snat_spec n dst eip),
                          (''filter'', egressGatewayFWChainName, accept_spec n dst)}) \<and>
       chain_in (view v p') = chain_in (view v p) \<and> same_rest (view v p) (view v p')) \<and>
     (reliable h t v \<and> rule_in (view v p) ''nat'' egressGatewayNATChainName (snat_spec n dst eip) \<and>
      (\<forall>tab ch s. rule_in (view v p) tab ch s \<and> n \<in> set (match_sets s) \<longrightarrow>
         (tab, ch, s) \<in> gateway_rules n dst eip) \<longrightarrow> r = Ok ())"
proof -
  have "node_contract h t v" using assms(1) by unfold_locales
  note d = implementsD [OF node_contract.implements_gateway_Clear [OF this assms(2)] _ assms(5)]
  have once: "rules_once (view v p)" using assms(4) by (simp add: node_wf_def)
  show ?thesis
    using d(3,4) gateway_clear_Some [OF _ once] gateway_clear_defined [OF assms(4)] assms(3,5) by fastforce
qed

theorem gateway_Clear_correct_witness:
  "\<exists>p'. ClearStaticIptablesRule (ref_host 1) ref_gateway ''set1'' ''8.8.8.0/24'' ''192.168.1.200''
       (ref_proc ref_snat_lx) = (Ok (), p') \<and> set_of (view rwNode p') ''set1'' = None"
proof -
  obtain r p' where run: "ClearStaticIptablesRule (ref_host 1) ref_gateway ''set1'' ''8.8.8.0/24'' ''192.168.1.200''
      (ref_proc ref_snat_lx) = (r, p')" by (rule prod.exhaust)
  show ?thesis
    using gateway_Clear_correct [OF ref_documented ref_gateway_ipt ref_proc_simps(2) _ run] run ref_reliable
    by (auto simp: gateway_rules_def)
qed

text \<open>
  When the SNAT rule is not there, \<open>ClearStaticIptablesRule\<close> stops at it with an error and
  removes nothing, whatever else of the rule is still on the node: an interrupted clean-up
  is not resumed by running it again.
\<close>

lemma gateway_Clear_stuck:
  assumes "documented h t v" and "ipt_ready t (gwIpt gw)"
    and "\<not> rule_in (view v p) ''nat'' egressGatewayNATChainName (snat_spec n dst eip)"
    and "ClearStaticIptablesRule h gw n dst eip p = (r, p')"
  shows "(\<exists>e. r = Err e) \<and> view v p' = view v p"
proof -
  have nc: "node_contract h t v" using assms(1) by unfold_locales
  obtain r1 p1 where e: "ipt_Delete h (gwIpt gw) ''nat'' egressGatewayNATChainName (snat_spec n dst eip) p = (r1, p1)"
    by (rule prod.exhaust)
  from node_contract.Delete_cases [OF nc assms(2) known_tables_simps(1) e] assms(3)
  have "\<exists>e. r1 = Err e" "view v p1 = view v p" by (auto simp: rule_in_def)
  then show ?thesis using assms(4) e
    by (auto simp: ClearStaticIptablesRule_def deleteRule_def defaultNATIptable_def bindE_def wrapE_run)
qed

lemma gateway_Clear_stuck_witness:
  "\<exists>e p'. ClearStaticIptablesRule (ref_host 1) ref_gateway ''set1'' ''8.8.8.0/24'' ''192.168.1.200''
     (ref_proc ref_gateway_lx) = (Err e, p') \<and> view rwNode p' = ref_gateway_lx"
proof -
  obtain r p' where run: "ClearStaticIptablesRule (ref_host 1) ref_gateway ''set1'' ''8.8.8.0/24'' ''192.168.1.200''
      (ref_proc ref_gateway_lx) = (r, p')" by (rule prod.exhaust)
  show ?thesis using gateway_Clear_stuck [OF ref_documented ref_gateway_ipt _ run] run by auto
qed

text \<open>
  C24 (gateway_round_trip). Adding a rule and clearing it again on a node without faults: both return nil, and the
  node has its old sets and its old rules, but for the mark rule, which is left behind.
\<close>

theorem gateway_round_trip:
  assumes doc: "documented h t v" and rel: "reliable h t v" and ready: "ipt_ready t (gwIpt gw)"
    and path: "path_ready t p" and wf: "node_wf (view v p)" and gready: "gateway_ready (view v p)"
    and free: "set_of (view v p) n = None"
  shows "\<exists>p'. bindE (AddStaticIptablesRule h gw n ips dst eip) (\<lambda>_. ClearStaticIptablesRule h gw n dst eip) p = (Ok (), p') \<and>
     set_of (view v p') = set_of (view v p) \<and>
     (\<forall>tab ch s. rule_in (view v p') tab ch s \<longleftrightarrow> rule_in (view v p) tab ch s \<or>
        (tab, ch, s) = (''mangle'', ''PREROUTING'', return_mark_spec dst eip)) \<and>
     same_rest (view v p) (view v p')"
proof -
  have nc: "node_contract h t v" using doc by unfold_locales
  obtain r1 p1 where add: "AddStaticIptablesRule h gw n ips dst eip p = (r1, p1)" by (rule prod.exhaust)
  obtain r2 p2 where clr: "ClearStaticIptablesRule h gw n dst eip p1 = (r2, p2)" by (rule prod.exhaust)
  note a = implementsD [OF node_contract.implements_gateway_Add [OF nc ready] _ add]
  have r1: "r1 = Ok ()" using a(4) rel path gateway_add_defined [OF gready] by fastforce
  from gateway_add_Some [OF a(3)] r1 path
  have A: "same_rest (view v p) (view v p1)" "set_of (view v p1) = (set_of (view v p))(n \<mapsto> set ips)"
    "\<And>tab ch r. rule_in (view v p1) tab ch r \<longleftrightarrow> rule_in (view v p) tab ch r \<or> (tab, ch, r) \<in> gateway_rules n dst eip"
    by auto
  have path1: "path_ready t p1" and wf1: "node_wf (view v p1)"
    using a(1,2) path node_edits_wf wf by auto
  have unused: "rule_in (view v p) tab ch r \<Longrightarrow> n \<notin> set (match_sets r)" for tab ch r
    by (rule unused_set [OF wf free])
  note c = implementsD [OF node_contract.implements_gateway_Clear [OF nc ready] _ clr]
  have once: "rules_once (view v p1)" using wf1 by (simp add: node_wf_def)
  have "gateway_clear_effect n dst eip (view v p1) \<noteq> None"
    by (rule gateway_clear_defined [OF wf1]) (auto simp: A(3) gateway_rules_def dest: unused)
  then have r2: "r2 = Ok ()" using c(4) rel path1 by fastforce
  from gateway_clear_Some [OF c(3) once] r2 path1
  have C: "same_rest (view v p1) (view v p2)" "set_of (view v p2) = (set_of (view v p1))(n := None)"
    "\<And>tab ch r. rule_in (view v p2) tab ch r \<longleftrightarrow> rule_in (view v p1) tab ch r \<and>
      (tab, ch, r) \<notin> {(''nat'', egressGatewayNATChainName, snat_spec n dst eip),
                      (''filter'', egressGatewayFWChainName, accept_spec n dst)}"
    by auto
  have "set_of (view v p2) = set_of (view v p)" using free by (simp add: C(2) A(2) fun_upd_idem_iff)
  moreover have "rule_in (view v p2) tab ch s \<longleftrightarrow> rule_in (view v p) tab ch s \<or>
      (tab, ch, s) = (''mangle'', ''PREROUTING'', return_mark_spec dst eip)" for tab ch s
    using unused [of "''nat''" _ "snat_spec n dst eip"] unused [of "''filter''" _ "accept_spec n dst"]
    unfolding C(3) A(3) by (auto simp: gateway_rules_def)
  moreover have "same_rest (view v p) (view v p2)" using same_rest_trans [OF A(1) C(1)] .
  moreover have "bindE (AddStaticIptablesRule h gw n ips dst eip)
      (\<lambda>_. ClearStaticIptablesRule h gw n dst eip) p = (Ok (), p2)"
    using add clr r1 r2 by (simp add: bindE_def)
  ultimately show ?thesis by blast
qed

theorem gateway_round_trip_witness:
  "\<exists>p'. bindE (AddStaticIptablesRule (ref_host 1) ref_gateway ''set1'' [''10.1.0.4''] ''8.8.8.0/24'' ''192.168.1.200'')
       (\<lambda>_. ClearStaticIptablesRule (ref_host 1) ref_gateway ''set1'' ''8.8.8.0/24'' ''192.168.1.200'')
       (ref_proc ref_gateway_lx) = (Ok (), p') \<and>
     rule_in (view rwNode p') ''mangle'' ''PREROUTING''
       [''-s'', ''8.8.8.0/24'', ''-d'', ''192.168.1.200'', ''-j'', ''MARK'', ''--set-mark'', ''1000'']"
  using gateway_round_trip [OF ref_documented ref_reliable ref_gateway_ipt, of "ref_proc ref_gateway_lx" "''set1''"
      "[''10.1.0.4'']" "''8.8.8.0/24''" "''192.168.1.200''"]
  by (auto simp: return_mark_spec_def staticEgressIPFWMARK_def)

end
