(* ===== verification/StaticIP.thy ===== *)
theory StaticIP
  imports NodeUtils
begin

text \<open>
  \<open>pkg/gateway/staticIP.go\<close>: putting the egress address on an interface of the gateway
  node and taking it off again. \<open>netlink.ParseAddr\<close> is vendored and translated here;
  the netlink calls themselves belong to the host.
\<close>

section \<open>The program\<close>

definition existsInSameNetwork :: "string \<Rightarrow> go_ip \<Rightarrow> bool" where
  "existsInSameNetwork addr ip =
     (case ParseCIDR addr of None \<Rightarrow> False | Some (_, inet) \<Rightarrow> ipnet_Contains inet ip)"

fun interfaceNameFrom :: "'w host \<Rightarrow> go_ip \<Rightarrow> int \<Rightarrow> net_iface list \<Rightarrow> ('w proc, string) prog" where
  "interfaceNameFrom h staticIP routeIndex [] = failE (ErrText ''failed to find interface'')"
| "interfaceNameFrom h staticIP routeIndex (iface # ifaces) =
     (if ifIndex iface = routeIndex then
        bindE (askE (hIfAddrs h iface))
          (\<lambda>addresses.
             if list_ex (\<lambda>addr. existsInSameNetwork addr staticIP) addresses then returnE (ifName iface)
             else interfaceNameFrom h staticIP routeIndex ifaces)
      else interfaceNameFrom h staticIP routeIndex ifaces)"

definition getInterfaceName :: "'w host \<Rightarrow> go_ip \<Rightarrow> int \<Rightarrow> ('w proc, string) prog" where
  "getInterfaceName h staticIP routeIndex =
     bindE (askE (hInterfaces h)) (interfaceNameFrom h staticIP routeIndex)"

definition getInterfaceForNetwork :: "'w host \<Rightarrow> string \<Rightarrow> ('w proc, string) prog" where
  "getInterfaceForNetwork h staticIPAddr =
     (case ParseCIDR staticIPAddr of
        None \<Rightarrow> failE (ErrText ''invalid CIDR address'')
      | Some (staticIP, _) \<Rightarrow>
          bindE (askE (hRouteGet h staticIP))
            (\<lambda>route. case route of
               [] \<Rightarrow> failE (ErrText ''failed to get route'')
             | linkIndex # _ \<Rightarrow> getInterfaceName h staticIP linkIndex))"

definition netlink_ParseAddr :: "string \<Rightarrow> nl_addr option" where
  "netlink_ParseAddr s =
     (let parts = split_on CHR '' '' s;
          (s', label) = (case parts of a # b # _ \<Rightarrow> (a, b) | _ \<Rightarrow> (s, []))
      in map_option (\<lambda>(ip, net). \<lparr>nlIP = ip, nlMask = netMask net, nlLabel = label\<rparr>) (ParseCIDR s'))"

definition addSecondaryIPToInterface :: "'w host \<Rightarrow> string \<Rightarrow> string \<Rightarrow> ('w proc, unit) prog" where
  "addSecondaryIPToInterface h staticIP name =
     (case netlink_ParseAddr staticIP of
        None \<Rightarrow> failE (ErrText ''failed to parse static IP'')
      | Some addr \<Rightarrow>
          bindE (wrapE ''failed to get link by name'' (askE (hLinkByName h name)))
            (\<lambda>link. actE (hAddrAdd h link addr)))"

definition removeSecondaryIPToInterface :: "'w host \<Rightarrow> string \<Rightarrow> string \<Rightarrow> ('w proc, unit) prog" where
  "removeSecondaryIPToInterface h staticIP name =
     (case netlink_ParseAddr staticIP of
        None \<Rightarrow> failE (ErrText ''failed to parse static IP'')
      | Some addr \<Rightarrow>
          bindE (wrapE ''failed to get link by name'' (askE (hLinkByName h name)))
            (\<lambda>link. actE (hAddrDel h link addr)))"

definition ConfigureStaticIP :: "'w host \<Rightarrow> string \<Rightarrow> ('w proc, unit) prog" where
  "ConfigureStaticIP h staticVIP =
     bindE (getInterfaceForNetwork h staticVIP) (addSecondaryIPToInterface h staticVIP)"

definition RemoveStaticIP :: "'w host \<Rightarrow> string \<Rightarrow> ('w proc, unit) prog" where
  "RemoveStaticIP h staticVIP =
     bindE (getInterfaceForNetwork h staticVIP) (removeSecondaryIPToInterface h staticVIP)"

section \<open>Laws\<close>

text \<open>The interface that is looked for: the first with the index and an address in whose network the IP is.\<close>

definition serves :: "'w host \<Rightarrow> 'w \<Rightarrow> go_ip \<Rightarrow> int \<Rightarrow> net_iface \<Rightarrow> bool" where
  "serves h w ip idx iface \<longleftrightarrow> ifIndex iface = idx \<and>
     (case hIfAddrs h iface w of
        Inl _ \<Rightarrow> False
      | Inr addrs \<Rightarrow> list_ex (\<lambda>a. existsInSameNetwork a ip) addrs)"

lemma interfaceNameFrom_state: "snd (interfaceNameFrom h ip idx ifs p) = p"
  by (induction ifs) (auto simp: bindE_def split: sum.split)

lemma interfaceNameFrom_Ok:
  "interfaceNameFrom h ip idx ifs p = (Ok n, p') \<Longrightarrow> \<exists>i \<in> set ifs. serves h (os p) ip idx i \<and> ifName i = n"
  by (induction ifs) (auto simp: bindE_def serves_def split: sum.splits if_splits)

lemma calm_interfaceNameFrom: "calm (interfaceNameFrom h ip idx ifs)"
proof (induction ifs)
  case Nil
  show ?case unfolding interfaceNameFrom.simps by (rule calm_failE)
next
  case (Cons i ifs)
  then show ?case unfolding interfaceNameFrom.simps by (intro calm_rules calm_askE)
qed

lemma calm_getInterfaceForNetwork: "calm (getInterfaceForNetwork h s)"
  unfolding getInterfaceForNetwork_def getInterfaceName_def
  by (auto intro!: calm_failE calm_bindE calm_askE calm_interfaceNameFrom split: option.split list.split)

lemma calm_actE: "calm (actE f)"
  by (auto simp: calm_def actE_def split: prod.split option.split)

lemma calm_StaticIP: "calm (ConfigureStaticIP h s)" "calm (RemoveStaticIP h s)"
  unfolding ConfigureStaticIP_def RemoveStaticIP_def addSecondaryIPToInterface_def removeSecondaryIPToInterface_def
  by (auto intro!: calm_bindE calm_getInterfaceForNetwork calm_failE calm_wrapE calm_askE calm_actE split: option.split)

lemma getInterfaceForNetwork_state: "snd (getInterfaceForNetwork h s p) = p"
  by (auto simp: getInterfaceForNetwork_def getInterfaceName_def bindE_def interfaceNameFrom_state
      split: option.split sum.split list.split)

lemma existsInSameNetwork_iff:
  assumes "m \<le> 32"
  shows "existsInSameNetwork (cidr4 a b c d m) (IPv4 e f g k) \<longleftrightarrow>
     (\<forall>i < m. ip_bit [a, b, c, d] i = ip_bit [e, f, g, k] i)"
proof -
  have "existsInSameNetwork (cidr4 a b c d m) (IPv4 e f g k) \<longleftrightarrow>
      map2 (AND) [a, b, c, d] (cidr_mask_bytes 4 m) = map2 (AND) [e, f, g, k] (cidr_mask_bytes 4 m)"
    unfolding existsInSameNetwork_def cidr4_def ParseCIDR_dotted [OF assms]
    by (simp add: CIDRMask_def ipnet_Contains_4 del: cidr_mask_bytes.simps list.map zip_Cons_Cons)
  then show ?thesis using masked_eq_iff [OF assms, of "[a, b, c, d]" "[e, f, g, k]"] by simp
qed

text \<open>
  An IPv4 address of the static IP is in the network of an interface address with
  prefix length \<open>m\<close> exactly when the first \<open>m\<close> bits of the two agree; in particular
  everything is in the network of prefix length 0.
\<close>

lemma existsInSameNetwork_bits:
  assumes "m \<le> 32"
  shows "existsInSameNetwork (cidr4 a b c d m) (IPv4 e f g k) \<longleftrightarrow>
     (\<forall>i < m. ip_bit [a, b, c, d] i = ip_bit [e, f, g, k] i)"
  by (rule existsInSameNetwork_iff [OF assms])

lemma existsInSameNetwork_bits_witness:
  "existsInSameNetwork (cidr4 192 168 1 10 24) (IPv4 192 168 1 200) \<longleftrightarrow>
     (\<forall>i < 24. ip_bit [192, 168, 1, 10] i = ip_bit [192, 168, 1, 200] i)"
  by (rule existsInSameNetwork_bits) simp

text \<open>
  One netlink call \<open>act\<close> on the link of an interface that carries the first route to the
  address and has itself an address in whose network it lies.
\<close>

definition on_serving_link ::
  "'w host \<Rightarrow> (int \<Rightarrow> nl_addr \<Rightarrow> 'w \<Rightarrow> goerror option \<times> 'w) \<Rightarrow> string \<Rightarrow> 'w proc \<Rightarrow> unit outcome \<Rightarrow> 'w proc \<Rightarrow> bool" where
  "on_serving_link h act vip p r p' \<longleftrightarrow>
     (\<exists>ip net idx rest iface link addr e w.
        ParseCIDR vip = Some (ip, net) \<and> hRouteGet h ip (os p) = Inr (idx # rest) \<and>
        serves h (os p) ip idx iface \<and> hLinkByName h (ifName iface) (os p) = Inr link \<and>
        netlink_ParseAddr vip = Some addr \<and> act link addr (os p) = (e, w) \<and> p' = p\<lparr>os := w\<rparr> \<and>
        r = (case e of None \<Rightarrow> Ok () | Some e \<Rightarrow> Err e))"

lemma static_ip_run:
  assumes run: "bindE (getInterfaceForNetwork h vip)
      (\<lambda>name. case netlink_ParseAddr vip of
         None \<Rightarrow> failE (ErrText ''failed to parse static IP'')
       | Some addr \<Rightarrow> bindE (wrapE ''failed to get link by name'' (askE (hLinkByName h name)))
                       (\<lambda>link. actE (act link addr))) p = (r, p')"
  shows "on_serving_link h act vip p r p' \<or> (\<exists>e. r = Err e) \<and> p' = p"
proof -
  obtain r1 where g: "getInterfaceForNetwork h vip p = (r1, p)"
    using getInterfaceForNetwork_state [of h vip p] by (metis prod.collapse)
  show ?thesis
  proof (cases r1)
    case (Ok n)
    then obtain ip net idx rest where a: "ParseCIDR vip = Some (ip, net)" "hRouteGet h ip (os p) = Inr (idx # rest)"
        and n: "getInterfaceName h ip idx p = (Ok n, p)"
      using g by (auto simp: getInterfaceForNetwork_def bindE_def split: option.splits sum.splits list.splits)
    then obtain iface where i: "serves h (os p) ip idx iface" "ifName iface = n"
      by (auto simp: getInterfaceName_def bindE_def dest!: interfaceNameFrom_Ok split: sum.splits)
    show ?thesis
    proof (cases "netlink_ParseAddr vip")
      case None
      then show ?thesis using run g Ok by (auto simp: bindE_def)
    next
      case (Some addr)
      show ?thesis
      proof (cases "hLinkByName h n (os p)")
        case (Inl e)
        then show ?thesis using run g Ok Some by (auto simp: bindE_def wrapE_run)
      next
        case (Inr link)
        obtain e w where w: "act link addr (os p) = (e, w)" by (rule prod.exhaust)
        have "p' = p\<lparr>os := w\<rparr>" "r = (case e of None \<Rightarrow> Ok () | Some e \<Rightarrow> Err e)"
          using run g Ok Some Inr w by (auto simp: bindE_def wrapE_run actE_def split: option.splits)
        then show ?thesis using a i Some Inr w unfolding on_serving_link_def by blast
      qed
    qed
  next
    case (Err e)
    then show ?thesis using run g by (auto simp: bindE_def)
  next
    case (Panic k)
    then show ?thesis using calmD [OF calm_getInterfaceForNetwork] g by metis
  qed
qed

text \<open>
  C29 (StaticIP_places). \<open>ConfigureStaticIP\<close> and \<open>RemoveStaticIP\<close> either make one netlink call, to add or to
  remove the address on an interface that carries the first route to it and has an address
  in whose network it lies, and answer with the result of that call; or they end with an
  error and nothing has happened.
\<close>

theorem StaticIP_places:
  assumes "ConfigureStaticIP h vip p = (r, p') \<and> act = hAddrAdd h \<or> RemoveStaticIP h vip p = (r, p') \<and> act = hAddrDel h"
  shows "on_serving_link h act vip p r p' \<or> (\<exists>e. r = Err e) \<and> p' = p"
  using assms static_ip_run
  unfolding ConfigureStaticIP_def RemoveStaticIP_def addSecondaryIPToInterface_def [abs_def]
    removeSecondaryIPToInterface_def [abs_def]
  by blast

lemma ref_same_network: "existsInSameNetwork (cidr4 192 168 1 10 24) (IPv4 192 168 1 200)"
proof -
  have "ip_bit [192, 168, 1, 10] i = ip_bit [192, 168, 1, 200] i" if "i < 24" for i
  proof -
    have "i div 8 < 3" using that by simp
    then consider "i div 8 = 0" | "i div 8 = 1" | "i div 8 = 2" by linarith
    then show ?thesis by cases (simp_all add: ip_bit_def)
  qed
  then show ?thesis by (subst existsInSameNetwork_iff) simp_all
qed

lemma cidr4_no_space: "CHR '' '' \<notin> set (cidr4 a b c d n)"
proof -
  have "CHR '' '' \<notin> set (dec_string k)" for k by (rule non_digit_not_in_dec_string) simp
  then show ?thesis by (simp add: cidr4_def dotted_def)
qed

lemma ref_static_ip:
  "ConfigureStaticIP (ref_host 1) (cidr4 192 168 1 200 32) (ref_proc fresh_lx) = (Ok (), ref_proc fresh_lx)"
proof -
  have p: "ParseCIDR (cidr4 192 168 1 200 32) = Some (IPv4 192 168 1 200,
      \<lparr>netIP = map2 (AND) [192, 168, 1, 200] (CIDRMask 32 32), netMask = CIDRMask 32 32\<rparr>)"
    unfolding cidr4_def by (rule ParseCIDR_dotted) simp
  have "getInterfaceForNetwork (ref_host 1) (cidr4 192 168 1 200 32) (ref_proc fresh_lx) =
      (Ok ''eth0'', ref_proc fresh_lx)"
    unfolding getInterfaceForNetwork_def p
    by (simp add: bindE_def getInterfaceName_def ref_same_network)
  moreover have "\<exists>addr. netlink_ParseAddr (cidr4 192 168 1 200 32) = Some addr"
    by (simp add: netlink_ParseAddr_def split_on_no_sep [OF cidr4_no_space] p del: split_on.simps)
  ultimately show ?thesis
    by (auto simp: ConfigureStaticIP_def bindE_def addSecondaryIPToInterface_def wrapE_run actE_def)
qed

theorem StaticIP_places_witness:
  "ConfigureStaticIP (ref_host 1) (cidr4 192 168 1 200 32) (ref_proc fresh_lx) = (Ok (), ref_proc fresh_lx) \<and>
   on_serving_link (ref_host 1) (hAddrAdd (ref_host 1)) (cidr4 192 168 1 200 32) (ref_proc fresh_lx) (Ok ())
     (ref_proc fresh_lx)"
  using StaticIP_places [of "ref_host 1" "cidr4 192 168 1 200 32" "ref_proc fresh_lx" "Ok ()" "ref_proc fresh_lx"
      "hAddrAdd (ref_host 1)"] ref_static_ip by simp

end
