(* ===== verification/Frames.thy ===== *)
theory Frames
  imports Director Gateway StaticIP
begin

text \<open>
  What an operation can touch at most, however it ends: with faults, errors or a panic in the
  middle. \<open>changes k A B\<close> relates two states of the process when only rules of \<open>A\<close> have
  gone and only rules of \<open>B\<close> have come, \<open>edits k\<close> when the node went through edits. Both
  are orders, so they compose along every program that is built from calls that respect them.
\<close>

type_synonym rule_set = "(string \<times> string \<times> string list) set"

definition all_rules :: "linux \<Rightarrow> rule_set" where
  "all_rules lx = {(tab, ch, s). rule_in lx tab ch s}"

lemma all_rules_iff [simp]: "(tab, ch, s) \<in> all_rules lx \<longleftrightarrow> rule_in lx tab ch s"
  by (simp add: all_rules_def)

definition changes ::
  "tools \<Rightarrow> ('w \<Rightarrow> linux) \<Rightarrow> bool \<Rightarrow> rule_set \<Rightarrow> rule_set \<Rightarrow> 'w proc \<Rightarrow> 'w proc \<Rightarrow> bool" where
  "changes t v k A B p p' \<longleftrightarrow>
     (path_at t k p \<longrightarrow> path_at t k p' \<and>
        all_rules (view v p) \<subseteq> all_rules (view v p') \<union> A \<and> all_rules (view v p') \<subseteq> all_rules (view v p) \<union> B)"

definition edits :: "tools \<Rightarrow> ('w \<Rightarrow> linux) \<Rightarrow> bool \<Rightarrow> 'w proc \<Rightarrow> 'w proc \<Rightarrow> bool" where
  "edits t v k p p' \<longleftrightarrow> (path_at t k p \<longrightarrow> path_at t k p' \<and> node_edits (view v p) (view v p'))"

interpretation chg: step_order "changes t v k A B" for t v k A B
proof
  fix s r u
  assume "changes t v k A B s r" and "changes t v k A B r u"
  then show "changes t v k A B s u" unfolding changes_def by blast
qed (simp add: changes_def)

interpretation edt: step_order "edits t v k" for t v k
  by unfold_locales (auto simp: edits_def)

lemma changesD:
  assumes "moves (changes t v k A B) m" and "path_at t k p" and "m p = (r, p')"
  shows "path_at t k p'" and "all_rules (view v p) \<subseteq> all_rules (view v p') \<union> A"
    and "all_rules (view v p') \<subseteq> all_rules (view v p) \<union> B"
  using movesD [OF assms(1,3)] assms(2) by (auto simp: changes_def)

lemma editsD:
  assumes "moves (edits t v k) m" and "path_at t k p" and "m p = (r, p')"
  shows "path_at t k p'" and "node_edits (view v p) (view v p')"
  using movesD [OF assms(1,3)] assms(2) by (auto simp: edits_def)

lemma changes_mono: "moves (changes t v k A B) m \<Longrightarrow> A \<subseteq> A' \<Longrightarrow> B \<subseteq> B' \<Longrightarrow> moves (changes t v k A' B') m"
  by (erule moves_mono) (unfold changes_def, blast)

text \<open>A program that leaves path and rules alone changes nothing, whatever is allowed.\<close>

lemma changes_same:
  assumes "\<And>p r p'. path_at t k p \<Longrightarrow> m p = (r, p') \<Longrightarrow> path_at t k p' \<and> all_rules (view v p') = all_rules (view v p)"
  shows "moves (changes t v k A B) m"
  by (rule movesI) (use assms in \<open>simp add: changes_def\<close>)

lemma edits_same:
  assumes "\<And>p r p'. m p = (r, p') \<Longrightarrow> ipsetPath p' = ipsetPath p \<and> view v p' = view v p"
  shows "moves (edits t v k) m"
  by (rule movesI) (use assms path_at_same in \<open>simp add: edits_def, blast\<close>)

lemma same_changes:
  assumes "\<And>p r p'. m p = (r, p') \<Longrightarrow> ipsetPath p' = ipsetPath p \<and> view v p' = view v p"
  shows "moves (changes t v k A B) m"
  by (rule changes_same) (use assms path_at_same in \<open>metis\<close>)

lemma implements_edits: "implements h t v k m f \<Longrightarrow> moves (edits t v k) m"
  by (rule movesI) (simp add: edits_def implements_def)

definition director_rules :: "string \<Rightarrow> string \<Rightarrow> rule_set" where
  "director_rules n dst =
     {(''mangle'', ''PREROUTING'', mark_spec n dst), (''nat'', bypassCNIMasquradeChainName, bypass_spec n dst)}"

lemma all_rules_frames [simp]:
  "all_rules (add_tunnel n r l lx) = all_rules lx" "all_rules (link_up n lx) = all_rules lx"
  "all_rules (add_route tb d n lx) = all_rules lx" "all_rules (put_routes tb rs lx) = all_rules lx"
  "all_rules (add_policy m tb lx) = all_rules lx" "all_rules (drop_set n lx) = all_rules lx"
  "all_rules (put_set n es lx) = all_rules lx"
  by (simp_all add: all_rules_def rule_in_def)

lemma set_insert_remove1: "set xs \<subseteq> insert x (set (remove1 x xs))"
  by (induction xs) auto

lemma all_rules_put:
  assumes "rules_of lx tab ch = Some rs"
  shows "all_rules (put_rules tab ch (spec # rs) lx) = insert (tab, ch, spec) (all_rules lx)"
    and "all_rules (put_rules tab ch (rs @ [spec]) lx) = insert (tab, ch, spec) (all_rules lx)"
    and "all_rules (put_rules tab ch (remove1 spec rs) lx) \<subseteq> all_rules lx"
    and "all_rules lx \<subseteq> insert (tab, ch, spec) (all_rules (put_rules tab ch (remove1 spec rs) lx))"
  using assms set_remove1_subset [of spec rs] set_insert_remove1 [of rs spec]
  by (auto simp: all_rules_def rule_in_def split: if_splits)

lemma all_rules_new_chain:
  assumes "rules_of lx tab ch = None" shows "all_rules (put_rules tab ch [] lx) = all_rules lx"
  using assms by (auto simp: all_rules_def rule_in_def split: if_splits)

context node_contract
begin

section \<open>Calls\<close>

lemma changes_Exists:
  "ipt_ready t ipt \<Longrightarrow> tab \<in> set known_tables \<Longrightarrow> moves (changes t v k A B) (ipt_Exists h ipt tab ch spec)"
  by (rule same_changes) (drule (2) Exists_cases, simp)

lemma changes_Insert:
  assumes "ipt_ready t ipt" and "tab \<in> set known_tables" and "(tab, ch, spec) \<in> B"
  shows "moves (changes t v k A B) (ipt_Insert h ipt tab ch 1 spec)"
proof (rule movesI)
  fix p r p'
  assume "ipt_Insert h ipt tab ch 1 spec p = (r, p')"
  from Insert_cases [OF assms(1,2) this] path_at_same [of t k p p'] assms(3)
  show "changes t v k A B p p'" by (auto simp: changes_def all_rules_put simp del: all_rules_iff)
qed

lemma changes_Append:
  assumes "ipt_ready t ipt" and "tab \<in> set known_tables" and "(tab, ch, spec) \<in> B"
  shows "moves (changes t v k A B) (ipt_Append h ipt tab ch spec)"
proof (rule movesI)
  fix p r p'
  assume "ipt_Append h ipt tab ch spec p = (r, p')"
  from Append_cases [OF assms(1,2) this] path_at_same [of t k p p'] assms(3)
  show "changes t v k A B p p'" by (auto simp: changes_def all_rules_put simp del: all_rules_iff)
qed

lemma changes_Delete:
  assumes "ipt_ready t ipt" and "tab \<in> set known_tables" and "(tab, ch, spec) \<in> A"
  shows "moves (changes t v k A B) (ipt_Delete h ipt tab ch spec)"
proof (rule movesI)
  fix p r p'
  assume "ipt_Delete h ipt tab ch spec p = (r, p')"
  from Delete_cases [OF assms(1,2) this] path_at_same [of t k p p'] assms(3)
  show "changes t v k A B p p'"
    unfolding changes_def using all_rules_put(3,4) [of "view v p" tab ch _ spec] by (auto simp del: all_rules_iff)
qed

lemma changes_NewChain:
  assumes "ipt_ready t ipt" and "tab \<in> set known_tables"
  shows "moves (changes t v k A B) (ipt_NewChain h ipt tab ch)"
proof (rule changes_same)
  fix p r p'
  assume path: "path_at t k p" and "ipt_NewChain h ipt tab ch p = (r, p')"
  from NewChain_cases [OF assms(1,2) this(2)] path_at_same [OF path, of p']
  show "path_at t k p' \<and> all_rules (view v p') = all_rules (view v p)" by (auto simp: all_rules_new_chain)
qed

lemma changes_ip_lists:
  "moves (changes t v k A B) (cmdOutput h [''ip'', ''link'', ''list''])"
  "moves (changes t v k A B) (cmdOutput h [''ip'', ''route'', ''list'', ''table'', tab])"
  "moves (changes t v k A B) (cmdOutput h [''ip'', ''rule'', ''list''])"
  by (rule same_changes, drule link_list_cases route_list_cases rule_list_cases, simp)+

lemma changes_ip_acts:
  "moves (changes t v k A B) (cmdRun h [''ip'', ''rule'', ''add'', ''prio'', prio, ''fwmark'', m, ''table'', tab])"
  "moves (changes t v k A B) (cmdRun h [''ip'', ''link'', ''set'', ''up'', n])"
  "moves (changes t v k A B)
     (cmdRun h [''ip'', ''tunnel'', ''add'', n, ''mode'', ''gre'', ''remote'', g, ''local'', l])"
  "moves (changes t v k A B) (cmdRun h [''ip'', ''route'', ''add'', d, ''dev'', n, ''table'', tab])"
  "moves (changes t v k A B) (cmdRun h [''ip'', ''route'', ''delete'', d, ''via'', g, ''table'', tab])"
  by (rule changes_same, drule rule_add_cases link_up_cases tunnel_add_cases route_add_cases route_delete_cases,
      use path_at_same in fastforce)+

lemma changes_Add: "moves (changes t v True A B) (ipset_Add h s e n)"
  by (rule changes_same) (use Add_cases in fastforce)

lemma changes_Destroy: "moves (changes t v True A B) (ipset_Destroy h s)"
  by (rule changes_same) (use Destroy_cases in fastforce)

lemma changes_after_New:
  assumes rest: "\<And>s. moves (changes t v True A B) (g s)"
  shows "moves (changes t v False A B) (bindE (wrapE msg (ipset_New h n ''hash:ip'' zero_params)) g)"
proof (rule movesI)
  fix p r p'
  assume run: "bindE (wrapE msg (ipset_New h n ''hash:ip'' zero_params)) g p = (r, p')"
  obtain r1 p1 where new: "ipset_New h n ''hash:ip'' zero_params p = (r1, p1)" by (rule prod.exhaust)
  show "changes t v False A B p p'"
  proof (cases "path_ready t p")
    case False
    then show ?thesis by (simp add: changes_def)
  next
    case True
    note c = New_cases [OF new True]
    show ?thesis
    proof (cases r1)
      case (Ok s)
      then have g: "g s p1 = (r, p')" using run new by (simp add: bindE_def wrapE_run)
      have p1: "path_at t True p1" "all_rules (view v p1) = all_rules (view v p)" using c Ok by auto
      note d = changesD [OF rest p1(1) g]
      have "path_ready t p'" using d(1) by (simp add: path_ready_def)
      then show ?thesis using d(2,3) p1(2) by (simp add: changes_def)
    next
      case (Err e)
      then have "p' = p1" using run new by (simp add: bindE_def wrapE_run)
      then show ?thesis using c Err by (auto simp: changes_def)
    next
      case (Panic q)
      then show ?thesis using c by auto
    qed
  qed
qed

lemma quiet_calls:
  "v (snd (hAppend h f s w)) = v w" "v (snd (hWriteFile h f s w)) = v w"
  "v (snd (hAddrAdd h l a w)) = v w" "v (snd (hAddrDel h l a w)) = v w"
  using doc unfolding documented_def others_quiet_def by blast+

lemma ensure_with_changes:
  "moves (changes t v k A B) check \<Longrightarrow> moves (changes t v k A B) act \<Longrightarrow> moves (changes t v k A B) (ensure_with check act)"
  "moves (changes t v k A B) check \<Longrightarrow> moves (changes t v k A B) act \<Longrightarrow> moves (changes t v k A B) (remove_with check act)"
  unfolding ensure_with_def remove_with_def by (intro chg.moves_rules; assumption)+

lemmas changes_calls = chg.moves_rules ensure_with_changes changes_Exists changes_Insert changes_Append changes_Delete
  changes_NewChain changes_ip_lists changes_ip_acts known_tables_simps

end

end
