(* ===== verification/OpFrames.thy ===== *)
theory OpFrames
  imports Frames
begin

text \<open>
  The frames of the operations of the gateway and of the director: which rules they can
  add or remove at most, and that all of them only make edits.
\<close>

definition cleared_rules :: "string \<Rightarrow> string \<Rightarrow> string \<Rightarrow> rule_set" where
  "cleared_rules n dst eip =
     {(''nat'', egressGatewayNATChainName, snat_spec n dst eip), (''filter'', egressGatewayFWChainName, accept_spec n dst)}"

context node_contract
begin

lemma changes_fill_set: "moves (changes t v False A B) (fill_set h n ips)"
  unfolding fill_set_def by (intro changes_after_New chg.moves_rules changes_Add)

lemma changes_newChainOrPanic:
  assumes "ipt_ready t ipt" and "tab \<in> set known_tables"
  shows "moves (changes t v k A B) (newChainOrPanic h ipt tab ch msg)"
  unfolding newChainOrPanic_def
  by (rule chg.moves_catchE [OF changes_NewChain [OF assms]])
    (auto intro: chg.moves_rules split: goerror.split)

lemma changes_createChain:
  assumes "ipt_ready t (gwIpt gw)" and "tab \<in> set known_tables"
  shows "moves (changes t v k A B) (createChainIfNotExist h gw tab ch)"
  unfolding createChainIfNotExist_def
  by (rule chg.moves_catchE [OF changes_NewChain [OF assms]])
    (auto intro: chg.moves_rules split: goerror.split)

lemma changes_read: "moves (changes t v k A B) (askE f)"
  by (rule same_changes) (simp split: sum.splits)

lemma changes_appendFile: "moves (changes t v k A B) (appendFile h f s)"
proof (rule same_changes)
  fix p r p'
  assume run: "appendFile h f s p = (r, p')"
  obtain ok w where w: "hAppend h f s (os p) = (ok, w)" by (rule prod.exhaust)
  have "v w = v (os p)" using quiet_calls(1) [of f s "os p"] w by simp
  then show "ipsetPath p' = ipsetPath p \<and> view v p' = view v p"
    using run w by (auto simp: appendFile_def view_def split: if_splits)
qed

section \<open>The director\<close>

lemma changes_director_Add:
  assumes "ipt_ready t (dirIpt d)"
  shows "moves (changes t v False {} (director_rules n dst)) (AddRouteToGateway h d n ips dst gw)"
  unfolding AddRouteToGateway_def by (intro changes_calls changes_fill_set assms) (simp_all add: director_rules_def)

lemma changes_director_Delete:
  assumes "ipt_ready t (dirIpt d)"
  shows "moves (changes t v False (director_rules n dst) {}) (DeleteRouteToGateway h d n dst gw)"
  unfolding DeleteRouteToGateway_def
  by (intro changes_after_New changes_calls changes_Destroy assms) (simp_all add: director_rules_def)

lemma changes_director_Clear:
  assumes "ipt_ready t (dirIpt d)"
  shows "moves (changes t v k (director_rules n dst) {}) (ClearStaleRouteToGateway h d n dst gw)"
  unfolding ClearStaleRouteToGateway_def by (intro changes_calls assms) (simp_all add: director_rules_def)

lemma changes_director_Setup:
  assumes "ipt_ready t (dirIpt d)"
  shows "moves (changes t v k {} {(''nat'', ''POSTROUTING'', [''-j'', bypassCNIMasquradeChainName])}) (director_Setup h d)"
  unfolding director_Setup_def
  by (intro changes_calls changes_newChainOrPanic changes_read changes_appendFile assms) simp_all

section \<open>The gateway\<close>

lemma changes_gateway_Add:
  assumes "ipt_ready t (gwIpt gw)"
  shows "moves (changes t v False {} (gateway_rules n dst eip)) (AddStaticIptablesRule h gw n ips dst eip)"
  unfolding AddStaticIptablesRule_def insertRule_def defaultNATIptable_def
  by (intro changes_calls changes_fill_set assms) (simp_all add: gateway_rules_def)

lemma changes_gateway_Clear:
  assumes "ipt_ready t (gwIpt gw)"
  shows "moves (changes t v False (cleared_rules n dst eip) {}) (ClearStaticIptablesRule h gw n dst eip)"
  unfolding ClearStaticIptablesRule_def deleteRule_def defaultNATIptable_def
  by (intro changes_calls changes_after_New changes_Destroy assms) (simp_all add: cleared_rules_def)

lemma changes_gateway_Setup:
  assumes "ipt_ready t (gwIpt gw)"
  shows "moves (changes t v k {} setup_rules) (gateway_Setup h gw)"
  unfolding gateway_Setup_def
  by (intro changes_calls changes_createChain changes_newChainOrPanic assms) (simp_all add: setup_rules_def)

section \<open>The static IP\<close>

lemma StaticIP_same:
  assumes "ConfigureStaticIP h s p = (r, p') \<or> RemoveStaticIP h s p = (r, p')"
  shows "ipsetPath p' = ipsetPath p \<and> view v p' = view v p"
proof -
  have get: "snd (getInterfaceForNetwork h s p) = p" by (rule getInterfaceForNetwork_state)
  have act: "ipsetPath p' = ipsetPath p \<and> view v p' = view v p"
    if "actE f p = (r, p')" "\<And>w. v (snd (f w)) = v w" for f r and p p' :: "'w proc"
    using that(1) that(2) [of "os p"] by (auto simp: actE_def view_def split: prod.splits option.splits)
  show ?thesis using assms get
    by (auto simp: ConfigureStaticIP_def RemoveStaticIP_def addSecondaryIPToInterface_def removeSecondaryIPToInterface_def
        bindE_def wrapE_run quiet_calls split: prod.splits outcome.splits option.splits sum.splits dest!: act)
qed

lemma changes_StaticIP:
  "moves (changes t v k A B) (ConfigureStaticIP h s)" "moves (changes t v k A B) (RemoveStaticIP h s)"
  by (rule same_changes, rule StaticIP_same, erule disjI1 disjI2)+

lemma edits_StaticIP: "moves (edits t v k) (ConfigureStaticIP h s)" "moves (edits t v k) (RemoveStaticIP h s)"
  by (rule edits_same, rule StaticIP_same, erule disjI1 disjI2)+

lemmas edits_ops =
  implements_director_Add [THEN implements_edits] implements_director_Delete [THEN implements_edits]
  implements_director_Clear [THEN implements_edits] implements_director_Setup [THEN implements_edits]
  implements_gateway_Add [THEN implements_edits] implements_gateway_Clear [THEN implements_edits]
  implements_gateway_Setup [THEN implements_edits] edits_StaticIP

lemmas changes_ops =
  changes_director_Add changes_director_Delete changes_director_Clear changes_director_Setup
  changes_gateway_Add changes_gateway_Clear changes_gateway_Setup changes_StaticIP

end

end
