(* ===== verification/GoHash.thy ===== *)
theory GoHash
  imports GoNet
begin

text \<open>
  The two parts of Go's standard library that name the ipsets: \<open>crypto/sha256.Sum256\<close>
  and \<open>encoding/base32.StdEncoding.EncodeToString\<close>, and \<open>generateRuleId\<close> of the
  controller, which keeps the first 16 characters of the encoded digest.
\<close>

section \<open>SHA-256\<close>

type_synonym w32 = "32 word"

definition sha_K :: "w32 list" where
  "sha_K =
    [0x428a2f98, 0x71374491, 0xb5c0fbcf, 0xe9b5dba5, 0x3956c25b, 0x59f111f1,
     0x923f82a4, 0xab1c5ed5, 0xd807aa98, 0x12835b01, 0x243185be, 0x550c7dc3,
     0x72be5d74, 0x80deb1fe, 0x9bdc06a7, 0xc19bf174, 0xe49b69c1, 0xefbe4786,
     0x0fc19dc6, 0x240ca1cc, 0x2de92c6f, 0x4a7484aa, 0x5cb0a9dc, 0x76f988da,
     0x983e5152, 0xa831c66d, 0xb00327c8, 0xbf597fc7, 0xc6e00bf3, 0xd5a79147,
     0x06ca6351, 0x14292967, 0x27b70a85, 0x2e1b2138, 0x4d2c6dfc, 0x53380d13,
     0x650a7354, 0x766a0abb, 0x81c2c92e, 0x92722c85, 0xa2bfe8a1, 0xa81a664b,
     0xc24b8b70, 0xc76c51a3, 0xd192e819, 0xd6990624, 0xf40e3585, 0x106aa070,
     0x19a4c116, 0x1e376c08, 0x2748774c, 0x34b0bcb5, 0x391c0cb3, 0x4ed8aa4a,
     0x5b9cca4f, 0x682e6ff3, 0x748f82ee, 0x78a5636f, 0x84c87814, 0x8cc70208,
     0x90befffa, 0xa4506ceb, 0xbef9a3f7, 0xc67178f2]"

definition sha_H0 :: "w32 list" where
  "sha_H0 =
    [0x6a09e667, 0xbb67ae85, 0x3c6ef372, 0xa54ff53a, 0x510e527f, 0x9b05688c,
     0x1f83d9ab, 0x5be0cd19]"

text \<open>The message, a one bit, zeros up to 56 bytes of a block, and the length in bits.\<close>

definition byte_at :: "nat \<Rightarrow> nat \<Rightarrow> byte" where
  "byte_at k n = of_nat (n div 256 ^ k)"

definition sha_pad :: "byte list \<Rightarrow> byte list" where
  "sha_pad m =
     (let len = length m;
          zeros = (if len mod 64 < 56 then 55 - len mod 64 else 119 - len mod 64)
      in m @ 0x80 # replicate zeros 0 @ map (\<lambda>k. byte_at k (8 * len)) [7, 6, 5, 4, 3, 2, 1, 0])"

fun be_words :: "byte list \<Rightarrow> w32 list" where
  "be_words (a # b # c # d # r) =
     (push_bit 24 (ucast a) OR push_bit 16 (ucast b) OR push_bit 8 (ucast c) OR ucast d) # be_words r"
| "be_words _ = []"

definition small_sigma0 :: "w32 \<Rightarrow> w32" where
  "small_sigma0 x = word_rotr 7 x XOR word_rotr 18 x XOR drop_bit 3 x"

definition small_sigma1 :: "w32 \<Rightarrow> w32" where
  "small_sigma1 x = word_rotr 17 x XOR word_rotr 19 x XOR drop_bit 10 x"

definition big_sigma0 :: "w32 \<Rightarrow> w32" where
  "big_sigma0 x = word_rotr 2 x XOR word_rotr 13 x XOR word_rotr 22 x"

definition big_sigma1 :: "w32 \<Rightarrow> w32" where
  "big_sigma1 x = word_rotr 6 x XOR word_rotr 11 x XOR word_rotr 25 x"

fun sha_schedule :: "nat \<Rightarrow> w32 list \<Rightarrow> w32 list" where
  "sha_schedule 0 ws = ws"
| "sha_schedule (Suc k) ws =
     (let i = length ws in
      sha_schedule k
        (ws @ [small_sigma1 (ws ! (i - 2)) + ws ! (i - 7) + small_sigma0 (ws ! (i - 15)) + ws ! (i - 16)]))"

definition sha_round :: "w32 list \<Rightarrow> w32 \<times> w32 \<Rightarrow> w32 list" where
  "sha_round st kw =
     (case (st, kw) of
        ([a, b, c, d, e, f, g, h], (k, w)) \<Rightarrow>
          (let t1 = h + big_sigma1 e + ((e AND f) XOR (NOT e AND g)) + k + w;
               t2 = big_sigma0 a + ((a AND b) XOR (a AND c) XOR (b AND c))
           in [t1 + t2, a, b, c, d + t1, e, f, g])
      | _ \<Rightarrow> st)"

definition sha_block :: "w32 list \<Rightarrow> byte list \<Rightarrow> w32 list" where
  "sha_block st blk =
     map2 (+) st (foldl sha_round st (zip sha_K (sha_schedule 48 (be_words blk))))"

function sha_blocks :: "w32 list \<Rightarrow> byte list \<Rightarrow> w32 list" where
  "sha_blocks st m = (if m = [] then st else sha_blocks (sha_block st (take 64 m)) (drop 64 m))"
  by pat_completeness auto
termination by (relation "measure (\<lambda>(st, m). length m)") auto

declare sha_blocks.simps [simp del]

definition be_bytes :: "w32 \<Rightarrow> byte list" where
  "be_bytes w = map (\<lambda>k. byte_at k (unat w)) [3, 2, 1, 0]"

definition Sum256 :: "byte list \<Rightarrow> byte list" where
  "Sum256 m = concat (map be_bytes (sha_blocks sha_H0 (sha_pad m)))"

lemma length_sha_round [simp]: "length (sha_round st kw) = length st"
  by (auto simp: sha_round_def Let_def split: list.split prod.split)

lemma length_foldl_round [simp]: "length (foldl sha_round st kws) = length st"
  by (induction kws arbitrary: st) simp_all

lemma length_sha_blocks [simp]: "length (sha_blocks st m) = length st"
proof (induction st m rule: sha_blocks.induct)
  case (1 st m)
  then show ?case by (subst sha_blocks.simps) (simp add: sha_block_def)
qed

lemma length_Sum256 [simp]: "length (Sum256 m) = 32"
proof -
  have "length (concat (map be_bytes ws)) = 4 * length ws" for ws
    by (induction ws) (simp_all add: be_bytes_def)
  then show ?thesis by (simp add: Sum256_def sha_H0_def)
qed

text \<open>Padding gives whole blocks.\<close>

lemma sha_pad_blocks: "length (sha_pad m) mod 64 = 0"
proof -
  have "length m mod 64 < 64" by simp
  then obtain q r where q: "length m = 64 * q + r" and r: "r < 64" "length m mod 64 = r"
    by (metis mult_div_mod_eq)
  show ?thesis
  proof (cases "r < 56")
    case True
    then have "length (sha_pad m) = 64 * (q + 1)" using q r by (simp add: sha_pad_def)
    then show ?thesis by simp
  next
    case False
    then have "length (sha_pad m) = 64 * (q + 2)" using q r by (simp add: sha_pad_def)
    then show ?thesis by simp
  qed
qed

section \<open>Base 32\<close>

text \<open>Five bytes are one number of 40 bits, written with eight digits.\<close>

definition b32_alphabet :: string where
  "b32_alphabet = ''ABCDEFGHIJKLMNOPQRSTUVWXYZ234567''"

definition bytes_value :: "byte list \<Rightarrow> nat" where
  "bytes_value bs = foldl (\<lambda>acc b. 256 * acc + unat b) 0 bs"

fun digits32 :: "nat \<Rightarrow> nat \<Rightarrow> nat list" where
  "digits32 0 v = []"
| "digits32 (Suc k) v = digits32 k (v div 32) @ [v mod 32]"

text \<open>A last group of fewer bytes is filled up with zeros, its unused digits printed as \<open>=\<close>.\<close>

definition b32_group :: "byte list \<Rightarrow> string" where
  "b32_group bs =
     (let used = (8 * length bs + 4) div 5;
          ds = map (\<lambda>d. b32_alphabet ! d) (digits32 8 (bytes_value (bs @ replicate (5 - length bs) 0)))
      in take used ds @ replicate (8 - used) CHR ''='')"

function b32_encode :: "byte list \<Rightarrow> string" where
  "b32_encode bs = (if bs = [] then [] else b32_group (take 5 bs) @ b32_encode (drop 5 bs))"
  by pat_completeness auto
termination by (relation "measure length") auto

declare b32_encode.simps [simp del]

lemma length_digits32 [simp]: "length (digits32 k v) = k"
  by (induction k arbitrary: v) simp_all

lemma digits32_bound: "d \<in> set (digits32 k v) \<Longrightarrow> d < 32"
  by (induction k arbitrary: v) auto

lemma digits32_inject:
  "u < 32 ^ k \<Longrightarrow> v < 32 ^ k \<Longrightarrow> digits32 k u = digits32 k v \<longleftrightarrow> u = v"
proof (induction k arbitrary: u v)
  case (Suc k)
  have "u div 32 < 32 ^ k" "v div 32 < 32 ^ k" using Suc.prems by (auto simp: less_mult_imp_div_less mult.commute)
  with Suc.IH have "digits32 (Suc k) u = digits32 (Suc k) v \<longleftrightarrow> u div 32 = v div 32 \<and> u mod 32 = v mod 32"
    by simp
  then show ?case by (metis mult_div_mod_eq)
qed simp

lemma bytes_value_bound: "bytes_value bs < 256 ^ length bs"
proof (induction bs rule: rev_induct)
  case (snoc b bs)
  have "unat b < 256" by (rule unat_byte_less)
  then show ?case using snoc by (simp add: bytes_value_def)
qed (simp add: bytes_value_def)

lemma mult_add_inject:
  fixes a b x y k :: nat
  assumes "x < k" and "y < k"
  shows "k * a + x = k * b + y \<longleftrightarrow> a = b \<and> x = y"
proof
  assume eq: "k * a + x = k * b + y"
  have "(k * a + x) div k = (k * b + y) div k" using eq by simp
  then have "a = b" using assms by simp
  with eq show "a = b \<and> x = y" by simp
qed simp

lemma bytes_value_inject:
  "length xs = length ys \<Longrightarrow> bytes_value xs = bytes_value ys \<longleftrightarrow> xs = ys"
proof (induction xs arbitrary: ys rule: rev_induct)
  case (snoc x xs)
  then obtain y ys' where ys: "ys = ys' @ [y]" by (metis length_0_conv length_append_singleton nat.distinct(1) rev_exhaust)
  have b: "unat x < 256" "unat y < 256" by (rule unat_byte_less)+
  have "256 * bytes_value xs + unat x = 256 * bytes_value ys' + unat y \<longleftrightarrow>
      bytes_value xs = bytes_value ys' \<and> x = y"
    using mult_add_inject [OF b] by (simp add: word_unat_eq_iff)
  then show ?case using snoc ys by (auto simp: bytes_value_def)
qed (simp add: bytes_value_def)

lemma b32_alphabet_inject: "i < 32 \<Longrightarrow> j < 32 \<Longrightarrow> b32_alphabet ! i = b32_alphabet ! j \<longleftrightarrow> i = j"
proof (rule nth_eq_iff_index_eq)
  show "distinct b32_alphabet" by (simp add: b32_alphabet_def)
qed (simp_all add: b32_alphabet_def)

lemma map_nth_inject:
  "(\<And>d. d \<in> set xs \<union> set ys \<Longrightarrow> d < 32) \<Longrightarrow> length xs = length ys \<Longrightarrow>
   map (\<lambda>d. b32_alphabet ! d) xs = map (\<lambda>d. b32_alphabet ! d) ys \<longleftrightarrow> xs = ys"
proof (induction xs ys rule: list_induct2')
  case (4 x xs y ys)
  then show ?case using b32_alphabet_inject [of x y] by simp
qed simp_all

lemma b32_group_full:
  "length bs = 5 \<Longrightarrow> b32_group bs = map (\<lambda>d. b32_alphabet ! d) (digits32 8 (bytes_value bs))"
  by (simp add: b32_group_def)

lemma b32_group_length: "length bs = 5 \<Longrightarrow> length (b32_group bs) = 8"
  by (simp add: b32_group_full)

lemma b32_group_inject:
  assumes "length xs = 5" and "length ys = 5"
  shows "b32_group xs = b32_group ys \<longleftrightarrow> xs = ys"
proof -
  have b: "bytes_value bs < 32 ^ 8" if "length bs = 5" for bs
    using bytes_value_bound [of bs] that by simp
  have "b32_group xs = b32_group ys \<longleftrightarrow> digits32 8 (bytes_value xs) = digits32 8 (bytes_value ys)"
    unfolding b32_group_full [OF assms(1)] b32_group_full [OF assms(2)]
    by (rule map_nth_inject) (auto dest: digits32_bound simp del: digits32.simps)
  also have "\<dots> \<longleftrightarrow> bytes_value xs = bytes_value ys"
    using b assms by (intro digits32_inject) auto
  also have "\<dots> \<longleftrightarrow> xs = ys" using assms by (intro bytes_value_inject) simp
  finally show ?thesis .
qed

lemma b32_group_chars: "length bs = 5 \<Longrightarrow> set (b32_group bs) \<subseteq> set b32_alphabet"
proof -
  assume len: "length bs = 5"
  have "length b32_alphabet = 32" by (simp add: b32_alphabet_def)
  then have "d < 32 \<Longrightarrow> b32_alphabet ! d \<in> set b32_alphabet" for d by (intro nth_mem) simp
  then show ?thesis unfolding b32_group_full [OF len] using digits32_bound by fastforce
qed

lemma b32_encode_16:
  assumes "10 \<le> length bs"
  shows "take 16 (b32_encode bs) = b32_group (take 5 bs) @ b32_group (take 5 (drop 5 bs))"
proof -
  have "b32_encode bs = b32_group (take 5 bs) @ b32_group (take 5 (drop 5 bs)) @ b32_encode (drop 5 (drop 5 bs))"
    using assms by (subst b32_encode.simps, subst b32_encode.simps) auto
  then show ?thesis using assms by (simp add: b32_group_length)
qed

section \<open>The name of a rule\<close>

text \<open>\<open>[]byte(s)\<close>.\<close>

definition string_bytes :: "string \<Rightarrow> byte list" where
  "string_bytes s = map of_char s"

definition generateRuleId :: "string \<Rightarrow> string \<Rightarrow> int \<Rightarrow> string" where
  "generateRuleId namespace resourceName ruleNo =
     (let hash = Sum256 (string_bytes (namespace @ resourceName @ Itoa ruleNo)) in
      ''EGRESS-IP-'' @ take 16 (b32_encode hash))"

lemma generateRuleId_groups:
  "generateRuleId ns n i =
     ''EGRESS-IP-'' @ b32_group (take 5 (Sum256 (string_bytes (ns @ n @ Itoa i)))) @
     b32_group (take 5 (drop 5 (Sum256 (string_bytes (ns @ n @ Itoa i)))))"
  by (simp add: generateRuleId_def Let_def b32_encode_16)

lemma Itoa_nat_inject: "0 \<le> i \<Longrightarrow> 0 \<le> j \<Longrightarrow> Itoa i = Itoa j \<longleftrightarrow> i = j"
  by (simp add: Itoa_def eq_nat_nat_iff)

text \<open>
  The name of a rule has 26 characters, so it fits into the 31 that ipset allows for the
  name of a set, and they are all letters, digits 2 to 7 and dashes.
\<close>

lemma generateRuleId_fits:
  "length (generateRuleId ns n i) = 26 \<and>
   set (generateRuleId ns n i) \<subseteq> set (''-'' @ b32_alphabet) \<and> prefix ''EGRESS-IP-'' (generateRuleId ns n i)"
proof -
  let ?h = "Sum256 (string_bytes (ns @ n @ Itoa i))"
  have "set (b32_group (take 5 ?h)) \<subseteq> set b32_alphabet" "set (b32_group (take 5 (drop 5 ?h))) \<subseteq> set b32_alphabet"
    by (rule b32_group_chars, simp)+
  moreover have "set ''EGRESS-IP-'' \<subseteq> set (''-'' @ b32_alphabet)"
    by (simp add: b32_alphabet_def)
  ultimately have "set (generateRuleId ns n i) \<subseteq> set (''-'' @ b32_alphabet)"
    unfolding generateRuleId_groups set_append by blast
  moreover have "length (generateRuleId ns n i) = 26" "prefix ''EGRESS-IP-'' (generateRuleId ns n i)"
    unfolding generateRuleId_groups by (simp_all add: b32_group_length)
  ultimately show ?thesis by blast
qed

text \<open>
  Two rules have the same name exactly when the first ten bytes of the digests of the
  concatenated namespace, resource name and rule number agree: encoding and truncation lose
  nothing else.
\<close>

lemma generateRuleId_equal:
  "generateRuleId ns n i = generateRuleId ns' n' j \<longleftrightarrow>
     take 10 (Sum256 (string_bytes (ns @ n @ Itoa i))) = take 10 (Sum256 (string_bytes (ns' @ n' @ Itoa j)))"
proof -
  let ?h = "Sum256 (string_bytes (ns @ n @ Itoa i))" and ?h' = "Sum256 (string_bytes (ns' @ n' @ Itoa j))"
  have "generateRuleId ns n i = generateRuleId ns' n' j \<longleftrightarrow>
      b32_group (take 5 ?h) @ b32_group (take 5 (drop 5 ?h)) = b32_group (take 5 ?h') @ b32_group (take 5 (drop 5 ?h'))"
    unfolding generateRuleId_groups by simp
  also have "\<dots> \<longleftrightarrow> b32_group (take 5 ?h) = b32_group (take 5 ?h') \<and>
      b32_group (take 5 (drop 5 ?h)) = b32_group (take 5 (drop 5 ?h'))"
    by (rule append_eq_append_conv) (simp add: b32_group_length)
  also have "\<dots> \<longleftrightarrow> take 5 ?h = take 5 ?h' \<and> take 5 (drop 5 ?h) = take 5 (drop 5 ?h')"
    by (simp add: b32_group_inject)
  also have "\<dots> \<longleftrightarrow> take 5 ?h @ take 5 (drop 5 ?h) = take 5 ?h' @ take 5 (drop 5 ?h')"
    by (rule append_eq_append_conv [symmetric]) simp
  also have "\<dots> \<longleftrightarrow> take 10 ?h = take 10 ?h'"
    using take_add [of 5 5 ?h] take_add [of 5 5 ?h'] by simp
  finally show ?thesis .
qed

text \<open>
  The three parts are concatenated without a separator: resources of different
  namespaces get the same rule name when namespace and name run together to the same text,
  and so do rule 11 of one resource and rule 1 of another. Within one resource the digested
  texts of different rules differ.
\<close>

lemma generateRuleId_collision:
  "generateRuleId ''team'' ''a-db'' 0 = generateRuleId ''teama'' ''-db'' 0 \<and>
   generateRuleId ns n 11 = generateRuleId ns (n @ ''1'') 1 \<and>
   (ns @ n @ Itoa (int i) = ns @ n @ Itoa (int j) \<longleftrightarrow> i = j)"
proof (intro conjI)
  show "generateRuleId ''team'' ''a-db'' 0 = generateRuleId ''teama'' ''-db'' 0"
    unfolding generateRuleId_def by simp
  have "Itoa 11 = ''1'' @ Itoa 1"
    by (simp add: Itoa_def) (simp add: dec_string.simps digit_chars)
  then show "generateRuleId ns n 11 = generateRuleId ns (n @ ''1'') 1"
    unfolding generateRuleId_def by simp
qed (simp add: Itoa_nat_inject)

end
