(* ===== verification/WorkQueue.thy ===== *)
theory WorkQueue
  imports Prelude
begin

text \<open>
  The work queue of \<open>vendor/k8s.io/client-go/util/workqueue\<close> through which the event
  handlers of the controller hand keys to its workers: the queue itself (\<open>queue.go\<close>), the
  delayed adds (\<open>delaying_queue.go\<close>), the retry delays (\<open>default_rate_limiters.go\<close>) and
  their combination (\<open>rate_limiting_queue.go\<close>). Each operation of the queue holds its lock
  for its whole body, so it is one step here; the goroutines that use the queue are a step
  relation over those operations.

  Instants and durations are nanoseconds. The heap of \<open>waitingLoop\<close> is a list sorted by
  the instants; the token bucket, which only delays further, enters as the delay it answers.
\<close>

section \<open>The queue\<close>

record 'k work_queue =
  wqQueue :: "'k list"
  wqDirty :: "'k set"
  wqProcessing :: "'k set"
  wqDown :: bool

datatype 'k got = Got 'k | Blocked | Shutdown

definition wq_New :: "'k work_queue" where
  "wq_New = \<lparr>wqQueue = [], wqDirty = {}, wqProcessing = {}, wqDown = False\<rparr>"

definition wq_Add :: "'k \<Rightarrow> 'k work_queue \<Rightarrow> 'k work_queue" where
  "wq_Add item q =
     (if wqDown q then q
      else if item \<in> wqDirty q then q
      else (let q1 = q\<lparr>wqDirty := insert item (wqDirty q)\<rparr> in
            if item \<in> wqProcessing q1 then q1 else q1\<lparr>wqQueue := wqQueue q1 @ [item]\<rparr>))"

definition wq_Len :: "'k work_queue \<Rightarrow> nat" where
  "wq_Len q = length (wqQueue q)"

definition wq_Get :: "'k work_queue \<Rightarrow> 'k got \<times> 'k work_queue" where
  "wq_Get q =
     (case wqQueue q of
        [] \<Rightarrow> (if wqDown q then Shutdown else Blocked, q)
      | item # rest \<Rightarrow>
          (Got item, q\<lparr>wqQueue := rest, wqProcessing := insert item (wqProcessing q),
                       wqDirty := wqDirty q - {item}\<rparr>))"

definition wq_Done :: "'k \<Rightarrow> 'k work_queue \<Rightarrow> 'k work_queue" where
  "wq_Done item q =
     (let q1 = q\<lparr>wqProcessing := wqProcessing q - {item}\<rparr> in
      if item \<in> wqDirty q1 then q1\<lparr>wqQueue := wqQueue q1 @ [item]\<rparr> else q1)"

definition wq_ShutDown :: "'k work_queue \<Rightarrow> 'k work_queue" where
  "wq_ShutDown q = q\<lparr>wqDown := True\<rparr>"

definition wq_ShuttingDown :: "'k work_queue \<Rightarrow> bool" where
  "wq_ShuttingDown q = wqDown q"

text \<open>
  What the comments in \<open>queue.go\<close> promise of the three fields: every element of the queue
  is dirty and not being processed, and whatever is dirty is queued or being processed.
\<close>

definition wq_ok :: "'k work_queue \<Rightarrow> bool" where
  "wq_ok q \<longleftrightarrow> distinct (wqQueue q) \<and> set (wqQueue q) = wqDirty q - wqProcessing q"

section \<open>The contract\<close>

locale key_queue =
  fixes add :: "'k \<Rightarrow> 'q \<Rightarrow> 'q" and get :: "'q \<Rightarrow> 'k got \<times> 'q" and fin :: "'k \<Rightarrow> 'q \<Rightarrow> 'q"
    and ok :: "'q \<Rightarrow> bool" and todo :: "'q \<Rightarrow> 'k set" and busy :: "'q \<Rightarrow> 'k set" and down :: "'q \<Rightarrow> bool"
  assumes add_ok: "ok q \<Longrightarrow> ok (add k q)"
    and add_todo: "todo (add k q) = (if down q then todo q else insert k (todo q))"
    and add_busy: "busy (add k q) = busy q"
    and add_down: "down (add k q) = down q"
    and get_ok: "ok q \<Longrightarrow> ok (snd (get q))"
    and get_Got: "ok q \<Longrightarrow> get q = (Got k, q') \<Longrightarrow>
        k \<in> todo q \<and> k \<notin> busy q \<and> todo q' = todo q - {k} \<and> busy q' = insert k (busy q) \<and> down q' = down q"
    and get_idle: "ok q \<Longrightarrow> get q = (r, q') \<Longrightarrow> (\<And>k. r \<noteq> Got k) \<Longrightarrow>
        todo q \<subseteq> busy q \<and> q' = q \<and> r = (if down q then Shutdown else Blocked)"
    and fin_ok: "ok q \<Longrightarrow> k \<in> busy q \<Longrightarrow> ok (fin k q)"
    and fin_todo: "todo (fin k q) = todo q"
    and fin_busy: "busy (fin k q) = busy q - {k}"
    and fin_down: "down (fin k q) = down q"
begin

text \<open>A key that is added and that nobody processes keeps \<open>Get\<close> from blocking.\<close>

lemma todo_served:
  assumes "ok q" and "k \<in> todo q" and "k \<notin> busy q"
  shows "\<exists>j q'. get q = (Got j, q')"
proof (cases "get q")
  case (Pair r q')
  then show ?thesis using get_idle [OF assms(1) Pair] assms(2,3) by (cases r) auto
qed

lemma added_served: "ok q \<Longrightarrow> \<not> down q \<Longrightarrow> k \<notin> busy q \<Longrightarrow> \<exists>j q'. get (add k q) = (Got j, q')"
  by (rule todo_served [of _ k]) (simp_all add: add_ok add_todo add_busy)

text \<open>A key that is added while it is being processed comes again afterwards.\<close>

lemma readded_served:
  "ok q \<Longrightarrow> \<not> down q \<Longrightarrow> k \<in> busy q \<Longrightarrow> \<exists>j q'. get (fin k (add k q)) = (Got j, q')"
  by (rule todo_served [of _ k]) (simp_all add: add_ok add_todo add_busy fin_ok fin_todo fin_busy)

text \<open>A key that is being processed is not handed out a second time.\<close>

lemma busy_not_got: "ok q \<Longrightarrow> k \<in> busy q \<Longrightarrow> get q = (Got j, q') \<Longrightarrow> j \<noteq> k"
  using get_Got by blast

lemma adds_ok: "ok q \<Longrightarrow> ok (fold add ks q)"
  by (induction ks arbitrary: q) (simp_all add: add_ok)

lemma adds_busy: "busy (fold add ks q) = busy q"
  by (induction ks arbitrary: q) (simp_all add: add_busy)

lemma adds_down: "down (fold add ks q) = down q"
  by (induction ks arbitrary: q) (simp_all add: add_down)

lemma adds_todo: "todo (fold add ks q) = (if down q then todo q else set ks \<union> todo q)"
  by (induction ks arbitrary: q) (auto simp: add_todo add_down)

lemmas adds = adds_ok adds_busy adds_down adds_todo

end

interpretation wq: key_queue wq_Add wq_Get wq_Done wq_ok wqDirty wqProcessing wqDown
proof unfold_locales
  fix q :: "'k work_queue" and k
  show "wq_ok (wq_Add k q)" if "wq_ok q"
    using that by (auto simp: wq_ok_def wq_Add_def Let_def)
  show "wq_ok (snd (wq_Get q))" if "wq_ok q"
    using that by (cases "wqQueue q") (auto simp: wq_ok_def wq_Get_def)
  show "wq_ok (wq_Done k q)" if "wq_ok q" "k \<in> wqProcessing q"
    using that by (auto simp: wq_ok_def wq_Done_def Let_def)
next
  fix q q' :: "'k work_queue" and k
  assume ok: "wq_ok q" and got: "wq_Get q = (Got k, q')"
  from got obtain rest where "wqQueue q = k # rest"
    and "q' = q\<lparr>wqQueue := rest, wqProcessing := insert k (wqProcessing q), wqDirty := wqDirty q - {k}\<rparr>"
    by (cases "wqQueue q") (simp_all add: wq_Get_def split: if_splits)
  moreover have "k \<in> wqDirty q - wqProcessing q"
    using ok calculation(1) by (metis wq_ok_def list.set_intros(1))
  ultimately show "k \<in> wqDirty q \<and> k \<notin> wqProcessing q \<and> wqDirty q' = wqDirty q - {k} \<and>
      wqProcessing q' = insert k (wqProcessing q) \<and> wqDown q' = wqDown q"
    by simp
next
  fix q q' :: "'k work_queue" and r
  assume "wq_ok q" and "wq_Get q = (r, q')" and "\<And>k. r \<noteq> Got k"
  then show "wqDirty q \<subseteq> wqProcessing q \<and> q' = q \<and> r = (if wqDown q then Shutdown else Blocked)"
    by (auto simp: wq_ok_def wq_Get_def split: list.splits)
qed (auto simp: wq_Add_def wq_Done_def Let_def)

end
