(* ===== verification/RateQueue.thy ===== *)
theory RateQueue
  imports WorkQueue
begin

text \<open>
  The rate limited, delaying queue that \<open>NewNamedRateLimitingQueue\<close> builds around the
  plain queue: per-item exponential delays, the channel and the list of the waiting loop,
  and \<open>AddRateLimited\<close>, \<open>AddAfter\<close> and \<open>Forget\<close>.
\<close>

section \<open>Delays\<close>

text \<open>
  \<open>ItemExponentialFailureRateLimiter.When\<close> multiplies in floating point; a base below
  \<open>2 ^ 53\<close> times a power of two is exact there, and everything above \<open>math.MaxInt64\<close>
  (\<open>2 ^ 63\<close> as a float) is cut off.
\<close>

type_synonym 'k failures = "'k \<rightharpoonup> nat"

definition failure_count :: "'k \<Rightarrow> 'k failures \<Rightarrow> nat" where
  "failure_count item fs = (case fs item of None \<Rightarrow> 0 | Some n \<Rightarrow> n)"

definition item_When :: "int \<Rightarrow> int \<Rightarrow> 'k \<Rightarrow> 'k failures \<Rightarrow> int \<times> 'k failures" where
  "item_When baseDelay maxDelay item fs =
     (let expn = failure_count item fs;
          fs' = fs(item \<mapsto> failure_count item fs + 1);
          backoff = baseDelay * 2 ^ expn
      in if backoff > 2 ^ 63 then (maxDelay, fs')
         else if backoff > maxDelay then (maxDelay, fs')
         else (backoff, fs'))"

definition item_NumRequeues :: "'k \<Rightarrow> 'k failures \<Rightarrow> nat" where
  "item_NumRequeues item fs = failure_count item fs"

definition item_Forget :: "'k \<Rightarrow> 'k failures \<Rightarrow> 'k failures" where
  "item_Forget item fs = fs(item := None)"

definition maxOf_When :: "int list \<Rightarrow> int" where
  "maxOf_When ds = foldl (\<lambda>ret curr. if curr > ret then curr else ret) 0 ds"

text \<open>\<open>DefaultControllerRateLimiter\<close>: 5 ms doubling up to 1000 s, and the bucket.\<close>

definition baseDelay :: int where "baseDelay = 5 * 1000000"
definition maxDelay :: int where "maxDelay = 1000 * 1000000000"

definition default_When :: "int \<Rightarrow> 'k \<Rightarrow> 'k failures \<Rightarrow> int \<times> 'k failures" where
  "default_When bucket item fs =
     (case item_When baseDelay maxDelay item fs of (d, fs') \<Rightarrow> (maxOf_When [d, bucket], fs'))"

section \<open>Delayed adds\<close>

record 'k rate_queue =
  rqBase :: "'k work_queue"
  rqChan :: "('k \<times> int) list"
  rqWaiting :: "('k \<times> int) list"
  rqFailures :: "'k failures"

definition rq_New :: "'k rate_queue" where
  "rq_New = \<lparr>rqBase = wq_New, rqChan = [], rqWaiting = [], rqFailures = Map.empty\<rparr>"

definition on_base :: "('k work_queue \<Rightarrow> 'k work_queue) \<Rightarrow> 'k rate_queue \<Rightarrow> 'k rate_queue" where
  "on_base f rq = rq\<lparr>rqBase := f (rqBase rq)\<rparr>"

text \<open>The operations of the embedded interface.\<close>

definition rq_Add :: "'k \<Rightarrow> 'k rate_queue \<Rightarrow> 'k rate_queue" where
  "rq_Add item = on_base (wq_Add item)"

definition rq_Get :: "'k rate_queue \<Rightarrow> 'k got \<times> 'k rate_queue" where
  "rq_Get rq = (case wq_Get (rqBase rq) of (r, q) \<Rightarrow> (r, rq\<lparr>rqBase := q\<rparr>))"

definition rq_Done :: "'k \<Rightarrow> 'k rate_queue \<Rightarrow> 'k rate_queue" where
  "rq_Done item = on_base (wq_Done item)"

definition rq_ShutDown :: "'k rate_queue \<Rightarrow> 'k rate_queue" where
  "rq_ShutDown = on_base wq_ShutDown"

text \<open>\<open>waitingForAddCh <- &waitFor{data: item, readyAt: q.clock.Now().Add(duration)}\<close>.\<close>

definition rq_AddAfter :: "'k \<Rightarrow> int \<Rightarrow> int \<Rightarrow> 'k rate_queue \<Rightarrow> 'k rate_queue" where
  "rq_AddAfter item duration now rq =
     (if wq_ShuttingDown (rqBase rq) then rq
      else if duration \<le> 0 then on_base (wq_Add item) rq
      else rq\<lparr>rqChan := rqChan rq @ [(item, now + duration)]\<rparr>)"

definition rq_AddRateLimited :: "'k \<Rightarrow> int \<Rightarrow> int \<Rightarrow> 'k rate_queue \<Rightarrow> 'k rate_queue" where
  "rq_AddRateLimited item bucket now rq =
     (case default_When bucket item (rqFailures rq) of
        (d, fs) \<Rightarrow> rq_AddAfter item d now (rq\<lparr>rqFailures := fs\<rparr>))"

definition rq_Forget :: "'k \<Rightarrow> 'k rate_queue \<Rightarrow> 'k rate_queue" where
  "rq_Forget item rq = rq\<lparr>rqFailures := item_Forget item (rqFailures rq)\<rparr>"

text \<open>\<open>insert\<close>: a key waits once, until the earliest of the instants it was given.\<close>

definition wait_insert :: "'k \<times> int \<Rightarrow> ('k \<times> int) list \<Rightarrow> ('k \<times> int) list" where
  "wait_insert entry ws =
     (case map_of ws (fst entry) of
        Some readyAt \<Rightarrow>
          if readyAt > snd entry then insort_key snd entry (filter (\<lambda>e. fst e \<noteq> fst entry) ws) else ws
      | None \<Rightarrow> insort_key snd entry ws)"

text \<open>\<open>// Add ready entries\<close>.\<close>

fun add_ready :: "int \<Rightarrow> ('k \<times> int) list \<Rightarrow> 'k work_queue \<Rightarrow> ('k \<times> int) list \<times> 'k work_queue" where
  "add_ready now [] q = ([], q)"
| "add_ready now ((item, readyAt) # ws) q =
     (if readyAt > now then ((item, readyAt) # ws, q) else add_ready now ws (wq_Add item q))"

text \<open>\<open>case waitEntry := <-q.waitingForAddCh\<close>, for one entry.\<close>

definition receive :: "int \<Rightarrow> 'k rate_queue \<Rightarrow> 'k rate_queue" where
  "receive now rq =
     (case rqChan rq of
        [] \<Rightarrow> rq
      | e # es \<Rightarrow>
          (let rq1 = rq\<lparr>rqChan := es\<rparr> in
           if snd e > now then rq1\<lparr>rqWaiting := wait_insert e (rqWaiting rq1)\<rparr>
           else on_base (wq_Add (fst e)) rq1))"

text \<open>The two halves of a round of \<open>waitingLoop\<close>; the loop returns once the queue shuts down.\<close>

definition loop_ready :: "int \<Rightarrow> 'k rate_queue \<Rightarrow> 'k rate_queue" where
  "loop_ready now rq =
     (if wq_ShuttingDown (rqBase rq) then rq
      else (case add_ready now (rqWaiting rq) (rqBase rq) of
              (ws, q) \<Rightarrow> rq\<lparr>rqWaiting := ws, rqBase := q\<rparr>))"

definition loop_receive :: "int \<Rightarrow> 'k rate_queue \<Rightarrow> 'k rate_queue" where
  "loop_receive now rq = (if wq_ShuttingDown (rqBase rq) then rq else receive now rq)"

section \<open>Laws\<close>

text \<open>The keys that will come, sooner or later.\<close>

definition rq_todo :: "'k rate_queue \<Rightarrow> 'k set" where
  "rq_todo rq = wqDirty (rqBase rq) \<union> fst ` set (rqChan rq) \<union> fst ` set (rqWaiting rq)"

definition rq_ok :: "'k rate_queue \<Rightarrow> bool" where
  "rq_ok rq \<longleftrightarrow> wq_ok (rqBase rq) \<and> sorted (map snd (rqWaiting rq)) \<and> distinct (map fst (rqWaiting rq))"

lemma maxOf_pair: "0 \<le> d \<Longrightarrow> maxOf_When [d, b] = max d b"
  by (auto simp: maxOf_When_def)

lemma item_When_default:
  "item_When baseDelay maxDelay item fs =
     (min (baseDelay * 2 ^ failure_count item fs) maxDelay, fs(item \<mapsto> failure_count item fs + 1))"
  by (auto simp: item_When_def Let_def min_def maxDelay_def)

lemma default_delay_pos: "0 < min (baseDelay * 2 ^ n) maxDelay"
  by (simp add: baseDelay_def maxDelay_def)

lemma default_When_eq:
  "default_When b item fs =
     (max (min (baseDelay * 2 ^ failure_count item fs) maxDelay) b, fs(item \<mapsto> failure_count item fs + 1))"
  using default_delay_pos [of "failure_count item fs"]
  by (simp add: default_When_def item_When_default maxOf_pair)

lemma rq_AddRateLimited_eq:
  "rq_AddRateLimited k b now rq =
     (let rq1 = rq\<lparr>rqFailures := (rqFailures rq)(k \<mapsto> failure_count k (rqFailures rq) + 1)\<rparr> in
      if wqDown (rqBase rq) then rq1
      else rq1\<lparr>rqChan := rqChan rq @
             [(k, now + max (min (baseDelay * 2 ^ failure_count k (rqFailures rq)) maxDelay) b)]\<rparr>)"
  using default_delay_pos [of "failure_count k (rqFailures rq)"]
  by (auto simp: rq_AddRateLimited_def default_When_eq rq_AddAfter_def wq_ShuttingDown_def Let_def max_def)

lemma wait_insert_keys [simp]: "fst ` set (wait_insert e ws) = insert (fst e) (fst ` set ws)"
proof (cases "map_of ws (fst e)")
  case None
  then show ?thesis by (simp add: wait_insert_def set_insort_key)
next
  case (Some t)
  then have "fst e \<in> fst ` set ws" by (metis map_of_eq_None_iff option.distinct(1))
  then show ?thesis using Some by (auto simp: wait_insert_def set_insort_key image_iff)
qed

lemma wait_insert_ok:
  assumes "sorted (map snd ws)" and "distinct (map fst ws)"
  shows "sorted (map snd (wait_insert e ws)) \<and> distinct (map fst (wait_insert e ws))"
proof -
  have dist: "distinct (map fst (insort_key snd e ys)) \<longleftrightarrow> fst e \<notin> fst ` set ys \<and> distinct (map fst ys)" for ys :: "('a \<times> int) list"
    by (induction ys) (auto simp: set_insort_key)
  have filt: "sorted (map snd (filter P ws))" "distinct (map fst (filter P ws))" for P
    using assms by (simp_all add: sorted_filter distinct_map_filter)
  show ?thesis using assms filt
    by (auto simp: wait_insert_def sorted_insort_key dist split: option.split)
qed

lemma add_ready_keys:
  "add_ready now ws q = (ws', q') \<Longrightarrow> \<not> wqDown q \<Longrightarrow>
     wqDirty q' \<union> fst ` set ws' = wqDirty q \<union> fst ` set ws"
proof (induction now ws q rule: add_ready.induct)
  case (2 now item readyAt ws q)
  then show ?case by (auto simp: wq.add_todo wq.add_down split: if_splits)
qed simp

lemma add_ready_base:
  "add_ready now ws q = (ws', q') \<Longrightarrow>
     (wq_ok q \<longrightarrow> wq_ok q') \<and> wqProcessing q' = wqProcessing q \<and> wqDown q' = wqDown q"
  by (induction now ws q rule: add_ready.induct)
    (auto simp: wq.add_ok wq.add_busy wq.add_down split: if_splits)

lemma add_ready_suffix: "add_ready now ws q = (ws', q') \<Longrightarrow> \<exists>us. ws = us @ ws'"
  by (induction now ws q rule: add_ready.induct) (auto split: if_splits intro: exI [of _ "_ # _"])

section \<open>The contract with delays\<close>

text \<open>
  A key queue with adds that take effect later: \<open>coming\<close> are the keys that are to be
  processed or waiting for their instant, and only \<open>Get\<close> takes one away.
\<close>

locale delayed_queue = key_queue add get fin ok todo busy down
  for add :: "'k \<Rightarrow> 'q \<Rightarrow> 'q" and get :: "'q \<Rightarrow> 'k got \<times> 'q" and fin :: "'k \<Rightarrow> 'q \<Rightarrow> 'q"
    and ok :: "'q \<Rightarrow> bool" and todo :: "'q \<Rightarrow> 'k set" and busy :: "'q \<Rightarrow> 'k set" and down :: "'q \<Rightarrow> bool" +
  fixes later :: "'k \<Rightarrow> int \<Rightarrow> int \<Rightarrow> 'q \<Rightarrow> 'q" and forget :: "'k \<Rightarrow> 'q \<Rightarrow> 'q"
    and fire :: "int \<Rightarrow> 'q \<Rightarrow> 'q" and receive :: "int \<Rightarrow> 'q \<Rightarrow> 'q" and coming :: "'q \<Rightarrow> 'k set"
  assumes coming: "todo q \<subseteq> coming q"
    and get_coming: "get q = (r, q') \<Longrightarrow> coming q' \<subseteq> coming q \<and> (\<forall>k \<in> coming q. r \<noteq> Got k \<longrightarrow> k \<in> coming q')"
    and fin_coming: "coming (fin k q) = coming q"
    and later_ok: "ok q \<Longrightarrow> ok (later k b now q)"
    and later_same: "busy (later k b now q) = busy q" "down (later k b now q) = down q" "todo (later k b now q) = todo q"
    and later_coming: "coming (later k b now q) = (if down q then coming q else insert k (coming q))"
    and forget_ok: "ok q \<Longrightarrow> ok (forget k q)"
    and forget_same: "busy (forget k q) = busy q" "down (forget k q) = down q" "todo (forget k q) = todo q"
      "coming (forget k q) = coming q"
    and fire_ok: "ok q \<Longrightarrow> ok (fire now q)"
    and fire_same: "busy (fire now q) = busy q" "down (fire now q) = down q" "coming (fire now q) = coming q"
      "todo q \<subseteq> todo (fire now q)"
    and receive_ok: "ok q \<Longrightarrow> ok (receive now q)"
    and receive_same: "busy (receive now q) = busy q" "down (receive now q) = down q"
      "coming (receive now q) = coming q" "todo q \<subseteq> todo (receive now q)"
begin

lemmas ok_ops = add_ok get_ok later_ok forget_ok fire_ok receive_ok
lemmas busy_ops = add_busy fin_busy later_same(1) forget_same(1) fire_same(1) receive_same(1)
lemmas down_ops = add_down fin_down later_same(2) forget_same(2) fire_same(2) receive_same(2)
lemmas coming_ops = fin_coming later_coming forget_same(4) fire_same(3) receive_same(3)

text \<open>A failed key is both done and coming again.\<close>

lemma retried: "\<not> down q \<Longrightarrow> k \<in> coming (fin k (later k b now q)) \<and> k \<notin> busy (fin k (later k b now q))"
  by (simp add: coming_ops busy_ops)

end

lemma loop_receive_same:
  "wqProcessing (rqBase (loop_receive now q)) = wqProcessing (rqBase q)"
  "wqDown (rqBase (loop_receive now q)) = wqDown (rqBase q)"
  "rq_todo (loop_receive now q) = rq_todo q"
  "wqDirty (rqBase q) \<subseteq> wqDirty (rqBase (loop_receive now q))"
  "rq_ok q \<Longrightarrow> rq_ok (loop_receive now q)"
  by (auto simp: loop_receive_def receive_def on_base_def rq_todo_def rq_ok_def wq_ShuttingDown_def Let_def
      wq.add_busy wq.add_down wq.add_todo wq.add_ok wait_insert_ok split: list.split)

lemma add_ready_grows: "add_ready now ws q = (ws', q') \<Longrightarrow> wqDirty q \<subseteq> wqDirty q'"
  by (induction now ws q rule: add_ready.induct) (auto simp: wq.add_todo split: if_splits)

lemma loop_ready_same:
  "wqProcessing (rqBase (loop_ready now q)) = wqProcessing (rqBase q)"
  "wqDown (rqBase (loop_ready now q)) = wqDown (rqBase q)"
  "rq_todo (loop_ready now q) = rq_todo q"
  "wqDirty (rqBase q) \<subseteq> wqDirty (rqBase (loop_ready now q))"
  "rq_ok q \<Longrightarrow> rq_ok (loop_ready now q)"
proof -
  obtain ws' q' where r: "add_ready now (rqWaiting q) (rqBase q) = (ws', q')" by (rule prod.exhaust)
  note base = add_ready_base [OF r]
  show "wqProcessing (rqBase (loop_ready now q)) = wqProcessing (rqBase q)"
    "wqDown (rqBase (loop_ready now q)) = wqDown (rqBase q)"
    using base by (simp_all add: loop_ready_def r)
  show "rq_todo (loop_ready now q) = rq_todo q"
    using add_ready_keys [OF r] by (auto simp: loop_ready_def r rq_todo_def wq_ShuttingDown_def)
  show "wqDirty (rqBase q) \<subseteq> wqDirty (rqBase (loop_ready now q))"
    using add_ready_grows [OF r] by (simp add: loop_ready_def r)
  show "rq_ok (loop_ready now q)" if "rq_ok q"
  proof -
    obtain us where "rqWaiting q = us @ ws'" using add_ready_suffix [OF r] by blast
    then have "rq_ok (q\<lparr>rqWaiting := ws', rqBase := q'\<rparr>)"
      using that base by (simp add: rq_ok_def sorted_append)
    then show ?thesis using that by (simp add: loop_ready_def r)
  qed
qed

lemma rq_GetE:
  assumes "rq_Get q = (r, q')"
  obtains b where "wq_Get (rqBase q) = (r, b)" and "q' = q\<lparr>rqBase := b\<rparr>"
proof (cases "wq_Get (rqBase q)")
  case (Pair r1 b)
  then have "r1 = r" "q' = q\<lparr>rqBase := b\<rparr>" using assms by (simp_all add: rq_Get_def)
  with that Pair show ?thesis by blast
qed

lemma wq_Get_dirty:
  assumes "wq_Get q = (r, b)"
  shows "wqDirty b \<subseteq> wqDirty q \<and> (\<forall>k \<in> wqDirty q. r \<noteq> Got k \<longrightarrow> k \<in> wqDirty b)"
proof (cases "wqQueue q")
  case Nil
  then have "b = q" using assms by (simp add: wq_Get_def)
  then show ?thesis by simp
next
  case (Cons k rest)
  then have "r = Got k \<and> wqDirty b = wqDirty q - {k}" using assms by (auto simp: wq_Get_def)
  then show ?thesis by auto
qed

interpretation rq: delayed_queue rq_Add rq_Get rq_Done rq_ok "\<lambda>q. wqDirty (rqBase q)" "\<lambda>q. wqProcessing (rqBase q)"
  "\<lambda>q. wqDown (rqBase q)" rq_AddRateLimited rq_Forget loop_ready loop_receive rq_todo
proof (unfold_locales, goal_cases)
  case (5 q)
  then show ?case using wq.get_ok [of "rqBase q"]
    by (cases "wq_Get (rqBase q)") (simp add: rq_ok_def rq_Get_def)
next
  case (6 q k q')
  from 6(2) obtain b where b: "wq_Get (rqBase q) = (Got k, b)" "q' = q\<lparr>rqBase := b\<rparr>" by (rule rq_GetE)
  with wq.get_Got [OF _ b(1)] 6(1) show ?case by (simp add: rq_ok_def)
next
  case (7 q r q')
  from 7(2) obtain b where b: "wq_Get (rqBase q) = (r, b)" "q' = q\<lparr>rqBase := b\<rparr>" by (rule rq_GetE)
  with wq.get_idle [OF _ b(1)] 7(1,3) show ?case by (simp add: rq_ok_def)
next
  case (13 q r q')
  from 13 obtain b where "wq_Get (rqBase q) = (r, b)" and "q' = q\<lparr>rqBase := b\<rparr>" by (rule rq_GetE)
  with wq_Get_dirty show ?case by (fastforce simp: rq_todo_def)
qed (simp_all add: loop_ready_same loop_receive_same, auto simp: rq_Add_def rq_Done_def rq_Forget_def on_base_def rq_ok_def rq_todo_def
    rq_AddRateLimited_eq Let_def wq.add_ok wq.add_todo wq.add_busy wq.add_down wq.fin_ok wq.fin_todo wq.fin_busy wq.fin_down)

section \<open>Properties\<close>

text \<open>
  The delay of a retry doubles with every failure: after \<open>n\<close> failures since the last
  \<open>Forget\<close> a key waits \<open>5 ms * 2 ^ n\<close>, never more than 1000 s, and longer only when the
  token bucket asks for it; the failure is counted, and a forgotten key starts over.
\<close>

lemma retry_delay:
  "default_When bucket k fs =
     (max (min (5000000 * 2 ^ failure_count k fs) 1000000000000) bucket, fs(k \<mapsto> failure_count k fs + 1)) \<and>
   failure_count k (item_Forget k fs) = 0 \<and>
   (18 \<le> failure_count k fs \<longleftrightarrow> fst (item_When baseDelay maxDelay k fs) = 1000000000000)"
proof -
  let ?n = "failure_count k fs"
  have "18 \<le> ?n \<longleftrightarrow> 1000000000000 \<le> (5000000 * 2 ^ ?n :: int)"
  proof
    assume "18 \<le> ?n"
    then have "(2 :: int) ^ 18 \<le> 2 ^ ?n" by (rule power_increasing) simp
    then show "1000000000000 \<le> (5000000 * 2 ^ ?n :: int)" by simp
  next
    assume le: "1000000000000 \<le> (5000000 * 2 ^ ?n :: int)"
    show "18 \<le> ?n"
    proof (rule ccontr)
      assume "\<not> 18 \<le> ?n"
      then have "(2 :: int) ^ ?n \<le> 2 ^ 17" by (intro power_increasing) auto
      with le show False by simp
    qed
  qed
  moreover have "fst (item_When baseDelay maxDelay k fs) = min (5000000 * 2 ^ ?n) 1000000000000"
    unfolding item_When_default by (simp add: baseDelay_def maxDelay_def)
  moreover have "failure_count k (item_Forget k fs) = 0" by (simp add: failure_count_def item_Forget_def)
  ultimately show ?thesis unfolding default_When_eq by (auto simp: baseDelay_def maxDelay_def min_def)
qed

text \<open>
  A key waits once: inserting an entry for a key that waits already keeps the earlier of the
  two instants, other keys keep theirs, and the list stays sorted with one entry a key, so
  the loop never has to look past its head.
\<close>

lemma waits_once:
  assumes "sorted (map snd ws)" and "distinct (map fst ws)"
  shows "sorted (map snd (wait_insert (k, t) ws)) \<and> distinct (map fst (wait_insert (k, t) ws)) \<and>
     map_of (wait_insert (k, t) ws) k = Some (case map_of ws k of None \<Rightarrow> t | Some t0 \<Rightarrow> min t t0) \<and>
     (j \<noteq> k \<longrightarrow> map_of (wait_insert (k, t) ws) j = map_of ws j)"
proof -
  note ok = wait_insert_ok [OF assms, of "(k, t)"]
  have mem: "(x, u) \<in> set (wait_insert (k, t) ws) \<longleftrightarrow>
      (if x = k then u = (case map_of ws k of None \<Rightarrow> t | Some t0 \<Rightarrow> min t t0) else (x, u) \<in> set ws)" for x u
  proof (cases "map_of ws k")
    case None
    then have "(k, u) \<notin> set ws" for u by (metis map_of_eq_None_iff fst_conv image_eqI)
    then show ?thesis using None by (auto simp: wait_insert_def set_insort_key)
  next
    case (Some t0)
    then have "(k, u) \<in> set ws \<longleftrightarrow> u = t0" for u
      using assms(2) by (metis map_of_eq_Some_iff option.inject)
    then show ?thesis using Some by (auto simp: wait_insert_def set_insort_key min_def)
  qed
  have eq: "map_of (wait_insert (k, t) ws) x = Some u \<longleftrightarrow> (x, u) \<in> set (wait_insert (k, t) ws)" for x u
    using ok by (simp add: map_of_eq_Some_iff)
  have "map_of (wait_insert (k, t) ws) k = Some (case map_of ws k of None \<Rightarrow> t | Some t0 \<Rightarrow> min t t0)"
    unfolding eq by (simp add: mem)
  moreover have "map_of (wait_insert (k, t) ws) j = map_of ws j" if "j \<noteq> k"
  proof -
    have "map_of (wait_insert (k, t) ws) j = Some u \<longleftrightarrow> map_of ws j = Some u" for u
      using that assms(2) unfolding eq by (simp add: mem map_of_eq_Some_iff)
    then show ?thesis by (metis option.exhaust)
  qed
  ultimately show ?thesis using ok by blast
qed

end
