(* ===== verification/Workers.thy ===== *)
theory Workers
  imports RateQueue
begin

text \<open>
  The goroutines around the work queue: event handlers that add keys, the waiting loop, and
  the workers that \<open>Run\<close> starts, each of which goes through \<open>processNextWorkItem\<close> again and
  again. A step is one call of a queue operation; every interleaving of the goroutines is a
  run. What \<open>syncHandler\<close> does between two calls is not looked at here, only whether it
  succeeded.
\<close>

section \<open>States and steps\<close>

datatype 'k phase = Idle | Syncing 'k | Finishing 'k

record 'k pool =
  plQueue :: "'k rate_queue"
  plWorker :: "nat \<Rightarrow> 'k phase"

datatype 'k event =
    Enqueue 'k            \<comment> \<open>\<open>enqueueStaticEgressIP\<close> in an event handler\<close>
  | Timer | Receive       \<comment> \<open>the waiting loop\<close>
  | Take nat 'k           \<comment> \<open>\<open>Get\<close> by a worker\<close>
  | Synced nat 'k         \<comment> \<open>\<open>Forget\<close> after the sync\<close>
  | Failed nat 'k         \<comment> \<open>\<open>AddRateLimited\<close> after the sync\<close>
  | Release nat 'k        \<comment> \<open>the deferred \<open>Done\<close>\<close>
  | Stop                  \<comment> \<open>the deferred \<open>ShutDown\<close> of \<open>Run\<close>\<close>

definition pool_init :: "'k pool" where
  "pool_init = \<lparr>plQueue = rq_New, plWorker = (\<lambda>_. Idle)\<rparr>"

inductive pool_step :: "'k event \<Rightarrow> 'k pool \<Rightarrow> 'k pool \<Rightarrow> bool" where
  enqueue: "pool_step (Enqueue k) s (s\<lparr>plQueue := rq_AddRateLimited k bucket now (plQueue s)\<rparr>)"
| timer: "pool_step Timer s (s\<lparr>plQueue := loop_ready now (plQueue s)\<rparr>)"
| receive: "pool_step Receive s (s\<lparr>plQueue := loop_receive now (plQueue s)\<rparr>)"
| take: "plWorker s w = Idle \<Longrightarrow> rq_Get (plQueue s) = (Got k, q) \<Longrightarrow>
     pool_step (Take w k) s (s\<lparr>plQueue := q, plWorker := (plWorker s)(w := Syncing k)\<rparr>)"
| synced: "plWorker s w = Syncing k \<Longrightarrow>
     pool_step (Synced w k) s
       (s\<lparr>plQueue := rq_Forget k (plQueue s), plWorker := (plWorker s)(w := Finishing k)\<rparr>)"
| failed: "plWorker s w = Syncing k \<Longrightarrow>
     pool_step (Failed w k) s
       (s\<lparr>plQueue := rq_AddRateLimited k bucket now (plQueue s), plWorker := (plWorker s)(w := Finishing k)\<rparr>)"
| release: "plWorker s w = Finishing k \<Longrightarrow>
     pool_step (Release w k) s (s\<lparr>plQueue := rq_Done k (plQueue s), plWorker := (plWorker s)(w := Idle)\<rparr>)"
| stop: "pool_step Stop s (s\<lparr>plQueue := rq_ShutDown (plQueue s)\<rparr>)"

inductive pool_run :: "'k event list \<Rightarrow> 'k pool \<Rightarrow> 'k pool \<Rightarrow> bool" where
  run_nil: "pool_run [] s s"
| run_cons: "pool_step e s s1 \<Longrightarrow> pool_run es s1 s2 \<Longrightarrow> pool_run (e # es) s s2"

inductive_cases pool_stepE: "pool_step e s s'"
inductive_cases enqueueE: "pool_step (Enqueue k) s s'"
inductive_simps pool_run_simps [simp]: "pool_run [] s s'" "pool_run (e # es) s s'"

definition holds :: "'k pool \<Rightarrow> nat \<Rightarrow> 'k \<Rightarrow> bool" where
  "holds s w k \<longleftrightarrow> plWorker s w = Syncing k \<or> plWorker s w = Finishing k"

abbreviation in_progress :: "'k pool \<Rightarrow> 'k set" where
  "in_progress s \<equiv> wqProcessing (rqBase (plQueue s))"

abbreviation pl_down :: "'k pool \<Rightarrow> bool" where
  "pl_down s \<equiv> wqDown (rqBase (plQueue s))"

abbreviation pl_todo :: "'k pool \<Rightarrow> 'k set" where
  "pl_todo s \<equiv> wqDirty (rqBase (plQueue s))"

definition pool_ok :: "'k pool \<Rightarrow> bool" where
  "pool_ok s \<longleftrightarrow> rq_ok (plQueue s) \<and> (\<forall>k. k \<in> in_progress s \<longleftrightarrow> (\<exists>w. holds s w k)) \<and>
     (\<forall>w w' k. holds s w k \<longrightarrow> holds s w' k \<longrightarrow> w = w') \<and> finite (pl_todo s)"

section \<open>The invariant\<close>

lemma pool_run_append: "pool_run (es @ es') s s' \<longleftrightarrow> (\<exists>s1. pool_run es s s1 \<and> pool_run es' s1 s')"
  by (induction es arbitrary: s) auto

lemma pool_init_ok: "pool_ok pool_init"
  by (simp add: pool_ok_def pool_init_def holds_def rq_New_def rq_ok_def wq_ok_def wq_New_def)

lemma holds_upd:
  "holds (s\<lparr>plQueue := q, plWorker := (plWorker s)(w := ph)\<rparr>) w' k \<longleftrightarrow>
     (if w' = w then ph = Syncing k \<or> ph = Finishing k else holds s w' k)"
  "holds (s\<lparr>plQueue := q\<rparr>) w' k \<longleftrightarrow> holds s w' k"
  by (auto simp: holds_def)

lemma rq_ShutDown_same:
  "wqDirty (rqBase (rq_ShutDown q)) = wqDirty (rqBase q)"
  "wqProcessing (rqBase (rq_ShutDown q)) = wqProcessing (rqBase q)"
  "wqDown (rqBase (rq_ShutDown q))" "rq_todo (rq_ShutDown q) = rq_todo q"
  "rq_ok (rq_ShutDown q) = rq_ok q"
  by (simp_all add: rq_ShutDown_def on_base_def wq_ShutDown_def rq_todo_def rq_ok_def wq_ok_def)

lemma finite_loops:
  assumes "finite (wqDirty (rqBase q))"
  shows "finite (wqDirty (rqBase (loop_ready now q)))" and "finite (wqDirty (rqBase (loop_receive now q)))"
proof -
  have "finite (wqDirty b) \<Longrightarrow> add_ready now ws b = (ws', b') \<Longrightarrow> finite (wqDirty b')" for ws ws' b b'
    by (induction now ws b rule: add_ready.induct) (auto simp: wq.add_todo split: if_splits)
  then show "finite (wqDirty (rqBase (loop_ready now q)))"
    using assms by (auto simp: loop_ready_def split: prod.split)
  show "finite (wqDirty (rqBase (loop_receive now q)))"
    using assms by (auto simp: loop_receive_def receive_def on_base_def wq.add_todo Let_def split: list.split)
qed

lemma holds_finishing:
  "plWorker s w = Syncing k \<Longrightarrow> holds (s\<lparr>plQueue := q, plWorker := (plWorker s)(w := Finishing k)\<rparr>) = holds s"
  by (auto simp: fun_eq_iff holds_def)

lemma pool_ok_queue:
  assumes "pool_ok s" and "holds s' = holds s" and "rq_ok (plQueue s')"
    and "in_progress s' = in_progress s" and "finite (pl_todo s')"
  shows "pool_ok s'"
  using assms by (simp add: pool_ok_def)

lemma pool_step_ok:
  assumes "pool_step e s s'" and ok: "pool_ok s"
  shows "pool_ok s'"
  using assms(1)
proof cases
  case (take w k q)
  have rq: "rq_ok (plQueue s)" using ok by (simp add: pool_ok_def)
  note g = rq.get_Got [OF rq take(4)]
  have "rq_ok q" using rq.get_ok [OF rq] take(4) by simp
  moreover have "\<not> holds s w' k" for w' using g ok unfolding pool_ok_def by blast
  moreover have "\<not> holds s w j" for j using take(3) by (simp add: holds_def)
  ultimately show ?thesis using g ok unfolding take(2) pool_ok_def by (auto simp: holds_upd) metis+
next
  case (release w k)
  have h: "holds s w k" using release(3) by (simp add: holds_def)
  have "rq_ok (rq_Done k (plQueue s))" using ok h by (auto simp: pool_ok_def intro: rq.fin_ok)
  moreover have "holds s w j \<longleftrightarrow> j = k" for j using release(3) by (auto simp: holds_def)
  ultimately show ?thesis using ok unfolding release(2) pool_ok_def
    by (simp add: holds_upd rq.busy_ops rq.fin_todo) (metis h)
qed (simp only:, rule pool_ok_queue [OF ok],
      use ok in \<open>simp_all add: pool_ok_def holds_finishing rq.ok_ops rq.busy_ops rq.later_same rq.forget_same
        finite_loops rq_ShutDown_same\<close>, simp_all add: holds_def fun_eq_iff)

lemma pool_run_ok: "pool_run es s s' \<Longrightarrow> pool_ok s \<Longrightarrow> pool_ok s'"
  by (induction rule: pool_run.induct) (auto intro: pool_step_ok)

lemmas reachable_ok = pool_run_ok [OF _ pool_init_ok]

text \<open>What a step does to the keys that are coming.\<close>

lemma pool_step_coming:
  assumes "pool_step e s s'" and "k \<in> rq_todo (plQueue s)" and "\<And>w. e \<noteq> Take w k"
  shows "k \<in> rq_todo (plQueue s')"
  using assms(1)
proof cases
  case (take w j q)
  then have "j \<noteq> k" using assms(3) by blast
  then show ?thesis using rq.get_coming [OF take(4)] assms(2) take(2) by auto
qed (use assms(2) in \<open>auto simp: rq.coming_ops rq_ShutDown_same\<close>)

lemma pool_run_coming:
  "pool_run es s s' \<Longrightarrow> k \<in> rq_todo (plQueue s) \<Longrightarrow> (\<And>w. Take w k \<notin> set es) \<Longrightarrow> k \<in> rq_todo (plQueue s')"
proof (induction rule: pool_run.induct)
  case (run_cons e s s1 es s2)
  have "k \<in> rq_todo (plQueue s1)" by (rule pool_step_coming [OF run_cons(1,4)]) (use run_cons(5) in auto)
  then show ?case using run_cons(3,5) by auto
qed simp

section \<open>Serving a key\<close>

text \<open>Runs of the waiting loop and the workers alone: nothing is enqueued, nothing is stopped.\<close>

definition internal :: "'k event \<Rightarrow> bool" where
  "internal e \<longleftrightarrow> (case e of Enqueue k \<Rightarrow> False | Stop \<Rightarrow> False | _ \<Rightarrow> True)"

lemma internal_simps [simp]:
  "internal Timer" "internal Receive" "internal (Take w k)" "internal (Synced w k)" "internal (Release w k)"
  "internal (Failed w k)" "\<not> internal (Enqueue k)" "\<not> internal Stop"
  by (simp_all add: internal_def)

definition evolves :: "'k pool \<Rightarrow> 'k pool \<Rightarrow> bool" where
  "evolves s s' \<longleftrightarrow> (\<exists>es. pool_run es s s' \<and> list_all internal es)"

lemma evolves_refl: "evolves s s"
  unfolding evolves_def by (rule exI [of _ "[]"]) simp

lemma evolves_step: "pool_step e s s' \<Longrightarrow> internal e \<Longrightarrow> evolves s s'"
  unfolding evolves_def by (rule exI [of _ "[e]"]) simp

lemma evolves_trans: "evolves s s1 \<Longrightarrow> evolves s1 s2 \<Longrightarrow> evolves s s2"
  unfolding evolves_def by (metis list_all_append pool_run_append)

lemma evolves_ok: "evolves s s' \<Longrightarrow> pool_ok s \<Longrightarrow> pool_ok s'"
  unfolding evolves_def using pool_run_ok by blast

definition pl_queue :: "'k pool \<Rightarrow> 'k list" where
  "pl_queue s = wqQueue (rqBase (plQueue s))"

lemma queued_iff: "pool_ok s \<Longrightarrow> k \<in> set (pl_queue s) \<longleftrightarrow> k \<in> pl_todo s \<and> k \<notin> in_progress s"
  by (simp add: pool_ok_def rq_ok_def wq_ok_def pl_queue_def)

text \<open>A worker can always come to the end of its item.\<close>

definition released :: "nat \<Rightarrow> 'k pool \<Rightarrow> 'k pool \<Rightarrow> bool" where
  "released w s s' \<longleftrightarrow> evolves s s' \<and> plWorker s' w = Idle \<and> prefix (pl_queue s) (pl_queue s') \<and>
     pl_todo s' = pl_todo s \<and> (\<forall>w' j. holds s' w' j \<longleftrightarrow> w' \<noteq> w \<and> holds s w' j)"

lemma released_finishing:
  assumes "plWorker s w = Finishing k"
  shows "released w s (s\<lparr>plQueue := rq_Done k (plQueue s), plWorker := (plWorker s)(w := Idle)\<rparr>)"
  using evolves_step [OF pool_step.release [OF assms]]
  by (auto simp: released_def pl_queue_def rq_Done_def on_base_def wq_Done_def Let_def holds_def)

lemma worker_released: "\<exists>s'. released w s s'"
proof (cases "plWorker s w")
  case Idle
  then show ?thesis using evolves_refl by (auto simp: released_def holds_def intro!: exI [of _ s])
next
  case (Finishing k)
  then show ?thesis by (intro exI) (rule released_finishing)
next
  case (Syncing k)
  let ?r = "s\<lparr>plQueue := rq_Forget k (plQueue s), plWorker := (plWorker s)(w := Finishing k)\<rparr>"
  have "evolves s ?r" by (rule evolves_step [OF pool_step.synced [OF Syncing]]) simp
  moreover have "pl_queue ?r = pl_queue s" "pl_todo ?r = pl_todo s" "holds ?r = holds s"
    using Syncing by (simp_all add: pl_queue_def rq_Forget_def holds_finishing)
  moreover obtain s' where "released w ?r s'" using released_finishing [of ?r w k] by auto
  ultimately have "released w s s'"
    using evolves_trans [of s ?r s'] by (simp only: released_def) blast
  then show ?thesis by blast
qed

text \<open>The key at a place of the queue is taken after as many takes.\<close>

lemma queued_taken:
  assumes "pool_ok s" and "i < length (pl_queue s)" and "pl_queue s ! i = k"
  shows "\<exists>s1 s2 w. evolves s s1 \<and> pool_step (Take w k) s1 s2"
  using assms
proof (induction i arbitrary: s)
  case (0 s)
  obtain s1 ks where s1: "evolves s s1" "plWorker s1 0 = Idle" "pl_queue s1 = pl_queue s @ ks"
    using worker_released [of 0 s] by (auto simp: released_def prefix_def)
  then obtain rest where "pl_queue s1 = k # rest" using 0 by (cases "pl_queue s") auto
  then obtain q where "rq_Get (plQueue s1) = (Got k, q)"
    by (auto simp: rq_Get_def wq_Get_def pl_queue_def)
  with s1 pool_step.take [of s1 0 k q] show ?case by blast
next
  case (Suc i s)
  obtain s1 ks where s1: "evolves s s1" "plWorker s1 0 = Idle" "pl_queue s1 = pl_queue s @ ks"
    using worker_released [of 0 s] by (auto simp: released_def prefix_def)
  then obtain j rest where j: "pl_queue s1 = j # rest @ ks" "pl_queue s = j # rest"
    using Suc.prems by (cases "pl_queue s") auto
  then obtain q where q: "rq_Get (plQueue s1) = (Got j, q)" "wqQueue (rqBase q) = rest @ ks"
    by (auto simp: rq_Get_def wq_Get_def pl_queue_def)
  let ?s2 = "s1\<lparr>plQueue := q, plWorker := (plWorker s1)(0 := Syncing j)\<rparr>"
  have ev: "evolves s ?s2"
    using evolves_trans [OF s1(1) evolves_step [OF pool_step.take [OF s1(2) q(1)]]] by simp
  have "pl_queue ?s2 = rest @ ks" using q(2) by (simp add: pl_queue_def)
  then have "i < length (pl_queue ?s2)" "pl_queue ?s2 ! i = k"
    using Suc.prems(2,3) j(2) by (simp_all add: nth_append)
  from Suc.IH [OF evolves_ok [OF ev Suc.prems(1)] this] ev show ?case using evolves_trans by blast
qed

text \<open>The waiting loop brings every key that is coming into the queue or next to its worker.\<close>

lemma channel_emptied:
  assumes "\<not> pl_down s"
  shows "\<exists>s'. evolves s s' \<and> rqChan (plQueue s') = [] \<and> rq_todo (plQueue s') = rq_todo (plQueue s) \<and> \<not> pl_down s'"
  using assms
proof (induction "rqChan (plQueue s)" arbitrary: s)
  case Nil
  then show ?case using evolves_refl by fastforce
next
  case (Cons e es s)
  let ?s1 = "s\<lparr>plQueue := loop_receive 0 (plQueue s)\<rparr>"
  have "rqChan (plQueue ?s1) = es" using Cons.hyps(2) [symmetric] Cons.prems
    by (simp add: loop_receive_def receive_def wq_ShuttingDown_def on_base_def Let_def)
  moreover have "\<not> pl_down ?s1" "rq_todo (plQueue ?s1) = rq_todo (plQueue s)"
    using Cons.prems by (simp_all add: loop_receive_same)
  moreover have "evolves s ?s1" by (rule evolves_step [OF pool_step.receive]) simp
  ultimately show ?case using Cons.hyps(1) [of ?s1] evolves_trans by fastforce
qed

lemma add_ready_all: "\<forall>e \<in> set ws. snd e \<le> now \<Longrightarrow> fst (add_ready now ws q) = []"
  by (induction now ws q rule: add_ready.induct) auto

lemma all_dirty:
  assumes "\<not> pl_down s"
  shows "\<exists>s'. evolves s s' \<and> pl_todo s' = rq_todo (plQueue s)"
proof -
  obtain s1 where s1: "evolves s s1" "rqChan (plQueue s1) = []" "rq_todo (plQueue s1) = rq_todo (plQueue s)" "\<not> pl_down s1"
    using channel_emptied [OF assms] by blast
  let ?now = "Max (snd ` set (rqWaiting (plQueue s1)))"
  let ?s2 = "s1\<lparr>plQueue := loop_ready ?now (plQueue s1)\<rparr>"
  obtain ws q where r: "add_ready ?now (rqWaiting (plQueue s1)) (rqBase (plQueue s1)) = (ws, q)" by (rule prod.exhaust)
  have "fst (add_ready ?now (rqWaiting (plQueue s1)) (rqBase (plQueue s1))) = []"
    by (intro add_ready_all ballI Max_ge) simp_all
  then have "rqWaiting (plQueue ?s2) = []" "rqChan (plQueue ?s2) = []"
    using s1(2,4) r by (simp_all add: loop_ready_def wq_ShuttingDown_def)
  then have "pl_todo ?s2 = rq_todo (plQueue ?s2)" by (simp add: rq_todo_def)
  then have "pl_todo ?s2 = rq_todo (plQueue s)" using s1(3) loop_ready_same(3) [of ?now "plQueue s1"] by simp
  moreover have "evolves s1 ?s2" by (rule evolves_step [OF pool_step.timer]) simp
  ultimately show ?thesis using evolves_trans [OF s1(1)] by blast
qed

lemma dirty_taken:
  assumes ok: "pool_ok s" and "k \<in> pl_todo s"
  shows "\<exists>s1 s2 w. evolves s s1 \<and> pool_step (Take w k) s1 s2"
proof -
  have "\<exists>s'. evolves s s' \<and> k \<in> set (pl_queue s')"
  proof (cases "k \<in> in_progress s")
    case False
    then show ?thesis using assms evolves_refl by (metis queued_iff)
  next
    case True
    then obtain w where w: "holds s w k" using ok by (auto simp: pool_ok_def)
    obtain s1 where s1: "released w s s1" using worker_released by blast
    have ok1: "pool_ok s1" using s1 evolves_ok [OF _ ok] by (simp add: released_def)
    have "k \<notin> in_progress s1" using s1 ok1 ok w unfolding released_def pool_ok_def by metis
    then have "k \<in> set (pl_queue s1)" using queued_iff [OF ok1] s1 assms(2) by (simp add: released_def)
    then show ?thesis using s1 by (auto simp: released_def)
  qed
  then obtain s' where "evolves s s'" "k \<in> set (pl_queue s')" by blast
  then show ?thesis using queued_taken [OF evolves_ok [OF _ ok]] evolves_trans by (metis in_set_conv_nth)
qed

section \<open>Properties\<close>

text \<open>A short run: a key is enqueued, received after its delay and taken by worker 0.\<close>

definition ref_taken :: "nat pool" where
  "ref_taken = \<lparr>plQueue = \<lparr>rqBase = \<lparr>wqQueue = [], wqDirty = {}, wqProcessing = {7}, wqDown = False\<rparr>, rqChan = [],
     rqWaiting = [], rqFailures = [7 \<mapsto> 1]\<rparr>, plWorker = (\<lambda>_. Idle)(0 := Syncing 7)\<rparr>"

definition ref_received :: "nat pool" where
  "ref_received = \<lparr>plQueue = \<lparr>rqBase = \<lparr>wqQueue = [7], wqDirty = {7}, wqProcessing = {}, wqDown = False\<rparr>, rqChan = [],
     rqWaiting = [], rqFailures = [7 \<mapsto> 1]\<rparr>, plWorker = (\<lambda>_. Idle)\<rparr>"

definition ref_enqueued :: "nat pool" where
  "ref_enqueued = \<lparr>plQueue = \<lparr>rqBase = wq_New, rqChan = [(7, baseDelay)],
     rqWaiting = [], rqFailures = [7 \<mapsto> 1]\<rparr>, plWorker = (\<lambda>_. Idle)\<rparr>"

lemma ref_enqueue: "pool_step (Enqueue 7) pool_init ref_enqueued"
  using enqueue [of 7 pool_init 0 0]
  by (simp add: pool_init_def ref_enqueued_def rq_AddRateLimited_eq rq_New_def wq_New_def Let_def failure_count_def
      baseDelay_def maxDelay_def)

lemma ref_receive: "pool_step Receive ref_enqueued ref_received"
  using receive [of ref_enqueued baseDelay]
  by (simp add: ref_enqueued_def ref_received_def loop_receive_def receive_def wq_ShuttingDown_def wq_New_def
      on_base_def wq_Add_def Let_def)

lemma ref_take: "pool_step (Take 0 7) ref_received ref_taken"
  using take [of ref_received 0 7] by (simp add: ref_received_def ref_taken_def rq_Get_def wq_Get_def)

lemma ref_run: "pool_run [Enqueue 7, Receive, Take 0 7] pool_init ref_taken"
  using ref_enqueue ref_receive ref_take by auto

text \<open>
  C16 (workers_exclusive). In every state that the goroutines can reach, no two workers hold the same key, a key
  that a worker holds is not in the queue, and the queue has no key twice: one
  StaticEgressIP is never synced by two workers at a time, however many workers there are.
\<close>

theorem workers_exclusive:
  assumes "pool_run es pool_init s"
  shows "(\<forall>w w' k. holds s w k \<longrightarrow> holds s w' k \<longrightarrow> w = w') \<and>
     (\<forall>w k. holds s w k \<longrightarrow> k \<notin> set (pl_queue s)) \<and> distinct (pl_queue s)"
proof -
  have ok: "pool_ok s" by (rule reachable_ok [OF assms])
  moreover have "distinct (pl_queue s)" using ok by (simp add: pool_ok_def rq_ok_def wq_ok_def pl_queue_def)
  ultimately show ?thesis unfolding queued_iff [OF ok] unfolding pool_ok_def by blast
qed

theorem workers_exclusive_witness:
  "holds ref_taken 0 7 \<and> \<not> holds ref_taken 1 7 \<and> 7 \<notin> set (pl_queue ref_taken) \<and> distinct (pl_queue ref_taken)"
proof -
  have "holds ref_taken 0 7" by (simp add: holds_def ref_taken_def)
  then show ?thesis using workers_exclusive [OF ref_run] by (metis zero_neq_one)
qed

text \<open>
  C17 (update_not_lost). An event is never lost: once a handler has enqueued a key on a queue that is not
  shutting down, the key is coming until some worker takes it after the event, whatever
  the goroutines do in between, also when a worker was just processing the same key.
\<close>

theorem update_not_lost:
  assumes "\<not> pl_down s" and "pool_step (Enqueue k) s s1" and "pool_run es s1 s2" and "k \<notin> rq_todo (plQueue s2)"
  shows "\<exists>w. Take w k \<in> set es"
proof -
  have "k \<in> rq_todo (plQueue s1)" using assms(1,2) by (auto elim!: enqueueE simp: rq.later_coming)
  then show ?thesis using pool_run_coming [OF assms(3)] assms(4) by blast
qed

theorem update_not_lost_witness: "\<exists>w. Take w (7::nat) \<in> set [Receive, Take 0 7]"
  by (rule update_not_lost [of pool_init 7 ref_enqueued _ ref_taken])
    (use ref_enqueue ref_receive ref_take in \<open>auto simp: pool_init_def rq_New_def wq_New_def ref_taken_def rq_todo_def\<close>)

text \<open>
  C19 (update_served). No key can get stuck: from every reachable state that is not shutting down, the
  waiting loop and the workers alone can go on so that a key that is coming is taken.
\<close>

theorem update_served:
  assumes "pool_run es pool_init s" and "\<not> pl_down s" and "k \<in> rq_todo (plQueue s)"
  shows "\<exists>es' s' w. pool_run (es' @ [Take w k]) s s' \<and> list_all internal es'"
proof -
  obtain s1 where s1: "evolves s s1" "pl_todo s1 = rq_todo (plQueue s)" using all_dirty [OF assms(2)] by blast
  have "pool_ok s1" by (rule evolves_ok [OF s1(1) reachable_ok [OF assms(1)]])
  moreover have "k \<in> pl_todo s1" using s1(2) assms(3) by simp
  ultimately obtain s2 s3 w where s2: "evolves s1 s2" and s3: "pool_step (Take w k) s2 s3"
    by (blast dest: dirty_taken)
  obtain es' where "pool_run es' s s2" "list_all internal es'"
    using evolves_trans [OF s1(1) s2] unfolding evolves_def by blast
  then have "pool_run (es' @ [Take w k]) s s3" using s3 by (auto simp: pool_run_append)
  with \<open>list_all internal es'\<close> show ?thesis by blast
qed

theorem update_served_witness:
  "\<exists>es' s' w. pool_run (es' @ [Take w 7]) ref_enqueued s' \<and> list_all internal es'"
proof (rule update_served)
  show "pool_run [Enqueue 7] pool_init ref_enqueued" using ref_enqueue by simp
qed (simp_all add: ref_enqueued_def rq_todo_def wq_New_def)

definition is_take :: "'k event \<Rightarrow> bool" where
  "is_take e \<longleftrightarrow> (case e of Take w k \<Rightarrow> True | _ \<Rightarrow> False)"

lemma down_step:
  assumes "pool_step e s s'" and "pl_down s" and "finite (pl_todo s)" and "pool_ok s"
  shows "pl_down s' \<and> finite (pl_todo s') \<and> card (pl_todo s) = (if is_take e then 1 else 0) + card (pl_todo s')"
  using assms(1)
proof cases
  case (take w k q)
  have rq: "rq_ok (plQueue s)" using assms(4) by (simp add: pool_ok_def)
  note g = rq.get_Got [OF rq take(4)]
  then have "0 < card (pl_todo s)" using assms(3) card_gt_0_iff by blast
  then show ?thesis using g assms(2,3) take(1,2) by (simp add: is_take_def)
qed (use assms(2,3) in \<open>auto simp: is_take_def rq.down_ops rq.later_same rq.forget_same rq.fin_todo rq_ShutDown_same
      loop_ready_def loop_receive_def wq_ShuttingDown_def\<close>)

text \<open>
  After the queue began to shut down, the workers take exactly the keys that were dirty
  by then, each once, and not more: retries and events that come later are dropped, so the
  number of takes that are still possible is bounded.
\<close>

lemma shutdown_drains:
  assumes "pool_run es pool_init s" and "pl_down s" and "pool_run es' s s'"
  shows "length (filter is_take es') + card (pl_todo s') = card (pl_todo s)"
proof -
  have "pool_run es' s s' \<Longrightarrow> pool_ok s \<Longrightarrow> pl_down s \<Longrightarrow>
      length (filter is_take es') + card (pl_todo s') = card (pl_todo s)" for es' and s s' :: "'a pool"
  proof (induction rule: pool_run.induct)
    case (run_cons e s s1 es s2)
    have "finite (pl_todo s)" using run_cons.prems by (simp add: pool_ok_def)
    note d = down_step [OF run_cons.hyps(1) run_cons.prems(2) this run_cons.prems(1)]
    show ?case using d run_cons.IH pool_step_ok [OF run_cons.hyps(1) run_cons.prems(1)] by auto
  qed simp
  with assms reachable_ok show ?thesis by blast
qed

text \<open>The queue is stopped while the key waits in it; the worker still takes it.\<close>

lemma shutdown_drains_witness:
  "\<exists>s'. pool_run [Take 0 7] (ref_received\<lparr>plQueue := rq_ShutDown (plQueue ref_received)\<rparr>) s' \<and>
     length (filter is_take [Take 0 (7::nat)]) + card (pl_todo s') = 1"
proof -
  let ?s = "ref_received\<lparr>plQueue := rq_ShutDown (plQueue ref_received)\<rparr>"
  have "pool_run [Enqueue 7, Receive, Stop] pool_init ?s"
    using ref_enqueue ref_receive stop [of ref_received] by auto
  moreover have "pl_down ?s" by (simp add: rq_ShutDown_same)
  moreover obtain q where "rq_Get (plQueue ?s) = (Got 7, q)"
    by (simp add: rq_Get_def wq_Get_def rq_ShutDown_def on_base_def wq_ShutDown_def ref_received_def)
  then obtain s' where t: "pool_step (Take 0 7) ?s s'"
    using take [of ?s 0 7 q] by (auto simp: ref_received_def)
  then have "pool_run [Take 0 7] ?s s'" by simp
  ultimately have "length (filter is_take [Take 0 (7::nat)]) + card (pl_todo s') = card (pl_todo ?s)"
    by (rule shutdown_drains)
  moreover have "card (pl_todo ?s) = 1" by (simp add: rq_ShutDown_same ref_received_def)
  ultimately show ?thesis using t by auto
qed

end
