(* ===== verification/Controller.thy ===== *)
theory Controller
  imports OpFrames GoHash Workers
begin

text \<open>
  \<open>pkg/controller/controller.go\<close>: the agent on every node. Event handlers of the informer put
  keys on the work queue, workers take them and bring the node into the role that the
  status of the resource assigns to it. The caches of the informers are functions of the
  world, so they may change whenever the world does.
\<close>

section \<open>Keys\<close>

text \<open>\<open>cache.MetaNamespaceKeyFunc\<close> for an object that has metadata, and its inverse.\<close>

definition MetaNamespaceKeyFunc :: "static_egress_ip \<Rightarrow> string" where
  "MetaNamespaceKeyFunc sip =
     (if sNamespace sip \<noteq> [] then sNamespace sip @ ''/'' @ sName sip else sName sip)"

definition SplitMetaNamespaceKey :: "string \<Rightarrow> (string \<times> string) option" where
  "SplitMetaNamespaceKey key =
     (case split_on CHR ''/'' key of
        [n] \<Rightarrow> Some ([], n)
      | [ns, n] \<Rightarrow> Some (ns, n)
      | _ \<Rightarrow> None)"

section \<open>The controller\<close>

record 'w controller =
  egressIndexer :: "'w \<Rightarrow> string \<Rightarrow> static_egress_ip option"
  endpointsIndexer :: "'w \<Rightarrow> string \<Rightarrow> endpoints option"
  trafficDirector :: "egress_director option"
  trafficGateway :: "egress_gateway option"
  ctlNodeIP :: string

text \<open>The listers: a miss in the indexer is a not-found error.\<close>

definition egressLister_Get :: "'w controller \<Rightarrow> string \<Rightarrow> string \<Rightarrow> ('w proc, static_egress_ip) prog" where
  "egressLister_Get c namespace nm =
     askE (\<lambda>w. case egressIndexer c w (namespace @ ''/'' @ nm) of None \<Rightarrow> Inl (ErrNotFound nm) | Some s \<Rightarrow> Inr s)"

definition endpointsLister_Get :: "'w controller \<Rightarrow> string \<Rightarrow> string \<Rightarrow> ('w proc, endpoints) prog" where
  "endpointsLister_Get c namespace nm =
     askE (\<lambda>w. case endpointsIndexer c w (namespace @ ''/'' @ nm) of None \<Rightarrow> Inl (ErrNotFound nm) | Some s \<Rightarrow> Inr s)"

definition IsNotFound :: "goerror \<Rightarrow> bool" where
  "IsNotFound e = (case e of ErrNotFound _ \<Rightarrow> True | _ \<Rightarrow> False)"

text \<open>
  \<open>endpoint, err := \<dots>Get(\<dots>)\<close> where an error is only logged: the next statement reads
  \<open>endpoint.Subsets\<close> through a nil pointer.
\<close>

definition endpointsOrPanic :: "'w controller \<Rightarrow> string \<Rightarrow> string \<Rightarrow> ('w proc, endpoints) prog" where
  "endpointsOrPanic c namespace service = catchE (endpointsLister_Get c namespace service) (\<lambda>_. panicE NilDeref)"

text \<open>The three nested loops over subsets, ports and addresses visit the addresses once a port.\<close>

definition subset_addresses :: "ep_subset \<Rightarrow> ep_address list" where
  "subset_addresses s = concat (map (\<lambda>_. epAddresses s) (epPorts s))"

definition endpoint_addresses :: "endpoints \<Rightarrow> ep_address list" where
  "endpoint_addresses ep = concat (map subset_addresses (epSubsets ep))"

definition endpoint_ips :: "endpoints \<Rightarrow> string list" where
  "endpoint_ips ep = map epIP (endpoint_addresses ep)"

text \<open>
  A method call on the director or the gateway. On a nil receiver the call runs the
  statements \<open>pre\<close> before the first one that reads a field, and panics there.
\<close>

definition on_receiver :: "'r option \<Rightarrow> ('s, 'b) prog \<Rightarrow> ('r \<Rightarrow> ('s, unit) prog) \<Rightarrow> ('s, unit) prog" where
  "on_receiver r pre f = (case r of None \<Rightarrow> bindE pre (\<lambda>_. panicE NilDeref) | Some x \<Rightarrow> f x)"

definition ruleId :: "static_egress_ip \<Rightarrow> nat \<Rightarrow> string" where
  "ruleId sip i = generateRuleId (sNamespace sip) (sName sip) (int i)"

subsection \<open>Processing\<close>

definition isEgressGateway :: "'w host \<Rightarrow> static_egress_ip \<Rightarrow> ('w proc, bool) prog" where
  "isEgressGateway h sip =
     bindE (GetNodeObject h []) (\<lambda>node. returnE (GatewayNode (Status sip) = nodeUID node))"

definition directorRule :: "'w host \<Rightarrow> 'w controller \<Rightarrow> static_egress_ip \<Rightarrow> nat \<Rightarrow> egress_rule \<Rightarrow> ('w proc, unit) prog" where
  "directorRule h c sip i rule =
     bindE (endpointsOrPanic c (sNamespace sip) (ServiceName rule))
       (\<lambda>ep.
     logE (on_receiver (trafficDirector c) (fill_set h (ruleId sip i) (endpoint_ips ep))
       (\<lambda>d. AddRouteToGateway h d (ruleId sip i) (endpoint_ips ep) (Cidr rule) (GatewayIP (Status sip)))))"

definition doDirectorProcessing :: "'w host \<Rightarrow> 'w controller \<Rightarrow> static_egress_ip \<Rightarrow> ('w proc, unit) prog" where
  "doDirectorProcessing h c sip =
     (if GatewayIP (Status sip) = [] then returnE ()
      else foriE 0 (Rules (Spec sip)) (directorRule h c sip))"

text \<open>The body of the loop over the addresses in \<open>doGatewyProcessing\<close>, from \<open>tunnelName := \<dots>\<close> on.\<close>

definition tunnelAndRoute :: "'w host \<Rightarrow> 'w controller \<Rightarrow> string \<Rightarrow> string \<Rightarrow> ('w proc, unit) prog" where
  "tunnelAndRoute h c endpointIP endpointNodeIP =
     bindE (wrapE ''Failed to verify required tunnel to director node exists'' (cmdOutput h [''ip'', ''link'', ''list'']))
       (\<lambda>out.
     if endpointNodeIP = ctlNodeIP c then returnE ()
     else
       bindE (if \<not> contains out (tunnel_name endpointNodeIP)
              then wrapE ''Failed to tunnel interface to gateway node''
                     (cmdRun h [''ip'', ''tunnel'', ''add'', tunnel_name endpointNodeIP, ''mode'', ''gre'', ''remote'',
                                endpointNodeIP, ''local'', ctlNodeIP c])
              else returnE ())
         (\<lambda>_.
       bindE (wrapE ''Failed to set tunnel interface to up''
                (cmdRun h [''ip'', ''link'', ''set'', ''up'', tunnel_name endpointNodeIP]))
         (\<lambda>_.
       bindE (wrapE ''Failed to verify required default route to gatewat exists''
                (cmdOutput h [''ip'', ''route'', ''list'', ''table'', customStaticEgressIPRouteTableName]))
         (\<lambda>out.
       if \<not> contains out endpointIP
       then wrapE ''Failed to add route in custom route table''
              (cmdRun h [''ip'', ''route'', ''add'', endpointIP, ''dev'', tunnel_name endpointNodeIP, ''table'',
                         customStaticEgressIPRouteTableName])
       else returnE ()))))"

text \<open>\<open>*addr.NodeName\<close> panics on nil; an unknown node is logged and skipped by \<open>continue\<close>.\<close>

definition tunnelToEndpoint :: "'w host \<Rightarrow> 'w controller \<Rightarrow> ep_address \<Rightarrow> ('w proc, unit) prog" where
  "tunnelToEndpoint h c addr =
     (case epNodeName addr of
        None \<Rightarrow> panicE NilDeref
      | Some nm \<Rightarrow>
          bindE (catchE (bindE (GetNodeIPByNodeName h nm) (\<lambda>ip. returnE (Some ip))) (\<lambda>_. returnE None))
            (\<lambda>found. case found of
                None \<Rightarrow> returnE ()
              | Some ip \<Rightarrow> tunnelAndRoute h c (epIP addr) (IP_String ip)))"

definition gatewayRule :: "'w host \<Rightarrow> 'w controller \<Rightarrow> static_egress_ip \<Rightarrow> nat \<Rightarrow> egress_rule \<Rightarrow> ('w proc, unit) prog" where
  "gatewayRule h c sip i rule =
     bindE (endpointsOrPanic c (sNamespace sip) (ServiceName rule))
       (\<lambda>ep.
     bindE (forE (endpoint_addresses ep) (tunnelToEndpoint h c))
       (\<lambda>_.
     bindE (logE (on_receiver (trafficGateway c) (fill_set h (ruleId sip i) (endpoint_ips ep))
              (\<lambda>gw. AddStaticIptablesRule h gw (ruleId sip i) (endpoint_ips ep) (Cidr rule) (EgressIP rule))))
       (\<lambda>_.
     logE (ConfigureStaticIP h (EgressIP rule @ ''/32'')))))"

definition doGatewyProcessing :: "'w host \<Rightarrow> 'w controller \<Rightarrow> static_egress_ip \<Rightarrow> ('w proc, unit) prog" where
  "doGatewyProcessing h c sip = foriE 0 (Rules (Spec sip)) (gatewayRule h c sip)"

definition syncHandler :: "'w host \<Rightarrow> 'w controller \<Rightarrow> string \<Rightarrow> ('w proc, unit) prog" where
  "syncHandler h c key =
     (case SplitMetaNamespaceKey key of
        None \<Rightarrow> returnE ()
      | Some (namespace, nm) \<Rightarrow>
          bindE (catchE (bindE (egressLister_Get c namespace nm) (\<lambda>sip. returnE (Some sip)))
                   (\<lambda>e. if IsNotFound e then returnE None else failE e))
            (\<lambda>found. case found of
                None \<Rightarrow> returnE ()
              | Some sip \<Rightarrow>
                  if GatewayNode (Status sip) = [] then returnE ()
                  else
                    bindE (wrapE ''Failed to identify the gateway for static egress IP'' (isEgressGateway h sip))
                      (\<lambda>isGateway.
                    if isGateway then doGatewyProcessing h c sip else doDirectorProcessing h c sip)))"

subsection \<open>Event handlers\<close>

text \<open>What the informer hands to a handler, and the part of the agent that handlers and workers share.\<close>

datatype informer_obj = IsStaticEgressIP static_egress_ip | DeletedFinalStateUnknown informer_obj | OtherObject

record 'w agent =
  agProc :: "'w proc"
  agQueue :: "string rate_queue"

definition on_node :: "('w proc, 'a) prog \<Rightarrow> ('w agent, 'a) prog" where
  "on_node m st = (case m (agProc st) of (r, p) \<Rightarrow> (r, st\<lparr>agProc := p\<rparr>))"

text \<open>\<open>bucket\<close> and \<open>now\<close>: what the token bucket and the clock answer.\<close>

definition enqueueStaticEgressIP :: "int \<Rightarrow> int \<Rightarrow> static_egress_ip \<Rightarrow> ('w agent, unit) prog" where
  "enqueueStaticEgressIP bucket now sip st =
     (Ok (), st\<lparr>agQueue := rq_AddRateLimited (MetaNamespaceKeyFunc sip) bucket now (agQueue st)\<rparr>)"

definition addStaticEgressIP :: "int \<Rightarrow> int \<Rightarrow> informer_obj \<Rightarrow> ('w agent, unit) prog" where
  "addStaticEgressIP bucket now obj =
     (case obj of IsStaticEgressIP sip \<Rightarrow> enqueueStaticEgressIP bucket now sip | _ \<Rightarrow> panicE TypeAssertion)"

definition identify :: "'w host \<Rightarrow> static_egress_ip \<Rightarrow> ('w proc, bool) prog" where
  "identify h sip = catchE (isEgressGateway h sip) (\<lambda>_. returnE False)"

text \<open>The body of the loop over the old rules.\<close>

definition transitionRule ::
  "'w host \<Rightarrow> 'w controller \<Rightarrow> static_egress_ip \<Rightarrow> bool \<Rightarrow> bool \<Rightarrow> nat \<Rightarrow> egress_rule \<Rightarrow> ('w proc, unit) prog" where
  "transitionRule h c old wasGateway isGateway i rule =
     bindE (endpointsOrPanic c (sNamespace old) (ServiceName rule))
       (\<lambda>_.
     bindE (if wasGateway then
              bindE (logE (on_receiver (trafficGateway c) (returnE ())
                       (\<lambda>gw. ClearStaticIptablesRule h gw (ruleId old i) (Cidr rule) (EgressIP rule))))
                (\<lambda>_. logE (RemoveStaticIP h (EgressIP rule @ ''/32'')))
            else returnE ())
       (\<lambda>_.
     if isGateway then
       bindE (logE (on_receiver (trafficDirector c) (returnE ())
                (\<lambda>d. ClearStaleRouteToGateway h d (ruleId old i) (Cidr rule) (EgressIP rule))))
         (\<lambda>_. logE (RemoveStaticIP h (EgressIP rule @ ''/32'')))
     else returnE ()))"

definition transition :: "'w host \<Rightarrow> 'w controller \<Rightarrow> static_egress_ip \<Rightarrow> static_egress_ip \<Rightarrow> ('w proc, unit) prog" where
  "transition h c old new =
     (if GatewayNode (Status old) \<noteq> [] \<and> GatewayNode (Status new) \<noteq> [] \<and>
         GatewayNode (Status old) \<noteq> GatewayNode (Status new)
      then bindE (identify h old)
             (\<lambda>wasGateway.
           bindE (identify h new)
             (\<lambda>isGateway. foriE 0 (Rules (Spec old)) (transitionRule h c old wasGateway isGateway)))
      else returnE ())"

definition updateStaticEgressIP ::
  "'w host \<Rightarrow> 'w controller \<Rightarrow> int \<Rightarrow> int \<Rightarrow> informer_obj \<Rightarrow> informer_obj \<Rightarrow> ('w agent, unit) prog" where
  "updateStaticEgressIP h c bucket now old current =
     (case (old, current) of
        (IsStaticEgressIP o', IsStaticEgressIP n') \<Rightarrow>
          bindE (on_node (transition h c o' n')) (\<lambda>_. enqueueStaticEgressIP bucket now n')
      | _ \<Rightarrow> panicE TypeAssertion)"

definition deleteRule_of :: "'w host \<Rightarrow> 'w controller \<Rightarrow> static_egress_ip \<Rightarrow> nat \<Rightarrow> egress_rule \<Rightarrow> ('w proc, unit) prog" where
  "deleteRule_of h c sip i rule =
     logE (on_receiver (trafficDirector c) (wrapE ''Failed to get ipset'' (ipset_New h (ruleId sip i) ''hash:ip'' zero_params))
       (\<lambda>d. DeleteRouteToGateway h d (ruleId sip i) (Cidr rule) (GatewayIP (Status sip))))"

definition deleted_object :: "informer_obj \<Rightarrow> static_egress_ip option" where
  "deleted_object obj =
     (case obj of
        IsStaticEgressIP sip \<Rightarrow> Some sip
      | DeletedFinalStateUnknown (IsStaticEgressIP sip) \<Rightarrow> Some sip
      | _ \<Rightarrow> None)"

definition deleteStaticEgressIP ::
  "'w host \<Rightarrow> 'w controller \<Rightarrow> int \<Rightarrow> int \<Rightarrow> informer_obj \<Rightarrow> ('w agent, unit) prog" where
  "deleteStaticEgressIP h c bucket now obj =
     (case deleted_object obj of
        None \<Rightarrow> returnE ()
      | Some sip \<Rightarrow>
          bindE (on_node (foriE 0 (Rules (Spec sip)) (deleteRule_of h c sip)))
            (\<lambda>_. enqueueStaticEgressIP bucket now sip))"

subsection \<open>Workers\<close>

text \<open>
  One round of \<open>runWorker\<close>: \<open>None\<close> while \<open>Get\<close> blocks. The deferred \<open>Done\<close> runs on a panic too.
  Keys are strings, so the branch for another type of item has no counterpart.
\<close>

definition processNextWorkItem ::
  "'w host \<Rightarrow> 'w controller \<Rightarrow> int \<Rightarrow> int \<Rightarrow> 'w agent \<Rightarrow> (bool outcome \<times> 'w agent) option" where
  "processNextWorkItem h c bucket now st =
     (case rq_Get (agQueue st) of
        (Blocked, q) \<Rightarrow> None
      | (Shutdown, q) \<Rightarrow> Some (Ok False, st\<lparr>agQueue := q\<rparr>)
      | (Got key, q) \<Rightarrow>
          (case syncHandler h c key (agProc st) of
             (Ok _, p) \<Rightarrow> Some (Ok True, \<lparr>agProc = p, agQueue = rq_Done key (rq_Forget key q)\<rparr>)
           | (Err e, p) \<Rightarrow> Some (Ok True, \<lparr>agProc = p, agQueue = rq_Done key (rq_AddRateLimited key bucket now q)\<rparr>)
           | (Panic k, p) \<Rightarrow> Some (Panic k, \<lparr>agProc = p, agQueue = rq_Done key q\<rparr>)))"

subsection \<open>Start\<close>

definition NewEgressIPController ::
  "'w host \<Rightarrow> ('w \<Rightarrow> string \<Rightarrow> static_egress_ip option) \<Rightarrow> ('w \<Rightarrow> string \<Rightarrow> endpoints option) \<Rightarrow>
     ('w proc, 'w controller) prog" where
  "NewEgressIPController h sips eps =
     bindE (catchE (GetNodeObject h []) (\<lambda>_. panicE NilDeref))
       (\<lambda>node. returnE
          \<lparr>egressIndexer = sips, endpointsIndexer = eps, trafficDirector = None, trafficGateway = None,
           ctlNodeIP = IP_String (case GetNodeIP node of Inl _ \<Rightarrow> [] | Inr ip \<Rightarrow> ip)\<rparr>)"

definition writeFile :: "'w host \<Rightarrow> string \<Rightarrow> string \<Rightarrow> ('w proc, unit) prog" where
  "writeFile h f s p =
     (case hWriteFile h f s (os p) of (ok, w) \<Rightarrow> (if ok then Ok () else Err (ErrText ''write''), p\<lparr>os := w\<rparr>))"

text \<open>\<open>if err != nil { glog.Fatalf(\<dots>) }\<close>.\<close>

definition fatalE :: "('s, 'a) prog \<Rightarrow> ('s, 'a) prog" where
  "fatalE m = catchE m (\<lambda>_. panicE FatalExit)"

definition controller_Run :: "'w host \<Rightarrow> ('w \<Rightarrow> bool) \<Rightarrow> 'w controller \<Rightarrow> ('w proc, 'w controller) prog" where
  "controller_Run h synced c =
     bindE (logE (writeFile h ''/proc/sys/net/ipv4/conf/all/rp_filter'' (Itoa 0)))
       (\<lambda>_.
     bindE (logE (writeFile h ''/proc/sys/net/ipv4/conf/default/rp_filter'' (Itoa 0)))
       (\<lambda>_.
     bindE (fatalE (NewEgressGateway h))
       (\<lambda>gw.
     bindE (fatalE (gateway_Setup h gw))
       (\<lambda>_.
     bindE (fatalE (NewEgressDirector h))
       (\<lambda>d.
     bindE (fatalE (director_Setup h d))
       (\<lambda>_.
     bindE (readE synced)
       (\<lambda>ok. if ok then returnE (c\<lparr>trafficGateway := Some gw, trafficDirector := Some d\<rparr>)
              else failE (ErrText ''failed to wait for caches to sync''))))))))"

end
