(* ===== verification/ControllerFrames.thy ===== *)
theory ControllerFrames
  imports Controller
begin

text \<open>
  What the handlers and the workers of the controller can do to a node at most, and which
  errors they report: frames for every operation, however it ends.
\<close>

section \<open>The rules of a resource\<close>

definition director_all :: "static_egress_ip \<Rightarrow> rule_set" where
  "director_all sip =
     (\<Union>i < length (Rules (Spec sip)). director_rules (ruleId sip i) (Cidr (Rules (Spec sip) ! i)))"

definition gateway_all :: "static_egress_ip \<Rightarrow> rule_set" where
  "gateway_all sip =
     (\<Union>i < length (Rules (Spec sip)).
        gateway_rules (ruleId sip i) (Cidr (Rules (Spec sip) ! i)) (EgressIP (Rules (Spec sip) ! i)))"

definition cleared_all :: "static_egress_ip \<Rightarrow> rule_set" where
  "cleared_all sip =
     (\<Union>i < length (Rules (Spec sip)).
        cleared_rules (ruleId sip i) (Cidr (Rules (Spec sip) ! i)) (EgressIP (Rules (Spec sip) ! i)))"

lemmas all_defs = director_all_def gateway_all_def cleared_all_def

text \<open>The handles of the agent are those of an iptables that knows \<open>-C\<close> and \<open>--wait\<close>.\<close>

definition ctl_ready :: "tools \<Rightarrow> 'w controller \<Rightarrow> bool" where
  "ctl_ready t c \<longleftrightarrow> (\<forall>d. trafficDirector c = Some d \<longrightarrow> ipt_ready t (dirIpt d)) \<and>
     (\<forall>gw. trafficGateway c = Some gw \<longrightarrow> ipt_ready t (gwIpt gw))"

lemma ctl_readyD:
  "ctl_ready t c \<Longrightarrow> trafficDirector c = Some d \<Longrightarrow> ipt_ready t (dirIpt d)"
  "ctl_ready t c \<Longrightarrow> trafficGateway c = Some gw \<Longrightarrow> ipt_ready t (gwIpt gw)"
  by (simp_all add: ctl_ready_def)

context step_order
begin

lemma moves_on_receiver:
  "(r = None \<Longrightarrow> moves R pre) \<Longrightarrow> (\<And>x. r = Some x \<Longrightarrow> moves R (f x)) \<Longrightarrow> moves R (on_receiver r pre f)"
  by (cases r) (simp_all add: on_receiver_def moves_bindE moves_panicE)

end

lemma bindE_return: "bindE m returnE = m"
  by (rule ext) (simp add: bindE_def split: prod.split outcome.split)

context node_contract
begin

section \<open>Reading\<close>

lemma changes_GetNodeObject: "moves (changes t v k A B) (GetNodeObject h s)"
  by (rule same_changes) (auto simp: GetNodeObject_def Let_def catchE_def getNode_def split: if_splits sum.splits)

lemma edits_GetNodeObject: "moves (edits t v k) (GetNodeObject h s)"
  by (rule edits_same) (auto simp: GetNodeObject_def Let_def catchE_def getNode_def split: if_splits sum.splits)

lemma changes_isEgressGateway: "moves (changes t v k A B) (isEgressGateway h sip)"
  unfolding isEgressGateway_def by (intro chg.moves_rules changes_GetNodeObject)

lemma edits_isEgressGateway: "moves (edits t v k) (isEgressGateway h sip)"
  unfolding isEgressGateway_def by (intro edt.moves_rules edits_GetNodeObject)

lemma changes_endpoints: "moves (changes t v k A B) (endpointsOrPanic c ns s)"
  unfolding endpointsOrPanic_def endpointsLister_Get_def
  by (intro chg.moves_catchE chg.moves_panicE changes_read)

lemma edits_read: "moves (edits t v k) (askE f)"
  by (rule edits_same) (simp split: sum.splits)

lemma edits_endpoints: "moves (edits t v k) (endpointsOrPanic c ns s)"
  unfolding endpointsOrPanic_def endpointsLister_Get_def
  by (intro edt.moves_catchE edt.moves_panicE edits_read)

lemma changes_nodeIP: "moves (changes t v k A B) (GetNodeIPByNodeName h nm)"
  unfolding GetNodeIPByNodeName_def getNode_def
  by (intro chg.moves_bindE changes_read) (auto intro: chg.moves_rules split: sum.split)

lemma edits_nodeIP: "moves (edits t v k) (GetNodeIPByNodeName h nm)"
  unfolding GetNodeIPByNodeName_def getNode_def
  by (intro edt.moves_bindE edits_read) (auto intro: edt.moves_rules split: sum.split)

section \<open>Tunnels to endpoints\<close>

lemma edits_ip_lists:
  "moves (edits t v k) (cmdOutput h [''ip'', ''link'', ''list''])"
  "moves (edits t v k) (cmdOutput h [''ip'', ''route'', ''list'', ''table'', tab])"
  by (rule edits_same, drule link_list_cases route_list_cases, simp)+

lemmas edits_ip_acts =
  implements_link_up [THEN implements_edits] implements_tunnel_add [THEN implements_edits]
  implements_route_add [THEN implements_edits]

lemma changes_tunnelAndRoute: "moves (changes t v k A B) (tunnelAndRoute h c e n)"
  unfolding tunnelAndRoute_def by (intro changes_calls)

lemma edits_tunnelAndRoute: "moves (edits t v k) (tunnelAndRoute h c e n)"
  unfolding tunnelAndRoute_def by (intro edt.moves_rules edits_ip_lists edits_ip_acts)

lemma changes_tunnelToEndpoint: "moves (changes t v k A B) (tunnelToEndpoint h c a)"
  unfolding tunnelToEndpoint_def
  by (auto intro!: chg.moves_panicE chg.moves_bindE chg.moves_catchE chg.moves_returnE changes_nodeIP
      changes_tunnelAndRoute split: option.split)

lemma edits_tunnelToEndpoint: "moves (edits t v k) (tunnelToEndpoint h c a)"
  unfolding tunnelToEndpoint_def
  by (auto intro!: edt.moves_panicE edt.moves_bindE edt.moves_catchE edt.moves_returnE edits_nodeIP
      edits_tunnelAndRoute split: option.split)

section \<open>Processing and transitions\<close>

lemma edits_fill_set: "moves (edits t v False) (fill_set h n ips)"
  by (rule implements_edits [OF implements_fill_set])

lemma edits_New: "moves (edits t v False) (wrapE msg (ipset_New h n ''hash:ip'' zero_params))"
  by (rule implements_New [of n returnE Some msg, THEN implements_edits, unfolded bindE_return])
    (rule implements_return)

lemma changes_New: "moves (changes t v False A B) (wrapE msg (ipset_New h n ''hash:ip'' zero_params))"
  by (rule changes_after_New [of A B returnE msg n, unfolded bindE_return]) (rule chg.moves_returnE)

lemma changes_doDirector:
  assumes "ctl_ready t c"
  shows "moves (changes t v False {} (director_all sip)) (doDirectorProcessing h c sip)"
proof -
  have "moves (changes t v False {} (director_all sip)) (directorRule h c sip i (Rules (Spec sip) ! i))"
    if "i < length (Rules (Spec sip))" for i
    unfolding directorRule_def
    by (intro chg.moves_bindE changes_endpoints chg.moves_logE chg.moves_on_receiver changes_fill_set
        changes_mono [OF changes_director_Add] ctl_readyD(1) [OF assms]; use that in \<open>auto simp: director_all_def\<close>)
  then show ?thesis unfolding doDirectorProcessing_def
    by (auto intro!: chg.moves_if chg.moves_returnE chg.moves_foriE_nth)
qed

lemma changes_doGatewy:
  assumes "ctl_ready t c"
  shows "moves (changes t v False {} (gateway_all sip)) (doGatewyProcessing h c sip)"
proof -
  have "moves (changes t v False {} (gateway_all sip)) (gatewayRule h c sip i (Rules (Spec sip) ! i))"
    if "i < length (Rules (Spec sip))" for i
    unfolding gatewayRule_def
    by (intro chg.moves_bindE changes_endpoints chg.moves_forE changes_tunnelToEndpoint chg.moves_logE
        chg.moves_on_receiver changes_fill_set changes_mono [OF changes_gateway_Add] changes_StaticIP
        ctl_readyD(2) [OF assms]; use that in \<open>auto simp: gateway_all_def\<close>)
  then show ?thesis unfolding doGatewyProcessing_def by (auto intro!: chg.moves_foriE_nth)
qed

lemma edits_processing:
  assumes "ctl_ready t c"
  shows "moves (edits t v False) (doDirectorProcessing h c sip)" and "moves (edits t v False) (doGatewyProcessing h c sip)"
  unfolding doDirectorProcessing_def doGatewyProcessing_def directorRule_def [abs_def] gatewayRule_def [abs_def]
  by (intro edt.moves_if edt.moves_returnE edt.moves_foriE edt.moves_bindE edits_endpoints edt.moves_logE
      edt.moves_on_receiver edits_fill_set edt.moves_forE edits_tunnelToEndpoint edits_ops ctl_readyD [OF assms]; assumption)+

lemma changes_transitionRule:
  assumes "ctl_ready t c" and "i < length (Rules (Spec old))"
  shows "moves (changes t v False (cleared_all old \<union> director_all old) {}) (transitionRule h c old w g i (Rules (Spec old) ! i))"
  unfolding transitionRule_def
  by (intro chg.moves_bindE changes_endpoints chg.moves_if chg.moves_returnE chg.moves_logE chg.moves_on_receiver
      changes_mono [OF changes_gateway_Clear] changes_mono [OF changes_director_Clear] changes_StaticIP
      ctl_readyD [OF assms(1)]; use assms(2) in \<open>auto simp: all_defs\<close>)

lemma changes_transition:
  assumes "ctl_ready t c"
  shows "moves (changes t v False (cleared_all old \<union> director_all old) {}) (transition h c old new)"
  unfolding transition_def identify_def
  by (auto intro!: chg.moves_if chg.moves_returnE chg.moves_bindE chg.moves_catchE changes_isEgressGateway
      chg.moves_foriE_nth changes_transitionRule [OF assms])

lemma edits_transitionRule: "ctl_ready t c \<Longrightarrow> moves (edits t v False) (transitionRule h c old w g i rule)"
  unfolding transitionRule_def
  by (intro edt.moves_if edt.moves_returnE edt.moves_bindE edits_endpoints edt.moves_logE edt.moves_on_receiver
      edits_ops ctl_readyD; assumption)

lemma edits_transition: "ctl_ready t c \<Longrightarrow> moves (edits t v False) (transition h c old new)"
  unfolding transition_def identify_def
  by (intro edt.moves_if edt.moves_returnE edt.moves_bindE edt.moves_catchE edits_isEgressGateway edt.moves_foriE
      edits_transitionRule)

lemma changes_deleteRule_of:
  assumes "ctl_ready t c" and "i < length (Rules (Spec sip))"
  shows "moves (changes t v False (director_all sip) {}) (deleteRule_of h c sip i (Rules (Spec sip) ! i))"
  unfolding deleteRule_of_def
  by (intro chg.moves_logE chg.moves_on_receiver changes_New changes_mono [OF changes_director_Delete]
      ctl_readyD [OF assms(1)]; use assms(2) in \<open>auto simp: all_defs\<close>)

lemma changes_delete:
  "ctl_ready t c \<Longrightarrow> moves (changes t v False (director_all sip) {}) (foriE 0 (Rules (Spec sip)) (deleteRule_of h c sip))"
  by (rule chg.moves_foriE_nth) (simp add: changes_deleteRule_of)

lemma edits_deleteRule_of: "ctl_ready t c \<Longrightarrow> moves (edits t v False) (deleteRule_of h c sip i rule)"
  unfolding deleteRule_of_def
  by (intro edt.moves_logE edt.moves_on_receiver edits_New edits_ops ctl_readyD; assumption)

lemma edits_delete:
  "ctl_ready t c \<Longrightarrow> moves (edits t v False) (foriE 0 (Rules (Spec sip)) (deleteRule_of h c sip))"
  by (intro edt.moves_foriE edits_deleteRule_of)

lemma edits_syncHandler:
  assumes "ctl_ready t c"
  shows "moves (edits t v False) (syncHandler h c key)"
  unfolding syncHandler_def egressLister_Get_def
  by (auto intro!: edt.moves_returnE edt.moves_bindE edt.moves_catchE edits_read edt.moves_if edt.moves_failE
      edt.moves_wrapE edits_isEgressGateway edits_processing [OF assms] split: option.split)

end

end
