(* ===== verification/GatewayManager.thy ===== *)
theory GatewayManager
  imports NodeUtils
begin

text \<open>
  \<open>pkg/ha/gateway_manager.go\<close>: the leader's loop that gives every StaticEgressIP a gateway
  node. The range loop of \<open>chooseGatewayNode\<close> takes the address of its variable; under the
  Go release this repository is built with, there is one variable for all iterations, so
  the loop is modelled with a store of variables and a list of addresses into it.
\<close>

section \<open>The program\<close>

definition nodeRoleMasterLabel :: string where
  "nodeRoleMasterLabel = ''node-role.kubernetes.io/master''"

text \<open>The two loops over the conditions: the first without, the second with \<open>break\<close>.\<close>

definition readyScan :: "k8s_node \<Rightarrow> bool" where
  "readyScan node =
     foldl (\<lambda>nodeReady cond. if condType cond = ''Ready'' \<and> condStatus cond \<noteq> ''True'' then False else nodeReady)
       True (nodeConditions node)"

fun readyScanBreak :: "node_condition list \<Rightarrow> bool" where
  "readyScanBreak [] = True"
| "readyScanBreak (cond # conds) =
     (if condType cond = ''Ready'' \<and> condStatus cond \<noteq> ''True'' then False else readyScanBreak conds)"

text \<open>The first loop of \<open>chooseGatewayNode\<close>: whether it returns from inside.\<close>

fun keepsCurrent :: "string \<Rightarrow> k8s_node list \<Rightarrow> bool" where
  "keepsCurrent current [] = False"
| "keepsCurrent current (node # nodes) =
     (if current = nodeUID node \<and> readyScan node then True else keepsCurrent current nodes)"

text \<open>
  The second loop. The variable \<open>node\<close> of the loop lives at address 0; an iteration first
  assigns to it, and \<open>append(readyNodes, &node)\<close> appends that address.
\<close>

type_synonym node_store = "nat \<Rightarrow> k8s_node option"

fun collectReady :: "k8s_node list \<Rightarrow> node_store \<Rightarrow> nat list \<Rightarrow> node_store \<times> nat list" where
  "collectReady [] store readyNodes = (store, readyNodes)"
| "collectReady (item # items) store readyNodes =
     (let store' = store(0 \<mapsto> item) in
      if nodeLabels item nodeRoleMasterLabel \<noteq> None then collectReady items store' readyNodes
      else if readyScanBreak (nodeConditions item) then collectReady items store' (readyNodes @ [0])
      else collectReady items store' readyNodes)"

definition chooseGatewayNode :: "'w host \<Rightarrow> static_egress_ip \<Rightarrow> ('w proc, string \<times> string) prog" where
  "chooseGatewayNode h sip =
     bindE (wrapE ''Failed to list nodes from API server'' (askE (hNodeList h)))
       (\<lambda>items.
     if GatewayNode (Status sip) \<noteq> [] \<and> keepsCurrent (GatewayNode (Status sip)) items
     then returnE (GatewayNode (Status sip), GatewayIP (Status sip))
     else
       (let (store, readyNodes) = collectReady items (\<lambda>_. None) [] in
        case readyNodes of
          [] \<Rightarrow> failE (ErrText ''Failed to allocate gatewway as there are no ready nodes'')
        | a # _ \<Rightarrow>
            (case store a of
               None \<Rightarrow> panicE NilDeref
             | Some node \<Rightarrow>
                 (case GetNodeIP node of
                    Inl e \<Rightarrow> failE (ErrWrap ''Failed to get node IP'' e)
                  | Inr nodeIP \<Rightarrow> returnE (nodeUID node, IP_String nodeIP)))))"

text \<open>One tick of the leader: \<open>listed\<close> is what the lister answers.\<close>

definition assignGateway :: "'w host \<Rightarrow> static_egress_ip \<Rightarrow> ('w proc, unit) prog" where
  "assignGateway h sip =
     logE (bindE (chooseGatewayNode h sip)
       (\<lambda>(gatewayNodeUID, gatewayIP).
          logE (actE (hEgressUpdate h (sNamespace sip)
                  (sip\<lparr>Status := \<lparr>GatewayNode = gatewayNodeUID, GatewayIP = gatewayIP\<rparr>\<rparr>)))))"

definition managerTick :: "'w host \<Rightarrow> (goerror + static_egress_ip list) \<Rightarrow> ('w proc, unit) prog" where
  "managerTick h listed =
     (case listed of
        Inl e \<Rightarrow> panicE FatalExit
      | Inr sips \<Rightarrow> forE sips (assignGateway h))"

section \<open>Laws\<close>

text \<open>What both scans compute: no Ready condition with another status than True.\<close>

definition node_ready :: "k8s_node \<Rightarrow> bool" where
  "node_ready node \<longleftrightarrow> list_all (\<lambda>c. condType c = ''Ready'' \<longrightarrow> condStatus c = ''True'') (nodeConditions node)"

definition is_master :: "k8s_node \<Rightarrow> bool" where
  "is_master node \<longleftrightarrow> nodeLabels node nodeRoleMasterLabel \<noteq> None"

lemma readyScan_iff [simp]: "readyScan node \<longleftrightarrow> node_ready node"
proof -
  let ?f = "\<lambda>nodeReady cond. if condType cond = ''Ready'' \<and> condStatus cond \<noteq> ''True'' then False else nodeReady"
  have "foldl ?f b cs \<longleftrightarrow> b \<and> list_all (\<lambda>c. condType c = ''Ready'' \<longrightarrow> condStatus c = ''True'') cs"
    for b and cs :: "node_condition list"
    by (induction cs arbitrary: b) auto
  then show ?thesis unfolding readyScan_def node_ready_def by (simp only: simp_thms)
qed

lemma readyScanBreak_iff [simp]: "readyScanBreak (nodeConditions node) \<longleftrightarrow> node_ready node"
proof -
  have "readyScanBreak cs \<longleftrightarrow> list_all (\<lambda>c. condType c = ''Ready'' \<longrightarrow> condStatus c = ''True'') cs" for cs
    by (induction cs) auto
  then show ?thesis by (simp add: node_ready_def)
qed

lemma keepsCurrent_iff: "keepsCurrent uid nodes \<longleftrightarrow> (\<exists>n \<in> set nodes. nodeUID n = uid \<and> node_ready n)"
  by (induction nodes) auto

definition eligible :: "k8s_node \<Rightarrow> bool" where
  "eligible n \<longleftrightarrow> \<not> is_master n \<and> node_ready n"

text \<open>After the loop the one variable holds the last node, whichever nodes were appended.\<close>

lemma collectReady_step:
  "collectReady (a # items) store ready =
     collectReady items (store(0 \<mapsto> a)) (if eligible a then ready @ [0] else ready)"
  by (simp add: eligible_def is_master_def Let_def)

lemma collectReady_result:
  "collectReady items store ready =
     (if items = [] then store else store(0 \<mapsto> last items), ready @ replicate (length (filter eligible items)) 0)"
proof (induction items arbitrary: store ready)
  case (Cons a items)
  show ?case unfolding collectReady_step Cons by (auto simp: fun_eq_iff)
qed simp

lemma replicate_case: "(case replicate n x of [] \<Rightarrow> u | a # _ \<Rightarrow> f a) = (if n = 0 then u else f x)"
  by (cases n) simp_all

lemma chooseGatewayNode_run:
  "chooseGatewayNode h sip p =
     (case hNodeList h (os p) of
        Inl e \<Rightarrow> (Err (ErrWrap ''Failed to list nodes from API server'' e), p)
      | Inr items \<Rightarrow>
          if GatewayNode (Status sip) \<noteq> [] \<and> (\<exists>n \<in> set items. nodeUID n = GatewayNode (Status sip) \<and> node_ready n)
          then (Ok (GatewayNode (Status sip), GatewayIP (Status sip)), p)
          else if filter eligible items = []
          then (Err (ErrText ''Failed to allocate gatewway as there are no ready nodes''), p)
          else (case GetNodeIP (last items) of
                  Inl e \<Rightarrow> (Err (ErrWrap ''Failed to get node IP'' e), p)
                | Inr ip \<Rightarrow> (Ok (nodeUID (last items), IP_String ip), p)))"
  by (auto simp: chooseGatewayNode_def bindE_def wrapE_run keepsCurrent_iff collectReady_result replicate_case
      split: sum.split)

lemma chooseGatewayNode_state: "snd (chooseGatewayNode h sip p) = p"
  unfolding chooseGatewayNode_run by (simp split: sum.split)

lemma calm_chooseGatewayNode: "calm (chooseGatewayNode h sip)"
  unfolding calm_def chooseGatewayNode_run by (auto split: sum.split)

section \<open>Properties\<close>

definition ref_worker :: k8s_node where
  "ref_worker = \<lparr>nodeName = ''worker'', nodeUID = ''u1'', nodeLabels = (\<lambda>_. None),
     nodeConditions = [\<lparr>condType = ''Ready'', condStatus = ''True''\<rparr>],
     nodeAddresses = [\<lparr>addrType = ''InternalIP'', addrAddress = dotted [192, 168, 1, 10]\<rparr>]\<rparr>"

definition ref_dead_master :: k8s_node where
  "ref_dead_master = \<lparr>nodeName = ''master'', nodeUID = ''u2'', nodeLabels = (\<lambda>_. None)(nodeRoleMasterLabel \<mapsto> []),
     nodeConditions = [\<lparr>condType = ''Ready'', condStatus = ''Unknown''\<rparr>],
     nodeAddresses = [\<lparr>addrType = ''InternalIP'', addrAddress = dotted [192, 168, 1, 9]\<rparr>]\<rparr>"

definition ref_sip :: "string \<Rightarrow> static_egress_ip" where
  "ref_sip uid = \<lparr>sName = ''eip'', sNamespace = ''default'', Spec = \<lparr>Rules = []\<rparr>,
     Status = \<lparr>GatewayNode = uid, GatewayIP = ''192.168.1.10''\<rparr>\<rparr>"

definition ref_cluster :: "k8s_node list \<Rightarrow> ref_world proc" where
  "ref_cluster nodes =
     \<lparr>os = \<lparr>rwNode = fresh_lx, rwTables = [], rwHostname = ''node1'', rwNodes = nodes, rwEgress = []\<rparr>,
      ipsetPath = [], pkgIpsetPath = []\<rparr>"

lemma ref_cluster_world [simp]: "rwNodes (os (ref_cluster nodes)) = nodes"
  by (simp add: ref_cluster_def)

lemma ref_cluster_nodes: "hNodeList (ref_host n) (os (ref_cluster nodes)) = Inr nodes"
  by simp

text \<open>
  C26 (gateway_retained). A gateway that is listed and ready is kept with its address, whatever other nodes there
  are: the choice does not move while the gateway is healthy.
\<close>

theorem gateway_retained:
  assumes "hNodeList h (os p) = Inr items" and "n \<in> set items" and "node_ready n"
    and "nodeUID n = GatewayNode (Status sip)" and "GatewayNode (Status sip) \<noteq> []"
  shows "chooseGatewayNode h sip p = (Ok (GatewayNode (Status sip), GatewayIP (Status sip)), p)"
  unfolding chooseGatewayNode_run using assms by auto

theorem gateway_retained_witness:
  "chooseGatewayNode (ref_host 1) (ref_sip ''u1'') (ref_cluster [ref_worker, ref_dead_master]) =
     (Ok (''u1'', ''192.168.1.10''), ref_cluster [ref_worker, ref_dead_master])"
  using gateway_retained [of "ref_host 1" "ref_cluster [ref_worker, ref_dead_master]" "[ref_worker, ref_dead_master]"
      ref_worker "ref_sip ''u1''"]
  by (simp add: ref_sip_def node_ready_def ref_worker_def)

text \<open>
  C25 (choose_takes_last_node). When a new gateway is needed and some worker is ready, the node that is chosen is the
  last one of the list the API server answered, ready or not, master or not: the loop
  collects the address of its own variable, which after the loop holds the last node.
\<close>

theorem choose_takes_last_node:
  assumes "hNodeList h (os p) = Inr items"
    and "\<not> (\<exists>n \<in> set items. nodeUID n = GatewayNode (Status sip) \<and> node_ready n)"
    and "filter eligible items \<noteq> []" and "GetNodeIP (last items) = Inr ip"
  shows "chooseGatewayNode h sip p = (Ok (nodeUID (last items), IP_String ip), p)"
  unfolding chooseGatewayNode_run using assms by auto

text \<open>The dead master is chosen, again and again, beside a healthy worker.\<close>

theorem choose_takes_last_node_witness:
  "\<exists>ip. chooseGatewayNode (ref_host 1) (ref_sip ''u2'') (ref_cluster [ref_worker, ref_dead_master]) =
     (Ok (''u2'', ip), ref_cluster [ref_worker, ref_dead_master]) \<and> \<not> eligible ref_dead_master"
proof -
  have "GetNodeIP (last [ref_worker, ref_dead_master]) = Inr (ParseIP (dotted [192, 168, 1, 9]))"
    by (simp add: GetNodeIP_first first_of_type_def ref_dead_master_def)
  from choose_takes_last_node [OF ref_cluster_nodes _ _ this, of "ref_sip ''u2''" 1]
  show ?thesis
    by (simp add: ref_sip_def eligible_def is_master_def node_ready_def ref_worker_def ref_dead_master_def)
qed

text \<open>
  Choosing again after the choice was written to the status gives the same node and
  address, as long as the API server lists the same nodes: the leader's ticks do not flap.
\<close>

lemma choose_stable:
  assumes "chooseGatewayNode h sip p = (Ok (uid, ip), p')"
  shows "chooseGatewayNode h (sip\<lparr>Status := \<lparr>GatewayNode = uid, GatewayIP = ip\<rparr>\<rparr>) p' = (Ok (uid, ip), p')"
proof -
  have "p' = p" using chooseGatewayNode_state [of h sip p] assms by simp
  then show ?thesis using assms unfolding chooseGatewayNode_run
    by (auto split: sum.splits if_splits)
qed

lemma choose_stable_witness:
  "chooseGatewayNode (ref_host 1) ((ref_sip ''u1'')\<lparr>Status := \<lparr>GatewayNode = ''u1'', GatewayIP = ''192.168.1.10''\<rparr>\<rparr>)
     (ref_cluster [ref_worker]) = (Ok (''u1'', ''192.168.1.10''), ref_cluster [ref_worker])"
proof (rule choose_stable)
  show "chooseGatewayNode (ref_host 1) (ref_sip ''u1'') (ref_cluster [ref_worker]) =
      (Ok (''u1'', ''192.168.1.10''), ref_cluster [ref_worker])"
    unfolding chooseGatewayNode_run by (simp add: ref_sip_def node_ready_def ref_worker_def)
qed

text \<open>The world after every resource was offered its choice.\<close>

fun tick_updates :: "'w host \<Rightarrow> static_egress_ip list \<Rightarrow> 'w proc \<Rightarrow> 'w proc" where
  "tick_updates h [] p = p"
| "tick_updates h (sip # sips) p =
     tick_updates h sips
       (case fst (chooseGatewayNode h sip p) of
          Ok (uid, ip) \<Rightarrow>
            p\<lparr>os := snd (hEgressUpdate h (sNamespace sip)
                         (sip\<lparr>Status := \<lparr>GatewayNode = uid, GatewayIP = ip\<rparr>\<rparr>) (os p))\<rparr>
        | _ \<Rightarrow> p)"

lemma assignGateway_run:
  "assignGateway h sip p =
     (Ok (), case fst (chooseGatewayNode h sip p) of
        Ok (uid, ip) \<Rightarrow>
          p\<lparr>os := snd (hEgressUpdate h (sNamespace sip)
                       (sip\<lparr>Status := \<lparr>GatewayNode = uid, GatewayIP = ip\<rparr>\<rparr>) (os p))\<rparr>
      | _ \<Rightarrow> p)"
proof -
  obtain r where r: "chooseGatewayNode h sip p = (r, p)"
    using chooseGatewayNode_state [of h sip p] by (metis prod.collapse)
  have "r \<noteq> Panic k" for k using calmD [OF calm_chooseGatewayNode, of h sip p k p] r by auto
  with r show ?thesis
    by (cases r) (auto simp: assignGateway_def logE_run bindE_def actE_def split: prod.split option.split)
qed

text \<open>
  C27 (managerTick_total). A tick goes through all resources: neither a resource for which no node can be chosen
  nor an update that the API server refuses stops it, and only a failing lister ends the
  program. Each resource for which a node is chosen is sent to the API server once, in the
  order of the list, with the choice as its status and everything else unchanged.
\<close>

theorem managerTick_total:
  "managerTick h (Inr sips) p = (Ok (), tick_updates h sips p) \<and>
   managerTick h (Inl e) p = (Panic FatalExit, p)"
proof -
  have "forE sips (assignGateway h) p = (Ok (), tick_updates h sips p)"
    by (induction sips arbitrary: p) (auto simp: bindE_def assignGateway_run)
  then show ?thesis by (simp add: managerTick_def)
qed

end
