(* ===== verification/Sync.thy ===== *)
theory Sync
  imports ControllerFrames GatewayManager
begin

text \<open>
  The workers of the controller: which processing a key leads to, what the node looks like
  afterwards, which failures are reported and retried, and that a round of a worker is three
  steps of the queue.
\<close>

section \<open>Keys and dispatch\<close>

lemma Split_Meta:
  assumes "CHR ''/'' \<notin> set (sNamespace sip)" and "CHR ''/'' \<notin> set (sName sip)"
  shows "SplitMetaNamespaceKey (MetaNamespaceKeyFunc sip) = Some (sNamespace sip, sName sip)"
  using assms
  by (simp add: SplitMetaNamespaceKey_def MetaNamespaceKeyFunc_def split_on_append_sep split_on_no_sep)

lemma GetNodeObject_result:
  obtains (found) node where "GetNodeObject h s p = (Ok node, p)"
  | (unknown) e where "GetNodeObject h s p = (Err e, p)"
proof -
  have "(\<exists>node. GetNodeObject h s p = (Ok node, p)) \<or> (\<exists>e. GetNodeObject h s p = (Err e, p))"
    by (auto simp: GetNodeObject_def Let_def catchE_def getNode_def split: sum.split)
  then show thesis using that by blast
qed

text \<open>The resource a key stands for, in the cache of a world.\<close>

definition cached :: "'w controller \<Rightarrow> 'w \<Rightarrow> string \<Rightarrow> static_egress_ip option" where
  "cached c w key =
     Option.bind (SplitMetaNamespaceKey key) (\<lambda>(ns, nm). egressIndexer c w (ns @ ''/'' @ nm))"

lemma syncHandler_run:
  "syncHandler h c key p =
     (case cached c (os p) key of
        None \<Rightarrow> (Ok (), p)
      | Some sip \<Rightarrow>
          if GatewayNode (Status sip) = [] then (Ok (), p)
          else (case fst (GetNodeObject h [] p) of
                  Ok node \<Rightarrow> (if GatewayNode (Status sip) = nodeUID node then doGatewyProcessing h c sip p
                             else doDirectorProcessing h c sip p)
                | Err e \<Rightarrow> (Err (ErrWrap ''Failed to identify the gateway for static egress IP'' e), p)
                | Panic k \<Rightarrow> (Panic k, p)))"
proof (cases rule: GetNodeObject_result [of h "[]" p])
  case (found node)
  then show ?thesis
    by (auto simp: syncHandler_def cached_def egressLister_Get_def bindE_def catchE_def wrapE_run isEgressGateway_def
        IsNotFound_def split: option.split)
next
  case (unknown e)
  then show ?thesis
    by (auto simp: syncHandler_def cached_def egressLister_Get_def bindE_def catchE_def wrapE_run isEgressGateway_def
        IsNotFound_def split: option.split)
qed

text \<open>
  Splitting the key of a resource gives back its namespace and its name, so two
  resources have the same key only if they are the same resource; names of Kubernetes
  objects contain no slash.
\<close>

lemma key_round_trip:
  assumes "CHR ''/'' \<notin> set (sNamespace sip)" and "CHR ''/'' \<notin> set (sName sip)"
    and "CHR ''/'' \<notin> set (sNamespace sip')" and "CHR ''/'' \<notin> set (sName sip')"
  shows "SplitMetaNamespaceKey (MetaNamespaceKeyFunc sip) = Some (sNamespace sip, sName sip) \<and>
     (MetaNamespaceKeyFunc sip = MetaNamespaceKeyFunc sip' \<longleftrightarrow>
        sNamespace sip = sNamespace sip' \<and> sName sip = sName sip')"
proof -
  note s = Split_Meta [OF assms(1,2)] and s' = Split_Meta [OF assms(3,4)]
  have "MetaNamespaceKeyFunc sip = MetaNamespaceKeyFunc sip'" if "sNamespace sip = sNamespace sip'" "sName sip = sName sip'"
    using that by (simp add: MetaNamespaceKeyFunc_def)
  then show ?thesis using s s' by (metis option.inject prod.inject)
qed

lemma key_round_trip_witness:
  "SplitMetaNamespaceKey (MetaNamespaceKeyFunc (ref_sip ''u1'')) = Some (''default'', ''eip'')"
  using key_round_trip [of "ref_sip ''u1''" "ref_sip ''u1''"] by (simp add: ref_sip_def)

text \<open>
  C10 (sync_dispatch). The key of a resource leads to the resource that the cache now holds under it: nothing
  happens when it is gone or has no gateway yet, the node takes exactly one of the two
  roles, that of the gateway exactly when its own UID is in the status, and only a node
  that cannot identify itself reports an error before it has done anything.
\<close>

theorem sync_dispatch:
  assumes "CHR ''/'' \<notin> set (sNamespace sip)" and "CHR ''/'' \<notin> set (sName sip)" and "sNamespace sip \<noteq> []"
  shows "syncHandler h c (MetaNamespaceKeyFunc sip) p =
     (case egressIndexer c (os p) (MetaNamespaceKeyFunc sip) of
        None \<Rightarrow> (Ok (), p)
      | Some cur \<Rightarrow>
          if GatewayNode (Status cur) = [] then (Ok (), p)
          else (case fst (GetNodeObject h [] p) of
                  Ok node \<Rightarrow> (if GatewayNode (Status cur) = nodeUID node then doGatewyProcessing h c cur p
                             else doDirectorProcessing h c cur p)
                | Err e \<Rightarrow> (Err (ErrWrap ''Failed to identify the gateway for static egress IP'' e), p)
                | Panic k \<Rightarrow> (Panic k, p)))"
proof -
  have "cached c (os p) (MetaNamespaceKeyFunc sip) = egressIndexer c (os p) (MetaNamespaceKeyFunc sip)"
    unfolding cached_def Split_Meta [OF assms(1,2)] using assms(3) by (simp add: MetaNamespaceKeyFunc_def)
  then show ?thesis unfolding syncHandler_run by simp
qed

text \<open>A controller on the reference node: the caches hold one resource and its endpoints.\<close>

definition ref_caches :: "static_egress_ip list \<Rightarrow> (string \<times> endpoints) list \<Rightarrow> ref_world controller" where
  "ref_caches sips eps =
     \<lparr>egressIndexer = (\<lambda>w key. find (\<lambda>s. MetaNamespaceKeyFunc s = key) sips),
      endpointsIndexer = (\<lambda>w. map_of eps), trafficDirector = Some ref_director, trafficGateway = Some ref_gateway,
      ctlNodeIP = ''192.168.1.1''\<rparr>"

lemma ref_caches_ready [simp]: "ctl_ready (ref_tools n) (ref_caches sips eps)"
  by (simp add: ctl_ready_def ref_caches_def ref_director_def ref_gateway_def)

text \<open>The node the controller runs on, and a resource with one rule.\<close>

definition ref_self :: "string \<Rightarrow> k8s_node" where
  "ref_self uid = \<lparr>nodeName = ''node1'', nodeUID = uid, nodeLabels = (\<lambda>_. None),
     nodeConditions = [], nodeAddresses = [\<lparr>addrType = ''InternalIP'', addrAddress = dotted [192, 168, 1, 1]\<rparr>]\<rparr>"

definition ref_node_proc :: "string \<Rightarrow> linux \<Rightarrow> ref_world proc" where
  "ref_node_proc uid lx =
     \<lparr>os = \<lparr>rwNode = lx, rwTables = [], rwHostname = ''node1'', rwNodes = [ref_self uid], rwEgress = []\<rparr>,
      ipsetPath = [], pkgIpsetPath = []\<rparr>"

lemma ref_node_proc_simps [simp]:
  "view rwNode (ref_node_proc uid lx) = lx" "path_ready t (ref_node_proc uid lx)"
  "GetNodeObject (ref_host n) [] (ref_node_proc uid lx) = (Ok (ref_self uid), ref_node_proc uid lx)"
  by (simp_all add: ref_node_proc_def view_def path_ready_def GetNodeObject_def Let_def catchE_def getNode_def ref_self_def)

definition ref_rule :: egress_rule where
  "ref_rule = \<lparr>ServiceName = ''web'', EgressIP = ''192.168.1.200'', Cidr = cidr4 8 8 8 0 24\<rparr>"

definition ref_resource :: "string \<Rightarrow> static_egress_ip" where
  "ref_resource uid = (ref_sip uid)\<lparr>Spec := \<lparr>Rules = [ref_rule]\<rparr>\<rparr>"

lemma ref_resource_simps [simp]:
  "sNamespace (ref_resource uid) = ''default''" "sName (ref_resource uid) = ''eip''"
  "Rules (Spec (ref_resource uid)) = [ref_rule]" "GatewayNode (Status (ref_resource uid)) = uid"
  "GatewayIP (Status (ref_resource uid)) = ''192.168.1.10''" "ServiceName ref_rule = ''web''"
  by (simp_all add: ref_resource_def ref_sip_def ref_rule_def)

lemma ref_cached:
  "cached (ref_caches [ref_resource uid] eps) w ''default/eip'' = Some (ref_resource uid)"
  by (simp add: cached_def SplitMetaNamespaceKey_def ref_caches_def MetaNamespaceKeyFunc_def)

definition ref_endpoints :: endpoints where
  "ref_endpoints = \<lparr>epSubsets = [\<lparr>epAddresses = [\<lparr>epIP = ''10.1.0.4'', epNodeName = Some ''node1''\<rparr>],
     epPorts = [\<lparr>portNumber = 80\<rparr>]\<rparr>]\<rparr>"

theorem sync_dispatch_witness:
  "syncHandler (ref_host 1) (ref_caches [ref_resource ''u1''] []) ''default/eip'' (ref_node_proc ''u1'' ref_gateway_lx) =
     doGatewyProcessing (ref_host 1) (ref_caches [ref_resource ''u1''] []) (ref_resource ''u1'') (ref_node_proc ''u1'' ref_gateway_lx)"
proof -
  have key: "MetaNamespaceKeyFunc (ref_resource ''u1'') = ''default/eip''" by (simp add: MetaNamespaceKeyFunc_def)
  show ?thesis
    unfolding key [symmetric] by (subst sync_dispatch) (simp_all add: ref_caches_def ref_self_def)
qed

section \<open>Errors\<close>

lemma calm_director_Add: "calm (AddRouteToGateway h d n ips dst gw)"
  unfolding AddRouteToGateway_def by (intro calm_ops)

lemma endpointsOrPanic_run:
  "endpointsOrPanic c ns s p =
     (case endpointsIndexer c (os p) (ns @ ''/'' @ s) of None \<Rightarrow> (Panic NilDeref, p) | Some ep \<Rightarrow> (Ok ep, p))"
  by (simp add: endpointsOrPanic_def endpointsLister_Get_def catchE_def split: option.split)

definition all_known :: "'w controller \<Rightarrow> static_egress_ip \<Rightarrow> bool" where
  "all_known c sip \<longleftrightarrow>
     (\<forall>rule \<in> set (Rules (Spec sip)). \<forall>w. endpointsIndexer c w (sNamespace sip @ ''/'' @ ServiceName rule) \<noteq> None)"

lemma directorRule_result:
  assumes "trafficDirector c = Some d"
  shows "fst (directorRule h c sip i rule p) =
    (if endpointsIndexer c (os p) (sNamespace sip @ ''/'' @ ServiceName rule) = None then Panic NilDeref else Ok ())"
  using assms
  by (auto simp: directorRule_def bindE_def endpointsOrPanic_run on_receiver_def logE_run calmD [OF calm_director_Add]
      split: option.split prod.split outcome.split)

lemma foriE_result:
  assumes "\<And>i x p. x \<in> set xs \<Longrightarrow> fst (body i x p) = Ok () \<or> fst (body i x p) = Panic k"
  shows "fst (foriE i xs body p) = Ok () \<or> fst (foriE i xs body p) = Panic k"
  using assms
proof (induction xs arbitrary: i p)
  case (Cons x xs)
  have "fst (body i x p) = Ok () \<or> fst (body i x p) = Panic k" using Cons.prems by simp
  moreover obtain r q where "body i x p = (r, q)" by (rule prod.exhaust)
  moreover have "fst (foriE (Suc i) xs body q) = Ok () \<or> fst (foriE (Suc i) xs body q) = Panic k"
    using Cons by auto
  ultimately show ?case by (auto simp: bindE_def)
qed simp

lemma foriE_all_Ok:
  assumes "\<And>i x p. x \<in> set xs \<Longrightarrow> fst (body i x p) = Ok ()"
  shows "fst (foriE i xs body p) = Ok ()"
  using assms
proof (induction xs arbitrary: i p)
  case (Cons x xs)
  have "fst (body i x p) = Ok ()" using Cons.prems by simp
  moreover have "fst (foriE j xs body q) = Ok ()" for j q using Cons by auto
  ultimately show ?case by (cases "body i x p") (auto simp: bindE_def)
qed simp

text \<open>
  C31 (director_reports_nothing). A director node never reports a failure: whatever the commands answer,
  \<open>doDirectorProcessing\<close> returns nil, or the agent dies of a nil pointer because a service
  has no endpoints object in the cache. So routes that could not be set up are not retried.
\<close>

theorem director_reports_nothing:
  assumes "trafficDirector c = Some d"
  shows "(fst (doDirectorProcessing h c sip p) = Ok () \<or> fst (doDirectorProcessing h c sip p) = Panic NilDeref) \<and>
     (all_known c sip \<longrightarrow> fst (doDirectorProcessing h c sip p) = Ok ())"
proof -
  have "fst (directorRule h c sip i rule q) = Ok () \<or> fst (directorRule h c sip i rule q) = Panic NilDeref" for i rule q
    by (simp add: directorRule_result [OF assms])
  then have "fst (doDirectorProcessing h c sip p) = Ok () \<or> fst (doDirectorProcessing h c sip p) = Panic NilDeref"
    unfolding doDirectorProcessing_def by (simp add: foriE_result)
  moreover have "fst (doDirectorProcessing h c sip p) = Ok ()" if "all_known c sip"
    unfolding doDirectorProcessing_def using that
    by (simp add: foriE_all_Ok directorRule_result [OF assms] all_known_def)
  ultimately show ?thesis by blast
qed

theorem director_reports_nothing_witness:
  "fst (doDirectorProcessing (ref_host 1) (ref_caches [] [(''default/web'', ref_endpoints)]) (ref_resource ''u9'')
     (ref_node_proc ''u1'' ref_gateway_lx)) = Ok ()"
  using director_reports_nothing [of "ref_caches [] [(''default/web'', ref_endpoints)]" ref_director "ref_host 1"
      "ref_resource ''u9''" "ref_node_proc ''u1'' ref_gateway_lx"]
  by (simp add: ref_caches_def all_known_def)

text \<open>
  C32 (missing_endpoints_crash). A resource whose first rule names a service without an endpoints object kills the
  agent: the error of the lister is logged and the nil result is read. This holds in both
  roles, and nothing was changed on the node before.
\<close>

theorem missing_endpoints_crash:
  assumes "cached c (os p) key = Some sip" and "GatewayNode (Status sip) \<noteq> []" and "GatewayIP (Status sip) \<noteq> []"
    and "Rules (Spec sip) = rule # rules" and "GetNodeObject h [] p = (Ok node, p)"
    and "endpointsIndexer c (os p) (sNamespace sip @ ''/'' @ ServiceName rule) = None"
  shows "syncHandler h c key p = (Panic NilDeref, p)"
proof -
  have "endpointsOrPanic c (sNamespace sip) (ServiceName rule) p = (Panic NilDeref, p)"
    using assms(6) by (simp add: endpointsOrPanic_run)
  then have "doGatewyProcessing h c sip p = (Panic NilDeref, p)" "doDirectorProcessing h c sip p = (Panic NilDeref, p)"
    using assms(3,4) by (simp_all add: doGatewyProcessing_def doDirectorProcessing_def gatewayRule_def directorRule_def bindE_def)
  then show ?thesis using assms(1,2,5) by (simp add: syncHandler_run)
qed

theorem missing_endpoints_crash_witness:
  "syncHandler (ref_host 1) (ref_caches [ref_resource ''u1''] []) ''default/eip'' (ref_node_proc ''u1'' ref_gateway_lx) =
     (Panic NilDeref, ref_node_proc ''u1'' ref_gateway_lx)"
  by (rule missing_endpoints_crash [OF ref_cached]) (simp_all add: ref_caches_def)

section \<open>Frames\<close>

text \<open>The rules that belong to the role the node has for a resource.\<close>

definition role_rules :: "'w host \<Rightarrow> static_egress_ip \<Rightarrow> 'w proc \<Rightarrow> rule_set" where
  "role_rules h sip p =
     (case fst (GetNodeObject h [] p) of
        Ok node \<Rightarrow> if GatewayNode (Status sip) = nodeUID node then gateway_all sip else director_all sip
      | _ \<Rightarrow> {})"

lemma role_rules_subset: "role_rules h sip p \<subseteq> gateway_all sip \<union> director_all sip"
  by (auto simp: role_rules_def split: outcome.split)

lemma sync_changes:
  assumes "node_contract h t v" and ready: "ctl_ready t c" and path: "path_ready t p"
    and run: "syncHandler h c key p = (r, p')"
  shows "all_rules (view v p) \<subseteq> all_rules (view v p')"
    and "all_rules (view v p') \<subseteq> all_rules (view v p) \<union>
       (case cached c (os p) key of None \<Rightarrow> {} | Some sip \<Rightarrow> role_rules h sip p)"
proof -
  note n = assms(1)
  have path': "path_at t False p" using path by simp
  have "p' = p \<or> (\<exists>sip. cached c (os p) key = Some sip \<and>
      (doGatewyProcessing h c sip p = (r, p') \<and> role_rules h sip p = gateway_all sip \<or>
       doDirectorProcessing h c sip p = (r, p') \<and> role_rules h sip p = director_all sip))"
    using run unfolding syncHandler_run
    by (auto simp: role_rules_def split: option.splits if_splits outcome.splits)
  then have "all_rules (view v p) \<subseteq> all_rules (view v p') \<and> all_rules (view v p') \<subseteq> all_rules (view v p) \<union>
       (case cached c (os p) key of None \<Rightarrow> {} | Some sip \<Rightarrow> role_rules h sip p)"
  proof (elim disjE exE conjE)
    fix sip assume s: "cached c (os p) key = Some sip" "doGatewyProcessing h c sip p = (r, p')"
      "role_rules h sip p = gateway_all sip"
    show ?thesis using changesD(2,3) [OF node_contract.changes_doGatewy [OF n ready] path' s(2)] s(1,3) by simp
  next
    fix sip assume s: "cached c (os p) key = Some sip" "doDirectorProcessing h c sip p = (r, p')"
      "role_rules h sip p = director_all sip"
    show ?thesis using changesD(2,3) [OF node_contract.changes_doDirector [OF n ready] path' s(2)] s(1,3) by simp
  qed simp
  then show "all_rules (view v p) \<subseteq> all_rules (view v p')"
    and "all_rules (view v p') \<subseteq> all_rules (view v p) \<union>
       (case cached c (os p) key of None \<Rightarrow> {} | Some sip \<Rightarrow> role_rules h sip p)" by blast+
qed

text \<open>
  C11 (sync_frame). A sync, however it ends, with failing commands or a panic in the middle, removes no
  rule from the node and adds only rules of the resource that the key stands for, and of
  these only the rules of the role the node has: a director node never gets an SNAT rule
  and a gateway node never a mark rule for pods. The node stays well formed.
\<close>

theorem sync_frame:
  assumes doc: "documented h t v" and ready: "ctl_ready t c" and path: "path_ready t p" and wf: "node_wf (view v p)"
    and run: "syncHandler h c key p = (r, p')"
  shows "all_rules (view v p) \<subseteq> all_rules (view v p') \<and>
     all_rules (view v p') \<subseteq> all_rules (view v p) \<union>
       (case cached c (os p) key of None \<Rightarrow> {} | Some sip \<Rightarrow> role_rules h sip p) \<and>
     node_wf (view v p') \<and> path_ready t p'"
proof -
  have n: "node_contract h t v" using doc by unfold_locales
  have path': "path_at t False p" using path by simp
  note e = editsD [OF node_contract.edits_syncHandler [OF n ready] path' run]
  show ?thesis using sync_changes [OF n ready path run] node_edits_wf [OF e(2) wf] e(1) by simp
qed

theorem sync_frame_witness:
  "\<exists>r p'. syncHandler (ref_host 1) (ref_caches [ref_resource ''u9''] [(''default/web'', ref_endpoints)]) ''default/eip''
       (ref_node_proc ''u1'' ref_gateway_lx) = (r, p') \<and>
     all_rules (view rwNode p') \<subseteq> director_all (ref_resource ''u9'') \<and> node_wf (view rwNode p')"
proof -
  obtain r p' where run: "syncHandler (ref_host 1) (ref_caches [ref_resource ''u9''] [(''default/web'', ref_endpoints)])
      ''default/eip'' (ref_node_proc ''u1'' ref_gateway_lx) = (r, p')" by (rule prod.exhaust)
  have "all_rules ref_gateway_lx = {}" by (auto simp: all_rules_def)
  moreover have "role_rules (ref_host 1) (ref_resource ''u9'') (ref_node_proc ''u1'' ref_gateway_lx) =
      director_all (ref_resource ''u9'')" by (simp add: role_rules_def ref_self_def)
  ultimately show ?thesis using sync_frame [OF ref_documented ref_caches_ready _ _ run] run
    by (simp add: ref_cached)
qed

section \<open>A round of a worker\<close>

text \<open>
  A round of \<open>processNextWorkItem\<close> that handles a key is three steps of the queue in a
  row, with the sync between the first two: take the key, forget it after a sync that
  returned nil or add it again after an error, and release it. So every interleaving of
  workers is a run of the queue, to which the invariants of the queue apply.
\<close>

lemma process_item_steps:
  assumes "processNextWorkItem h c bucket now st = Some (Ok True, st')"
    and "plQueue s = agQueue st" and "plWorker s w = Idle"
  shows "\<exists>k. pool_run [Take w k, if fst (syncHandler h c k (agProc st)) = Ok () then Synced w k else Failed w k, Release w k]
       s (s\<lparr>plQueue := agQueue st'\<rparr>) \<and> agProc st' = snd (syncHandler h c k (agProc st))"
proof -
  obtain got q where g: "rq_Get (agQueue st) = (got, q)" by (rule prod.exhaust)
  then obtain k where k: "got = Got k" using assms(1) by (cases got) (auto simp: processNextWorkItem_def)
  obtain r p where run: "syncHandler h c k (agProc st) = (r, p)" by (rule prod.exhaust)
  let ?s1 = "s\<lparr>plQueue := q, plWorker := (plWorker s)(w := Syncing k)\<rparr>"
  have t: "pool_step (Take w k) s ?s1"
    using pool_step.take [of s w k q] assms(2,3) g k by simp
  have rel: "pool_step (Release w k) (?s1\<lparr>plQueue := q', plWorker := (plWorker ?s1)(w := Finishing k)\<rparr>)
      (s\<lparr>plQueue := rq_Done k q'\<rparr>)" for q'
    using pool_step.release [of "?s1\<lparr>plQueue := q', plWorker := (plWorker ?s1)(w := Finishing k)\<rparr>" w k] assms(3)
    by (simp add: fun_upd_idem)
  show ?thesis
  proof (cases r)
    case (Ok u)
    have st': "agProc st' = p" "agQueue st' = rq_Done k (rq_Forget k q)"
      using assms(1) g k run Ok by (auto simp: processNextWorkItem_def)
    have "pool_step (Synced w k) ?s1 (?s1\<lparr>plQueue := rq_Forget k q, plWorker := (plWorker ?s1)(w := Finishing k)\<rparr>)"
      using pool_step.synced [of ?s1 w k] by simp
    with t rel [of "rq_Forget k q"] st' run Ok show ?thesis by (intro exI [of _ k]) (auto simp del: fun_upd_apply)
  next
    case (Err e)
    have st': "agProc st' = p" "agQueue st' = rq_Done k (rq_AddRateLimited k bucket now q)"
      using assms(1) g k run Err by (auto simp: processNextWorkItem_def)
    have "pool_step (Failed w k) ?s1
        (?s1\<lparr>plQueue := rq_AddRateLimited k bucket now q, plWorker := (plWorker ?s1)(w := Finishing k)\<rparr>)"
      using pool_step.failed [of ?s1 w k bucket now] by simp
    with t rel [of "rq_AddRateLimited k bucket now q"] st' run Err show ?thesis
      by (intro exI [of _ k]) (auto simp del: fun_upd_apply)
  next
    case (Panic x)
    then show ?thesis using assms(1) g k run by (auto simp: processNextWorkItem_def)
  qed
qed

text \<open>
  C18 (process_item_outcome). What a round leaves in the queue: after an error the key is coming again, unless the
  queue shuts down, with one failure more on its count; after a nil result its failures are
  forgotten; either way nobody processes it any more, so a later event is handled.
\<close>

theorem process_item_outcome:
  assumes "rq_Get (agQueue st) = (Got k, q)" and "processNextWorkItem h c bucket now st = Some (Ok True, st')"
  shows "(case fst (syncHandler h c k (agProc st)) of
       Ok u \<Rightarrow> failure_count k (rqFailures (agQueue st')) = 0 \<and> rq_todo (agQueue st') = rq_todo q
     | Err e \<Rightarrow> failure_count k (rqFailures (agQueue st')) = Suc (failure_count k (rqFailures (agQueue st))) \<and>
         (\<not> wqDown (rqBase (agQueue st)) \<longrightarrow> k \<in> rq_todo (agQueue st'))
     | Panic x \<Rightarrow> False) \<and>
     k \<notin> wqProcessing (rqBase (agQueue st'))"
proof -
  obtain r p where run: "syncHandler h c k (agProc st) = (r, p)" by (rule prod.exhaust)
  have q: "rqFailures q = rqFailures (agQueue st)" "wqDown (rqBase q) = wqDown (rqBase (agQueue st))"
    using assms(1) by (auto simp: rq_Get_def wq_Get_def split: list.splits if_splits)
  have rel: "rqFailures (rq_Done k x) = rqFailures x" "k \<notin> wqProcessing (rqBase (rq_Done k x))" for x
    by (simp_all add: rq_Done_def on_base_def rq.fin_busy wq.fin_busy)
  have count: "failure_count k (rqFailures (rq_Forget k x)) = 0"
    "failure_count k (rqFailures (rq_AddRateLimited k bucket now x)) = Suc (failure_count k (rqFailures x))" for x
    by (simp_all add: failure_count_def rq_Forget_def item_Forget_def rq_AddRateLimited_eq Let_def)
  show ?thesis
    using assms(2) run q by (cases r) (auto simp: processNextWorkItem_def assms(1) rel count rq.coming_ops)
qed

text \<open>The key of an unassigned resource is taken from a queue that holds it.\<close>

definition ref_agent :: "string \<Rightarrow> ref_world agent" where
  "ref_agent key = \<lparr>agProc = ref_node_proc ''u1'' ref_gateway_lx, agQueue = rq_Add key rq_New\<rparr>"

lemma ref_agent_get:
  "rq_Get (agQueue (ref_agent key)) =
     (Got key, rq_New\<lparr>rqBase := \<lparr>wqQueue = [], wqDirty = {}, wqProcessing = {key}, wqDown = False\<rparr>\<rparr>)"
  by (simp add: ref_agent_def rq_Get_def rq_Add_def on_base_def wq_Add_def wq_Get_def rq_New_def wq_New_def Let_def)

lemma ref_agent_round:
  "\<exists>st'. processNextWorkItem (ref_host 1) (ref_caches [] []) 0 0 (ref_agent key) = Some (Ok True, st')"
proof -
  have "cached (ref_caches [] []) w key = None" for w
    by (cases "SplitMetaNamespaceKey key") (auto simp: cached_def ref_caches_def)
  then show ?thesis by (simp add: processNextWorkItem_def ref_agent_get syncHandler_run)
qed

lemma process_item_steps_witness:
  "\<exists>k e s. pool_run [Take 0 k, e, Release 0 k] (pool_init\<lparr>plQueue := rq_Add ''default/eip'' rq_New\<rparr>) s"
proof -
  obtain st' where st': "processNextWorkItem (ref_host 1) (ref_caches [] []) 0 0 (ref_agent ''default/eip'') = Some (Ok True, st')"
    using ref_agent_round by blast
  show ?thesis
    using process_item_steps [OF st', of "pool_init\<lparr>plQueue := rq_Add ''default/eip'' rq_New\<rparr>" 0]
    by (auto simp: ref_agent_def pool_init_def simp del: pool_run_simps)
qed

theorem process_item_outcome_witness:
  "\<exists>st'. processNextWorkItem (ref_host 1) (ref_caches [] []) 0 0 (ref_agent ''default/eip'') = Some (Ok True, st') \<and>
     ''default/eip'' \<notin> wqProcessing (rqBase (agQueue st'))"
  using ref_agent_round process_item_outcome [OF ref_agent_get] by blast

end
