(* ===== verification/Roles.thy ===== *)
theory Roles
  imports Sync
begin

text \<open>
  What a completed sync of the controller establishes on a node without faults: the sets and
  rules of every rule of the resource, and for a director the tunnel and the routes.
\<close>

section \<open>Loops that carry an invariant\<close>

lemma foriE_invariant:
  assumes "\<And>j p p'. j < length xs \<Longrightarrow> I j p \<Longrightarrow> body (i + j) (xs ! j) p = (Ok (), p') \<Longrightarrow> I (Suc j) p'"
    and "I 0 p" and "foriE i xs body p = (Ok (), p')"
  shows "I (length xs) p'"
  using assms
proof (induction xs arbitrary: I i p)
  case (Cons x xs)
  obtain q where x: "body i x p = (Ok (), q)" and rest: "foriE (Suc i) xs body q = (Ok (), p')"
    using Cons.prems(3) by (auto simp: bindE_def split: prod.splits outcome.splits)
  have "I (Suc 0) q" using Cons.prems(1) [of 0 p q] Cons.prems(2) x by simp
  moreover have "I (Suc (Suc j)) r'" if "j < length xs" "I (Suc j) r" "body (Suc i + j) (xs ! j) r = (Ok (), r')" for j r r'
    using Cons.prems(1) [of "Suc j" r r'] that by simp
  ultimately show ?case using Cons.IH [of "\<lambda>j. I (Suc j)" "Suc i" q] rest by simp
qed simp

lemma fresh_image: "inj_on f {..< n} \<Longrightarrow> k < n \<Longrightarrow> f k \<notin> f ` {..< k :: nat}"
  by (auto dest: inj_onD)

section \<open>The director\<close>

text \<open>The endpoints object of every service of the resource is in the cache throughout.\<close>

definition endpoints_known :: "'w controller \<Rightarrow> static_egress_ip \<Rightarrow> (string \<Rightarrow> endpoints) \<Rightarrow> bool" where
  "endpoints_known c sip eps \<longleftrightarrow>
     (\<forall>rule \<in> set (Rules (Spec sip)). \<forall>w.
        endpointsIndexer c w (sNamespace sip @ ''/'' @ ServiceName rule) = Some (eps (ServiceName rule)))"

lemma endpoints_knownD:
  "endpoints_known c sip eps \<Longrightarrow> i < length (Rules (Spec sip)) \<Longrightarrow>
     endpointsOrPanic c (sNamespace sip) (ServiceName (Rules (Spec sip) ! i)) p =
       (Ok (eps (ServiceName (Rules (Spec sip) ! i))), p)"
  by (simp add: endpoints_known_def endpointsOrPanic_run)

definition rule_ips :: "(string \<Rightarrow> endpoints) \<Rightarrow> static_egress_ip \<Rightarrow> nat \<Rightarrow> string list" where
  "rule_ips eps sip j = endpoint_ips (eps (ServiceName (Rules (Spec sip) ! j)))"

text \<open>
  What a director owes a rule: the set of the endpoints, the mark and the bypass rule, and the
  route to the destination over a tunnel that is up and leads to the gateway.
\<close>

abbreviation gateway_tunnel :: "static_egress_ip \<Rightarrow> string" where
  "gateway_tunnel sip \<equiv> tunnel_name (GatewayIP (Status sip))"

definition director_rule_done :: "string \<Rightarrow> (string \<Rightarrow> endpoints) \<Rightarrow> static_egress_ip \<Rightarrow> nat \<Rightarrow> linux \<Rightarrow> bool" where
  "director_rule_done ip eps sip j lx \<longleftrightarrow>
     set_of lx (ruleId sip j) = Some (set (rule_ips eps sip j)) \<and>
     director_rules (ruleId sip j) (Cidr (Rules (Spec sip) ! j)) \<subseteq> all_rules lx \<and>
     gateway_tunnel sip \<in> lxUp lx \<and> tunnel_of lx (gateway_tunnel sip) = Some (GatewayIP (Status sip), ip) \<and>
     (Cidr (Rules (Spec sip) ! j), OnDevice (gateway_tunnel sip)) \<in> set (routes_of lx route_table)"

text \<open>
  The program takes a link or a route for there when the listing contains its text. The
  listings do not mislead it when the name of the tunnel is in them only where the link is,
  and a link of that name is the tunnel to the gateway; and when the text of a destination, or
  of its address, is in the listing of the table, also with routes of the resource added to
  it, only where the destination is routed over this tunnel. So a route over the tunnel to
  another gateway, which the program would leave as it is, is excluded, and so are
  destinations whose texts contain each other.
\<close>

definition routes_clear :: "tools \<Rightarrow> static_egress_ip \<Rightarrow> (string \<times> next_hop) list \<Rightarrow> bool" where
  "routes_clear t sip rs0 \<longleftrightarrow>
     (\<forall>rs. prefix rs0 rs \<and> set rs \<subseteq> set rs0 \<union> (\<lambda>rule. (Cidr rule, OnDevice (gateway_tunnel sip))) ` set (Rules (Spec sip)) \<longrightarrow>
        (\<forall>rule \<in> set (Rules (Spec sip)).
           contains (tRoutes t rs) (Cidr rule) \<or> contains (tRoutes t rs) (dest_addr_string (Cidr rule)) \<longrightarrow>
           (Cidr rule, OnDevice (gateway_tunnel sip)) \<in> set rs))"

definition tunnel_clear :: "tools \<Rightarrow> string \<Rightarrow> static_egress_ip \<Rightarrow> linux \<Rightarrow> bool" where
  "tunnel_clear t ip sip lx \<longleftrightarrow>
     (link_listed t lx (gateway_tunnel sip) \<longleftrightarrow> gateway_tunnel sip \<in> set (lxLinks lx)) \<and>
     (gateway_tunnel sip \<in> set (lxLinks lx) \<longrightarrow> tunnel_of lx (gateway_tunnel sip) = Some (GatewayIP (Status sip), ip))"

definition listings_clear :: "tools \<Rightarrow> string \<Rightarrow> static_egress_ip \<Rightarrow> linux \<Rightarrow> bool" where
  "listings_clear t ip sip lx \<longleftrightarrow> tunnel_clear t ip sip lx \<and> routes_clear t sip (routes_of lx route_table)"

lemma routes_clear_mono:
  assumes "routes_clear t sip rs0" and "prefix rs0 rs1"
    and "set rs1 \<subseteq> set rs0 \<union> (\<lambda>rule. (Cidr rule, OnDevice (gateway_tunnel sip))) ` set (Rules (Spec sip))"
  shows "routes_clear t sip rs1"
  unfolding routes_clear_def
proof (intro allI impI)
  fix rs
  assume "prefix rs1 rs \<and> set rs \<subseteq> set rs1 \<union> (\<lambda>rule. (Cidr rule, OnDevice (gateway_tunnel sip))) ` set (Rules (Spec sip))"
  with assms(2,3) have "prefix rs0 rs" "set rs \<subseteq> set rs0 \<union> (\<lambda>rule. (Cidr rule, OnDevice (gateway_tunnel sip))) ` set (Rules (Spec sip))"
    by (auto intro: prefix_order.trans)
  with assms(1) show "\<forall>rule \<in> set (Rules (Spec sip)).
      contains (tRoutes t rs) (Cidr rule) \<or> contains (tRoutes t rs) (dest_addr_string (Cidr rule)) \<longrightarrow>
      (Cidr rule, OnDevice (gateway_tunnel sip)) \<in> set rs"
    unfolding routes_clear_def by blast
qed

text \<open>On an empty table a resource with one rule is clear.\<close>

lemma routes_clear_one:
  assumes "tools_ok t" and "Rules (Spec sip) = [rule]" and "Cidr rule \<noteq> []" and "dest_addr_string (Cidr rule) \<noteq> []"
  shows "routes_clear t sip []"
  unfolding routes_clear_def
proof (intro allI impI ballI)
  fix rs x
  assume rs: "prefix [] rs \<and> set rs \<subseteq> set [] \<union> (\<lambda>rule. (Cidr rule, OnDevice (gateway_tunnel sip))) ` set (Rules (Spec sip))"
    and x: "x \<in> set (Rules (Spec sip))" and listed: "contains (tRoutes t rs) (Cidr x) \<or> contains (tRoutes t rs) (dest_addr_string (Cidr x))"
  have "rs \<noteq> []" using listed x assms by (auto simp: tools_ok_def contains_iff_sublist)
  then show "(Cidr x, OnDevice (gateway_tunnel sip)) \<in> set rs" using rs x assms(2) by (cases rs) auto
qed

definition ipv4_destinations :: "static_egress_ip \<Rightarrow> bool" where
  "ipv4_destinations sip \<longleftrightarrow>
     (\<forall>rule \<in> set (Rules (Spec sip)). \<exists>a b c e m. m \<le> 32 \<and> Cidr rule = cidr4 a b c e m)"

text \<open>What the loop keeps after \<open>k\<close> rules.\<close>

definition director_loop ::
  "tools \<Rightarrow> string \<Rightarrow> (string \<Rightarrow> endpoints) \<Rightarrow> static_egress_ip \<Rightarrow> linux \<Rightarrow> nat \<Rightarrow> linux \<Rightarrow> bool" where
  "director_loop t ip eps sip lx k lx' \<longleftrightarrow>
     director_ready lx' \<and> listings_clear t ip sip lx' \<and>
     (\<forall>j < k. director_rule_done ip eps sip j lx') \<and>
     (\<forall>n. n \<notin> ruleId sip ` {..< k} \<longrightarrow> set_of lx' n = set_of lx n)"

lemma director_loop_step:
  assumes added: "director_added t ip (ruleId sip k) (rule_ips eps sip k) (Cidr (Rules (Spec sip) ! k))
      (GatewayIP (Status sip)) lx1 lx2"
    and inv: "director_loop t ip eps sip lx k lx1" and tools: "tools_ok t"
    and fresh: "ruleId sip k \<notin> ruleId sip ` {..< k}" and k: "k < length (Rules (Spec sip))"
  shows "director_loop t ip eps sip lx (Suc k) lx2"
proof -
  let ?tun = "gateway_tunnel sip" and ?dst = "Cidr (Rules (Spec sip) ! k)"
  have clear: "tunnel_clear t ip sip lx1" "routes_clear t sip (routes_of lx1 route_table)"
    using inv by (simp_all add: director_loop_def listings_clear_def)
  have rt: "routes_of lx2 route_table = (if \<not> route_listed t lx1 ?dst \<and> \<not> route_listed t lx1 (dest_addr_string ?dst)
      then routes_of lx1 route_table @ [(?dst, OnDevice ?tun)] else routes_of lx1 route_table)"
    using added by (simp add: director_added_def)
  have pre: "prefix (routes_of lx1 route_table) (routes_of lx2 route_table)" by (simp add: rt)
  have rule: "Rules (Spec sip) ! k \<in> set (Rules (Spec sip))" using k by simp
  have "(?dst, OnDevice ?tun) \<in> set (routes_of lx1 route_table)"
    if "route_listed t lx1 ?dst \<or> route_listed t lx1 (dest_addr_string ?dst)"
    using clear(2) rule that unfolding routes_clear_def route_listed_def by blast
  then have routed: "(?dst, OnDevice ?tun) \<in> set (routes_of lx2 route_table)" by (auto simp: rt)
  have rules: "all_rules lx2 = all_rules lx1 \<union> director_rules (ruleId sip k) ?dst"
    using added by (auto simp: director_added_def director_rules_def)
  have tun: "?tun \<in> set (lxLinks lx2)" "link_listed t lx2 ?tun" "?tun \<in> lxUp lx2"
    using added tools by (auto simp: director_added_def link_listed_def tools_ok_def)
  have leads: "tunnel_of lx2 ?tun = Some (GatewayIP (Status sip), ip)"
  proof (cases "link_listed t lx1 ?tun")
    case True
    then have "tunnel_of lx2 = tunnel_of lx1" using added by (simp add: director_added_def)
    then show ?thesis using clear(1) True by (simp add: tunnel_clear_def)
  next
    case False
    then have "tunnel_of lx2 = (tunnel_of lx1)(?tun \<mapsto> (GatewayIP (Status sip), ip))" using added by (simp add: director_added_def)
    then show ?thesis by simp
  qed
  have ready: "director_ready lx2"
    using added inv by (simp add: director_added_def director_loop_def director_ready_def)
  have "routes_clear t sip (routes_of lx2 route_table)"
    by (rule routes_clear_mono [OF clear(2) pre]) (use rule in \<open>auto simp: rt\<close>)
  then have clear2: "listings_clear t ip sip lx2" using tun leads by (simp add: listings_clear_def tunnel_clear_def)
  have old: "director_rule_done ip eps sip j lx2" if "j < k" for j
  proof -
    have "ruleId sip j \<noteq> ruleId sip k" using fresh that by (metis imageI lessThan_iff)
    moreover have "director_rule_done ip eps sip j lx1" using inv that by (simp add: director_loop_def)
    moreover have "set_of lx2 = (set_of lx1)(ruleId sip k \<mapsto> set (rule_ips eps sip k))" using added by (simp add: director_added_def)
    ultimately show ?thesis
      using rules tun(3) leads set_mono_prefix [OF pre] by (auto simp: director_rule_done_def)
  qed
  have new: "director_rule_done ip eps sip k lx2"
    using added rules tun(3) leads routed by (auto simp: director_rule_done_def director_added_def)
  have sets: "set_of lx2 n = set_of lx n" if "n \<notin> ruleId sip ` {..< Suc k}" for n
    using that added inv by (auto simp: director_added_def director_loop_def lessThan_Suc)
  show ?thesis unfolding director_loop_def
    using ready clear2 old new sets by (auto simp: less_Suc_eq)
qed

lemma director_apart:
  assumes "tools_ok t" and "director_loop t ip eps sip lx k lx'" and "ipv4_destinations sip" and "k < length (Rules (Spec sip))"
  shows "director_ready lx' \<and> names_apart t lx' (Cidr (Rules (Spec sip) ! k)) (GatewayIP (Status sip))"
proof -
  obtain a b c e m where m: "m \<le> 32" "Cidr (Rules (Spec sip) ! k) = cidr4 a b c e m"
    using assms(3,4) unfolding ipv4_destinations_def by (meson nth_mem)
  have "route_listed t lx' (cidr4 a b c e m) \<or> route_listed t lx' (dest_addr_string (cidr4 a b c e m))"
    if "(cidr4 a b c e m, nh) \<in> set (routes_of lx' route_table)" for nh
    using listed_cidr4 [OF assms(1) that m(1)] .
  then show ?thesis using assms(2) m(2) by (auto simp: names_apart_def director_loop_def listings_clear_def tunnel_clear_def)
qed

context node_contract
begin

lemma director_run:
  assumes rel: "reliable h t v" and d: "trafficDirector c = Some d" "ipt_ready t (dirIpt d)"
    and eps: "endpoints_known c sip eps" and v4: "ipv4_destinations sip"
    and inj: "inj_on (ruleId sip) {..< length (Rules (Spec sip))}"
    and start: "path_ready t p" "director_loop t (dirNodeIP d) eps sip (view v p) 0 (view v p)"
    and run: "foriE 0 (Rules (Spec sip)) (directorRule h c sip) p = (Ok (), p')"
  shows "director_loop t (dirNodeIP d) eps sip (view v p) (length (Rules (Spec sip))) (view v p')"
proof -
  let ?rs = "Rules (Spec sip)"
  have "path_ready t p' \<and> director_loop t (dirNodeIP d) eps sip (view v p) (length ?rs) (view v p')"
  proof (rule foriE_invariant [OF _ _ run])
    fix k q q'
    assume k: "k < length ?rs" and inv: "path_ready t q \<and> director_loop t (dirNodeIP d) eps sip (view v p) k (view v q)"
      and step: "directorRule h c sip (0 + k) (?rs ! k) q = (Ok (), q')"
    obtain r where add: "AddRouteToGateway h d (ruleId sip k) (rule_ips eps sip k) (Cidr (?rs ! k))
        (GatewayIP (Status sip)) q = (r, q')"
      using step endpoints_knownD [OF eps k]
      by (auto simp: directorRule_def bindE_def d on_receiver_def logE_run rule_ips_def split: prod.splits outcome.splits)
    note i = implementsD [OF implements_director_Add [OF d(2)] _ add]
    have ok: "director_ready (view v q) \<and> names_apart t (view v q) (Cidr (?rs ! k)) (GatewayIP (Status sip))"
      using director_apart [OF tools _ v4 k] inv by blast
    have path: "path_at t False q" using inv by simp
    obtain x where "r = Ok x" using i(4) [OF path rel] director_add_defined ok by blast
    then have "director_added t (dirNodeIP d) (ruleId sip k) (rule_ips eps sip k) (Cidr (?rs ! k))
        (GatewayIP (Status sip)) (view v q) (view v q')"
      using i(3) [OF path] director_add_Some by blast
    moreover have "ruleId sip k \<notin> ruleId sip ` {..< k}"
      using fresh_image [OF inj k] .
    ultimately show "path_ready t q' \<and> director_loop t (dirNodeIP d) eps sip (view v p) (Suc k) (view v q')"
      using director_loop_step [OF _ _ tools _ k] inv i(1) [OF path] by simp
  qed (use start in simp)
  then show ?thesis ..
qed

end

text \<open>
  C6 (director_sync_correct). On a node without faults that is set up as a director, with the endpoints objects of
  the services in the cache, IPv4 destinations, rule names that differ and listings that do
  not mislead the substring tests (no stale route over another tunnel, no link of another use
  under the name of the tunnel), \<open>doDirectorProcessing\<close> returns nil, and then for every rule of
  the resource the set has exactly the addresses of the endpoints, the mark rule and the bypass
  rule are there, and the destination is routed over a tunnel that is up and leads from this
  node to the gateway; other sets are left alone.
\<close>

theorem director_sync_correct:
  assumes "documented h t v" and "reliable h t v"
    and "trafficDirector c = Some d" and "ipt_ready t (dirIpt d)" and "path_ready t p"
    and "endpoints_known c sip eps" and "ipv4_destinations sip" and "GatewayIP (Status sip) \<noteq> []"
    and "inj_on (ruleId sip) {..< length (Rules (Spec sip))}"
    and "director_ready (view v p)" and "listings_clear t (dirNodeIP d) sip (view v p)"
    and "doDirectorProcessing h c sip p = (r, p')"
  shows "r = Ok () \<and> (\<forall>j < length (Rules (Spec sip)). director_rule_done (dirNodeIP d) eps sip j (view v p')) \<and>
     (\<forall>n. n \<notin> ruleId sip ` {..< length (Rules (Spec sip))} \<longrightarrow> set_of (view v p') n = set_of (view v p) n)"
proof -
  have nc: "node_contract h t v" using assms(1) by unfold_locales
  have run: "foriE 0 (Rules (Spec sip)) (directorRule h c sip) p = (r, p')"
    using assms(8,12) by (simp add: doDirectorProcessing_def)
  have "fst (foriE 0 (Rules (Spec sip)) (directorRule h c sip) p) = Ok ()"
    using assms(6) by (intro foriE_all_Ok) (simp add: directorRule_result [OF assms(3)] endpoints_known_def)
  then have r: "r = Ok ()" using run by simp
  have "director_loop t (dirNodeIP d) eps sip (view v p) (length (Rules (Spec sip))) (view v p')"
    using node_contract.director_run [OF nc assms(2,3,4,6,7,9,5) _ run [unfolded r]] assms(10,11)
    by (simp add: director_loop_def)
  then show ?thesis using r by (simp add: director_loop_def)
qed


lemma ref_known:
  "endpoints_known (ref_caches sips [(''default/web'', ref_endpoints)]) (ref_resource uid) (\<lambda>_. ref_endpoints)"
  "endpoint_ips ref_endpoints = [''10.1.0.4'']"
  by (simp_all add: endpoints_known_def ref_caches_def endpoint_ips_def endpoint_addresses_def subset_addresses_def ref_endpoints_def)

lemma ref_destinations: "ipv4_destinations (ref_resource uid)"
proof -
  have "\<exists>a b c e m. m \<le> 32 \<and> Cidr ref_rule = cidr4 a b c e m"
    by (rule exI [of _ 8], rule exI [of _ 8], rule exI [of _ 8], rule exI [of _ 0], rule exI [of _ 24])
      (simp add: ref_rule_def)
  then show ?thesis by (simp add: ipv4_destinations_def)
qed

lemma ref_listings_clear: "listings_clear (ref_tools 1) ip (ref_resource uid) ref_director_lx"
proof -
  have tun: "tunnel_name ''192.168.1.10'' = ''tun192168110''" by (simp add: tunnel_name_def remove_dots_def)
  have "link_listed (ref_tools 1) ref_director_lx ''tun192168110'' \<longleftrightarrow> ''tun192168110'' \<in> set (lxLinks ref_director_lx)"
    by (simp add: link_listed_def) (simp add: ref_tools_def)
  then have "tunnel_clear (ref_tools 1) ip (ref_resource uid) ref_director_lx" by (simp add: tunnel_clear_def tun)
  moreover have "Cidr ref_rule \<noteq> []" "dest_addr_string (Cidr ref_rule) \<noteq> []"
    by (simp add: ref_rule_def cidr4_def) (simp add: ref_rule_def dest_addr_cidr4, simp add: dotted_def)
  moreover have "tools_ok (ref_tools 1)" using ref_documented unfolding documented_def by blast
  ultimately show ?thesis using routes_clear_one [of "ref_tools 1" "ref_resource uid" ref_rule]
    by (simp add: listings_clear_def)
qed

theorem director_sync_correct_witness:
  "\<exists>p'. doDirectorProcessing (ref_host 1) (ref_caches [] [(''default/web'', ref_endpoints)]) (ref_resource ''u9'')
       (ref_node_proc ''u1'' ref_director_lx) = (Ok (), p') \<and>
     set_of (view rwNode p') (ruleId (ref_resource ''u9'') 0) = Some {''10.1.0.4''} \<and>
     (Cidr ref_rule, OnDevice ''tun192168110'') \<in> set (routes_of (view rwNode p') route_table) \<and>
     fst (the (tunnel_of (view rwNode p') ''tun192168110'')) = ''192.168.1.10''"
proof -
  let ?c = "ref_caches [] [(''default/web'', ref_endpoints)]" and ?p = "ref_node_proc ''u1'' ref_director_lx"
  obtain r p' where run: "doDirectorProcessing (ref_host 1) ?c (ref_resource ''u9'') ?p = (r, p')" by (rule prod.exhaust)
  have tun: "tunnel_name ''192.168.1.10'' = ''tun192168110''"
    by (simp add: tunnel_name_def remove_dots_def)
  have "ipv4_destinations (ref_resource ''u9'')" by (rule ref_destinations)
  moreover have "trafficDirector ?c = Some ref_director" by (simp add: ref_caches_def)
  moreover have "inj_on (ruleId (ref_resource ''u9'')) {..< Suc 0}" by (simp add: lessThan_Suc)
  moreover have "listings_clear (ref_tools 1) (dirNodeIP ref_director) (ref_resource ''u9'') (view rwNode ?p)"
    using ref_listings_clear by simp
  ultimately show ?thesis
    using director_sync_correct [OF ref_documented ref_reliable _ ref_director_simps(1) _ ref_known(1) _ _ _ _ _ run] run
    by (auto simp: tun director_rule_done_def rule_ips_def ref_known(2))
qed


section \<open>The gateway\<close>

text \<open>Tunnels and routes to the nodes of the endpoints leave rules, sets and chains alone.\<close>

definition tunnels_only :: "tools \<Rightarrow> ('w \<Rightarrow> linux) \<Rightarrow> 'w proc \<Rightarrow> 'w proc \<Rightarrow> bool" where
  "tunnels_only t v p p' \<longleftrightarrow> (path_ready t p \<longrightarrow> path_ready t p' \<and> same_rules (view v p) (view v p'))"

interpretation tun: step_order "tunnels_only t v" for t v
  by unfold_locales (auto simp: tunnels_only_def same_rules_def)

lemma tunnels_same:
  assumes "\<And>p r p'. m p = (r, p') \<Longrightarrow> ipsetPath p' = ipsetPath p \<and> same_rules (view v p) (view v p')"
  shows "moves (tunnels_only t v) m"
  by (rule movesI) (use assms in \<open>auto simp: tunnels_only_def path_ready_def\<close>)

context node_contract
begin

lemma tunnels_lists:
  "moves (tunnels_only t v) (cmdOutput h [''ip'', ''link'', ''list''])"
  "moves (tunnels_only t v) (cmdOutput h [''ip'', ''route'', ''list'', ''table'', tab])"
  by (rule tunnels_same, drule link_list_cases route_list_cases, simp add: same_rules_def)+

lemma tunnels_acts:
  "moves (tunnels_only t v) (cmdRun h [''ip'', ''link'', ''set'', ''up'', n])"
  "moves (tunnels_only t v) (cmdRun h [''ip'', ''tunnel'', ''add'', n, ''mode'', ''gre'', ''remote'', g, ''local'', l])"
  "moves (tunnels_only t v) (cmdRun h [''ip'', ''route'', ''add'', d, ''dev'', n, ''table'', tab])"
  by (rule tunnels_same, drule link_up_cases tunnel_add_cases route_add_cases, auto simp: same_rules_def)+

lemma tunnels_read: "moves (tunnels_only t v) (askE f)"
  by (rule tunnels_same) (auto simp: same_rules_def split: sum.splits)

lemma tunnels_endpoint: "moves (tunnels_only t v) (tunnelToEndpoint h c a)"
  unfolding tunnelToEndpoint_def tunnelAndRoute_def GetNodeIPByNodeName_def getNode_def
  by (auto intro!: tun.moves_rules tun.moves_catchE tunnels_read tunnels_lists tunnels_acts split: option.split sum.split)

lemma tunnels_static: "moves (tunnels_only t v) (ConfigureStaticIP h s)"
  by (rule tunnels_same, drule StaticIP_same [OF disjI1]) (simp add: same_rules_def)


end

definition gateway_rule_done :: "(string \<Rightarrow> endpoints) \<Rightarrow> static_egress_ip \<Rightarrow> nat \<Rightarrow> linux \<Rightarrow> bool" where
  "gateway_rule_done eps sip j lx \<longleftrightarrow>
     set_of lx (ruleId sip j) = Some (set (rule_ips eps sip j)) \<and>
     gateway_rules (ruleId sip j) (Cidr (Rules (Spec sip) ! j)) (EgressIP (Rules (Spec sip) ! j)) \<subseteq> all_rules lx"

definition gateway_loop :: "(string \<Rightarrow> endpoints) \<Rightarrow> static_egress_ip \<Rightarrow> linux \<Rightarrow> nat \<Rightarrow> linux \<Rightarrow> bool" where
  "gateway_loop eps sip lx k lx' \<longleftrightarrow>
     gateway_ready lx' \<and> (\<forall>j < k. gateway_rule_done eps sip j lx') \<and>
     (\<forall>n. n \<notin> ruleId sip ` {..< k} \<longrightarrow> set_of lx' n = set_of lx n)"

lemma gateway_loop_same:
  assumes "same_rules lx1 lx2"
  shows "gateway_loop eps sip lx k lx1 = gateway_loop eps sip lx k lx2"
proof -
  have "all_rules lx1 = all_rules lx2" "set_of lx1 = set_of lx2" "chain_in lx1 = chain_in lx2"
    using assms same_rules_in [OF assms] by (simp_all add: all_rules_def same_rules_def)
  then show ?thesis by (simp add: gateway_loop_def gateway_ready_def gateway_rule_done_def)
qed

lemma gateway_loop_step:
  assumes added: "gateway_add_effect (ruleId sip k) (rule_ips eps sip k) (Cidr (Rules (Spec sip) ! k))
      (EgressIP (Rules (Spec sip) ! k)) lx1 = Some lx2"
    and inv: "gateway_loop eps sip lx k lx1" and fresh: "ruleId sip k \<notin> ruleId sip ` {..< k}"
  shows "gateway_loop eps sip lx (Suc k) lx2"
proof -
  note a = gateway_add_Some [OF added]
  have rules: "all_rules lx2 = all_rules lx1 \<union>
      gateway_rules (ruleId sip k) (Cidr (Rules (Spec sip) ! k)) (EgressIP (Rules (Spec sip) ! k))"
    using a by auto
  have old: "gateway_rule_done eps sip j lx2" if "j < k" for j
  proof -
    have "ruleId sip j \<noteq> ruleId sip k" using fresh that by (metis imageI lessThan_iff)
    moreover have "gateway_rule_done eps sip j lx1" using inv that by (simp add: gateway_loop_def)
    ultimately show ?thesis using a rules by (auto simp: gateway_rule_done_def)
  qed
  have new: "gateway_rule_done eps sip k lx2" using a rules by (simp add: gateway_rule_done_def)
  have sets: "set_of lx2 n = set_of lx n" if "n \<notin> ruleId sip ` {..< Suc k}" for n
    using that a inv by (auto simp: gateway_loop_def lessThan_Suc)
  show ?thesis unfolding gateway_loop_def
    using a inv old new sets by (auto simp: less_Suc_eq gateway_loop_def gateway_ready_def)
qed

context node_contract
begin

lemma gateway_run:
  assumes rel: "reliable h t v" and gw: "trafficGateway c = Some gw" "ipt_ready t (gwIpt gw)"
    and eps: "endpoints_known c sip eps"
    and inj: "inj_on (ruleId sip) {..< length (Rules (Spec sip))}"
    and start: "path_ready t p" "gateway_ready (view v p)"
    and run: "doGatewyProcessing h c sip p = (Ok (), p')"
  shows "gateway_loop eps sip (view v p) (length (Rules (Spec sip))) (view v p')"
proof -
  let ?rs = "Rules (Spec sip)"
  have "path_ready t p' \<and> gateway_loop eps sip (view v p) (length ?rs) (view v p')"
  proof (rule foriE_invariant [OF _ _ run [unfolded doGatewyProcessing_def]])
    fix k q q'
    assume k: "k < length ?rs" and inv: "path_ready t q \<and> gateway_loop eps sip (view v p) k (view v q)"
      and step: "gatewayRule h c sip (0 + k) (?rs ! k) q = (Ok (), q')"
    obtain q1 r q2 r2 where tunnels: "forE (endpoint_addresses (eps (ServiceName (?rs ! k)))) (tunnelToEndpoint h c) q = (Ok (), q1)"
      and add: "AddStaticIptablesRule h gw (ruleId sip k) (rule_ips eps sip k) (Cidr (?rs ! k)) (EgressIP (?rs ! k)) q1 = (r, q2)"
      and ip: "ConfigureStaticIP h (EgressIP (?rs ! k) @ ''/32'') q2 = (r2, q')"
      using step endpoints_knownD [OF eps k]
      by (auto simp: gatewayRule_def bindE_def gw on_receiver_def logE_run rule_ips_def split: prod.splits outcome.splits)
    have same: "path_ready t q1" "same_rules (view v q) (view v q1)"
      using movesD [OF tun.moves_forE [OF tunnels_endpoint] tunnels] inv by (simp_all add: tunnels_only_def)
    have q1: "path_ready t q1" "gateway_loop eps sip (view v p) k (view v q1)"
      using inv same gateway_loop_same [OF same(2)] by simp_all
    note i = implementsD [OF implements_gateway_Add [OF gw(2)] _ add]
    have path: "path_at t False q1" using q1 by simp
    have "gateway_ready (view v q1)" using q1(2) by (simp add: gateway_loop_def)
    then obtain x where "r = Ok x" using i(4) [OF path rel] gateway_add_defined by blast
    then have "gateway_loop eps sip (view v p) (Suc k) (view v q2)"
      using gateway_loop_step [OF _ q1(2) fresh_image [OF inj k]] i(3) [OF path] by blast
    moreover have "path_ready t q'" "same_rules (view v q2) (view v q')"
      using movesD [OF tunnels_static ip] i(1) [OF path] by (simp_all add: tunnels_only_def)
    ultimately show "path_ready t q' \<and> gateway_loop eps sip (view v p) (Suc k) (view v q')"
      using gateway_loop_same by blast
  qed (use start in \<open>simp add: gateway_loop_def\<close>)
  then show ?thesis ..
qed

end

text \<open>An endpoint that runs on the gateway itself needs no tunnel.\<close>

definition on_this_node :: "'w host \<Rightarrow> 'w controller \<Rightarrow> ep_address \<Rightarrow> bool" where
  "on_this_node h c addr \<longleftrightarrow>
     (\<exists>nm. epNodeName addr = Some nm \<and>
        (\<forall>q. \<exists>ip. GetNodeIPByNodeName h nm q = (Ok ip, q) \<and> IP_String ip = ctlNodeIP c))"

lemma calm_gateway_Add: "calm (AddStaticIptablesRule h gw n ips dst eip)"
  unfolding AddStaticIptablesRule_def insertRule_def by (intro calm_ops)

lemma forE_all_Ok: "(\<And>x q. x \<in> set xs \<Longrightarrow> fst (body x q) = Ok ()) \<Longrightarrow> fst (forE xs body q) = Ok ()"
proof (induction xs arbitrary: q)
  case (Cons x xs)
  have "fst (body x q) = Ok ()" using Cons.prems by simp
  moreover have "fst (forE xs body q') = Ok ()" for q' using Cons by simp
  ultimately show ?case by (cases "body x q") (auto simp: bindE_def)
qed simp

context reliable_node
begin

lemma link_list_ok: "\<exists>q'. cmdOutput h [''ip'', ''link'', ''list''] q = (Ok (tLinks t (lxLinks (view v q))), q')"
  by (rule cmdOutput_ok) (simp add: lx_step_def ip_cmd_def)

end

lemma local_endpoint:
  assumes "documented h t v" and "reliable h t v" and "on_this_node h c addr"
  shows "fst (tunnelToEndpoint h c addr q) = Ok ()"
proof -
  have "reliable_node h t v" using assms(1,2) by unfold_locales
  then obtain q' where "cmdOutput h [''ip'', ''link'', ''list''] q = (Ok (tLinks t (lxLinks (view v q))), q')"
    using reliable_node.link_list_ok by blast
  moreover obtain nm ip where "epNodeName addr = Some nm" "GetNodeIPByNodeName h nm q = (Ok ip, q)" "IP_String ip = ctlNodeIP c"
    using assms(3) unfolding on_this_node_def by blast
  ultimately show ?thesis by (simp add: tunnelToEndpoint_def tunnelAndRoute_def bindE_def catchE_def wrapE_run)
qed

lemma gatewayRule_local:
  assumes "documented h t v" and "reliable h t v" and "trafficGateway c = Some gw"
    and "endpoints_known c sip eps" and "rule \<in> set (Rules (Spec sip))"
    and "\<forall>addr \<in> set (endpoint_addresses (eps (ServiceName rule))). on_this_node h c addr"
  shows "fst (gatewayRule h c sip i rule q) = Ok ()"
proof -
  have "endpointsOrPanic c (sNamespace sip) (ServiceName rule) q = (Ok (eps (ServiceName rule)), q)"
    using assms(4,5) by (simp add: endpoints_known_def endpointsOrPanic_run)
  moreover have "fst (forE (endpoint_addresses (eps (ServiceName rule))) (tunnelToEndpoint h c) q) = Ok ()"
    by (rule forE_all_Ok) (use local_endpoint [OF assms(1,2)] assms(6) in blast)
  ultimately show ?thesis
    using assms(3) by (auto simp: gatewayRule_def bindE_def on_receiver_def logE_run calmD [OF calm_gateway_Add]
        calmD [OF calm_StaticIP(1)] split: prod.splits outcome.splits)
qed

text \<open>
  The gateway reaches all endpoints: the node of each is known, an address is listed as it is
  written, and the names of the tunnels to these nodes are in the listing of the links only
  where the links are, also when links of this kind are added.
\<close>

definition endpoint_at :: "'w host \<Rightarrow> ep_address \<Rightarrow> string \<Rightarrow> bool" where
  "endpoint_at h addr node \<longleftrightarrow>
     (\<exists>nm. epNodeName addr = Some nm \<and> (\<forall>q. \<exists>ip. GetNodeIPByNodeName h nm q = (Ok ip, q) \<and> IP_String ip = node))"

definition endpoints_of :: "(string \<Rightarrow> endpoints) \<Rightarrow> static_egress_ip \<Rightarrow> ep_address set" where
  "endpoints_of eps sip = (\<Union>rule \<in> set (Rules (Spec sip)). set (endpoint_addresses (eps (ServiceName rule))))"

definition endpoint_tunnels :: "'w host \<Rightarrow> 'w controller \<Rightarrow> (string \<Rightarrow> endpoints) \<Rightarrow> static_egress_ip \<Rightarrow> string set" where
  "endpoint_tunnels h c eps sip =
     {tunnel_name node | node. node \<noteq> ctlNodeIP c \<and> (\<exists>addr \<in> endpoints_of eps sip. endpoint_at h addr node)}"

definition links_clear :: "tools \<Rightarrow> string set \<Rightarrow> string list \<Rightarrow> bool" where
  "links_clear t T ls0 \<longleftrightarrow>
     (\<forall>ls. prefix ls0 ls \<and> set ls \<subseteq> set ls0 \<union> T \<longrightarrow> (\<forall>n \<in> T. contains (tLinks t ls) n \<longleftrightarrow> n \<in> set ls))"

definition endpoints_reached ::
  "tools \<Rightarrow> 'w host \<Rightarrow> 'w controller \<Rightarrow> (string \<Rightarrow> endpoints) \<Rightarrow> static_egress_ip \<Rightarrow> linux \<Rightarrow> bool" where
  "endpoints_reached t h c eps sip lx \<longleftrightarrow>
     (\<forall>addr \<in> endpoints_of eps sip. (\<exists>node. endpoint_at h addr node) \<and> contains (shown_dest (epIP addr)) (epIP addr)) \<and>
     links_clear t (endpoint_tunnels h c eps sip) (lxLinks lx)"

lemma endpoint_at_unique: "endpoint_at h addr node \<Longrightarrow> endpoint_at h addr node' \<Longrightarrow> node = node'"
  unfolding endpoint_at_def by (metis Pair_inject option.inject outcome.inject(1))

text \<open>Endpoints on the gateway itself are reached without tunnels.\<close>

lemma local_reached:
  assumes "\<And>addr. addr \<in> endpoints_of eps sip \<Longrightarrow>
      endpoint_at h addr (ctlNodeIP c) \<and> contains (shown_dest (epIP addr)) (epIP addr)"
  shows "endpoints_reached t h c eps sip lx"
proof -
  have "endpoint_tunnels h c eps sip = {}"
    using assms endpoint_at_unique unfolding endpoint_tunnels_def by blast
  then show ?thesis using assms unfolding endpoints_reached_def links_clear_def by auto
qed

lemma links_clear_snoc:
  assumes "links_clear t T ls" and "n \<in> T"
  shows "links_clear t T (ls @ [n])"
  unfolding links_clear_def
proof (intro allI impI)
  fix ls'
  assume "prefix (ls @ [n]) ls' \<and> set ls' \<subseteq> set (ls @ [n]) \<union> T"
  then have "prefix ls ls'" "set ls' \<subseteq> set ls \<union> T" using assms(2) by (auto dest: append_prefixD)
  then show "\<forall>m \<in> T. contains (tLinks t ls') m \<longleftrightarrow> m \<in> set ls'" using assms(1) unfolding links_clear_def by blast
qed

text \<open>What the program does for an endpoint on another node.\<close>

definition have_host_route :: "tools \<Rightarrow> string \<Rightarrow> string \<Rightarrow> linux \<Rightarrow> linux option" where
  "have_host_route t d n lx =
     (if \<not> route_listed t lx d
      then (if n \<in> set (lxLinks lx) \<and> d \<notin> fst ` set (routes_of lx route_table)
            then Some (add_route route_table d n lx) else None)
      else Some lx)"

definition endpoint_effect :: "tools \<Rightarrow> string \<Rightarrow> string \<Rightarrow> string \<Rightarrow> linux \<Rightarrow> linux option" where
  "endpoint_effect t own d node =
     steps [have_tunnel t (tunnel_name node) node own, have_up (tunnel_name node), have_host_route t d (tunnel_name node)]"

context node_contract
begin

lemma implements_endpoint:
  assumes "node \<noteq> ctlNodeIP c"
  shows "implements h t v k (tunnelAndRoute h c d node) (endpoint_effect t (ctlNodeIP c) d node)"
  unfolding tunnelAndRoute_def endpoint_effect_def have_up_def [abs_def] if_not_P [OF assms]
  by (intro implements_steps [OF implements_wrap [OF implements_link_up]]
      implements_ask_steps [OF asks_wrap [OF asks_link_list]
        implements_optional [OF implements_wrap [OF implements_tunnel_add]]]
      implements_ask_last [OF asks_wrap [OF asks_route_list]
        implements_optional [OF implements_wrap [OF implements_route_add]]])
    (simp_all add: have_tunnel_def have_host_route_def link_listed_def route_listed_def)

end

lemma endpoint_effect_defined:
  assumes "tools_ok t" and "links_clear t T (lxLinks lx)" and "tunnel_name node \<in> T" and "contains (shown_dest d) d"
  obtains lx' where "endpoint_effect t own d node lx = Some lx'" and "links_clear t T (lxLinks lx')"
proof -
  let ?n = "tunnel_name node"
  have listed: "link_listed t lx ?n \<longleftrightarrow> ?n \<in> set (lxLinks lx)"
    using assms(2,3) unfolding links_clear_def link_listed_def by blast
  then obtain l1 where l1: "have_tunnel t ?n node own lx = Some l1" by (auto simp: have_tunnel_def)
  note a = have_tunnel_Some [OF l1]
  have n1: "?n \<in> set (lxLinks l1)" "links_clear t T (lxLinks l1)"
    using a(4) listed assms(2) links_clear_snoc [OF assms(2,3)] by auto
  then obtain l2 where l2: "have_up ?n l1 = Some l2" by (auto simp: have_up_def)
  note b = have_up_Some [OF l2]
  have "route_listed t l2 d" if "d \<in> fst ` set (routes_of l2 route_table)"
  proof -
    have "contains (tRoutes t (routes_of l2 route_table)) (shown_dest d)" using that assms(1) by (fastforce simp: tools_ok_def)
    then show ?thesis using contains_trans assms(4) unfolding route_listed_def by blast
  qed
  then have "have_host_route t d ?n l2 \<noteq> None" using n1(1) b(3) by (auto simp: have_host_route_def)
  then obtain l3 where l3: "have_host_route t d ?n l2 = Some l3" by blast
  have "lxLinks l3 = lxLinks l2" using l3 by (auto simp: have_host_route_def split: if_splits)
  then show thesis using that [of l3] l1 l2 l3 n1(2) b(3) by (simp add: endpoint_effect_def)
qed

lemma forE_succeeds:
  assumes "\<And>x p. x \<in> set xs \<Longrightarrow> I p \<Longrightarrow> \<exists>p'. body x p = (Ok (), p') \<and> I p'" and "I p"
  shows "\<exists>p'. forE xs body p = (Ok (), p') \<and> I p'"
  using assms
proof (induction xs arbitrary: p)
  case (Cons x xs)
  obtain q where q: "body x p = (Ok (), q)" "I q" using Cons.prems by (meson list.set_intros(1))
  have "\<exists>p'. forE xs body q = (Ok (), p') \<and> I p'" using Cons.IH [OF Cons.prems(1) q(2)] by simp
  then show ?case using q(1) by (simp add: bindE_def)
qed simp

lemma foriE_succeeds:
  assumes "\<And>j p. j < length xs \<Longrightarrow> I j p \<Longrightarrow> \<exists>p'. body (i + j) (xs ! j) p = (Ok (), p') \<and> I (Suc j) p'" and "I 0 p"
  shows "\<exists>p'. foriE i xs body p = (Ok (), p') \<and> I (length xs) p'"
  using assms
proof (induction xs arbitrary: I i p)
  case (Cons x xs)
  obtain q where q: "body i x p = (Ok (), q)" "I (Suc 0) q" using Cons.prems(1) [of 0 p] Cons.prems(2) by auto
  have "\<exists>p'. body (Suc i + j) (xs ! j) r = (Ok (), p') \<and> I (Suc (Suc j)) p'" if "j < length xs" "I (Suc j) r" for j r
    using Cons.prems(1) [of "Suc j" r] that by simp
  then have "\<exists>p'. foriE (Suc i) xs body q = (Ok (), p') \<and> I (Suc (length xs)) p'"
    using Cons.IH [of "\<lambda>j. I (Suc j)" "Suc i" q] q(2) by blast
  then show ?case using q(1) by (simp add: bindE_def)
qed simp

context reliable_node
begin

lemma endpoint_ok:
  assumes "endpoint_at h addr node" and "contains (shown_dest (epIP addr)) (epIP addr)"
    and "node = ctlNodeIP c \<or> tunnel_name node \<in> T" and "links_clear t T (lxLinks (view v q))" and "path_ready t q"
  shows "\<exists>q'. tunnelToEndpoint h c addr q = (Ok (), q') \<and> links_clear t T (lxLinks (view v q')) \<and> path_ready t q' \<and>
    same_rules (view v q) (view v q')"
proof -
  obtain nm ip where nm: "epNodeName addr = Some nm" "GetNodeIPByNodeName h nm q = (Ok ip, q)" "IP_String ip = node"
    using assms(1) unfolding endpoint_at_def by blast
  have run: "tunnelToEndpoint h c addr q = tunnelAndRoute h c (epIP addr) node q"
    using nm by (simp add: tunnelToEndpoint_def bindE_def catchE_def)
  obtain r q' where q': "tunnelToEndpoint h c addr q = (r, q')" by (rule prod.exhaust)
  have frame: "path_ready t q'" "same_rules (view v q) (view v q')"
    using movesD [OF tunnels_endpoint q'] assms(5) by (simp_all add: tunnels_only_def)
  show ?thesis
  proof (cases "node = ctlNodeIP c")
    case True
    obtain q1 where list: "cmdOutput h [''ip'', ''link'', ''list''] q = (Ok (tLinks t (lxLinks (view v q))), q1)"
      using link_list_ok by blast
    then have "r = Ok ()" "q' = q1" using q' run True by (simp_all add: tunnelAndRoute_def bindE_def wrapE_run)
    moreover have "view v q1 = view v q" using link_list_cases [OF list] by blast
    ultimately show ?thesis using q' frame assms(4) by simp
  next
    case False
    have T: "tunnel_name node \<in> T" using assms(3) False by blast
    obtain lx' where e: "endpoint_effect t (ctlNodeIP c) (epIP addr) node (view v q) = Some lx'" "links_clear t T (lxLinks lx')"
      by (rule endpoint_effect_defined [OF tools assms(4) T assms(2)])
    have path: "path_at t False q" using assms(5) by simp
    note i = implementsD [OF implements_endpoint [OF False] path q' [unfolded run]]
    have r: "r = Ok ()" using i(4) [OF rel] e(1) by auto
    then have "view v q' = lx'" using i(3) e(1) by simp
    then show ?thesis using q' r e(2) frame by simp
  qed
qed

end

lemma gateway_succeeds:
  assumes doc: "documented h t v" and rel: "reliable h t v" and gw: "trafficGateway c = Some gw" "ipt_ready t (gwIpt gw)"
    and eps: "endpoints_known c sip eps" and inj: "inj_on (ruleId sip) {..< length (Rules (Spec sip))}"
    and start: "path_ready t p" "gateway_ready (view v p)" and reach: "endpoints_reached t h c eps sip (view v p)"
  shows "\<exists>p'. doGatewyProcessing h c sip p = (Ok (), p') \<and> (\<forall>j < length (Rules (Spec sip)). gateway_rule_done eps sip j (view v p'))"
proof -
  let ?rs = "Rules (Spec sip)" and ?T = "endpoint_tunnels h c eps sip"
  have rn: "reliable_node h t v" using doc rel by unfold_locales
  have nc: "node_contract h t v" using doc by unfold_locales
  have "\<exists>p'. foriE 0 ?rs (gatewayRule h c sip) p = (Ok (), p') \<and> path_ready t p' \<and>
      gateway_loop eps sip (view v p) (length ?rs) (view v p') \<and> links_clear t ?T (lxLinks (view v p'))"
  proof (rule foriE_succeeds)
    fix k q
    assume k: "k < length ?rs" and inv: "path_ready t q \<and> gateway_loop eps sip (view v p) k (view v q) \<and>
      links_clear t ?T (lxLinks (view v q))"
    let ?addrs = "endpoint_addresses (eps (ServiceName (?rs ! k)))"
    have in_eps: "addr \<in> endpoints_of eps sip" if "addr \<in> set ?addrs" for addr
      using that k unfolding endpoints_of_def by (meson UN_I nth_mem)
    have "\<exists>q1. forE ?addrs (tunnelToEndpoint h c) q = (Ok (), q1) \<and> path_ready t q1 \<and>
        links_clear t ?T (lxLinks (view v q1)) \<and> same_rules (view v q) (view v q1)"
    proof (rule forE_succeeds)
      fix addr r
      assume addr: "addr \<in> set ?addrs" and r: "path_ready t r \<and> links_clear t ?T (lxLinks (view v r)) \<and> same_rules (view v q) (view v r)"
      obtain node where node: "endpoint_at h addr node" and shown: "contains (shown_dest (epIP addr)) (epIP addr)"
        using reach in_eps [OF addr] unfolding endpoints_reached_def by blast
      have "node = ctlNodeIP c \<or> tunnel_name node \<in> ?T"
        using node in_eps [OF addr] unfolding endpoint_tunnels_def by blast
      from reliable_node.endpoint_ok [OF rn node shown this] r
      show "\<exists>r'. tunnelToEndpoint h c addr r = (Ok (), r') \<and> path_ready t r' \<and>
          links_clear t ?T (lxLinks (view v r')) \<and> same_rules (view v q) (view v r')"
        by (fastforce simp: same_rules_def)
    qed (use inv in \<open>simp add: same_rules_def\<close>)
    then obtain q1 where tunnels: "forE ?addrs (tunnelToEndpoint h c) q = (Ok (), q1)" and q1: "path_ready t q1"
        "links_clear t ?T (lxLinks (view v q1))" and same: "same_rules (view v q) (view v q1)" by blast
    have loop: "gateway_loop eps sip (view v p) k (view v q1)" using inv gateway_loop_same [OF same] by blast
    obtain r q2 where add: "AddStaticIptablesRule h gw (ruleId sip k) (rule_ips eps sip k) (Cidr (?rs ! k)) (EgressIP (?rs ! k)) q1 = (r, q2)"
      by (rule prod.exhaust)
    have path: "path_at t False q1" using q1 by simp
    note i = implementsD [OF node_contract.implements_gateway_Add [OF nc gw(2)] path add]
    have "gateway_ready (view v q1)" using loop by (simp add: gateway_loop_def)
    then obtain x where x: "r = Ok x" using i(4) [OF rel] gateway_add_defined by blast
    note e = i(3) [OF x]
    obtain r2 q' where ip: "ConfigureStaticIP h (EgressIP (?rs ! k) @ ''/32'') q2 = (r2, q')" by (rule prod.exhaust)
    have calm: "r2 \<noteq> Panic m" for m using calmD [OF calm_StaticIP(1)] ip by metis
    have last: "path_ready t q'" "view v q' = view v q2"
      using node_contract.StaticIP_same [OF nc disjI1 [OF ip]] i(1) by (simp_all add: path_ready_def)
    have "gateway_loop eps sip (view v p) (Suc k) (view v q')"
      using gateway_loop_step [OF e loop fresh_image [OF inj k]] last(2) by simp
    moreover have "lxLinks (view v q') = lxLinks (view v q1)"
      using gateway_add_Some [OF e] last(2) by (simp add: same_rest_def)
    moreover have "gatewayRule h c sip (0 + k) (?rs ! k) q = (Ok (), q')"
      using tunnels add ip x calm endpoints_knownD [OF eps k]
      by (auto simp: gatewayRule_def bindE_def gw on_receiver_def logE_run rule_ips_def split: outcome.splits)
    ultimately show "\<exists>q'. gatewayRule h c sip (0 + k) (?rs ! k) q = (Ok (), q') \<and> path_ready t q' \<and>
        gateway_loop eps sip (view v p) (Suc k) (view v q') \<and> links_clear t ?T (lxLinks (view v q'))"
      using last(1) q1(2) by auto
  qed (use start reach in \<open>simp add: gateway_loop_def endpoints_reached_def\<close>)
  then show ?thesis by (auto simp: doGatewyProcessing_def gateway_loop_def)
qed

text \<open>
  C7 (gateway_sync_correct). On a node without faults that is set up as a gateway, whenever \<open>doGatewyProcessing\<close>
  returns nil the set of every rule has exactly the addresses of its endpoints, and the
  accept rule, the SNAT rule and the rule against marking are there; other sets are left
  alone. It does return nil when the endpoints run on the gateway itself.
\<close>

theorem gateway_sync_correct:
  assumes "documented h t v" and "reliable h t v"
    and "trafficGateway c = Some gw" and "ipt_ready t (gwIpt gw)" and "path_ready t p"
    and "endpoints_known c sip eps" and "inj_on (ruleId sip) {..< length (Rules (Spec sip))}"
    and "gateway_ready (view v p)" and "doGatewyProcessing h c sip p = (r, p')"
  shows "(r = Ok () \<longrightarrow> (\<forall>j < length (Rules (Spec sip)). gateway_rule_done eps sip j (view v p')) \<and>
       (\<forall>n. n \<notin> ruleId sip ` {..< length (Rules (Spec sip))} \<longrightarrow> set_of (view v p') n = set_of (view v p) n)) \<and>
     ((\<forall>rule \<in> set (Rules (Spec sip)). \<forall>addr \<in> set (endpoint_addresses (eps (ServiceName rule))).
         on_this_node h c addr) \<longrightarrow> r = Ok ())"
proof -
  have nc: "node_contract h t v" using assms(1) by unfold_locales
  have "gateway_loop eps sip (view v p) (length (Rules (Spec sip))) (view v p')" if "r = Ok ()"
    using node_contract.gateway_run [OF nc assms(2,3,4,6,7,5,8)] assms(9) that by simp
  moreover have "fst (doGatewyProcessing h c sip p) = Ok ()"
    if "\<forall>rule \<in> set (Rules (Spec sip)). \<forall>addr \<in> set (endpoint_addresses (eps (ServiceName rule))). on_this_node h c addr"
    unfolding doGatewyProcessing_def using gatewayRule_local [OF assms(1,2,3,6)] that by (intro foriE_all_Ok) blast
  ultimately show ?thesis using assms(9) by (simp add: gateway_loop_def)
qed

text \<open>The reference node with an API server that knows one node under every name.\<close>

definition ref_alone :: "ref_world host" where
  "ref_alone = (ref_host 1)\<lparr>hNodeGet := (\<lambda>nm w. Inr (ref_self ''u1''))\<rparr>"

lemma ref_alone_laws:
  "documented ref_alone (ref_tools 1) rwNode" "reliable ref_alone (ref_tools 1) rwNode"
  using ref_documented ref_reliable
  by (simp_all add: ref_alone_def documented_def commands_documented_def others_quiet_def reliable_def)

lemma ref_self_IP: "GetNodeIP (ref_self uid) = Inr (IPv4 192 168 1 1)"
  by (simp add: GetNodeIP_def ref_self_def add_address_def ParseIP_dotted)

lemma ref_self_dotted: "dotted [192, 168, 1, 1] = ''192.168.1.1''"
  by code_simp

lemma ref_alone_local:
  assumes "epNodeName addr = Some nm"
  shows "on_this_node ref_alone (ref_caches sips eps) addr"
proof -
  have "GetNodeIPByNodeName ref_alone nm q = (Ok (IPv4 192 168 1 1), q)" for q
    by (simp add: ref_alone_def GetNodeIPByNodeName_def getNode_def ref_self_IP bindE_def)
  moreover have "IP_String (IPv4 192 168 1 1) = ctlNodeIP (ref_caches sips eps)"
    unfolding IP_String_IPv4 ref_self_dotted by (simp add: ref_caches_def)
  ultimately show ?thesis using assms unfolding on_this_node_def by blast
qed

lemma ref_alone_reached:
  assumes "ctlNodeIP c = ''192.168.1.1''"
  shows "endpoints_reached t ref_alone c (\<lambda>_. ref_endpoints) sip lx"
proof (rule local_reached)
  fix addr
  assume "addr \<in> endpoints_of (\<lambda>_. ref_endpoints) sip"
  then have addr: "addr = \<lparr>epIP = ''10.1.0.4'', epNodeName = Some ''node1''\<rparr>"
    by (auto simp: endpoints_of_def endpoint_addresses_def subset_addresses_def ref_endpoints_def split: if_splits)
  have "on_this_node ref_alone (ref_caches [] []) addr" using ref_alone_local addr by simp
  then have "endpoint_at ref_alone addr (ctlNodeIP c)"
    using assms by (simp add: on_this_node_def endpoint_at_def ref_caches_def)
  moreover have "shown_dest ''10.1.0.4'' = ''10.1.0.4''" by code_simp
  ultimately show "endpoint_at ref_alone addr (ctlNodeIP c) \<and> contains (shown_dest (epIP addr)) (epIP addr)"
    by (simp add: addr)
qed

theorem gateway_sync_correct_witness:
  "\<exists>p'. doGatewyProcessing ref_alone (ref_caches [] [(''default/web'', ref_endpoints)]) (ref_resource ''u1'')
       (ref_node_proc ''u1'' ref_gateway_lx) = (Ok (), p') \<and>
     rule_in (view rwNode p') ''nat'' egressGatewayNATChainName
       (snat_spec (ruleId (ref_resource ''u1'') 0) (Cidr ref_rule) ''192.168.1.200'')"
proof -
  let ?c = "ref_caches [] [(''default/web'', ref_endpoints)]" and ?p = "ref_node_proc ''u1'' ref_gateway_lx"
  obtain r p' where run: "doGatewyProcessing ref_alone ?c (ref_resource ''u1'') ?p = (r, p')" by (rule prod.exhaust)
  have "on_this_node ref_alone ?c addr" if "addr \<in> set (endpoint_addresses ref_endpoints)" for addr
    using that ref_alone_local by (auto simp: endpoint_addresses_def subset_addresses_def ref_endpoints_def)
  moreover have "trafficGateway ?c = Some ref_gateway" by (simp add: ref_caches_def)
  moreover have "inj_on (ruleId (ref_resource ''u1'')) {..< Suc 0}" by (simp add: lessThan_Suc)
  ultimately show ?thesis
    using gateway_sync_correct [OF ref_alone_laws _ ref_gateway_ipt _ ref_known(1) _ _ run] run
    by (auto simp: gateway_rule_done_def gateway_rules_def ref_rule_def)
qed

end
