(* ===== verification/Handlers.thy ===== *)
theory Handlers
  imports Roles
begin

text \<open>
  The event handlers of the controller: what the update handler withdraws when the gateway of
  a resource changes, and what the delete handler withdraws and what it leaves behind.
\<close>

section \<open>Withdrawing rules\<close>

text \<open>\<open>DeleteRouteToGateway\<close> from the listing of the routes on.\<close>

definition director_delete_rest :: "'w host \<Rightarrow> string \<Rightarrow> string \<Rightarrow> ip_set \<Rightarrow> unit \<Rightarrow> ('w proc, unit) prog" where
  "director_delete_rest h destinationIP egressGateway s u =
     bindE (wrapE ''Failed to verify required default route to gatewat exists''
              (cmdOutput h [''ip'', ''route'', ''list'', ''table'', customStaticEgressIPRouteTableName]))
       (\<lambda>out.
     bindE (if \<not> contains out destinationIP
            then wrapE ''Failed to delete route in custom route table''
                   (cmdRun h [''ip'', ''route'', ''delete'', destinationIP, ''via'', egressGateway, ''table'',
                              customStaticEgressIPRouteTableName])
            else returnE ())
       (\<lambda>_.
     wrapE ''Failed to delete ipset'' (ipset_Destroy h s)))"

context node_contract
begin

text \<open>A guarded removal on a node without faults goes through, and then the rule is gone.\<close>

lemma removal_run:
  assumes rel: "reliable h t v" and ready: "ipt_ready t ipt" "tab \<in> set known_tables" and path: "path_at t k p"
    and once: "rules_once (view v p)" and valid: "spec_valid (view v p) tab spec"
    and run: "bindE (remove_with (wrapE m1 (ipt_Exists h ipt tab ch spec)) (wrapE m2 (ipt_Delete h ipt tab ch spec))) f p = (r, p')"
  obtains q u where "f u q = (r, p')" and "path_at t k q" and "rules_once (view v q)"
    and "set_of (view v q) = set_of (view v p)" and "\<not> rule_in (view v q) tab ch spec"
proof -
  let ?m = "remove_with (wrapE m1 (ipt_Exists h ipt tab ch spec)) (wrapE m2 (ipt_Delete h ipt tab ch spec))"
  obtain r1 q where m: "?m p = (r1, q)" by (rule prod.exhaust)
  note i = implementsD [OF implements_not [OF ready] path m]
  obtain lx where "have_not tab ch spec (view v p) = Some lx" using have_not_ex [OF valid] by blast
  then obtain u where u: "r1 = Ok u" using i(4) [OF rel] by auto
  have eff: "have_not tab ch spec (view v p) = Some (view v q)" using i(3) [OF u] .
  note s = have_not_Some [OF eff]
  show thesis
  proof (rule that)
    show "f u q = (r, p')" using run m u by (simp add: bindE_def)
    show "rules_once (view v q)" using rules_once_have_not [OF eff once] .
    show "\<not> rule_in (view v q) tab ch spec" using s(5) [OF once] by blast
  qed (use i(1) s(3) in simp_all)
qed

lemma absent_after:
  assumes "moves (changes t v k A {}) m" and "path_at t k p" and "m p = (r, p')" and "\<not> rule_in (view v p) tab ch spec"
  shows "\<not> rule_in (view v p') tab ch spec"
  using changesD(3) [OF assms(1-3)] assms(4) by (auto simp: all_rules_def)

lemma changes_delete_rest: "moves (changes t v True A B) (director_delete_rest h dst gw s u)"
  unfolding director_delete_rest_def by (intro changes_calls changes_Destroy)

lemma director_delete_gone:
  assumes rel: "reliable h t v" and ready: "ipt_ready t (dirIpt d)" and path: "path_ready t p" and wf: "node_wf (view v p)"
    and run: "DeleteRouteToGateway h d n dst gw p = (r, p')"
  shows "director_rules n dst \<inter> all_rules (view v p') = {}"
proof -
  obtain r0 p1 where new: "ipset_New h n ''hash:ip'' zero_params p = (r0, p1)" by (rule prod.exhaust)
  then obtain s where r0: "r0 = Ok s" using reliable_node.New_ok [OF reliable_here [OF rel] path, of n] by auto
  have p1: "path_at t True p1" "view v p1 = put_set n {} (view v p)" using New_cases [OF new path] r0 by auto
  have once: "rules_once (view v p1)" using wf p1(2) by (simp add: node_wf_def rules_once_def)
  have valid: "spec_valid lx tab (mark_spec n dst)" "spec_valid lx tab (bypass_spec n dst)"
    if "set_of lx = set_of (view v p1)" for lx tab
    using that p1(2) by simp_all
  let ?bypass = "remove_with
      (wrapE ''Failed to verify rule exists in BYPASS_CNI_MASQURADE chain''
         (ipt_Exists h (dirIpt d) ''nat'' bypassCNIMasquradeChainName (bypass_spec n dst)))
      (wrapE ''Failed to delete iptables command''
         (ipt_Delete h (dirIpt d) ''nat'' bypassCNIMasquradeChainName (bypass_spec n dst)))"
  have run1: "bindE (remove_with
      (wrapE ''Failed to verify rule exists in PREROUTING chain''
         (ipt_Exists h (dirIpt d) ''mangle'' ''PREROUTING'' (mark_spec n dst)))
      (wrapE ''Failed to delete rule in PREROUTING chain''
         (ipt_Delete h (dirIpt d) ''mangle'' ''PREROUTING'' (mark_spec n dst))))
      (\<lambda>_. bindE ?bypass (director_delete_rest h dst gw s)) p1 = (r, p')"
    using run new r0 by (simp add: DeleteRouteToGateway_def director_delete_rest_def [abs_def] bindE_Ok [of _ p s p1])
  have tabs: "''mangle'' \<in> set known_tables" "''nat'' \<in> set known_tables" by simp_all
  obtain p2 where run2: "bindE ?bypass (director_delete_rest h dst gw s) p2 = (r, p')"
    and p2: "path_at t True p2" "rules_once (view v p2)" "set_of (view v p2) = set_of (view v p1)"
      "\<not> rule_in (view v p2) ''mangle'' ''PREROUTING'' (mark_spec n dst)"
    by (rule removal_run [OF rel ready tabs(1) p1(1) once valid(1) [OF refl] run1])
  obtain u3 p3 where run3: "director_delete_rest h dst gw s u3 p3 = (r, p')" and p3: "path_at t True p3"
      "\<not> rule_in (view v p3) ''nat'' bypassCNIMasquradeChainName (bypass_spec n dst)"
    by (rule removal_run [OF rel ready tabs(2) p2(1,2) valid(2) [OF p2(3)] run2])
  have mv: "moves (changes t v True (director_rules n dst) {}) (bindE ?bypass (director_delete_rest h dst gw s))"
    by (intro changes_calls changes_delete_rest ready) (simp_all add: director_rules_def)
  have "\<not> rule_in (view v p') ''mangle'' ''PREROUTING'' (mark_spec n dst)"
    by (rule absent_after [OF mv p2(1) run2 p2(4)])
  moreover have "\<not> rule_in (view v p') ''nat'' bypassCNIMasquradeChainName (bypass_spec n dst)"
    by (rule absent_after [OF changes_delete_rest p3(1) run3 p3(2)])
  ultimately show ?thesis by (auto simp: director_rules_def)
qed


text \<open>
  \<open>ClearStaticIptablesRule\<close> deletes the SNAT rule without asking first, so afterwards the rule
  is gone whether the call went through or not.
\<close>

lemma snat_gone:
  assumes rel: "reliable h t v" and ready: "ipt_ready t (gwIpt gw)" and path: "path_ready t p" and wf: "node_wf (view v p)"
    and run: "ClearStaticIptablesRule h gw n dst eip p = (r, p')"
  shows "\<not> rule_in (view v p') ''nat'' egressGatewayNATChainName (snat_spec n dst eip)"
proof -
  let ?del = "ipt_Delete h (gwIpt gw) ''nat'' egressGatewayNATChainName (snat_spec n dst eip)"
  obtain r1 q where del: "?del p = (r1, q)" by (rule prod.exhaust)
  have tab: "''nat'' \<in> set known_tables" by simp
  have path': "path_at t False p" using path by simp
  note i = implementsD [OF implements_Delete [OF ready tab] path' del] and c = Delete_cases [OF ready tab del]
  have once: "rules_once (view v p)" using wf by (simp add: node_wf_def)
  show ?thesis
  proof (cases r1)
    case (Ok u)
    have gone: "\<not> rule_in (view v q) ''nat'' egressGatewayNATChainName (snat_spec n dst eip)"
      using take_out_Some(5) [OF i(3) [OF Ok] once] by blast
    have eq: "ClearStaticIptablesRule h gw n dst eip p =
        bindE (remove_with
          (wrapE ''Failed to verify rule exists''
             (ipt_Exists h (gwIpt gw) ''filter'' egressGatewayFWChainName (accept_spec n dst)))
          (wrapE ''Failed to delete iptables command''
             (ipt_Delete h (gwIpt gw) ''filter'' egressGatewayFWChainName (accept_spec n dst))))
       (\<lambda>_. bindE (wrapE ''Failed to get ipset'' (ipset_New h n ''hash:ip'' zero_params))
         (\<lambda>set. wrapE ''Failed to delete ipset'' (ipset_Destroy h set))) q"
      unfolding ClearStaticIptablesRule_def deleteRule_def defaultNATIptable_def
      by (rule bindE_Ok) (use del Ok in simp)
    have mv: "moves (changes t v False (cleared_rules n dst eip) {}) (bindE (remove_with
          (wrapE ''Failed to verify rule exists''
             (ipt_Exists h (gwIpt gw) ''filter'' egressGatewayFWChainName (accept_spec n dst)))
          (wrapE ''Failed to delete iptables command''
             (ipt_Delete h (gwIpt gw) ''filter'' egressGatewayFWChainName (accept_spec n dst))))
       (\<lambda>_. bindE (wrapE ''Failed to get ipset'' (ipset_New h n ''hash:ip'' zero_params))
         (\<lambda>set. wrapE ''Failed to delete ipset'' (ipset_Destroy h set))))"
      by (intro changes_after_New changes_calls changes_Destroy ready) (simp_all add: cleared_rules_def)
    show ?thesis by (rule absent_after [OF mv i(1) run [unfolded eq] gone])
  next
    case (Err e)
    then have "take_out ''nat'' egressGatewayNATChainName (snat_spec n dst eip) (view v p) = None"
      using i(4) [OF rel] by (cases "take_out ''nat'' egressGatewayNATChainName (snat_spec n dst eip) (view v p)") auto
    moreover have "set_of (view v p) n \<noteq> None" if "rule_in (view v p) ''nat'' egressGatewayNATChainName (snat_spec n dst eip)"
      using unused_set [OF wf _ that] by auto
    ultimately have "\<not> rule_in (view v p) ''nat'' egressGatewayNATChainName (snat_spec n dst eip)"
      using take_out_ex [of "view v p" "''nat''" egressGatewayNATChainName "snat_spec n dst eip"] by auto
    moreover have "view v p' = view v p"
      using run del Err c
      by (auto simp: ClearStaticIptablesRule_def deleteRule_def defaultNATIptable_def bindE_def wrapE_run)
    ultimately show ?thesis by simp
  next
    case (Panic k)
    then show ?thesis using c by auto
  qed
qed

text \<open>A loop whose rounds withdraw the rules \<open>G j\<close> and add none leaves none of them.\<close>

lemma loop_withdraws:
  assumes round: "\<And>j q q'. j < length xs \<Longrightarrow> path_ready t q \<Longrightarrow> node_wf (view v q) \<Longrightarrow>
      body j (xs ! j) q = (Ok (), q') \<Longrightarrow> G j \<inter> all_rules (view v q') = {}"
    and chg: "\<And>j. j < length xs \<Longrightarrow> moves (changes t v False A {}) (body j (xs ! j))"
    and edt: "\<And>j x. moves (edits t v False) (body j x)"
    and start: "path_ready t p" "node_wf (view v p)" and run: "foriE 0 xs body p = (Ok (), p')"
  shows "(\<Union>j < length xs. G j) \<inter> all_rules (view v p') = {}"
proof -
  let ?I = "\<lambda>k q. path_ready t q \<and> node_wf (view v q) \<and> (\<Union>j < k. G j) \<inter> all_rules (view v q) = {}"
  have "?I (length xs) p'"
  proof (rule foriE_invariant [OF _ _ run])
    fix k q q'
    assume k: "k < length xs" and inv: "?I k q" and step: "body (0 + k) (xs ! k) q = (Ok (), q')"
    have path: "path_at t False q" and step': "body k (xs ! k) q = (Ok (), q')" using inv step by simp_all
    note e = editsD [OF edt path step']
    have "all_rules (view v q') \<subseteq> all_rules (view v q)" using changesD(3) [OF chg [OF k] path step'] by simp
    moreover have "G k \<inter> all_rules (view v q') = {}" using round [OF k _ _ step'] inv by simp
    ultimately show "?I (Suc k) q'"
      using inv e(1) node_edits_wf [OF e(2)] by (auto simp: lessThan_Suc)
  qed (use start in simp)
  then show ?thesis by blast
qed

end


section \<open>The delete handler\<close>

lemma handler_disjoint: "gateway_all sip \<inter> director_all sip' = {}"
  by (auto simp: all_defs gateway_rules_def director_rules_def mark_spec_def return_mark_spec_def
      egressGatewayNATChainName_def bypassCNIMasquradeChainName_def)

lemma on_node_bind:
  "bindE (on_node m) f st = (r, st') \<longleftrightarrow>
     (case m (agProc st) of
        (Ok u, p) \<Rightarrow> f u (st\<lparr>agProc := p\<rparr>) = (r, st')
      | (Err e, p) \<Rightarrow> r = Err e \<and> st' = st\<lparr>agProc := p\<rparr>
      | (Panic k, p) \<Rightarrow> r = Panic k \<and> st' = st\<lparr>agProc := p\<rparr>)"
  by (auto simp: bindE_def on_node_def split: prod.split outcome.split)

text \<open>A handler that works on the node and then enqueues the key of a resource.\<close>

lemma handler_cases:
  assumes "bindE (on_node m) (\<lambda>_. enqueueStaticEgressIP bucket now sip) st = (r, st')"
  obtains r1 where "m (agProc st) = (r1, agProc st')"
    and "(r = Ok ()) = (\<exists>u. r1 = Ok u)"
    and "r = Ok () \<and> \<not> wqDown (rqBase (agQueue st)) \<longrightarrow> MetaNamespaceKeyFunc sip \<in> rq_todo (agQueue st')"
  using assms unfolding on_node_bind enqueueStaticEgressIP_def
  by (auto simp: rq.coming_ops split: prod.splits outcome.splits)


context node_contract
begin

lemma delete_round:
  assumes rel: "reliable h t v" and ready: "ctl_ready t c" and path: "path_ready t q" and wf: "node_wf (view v q)"
    and run: "deleteRule_of h c sip j rule q = (Ok (), q')"
  shows "director_rules (ruleId sip j) (Cidr rule) \<inter> all_rules (view v q') = {}"
proof (cases "trafficDirector c")
  case None
  obtain s q1 where "ipset_New h (ruleId sip j) ''hash:ip'' zero_params q = (Ok s, q1)"
    using reliable_node.New_ok [OF reliable_here [OF rel] path] by blast
  then show ?thesis using run None by (simp add: deleteRule_of_def on_receiver_def bindE_def logE_run wrapE_run)
next
  case (Some d)
  then obtain r where "DeleteRouteToGateway h d (ruleId sip j) (Cidr rule) (GatewayIP (Status sip)) q = (r, q')"
    using run by (auto simp: deleteRule_of_def on_receiver_def logE_run split: prod.splits outcome.splits)
  then show ?thesis using director_delete_gone [OF rel ctl_readyD(1) [OF ready Some] path wf] by blast
qed

lemma delete_loop_gone:
  assumes "reliable h t v" and "ctl_ready t c" and "path_ready t p" and "node_wf (view v p)"
    and run: "foriE 0 (Rules (Spec sip)) (deleteRule_of h c sip) p = (Ok (), p')"
  shows "director_all sip \<inter> all_rules (view v p') = {}"
  unfolding director_all_def
  by (rule loop_withdraws [OF delete_round [OF assms(1,2)] changes_deleteRule_of [OF assms(2)]
        edits_deleteRule_of [OF assms(2)] assms(3,4) run])

end

text \<open>
  C13 (delete_withdraws). Deleting a resource, on a controller with its handles: the handler adds no rule and removes
  none but the director rules of the resource, and on a node without faults all of these
  are gone when it returns. The rules of the gateway role stay: on the gateway of a deleted
  resource the SNAT rules remain in force. The key is enqueued at the end.
\<close>

theorem delete_withdraws:
  assumes "documented h t v" and "ctl_ready t c" and "path_ready t (agProc st)" and "node_wf (view v (agProc st))"
    and "deleted_object obj = Some sip" and "deleteStaticEgressIP h c bucket now obj st = (r, st')"
  shows "all_rules (view v (agProc st')) \<subseteq> all_rules (view v (agProc st)) \<and>
     all_rules (view v (agProc st)) \<subseteq> all_rules (view v (agProc st')) \<union> director_all sip \<and>
     gateway_all sip \<inter> all_rules (view v (agProc st)) \<subseteq> all_rules (view v (agProc st')) \<and>
     (r = Ok () \<and> reliable h t v \<longrightarrow> director_all sip \<inter> all_rules (view v (agProc st')) = {}) \<and>
     (r = Ok () \<and> \<not> wqDown (rqBase (agQueue st)) \<longrightarrow> MetaNamespaceKeyFunc sip \<in> rq_todo (agQueue st'))"
proof -
  have nc: "node_contract h t v" using assms(1) by unfold_locales
  have run: "bindE (on_node (foriE 0 (Rules (Spec sip)) (deleteRule_of h c sip))) (\<lambda>_. enqueueStaticEgressIP bucket now sip) st = (r, st')"
    using assms(6) by (simp add: deleteStaticEgressIP_def assms(5))
  obtain r1 where loop: "foriE 0 (Rules (Spec sip)) (deleteRule_of h c sip) (agProc st) = (r1, agProc st')"
    and r1: "(r = Ok ()) = (\<exists>u. r1 = Ok u)"
    and key: "r = Ok () \<and> \<not> wqDown (rqBase (agQueue st)) \<longrightarrow> MetaNamespaceKeyFunc sip \<in> rq_todo (agQueue st')"
    by (rule handler_cases [OF run])
  have path: "path_at t False (agProc st)" using assms(3) by simp
  note c = changesD [OF node_contract.changes_delete [OF nc assms(2)] path loop]
  have "director_all sip \<inter> all_rules (view v (agProc st')) = {}" if "r = Ok ()" "reliable h t v"
    using node_contract.delete_loop_gone [OF nc that(2) assms(2,3,4)] loop that(1) r1 by auto
  then show ?thesis using c(2,3) handler_disjoint [of sip sip] key by auto
qed

text \<open>The gateway of the reference resource, with its SNAT rule.\<close>

definition ref_serving_lx :: linux where
  "ref_serving_lx =
     put_rules ''nat'' egressGatewayNATChainName [snat_spec (ruleId (ref_resource ''u1'') 0) (Cidr ref_rule) ''192.168.1.200'']
       (put_set (ruleId (ref_resource ''u1'') 0) {''10.1.0.4''} ref_gateway_lx)"

lemma ref_serving_lx_simps [simp]:
  "rule_in ref_serving_lx tab ch r \<longleftrightarrow>
     tab = ''nat'' \<and> ch = egressGatewayNATChainName \<and> r = snat_spec (ruleId (ref_resource ''u1'') 0) (Cidr ref_rule) ''192.168.1.200''"
  "node_wf ref_serving_lx"
proof -
  show "rule_in ref_serving_lx tab ch r \<longleftrightarrow>
     tab = ''nat'' \<and> ch = egressGatewayNATChainName \<and> r = snat_spec (ruleId (ref_resource ''u1'') 0) (Cidr ref_rule) ''192.168.1.200''"
    by (auto simp: ref_serving_lx_def rule_in_put_rules)
  have "node_edit (put_set (ruleId (ref_resource ''u1'') 0) {''10.1.0.4''} ref_gateway_lx) ref_serving_lx"
    unfolding ref_serving_lx_def by (rule edit_front [where rs = "[]"]) (simp_all add: ref_gateway_lx_def)
  then show "node_wf ref_serving_lx" using node_edit_wf [OF edit_set ref_gateway_lx_wf] node_edit_wf by blast
qed

lemma ref_serving_gateway_all:
  "(''nat'', egressGatewayNATChainName, snat_spec (ruleId (ref_resource ''u1'') 0) (Cidr ref_rule) ''192.168.1.200'')
     \<in> gateway_all (ref_resource ''u1'') \<inter> all_rules ref_serving_lx"
  by (simp add: gateway_all_def gateway_rules_def ref_rule_def)

theorem delete_withdraws_witness:
  "\<exists>r st'. deleteStaticEgressIP (ref_host 1) (ref_caches [] []) 0 0
       (DeletedFinalStateUnknown (IsStaticEgressIP (ref_resource ''u1'')))
       \<lparr>agProc = ref_node_proc ''u1'' ref_serving_lx, agQueue = rq_New\<rparr> = (r, st') \<and>
     rule_in (view rwNode (agProc st')) ''nat'' egressGatewayNATChainName
       (snat_spec (ruleId (ref_resource ''u1'') 0) (Cidr ref_rule) ''192.168.1.200'')"
proof -
  let ?obj = "DeletedFinalStateUnknown (IsStaticEgressIP (ref_resource ''u1''))"
    and ?st = "\<lparr>agProc = ref_node_proc ''u1'' ref_serving_lx, agQueue = rq_New\<rparr>"
  obtain r st' where run: "deleteStaticEgressIP (ref_host 1) (ref_caches [] []) 0 0 ?obj ?st = (r, st')" by (rule prod.exhaust)
  have "gateway_all (ref_resource ''u1'') \<inter> all_rules ref_serving_lx \<subseteq> all_rules (view rwNode (agProc st'))"
    using delete_withdraws [OF ref_documented ref_caches_ready _ _ _ run] by (simp add: deleted_object_def)
  then show ?thesis using run ref_serving_gateway_all by fastforce
qed


section \<open>The update handler\<close>

context node_contract
begin

lemma transition_round:
  assumes rel: "reliable h t v" and ready: "ctl_ready t c" and path: "path_ready t q" and wf: "node_wf (view v q)"
    and j: "j < length (Rules (Spec old))"
    and run: "transitionRule h c old True g j (Rules (Spec old) ! j) q = (Ok (), q')"
  shows "\<not> rule_in (view v q') ''nat'' egressGatewayNATChainName
     (snat_spec (ruleId old j) (Cidr (Rules (Spec old) ! j)) (EgressIP (Rules (Spec old) ! j)))"
proof -
  let ?rule = "Rules (Spec old) ! j"
  let ?rest = "bindE (logE (RemoveStaticIP h (EgressIP ?rule @ ''/32'')))
      (\<lambda>_. if g then bindE (logE (on_receiver (trafficDirector c) (returnE ())
                (\<lambda>d. ClearStaleRouteToGateway h d (ruleId old j) (Cidr ?rule) (EgressIP ?rule))))
         (\<lambda>_. logE (RemoveStaticIP h (EgressIP ?rule @ ''/32''))) else returnE ())"
  obtain gw r1 q1 where gw: "trafficGateway c = Some gw"
    and clear: "ClearStaticIptablesRule h gw (ruleId old j) (Cidr ?rule) (EgressIP ?rule) q = (r1, q1)"
    and rest: "?rest q1 = (Ok (), q')"
    using run
    by (cases "trafficGateway c")
      (auto simp: transitionRule_def endpointsOrPanic_run bindE_def on_receiver_def logE_run
        split: option.splits prod.splits outcome.splits)
  have gone: "\<not> rule_in (view v q1) ''nat'' egressGatewayNATChainName (snat_spec (ruleId old j) (Cidr ?rule) (EgressIP ?rule))"
    using snat_gone [OF rel ctl_readyD(2) [OF ready gw] path wf clear] .
  have path': "path_at t False q" using path by simp
  have q1: "path_at t False q1"
    using changesD(1) [OF changes_gateway_Clear [OF ctl_readyD(2) [OF ready gw]] path' clear] .
  have mv: "moves (changes t v False (director_all old) {}) ?rest"
    by (intro chg.moves_bindE chg.moves_if chg.moves_returnE chg.moves_logE chg.moves_on_receiver changes_StaticIP
        changes_mono [OF changes_director_Clear] ctl_readyD [OF ready]; use j in \<open>auto simp: all_defs\<close>)
  show ?thesis by (rule absent_after [OF mv q1 rest gone])
qed

lemma transition_loop_gone:
  assumes "reliable h t v" and "ctl_ready t c" and "path_ready t p" and "node_wf (view v p)"
    and "foriE 0 (Rules (Spec old)) (transitionRule h c old True g) p = (Ok (), p')" and "j < length (Rules (Spec old))"
  shows "\<not> rule_in (view v p') ''nat'' egressGatewayNATChainName
     (snat_spec (ruleId old j) (Cidr (Rules (Spec old) ! j)) (EgressIP (Rules (Spec old) ! j)))"
proof -
  let ?G = "\<lambda>j. {(''nat'', egressGatewayNATChainName,
      snat_spec (ruleId old j) (Cidr (Rules (Spec old) ! j)) (EgressIP (Rules (Spec old) ! j)))}"
  have "(\<Union>j < length (Rules (Spec old)). ?G j) \<inter> all_rules (view v p') = {}"
    by (rule loop_withdraws [OF _ changes_transitionRule [OF assms(2)] edits_transitionRule [OF assms(2)] assms(3-5)])
      (use transition_round [OF assms(1,2)] in auto)
  then show ?thesis using assms(6) by auto
qed

end

text \<open>
  C12 (update_withdraws). An update of a resource, on a controller with its handles: the handler adds no rule and
  removes only rules of the old version; it leaves the node alone unless the gateway
  changed from one node to another; on a node without faults that was the gateway no SNAT
  rule of the old version is left when it returns; and the new version is enqueued.
\<close>

theorem update_withdraws:
  assumes "documented h t v" and "ctl_ready t c" and "path_ready t (agProc st)" and "node_wf (view v (agProc st))"
    and "updateStaticEgressIP h c bucket now (IsStaticEgressIP old) (IsStaticEgressIP new) st = (r, st')"
  shows "all_rules (view v (agProc st')) \<subseteq> all_rules (view v (agProc st)) \<and>
     all_rules (view v (agProc st)) \<subseteq> all_rules (view v (agProc st')) \<union> (cleared_all old \<union> director_all old) \<and>
     (GatewayNode (Status old) = GatewayNode (Status new) \<or> [] \<in> {GatewayNode (Status old), GatewayNode (Status new)} \<longrightarrow>
        agProc st' = agProc st) \<and>
     (r = Ok () \<and> reliable h t v \<and> [] \<notin> {GatewayNode (Status old), GatewayNode (Status new)} \<and>
      GatewayNode (Status old) \<noteq> GatewayNode (Status new) \<and>
      (\<exists>node. GetNodeObject h [] (agProc st) = (Ok node, agProc st) \<and> nodeUID node = GatewayNode (Status old)) \<longrightarrow>
        (\<forall>j < length (Rules (Spec old)). \<not> rule_in (view v (agProc st')) ''nat'' egressGatewayNATChainName
           (snat_spec (ruleId old j) (Cidr (Rules (Spec old) ! j)) (EgressIP (Rules (Spec old) ! j))))) \<and>
     (r = Ok () \<and> \<not> wqDown (rqBase (agQueue st)) \<longrightarrow> MetaNamespaceKeyFunc new \<in> rq_todo (agQueue st'))"
proof -
  have nc: "node_contract h t v" using assms(1) by unfold_locales
  have run: "bindE (on_node (transition h c old new)) (\<lambda>_. enqueueStaticEgressIP bucket now new) st = (r, st')"
    using assms(5) by (simp add: updateStaticEgressIP_def)
  obtain r1 where step: "transition h c old new (agProc st) = (r1, agProc st')"
    and r1: "(r = Ok ()) = (\<exists>u. r1 = Ok u)"
    and key: "r = Ok () \<and> \<not> wqDown (rqBase (agQueue st)) \<longrightarrow> MetaNamespaceKeyFunc new \<in> rq_todo (agQueue st')"
    by (rule handler_cases [OF run])
  have path: "path_at t False (agProc st)" using assms(3) by simp
  note c = changesD [OF node_contract.changes_transition [OF nc assms(2)] path step]
  have idle: "agProc st' = agProc st"
    if "GatewayNode (Status old) = GatewayNode (Status new) \<or> [] \<in> {GatewayNode (Status old), GatewayNode (Status new)}"
    using step that by (auto simp: transition_def)
  have gone: "\<not> rule_in (view v (agProc st')) ''nat'' egressGatewayNATChainName
       (snat_spec (ruleId old j) (Cidr (Rules (Spec old) ! j)) (EgressIP (Rules (Spec old) ! j)))"
    if ok: "r = Ok ()" and rel: "reliable h t v"
      and change: "[] \<notin> {GatewayNode (Status old), GatewayNode (Status new)}"
        "GatewayNode (Status old) \<noteq> GatewayNode (Status new)"
      and self: "GetNodeObject h [] (agProc st) = (Ok node, agProc st)" "nodeUID node = GatewayNode (Status old)"
      and j: "j < length (Rules (Spec old))" for node j
  proof -
    have loop: "foriE 0 (Rules (Spec old)) (transitionRule h c old True False) (agProc st) = (Ok (), agProc st')"
      using step change self r1 ok
      by (auto simp: transition_def identify_def isEgressGateway_def bindE_def catchE_def)
    show ?thesis using node_contract.transition_loop_gone [OF nc rel assms(2,3,4) loop j] .
  qed
  show ?thesis using c(2,3) idle gone key by auto
qed

lemma calm_clears:
  "calm (ClearStaticIptablesRule h gw n dst eip)" "calm (ClearStaleRouteToGateway h d n dst eip)"
  unfolding ClearStaticIptablesRule_def deleteRule_def ClearStaleRouteToGateway_def by (intro calm_ops calm_New)+

lemma transitionRule_Ok:
  assumes "trafficDirector c = Some d" and "trafficGateway c = Some gw"
    and "\<And>w. endpointsIndexer c w (sNamespace old @ ''/'' @ ServiceName rule) \<noteq> None"
  shows "fst (transitionRule h c old w g i rule p) = Ok ()"
  using assms
  by (auto simp: transitionRule_def bindE_def endpointsOrPanic_run on_receiver_def logE_run calmD [OF calm_clears(1)]
      calmD [OF calm_clears(2)] calmD [OF calm_StaticIP(2)] split: option.split prod.splits outcome.splits)

theorem update_withdraws_witness:
  "\<exists>st'. updateStaticEgressIP (ref_host 1) (ref_caches [] [(''default/web'', ref_endpoints)]) 0 0
       (IsStaticEgressIP (ref_resource ''u1'')) (IsStaticEgressIP (ref_resource ''u9''))
       \<lparr>agProc = ref_node_proc ''u1'' ref_serving_lx, agQueue = rq_New\<rparr> = (Ok (), st') \<and>
     \<not> rule_in (view rwNode (agProc st')) ''nat'' egressGatewayNATChainName
        (snat_spec (ruleId (ref_resource ''u1'') 0) (Cidr ref_rule) ''192.168.1.200'')"
proof -
  let ?c = "ref_caches [] [(''default/web'', ref_endpoints)]"
    and ?st = "\<lparr>agProc = ref_node_proc ''u1'' ref_serving_lx, agQueue = rq_New\<rparr> :: ref_world agent"
  let ?loop = "\<lambda>w g. foriE 0 [ref_rule] (transitionRule (ref_host 1) ?c (ref_resource ''u1'') w g)"
  obtain r st' where run: "updateStaticEgressIP (ref_host 1) ?c 0 0 (IsStaticEgressIP (ref_resource ''u1''))
      (IsStaticEgressIP (ref_resource ''u9'')) ?st = (r, st')" by (rule prod.exhaust)
  have loop: "fst (?loop w g p) = Ok ()" for w g p
    by (rule foriE_all_Ok, rule transitionRule_Ok [of _ ref_director ref_gateway]) (simp_all add: ref_caches_def)
  have "transition (ref_host 1) ?c (ref_resource ''u1'') (ref_resource ''u9'') (agProc ?st) = ?loop True False (agProc ?st)"
    by (simp add: transition_def identify_def isEgressGateway_def bindE_def catchE_def ref_self_def)
  then obtain p' where "transition (ref_host 1) ?c (ref_resource ''u1'') (ref_resource ''u9'') (agProc ?st) = (Ok (), p')"
    using loop [of True False "agProc ?st"] by (metis prod.collapse)
  moreover have "bindE (on_node (transition (ref_host 1) ?c (ref_resource ''u1'') (ref_resource ''u9'')))
      (\<lambda>_. enqueueStaticEgressIP 0 0 (ref_resource ''u9'')) ?st = (r, st')"
    using run by (simp add: updateStaticEgressIP_def)
  ultimately have "r = Ok ()" by (auto simp: on_node_bind enqueueStaticEgressIP_def)
  then show ?thesis
    using update_withdraws [OF ref_documented ref_caches_ready _ _ run] run ref_reliable
    by (auto simp: ref_self_def ref_rule_def)
qed

end
