(* ===== verification/Versions.thy ===== *)
theory Versions
  imports Semver Iptables
begin

text \<open>
  Release numbers in their linear order, an instance of \<open>linorder\<close>: the feature tests of
  go-iptables are thresholds of it and go-semver's comparison agrees with it on releases, so
  a newer iptables or ipset never loses a feature.
\<close>

datatype release = Rel (rMajor: int) (rMinor: int) (rPatch: int)

instantiation release :: linorder
begin

definition less_eq_release :: "release \<Rightarrow> release \<Rightarrow> bool" where
  "less_eq_release v w \<longleftrightarrow>
     rMajor v < rMajor w \<or> rMajor v = rMajor w \<and>
       (rMinor v < rMinor w \<or> rMinor v = rMinor w \<and> rPatch v \<le> rPatch w)"

definition less_release :: "release \<Rightarrow> release \<Rightarrow> bool" where
  "less_release v w \<longleftrightarrow>
     rMajor v < rMajor w \<or> rMajor v = rMajor w \<and>
       (rMinor v < rMinor w \<or> rMinor v = rMinor w \<and> rPatch v < rPatch w)"

instance
  by standard (auto simp: less_eq_release_def less_release_def release.expand)

end

lemma feature_thresholds:
  "iptablesHasCheckCommand a b c \<longleftrightarrow> Rel 1 4 11 \<le> Rel a b c"
  "iptablesHasWaitCommand a b c \<longleftrightarrow> Rel 1 4 20 \<le> Rel a b c"
  "iptablesHasRandomFully a b c \<longleftrightarrow> Rel 1 6 2 \<le> Rel a b c"
  by (auto simp: iptablesHasCheckCommand_def iptablesHasWaitCommand_def iptablesHasRandomFully_def less_eq_release_def)

lemma features_kept:
  assumes "Rel a b c \<le> Rel a' b' c'"
  shows "iptablesHasCheckCommand a b c \<Longrightarrow> iptablesHasCheckCommand a' b' c'"
    and "iptablesHasWaitCommand a b c \<Longrightarrow> iptablesHasWaitCommand a' b' c'"
    and "iptablesHasRandomFully a b c \<Longrightarrow> iptablesHasRandomFully a' b' c'"
  unfolding feature_thresholds by (blast intro: order_trans [OF _ assms])+

lemma features_nested:
  "iptablesHasRandomFully a b c \<Longrightarrow> iptablesHasWaitCommand a b c"
  "iptablesHasWaitCommand a b c \<Longrightarrow> iptablesHasCheckCommand a b c"
  unfolding feature_thresholds by (rule order_trans [rotated], assumption, simp add: less_eq_release_def)+

definition release_of :: "semver \<Rightarrow> release" where
  "release_of v = Rel (Major v) (Minor v) (Patch v)"

lemma semver_release_order:
  "PreRelease v = [] \<Longrightarrow> PreRelease w = [] \<Longrightarrow> semver_LessThan v w \<longleftrightarrow> release_of v < release_of w"
  by (simp add: semver_LessThan_release release_of_def less_release_def)

lemma semver_release_mono:
  "PreRelease v = [] \<Longrightarrow> PreRelease w = [] \<Longrightarrow> PreRelease m = [] \<Longrightarrow> release_of v \<le> release_of w \<Longrightarrow>
     \<not> semver_LessThan v m \<Longrightarrow> \<not> semver_LessThan w m"
  by (simp add: semver_release_order not_less)

end
