(* ===== verification/Startup.thy ===== *)
theory Startup
  imports Roles Versions
begin

text \<open>
  The start of the agent: \<open>Run\<close> brings the node into the state, and the controller into the
  possession of the handles, on which the processing of resources relies.
\<close>

section \<open>The handles\<close>

text \<open>An iptables of release 1.4.20 or later is installed and answers its version.\<close>

definition iptables_modern :: "'w host \<Rightarrow> tools \<Rightarrow> bool" where
  "iptables_modern h t \<longleftrightarrow>
     (\<forall>w. hLookPath h ''iptables'' w = Some (tIptables t)) \<and>
     (\<forall>w. case hExec h [tIptables t, ''--version''] w of
            (r, _) \<Rightarrow> cmd_error r = None \<and>
              (\<exists>a b c m. extractIptablesVersion (xStdout r) = Some (a, b, c, m) \<and> Rel 1 4 20 \<le> Rel a b c))"

definition known_here :: "'w host \<Rightarrow> bool" where
  "known_here h \<longleftrightarrow> (\<forall>q. \<exists>node ip. GetNodeObject h [] q = (Ok node, q) \<and> GetNodeIP node = Inr ip)"

lemma GetNodeObject_state: "GetNodeObject h s p = (r, p') \<Longrightarrow> p' = p"
  by (cases rule: GetNodeObject_result [of h s p]) auto

context node_contract
begin

lemma version_output:
  assumes "iptables_modern h t"
  obtains out w a b c m where "cmdOutput h [tIptables t, ''--version''] p = (Ok out, p\<lparr>os := w\<rparr>)"
    and "v w = v (os p)" and "extractIptablesVersion out = Some (a, b, c, m)" and "Rel 1 4 20 \<le> Rel a b c"
proof -
  obtain r w where ex: "hExec h [tIptables t, ''--version''] (os p) = (r, w)" by (rule prod.exhaust)
  have "case hExec h [tIptables t, ''--version''] (os p) of (r, _) \<Rightarrow> cmd_error r = None \<and>
      (\<exists>a b c m. extractIptablesVersion (xStdout r) = Some (a, b, c, m) \<and> Rel 1 4 20 \<le> Rel a b c)"
    using assms [unfolded iptables_modern_def, THEN conjunct2] by (rule spec)
  then obtain a b c m where m: "cmd_error r = None" "extractIptablesVersion (xStdout r) = Some (a, b, c, m)"
      "Rel 1 4 20 \<le> Rel a b c"
    using ex by auto
  have w: "v w = v (os p)" using quiet_version(2) [of "os p"] ex by simp
  have "cmdOutput h [tIptables t, ''--version''] p = (Ok (xStdout r), p\<lparr>os := w\<rparr>)"
    using ex m by (simp add: cmdOutput_run)
  then show thesis by (rule that [OF _ w m(2,3)])
qed

lemma New_ready:
  assumes "iptables_modern h t"
  obtains ipt p' where "iptables_New h p = (Ok ipt, p')" and "ipt_ready t ipt"
    and "ipsetPath p' = ipsetPath p" and "view v p' = view v p"
proof -
  obtain out w a b c m where out: "cmdOutput h [tIptables t, ''--version''] p = (Ok out, p\<lparr>os := w\<rparr>)"
    and w: "v w = v (os p)" and v: "extractIptablesVersion out = Some (a, b, c, m)" and le: "Rel 1 4 20 \<le> Rel a b c"
    by (rule version_output [OF assms])
  have path: "hLookPath h ''iptables'' (os p) = Some (tIptables t)" using assms by (simp add: iptables_modern_def)
  have wait: "iptablesHasWaitCommand a b c" using le by (simp add: feature_thresholds)
  let ?ipt = "\<lparr>iptPath = tIptables t, iptProto = ProtocolIPv4, hasCheck = iptablesHasCheckCommand a b c,
      hasWait = iptablesHasWaitCommand a b c, hasRandomFully = iptablesHasRandomFully a b c,
      iptV1 = a, iptV2 = b, iptV3 = c, iptMode = m\<rparr>"
  show thesis
  proof (rule that)
    show "iptables_New h p = (Ok ?ipt, p\<lparr>os := w\<rparr>)"
      using path out v
      by (simp add: iptables_New_def NewWithProtocol_def getIptablesCommand_def getIptablesVersionString_def bindE_def
          catchE_def getIptablesCommandSupport_def)
    show "ipt_ready t ?ipt" using wait features_nested(2) by (simp add: ipt_ready_def)
  qed (use w in \<open>simp_all add: view_def\<close>)
qed

end

section \<open>Run\<close>

lemma fatalE_Ok [simp]: "fatalE m p = (Ok x, p') \<longleftrightarrow> m p = (Ok x, p')"
  by (auto simp: fatalE_def catchE_def split: prod.split outcome.split)

text \<open>What \<open>Run\<close> leaves on the node when it gets to its workers.\<close>

definition start_rules :: rule_set where
  "start_rules = insert (''nat'', ''POSTROUTING'', [''-j'', bypassCNIMasquradeChainName]) setup_rules"

definition start_chains :: "(string \<times> string) set" where
  "start_chains = {(''filter'', egressGatewayFWChainName), (''nat'', egressGatewayNATChainName),
     (''nat'', bypassCNIMasquradeChainName)}"

definition started :: "tools \<Rightarrow> linux \<Rightarrow> linux \<Rightarrow> bool" where
  "started t lx lx' \<longleftrightarrow>
     (\<forall>tab ch. chain_in lx' tab ch \<longleftrightarrow> chain_in lx tab ch \<or> (tab, ch) \<in> start_chains) \<and>
     all_rules lx' = all_rules lx \<union> start_rules \<and> set_of lx' = set_of lx \<and>
     lxLinks lx' = lxLinks lx \<and> lxUp lx' = lxUp lx \<and> tunnel_of lx' = tunnel_of lx \<and> routes_of lx' = routes_of lx \<and>
     lxPolicy lx' = lxPolicy lx @
       (if contains (tPolicy t (lxPolicy lx)) route_table then [] else [(directorFWMARK, route_table)])"

lemma startedI:
  assumes g: "gateway_setup_effect t lx = Some l1" and d: "director_setup_effect t l1 = Some lx'"
  shows "started t lx lx'"
proof -
  note a = gateway_setup_Some [OF g] and b = director_setup_Some [OF d]
  have "all_rules lx' = all_rules lx \<union> start_rules" using a b by (auto simp: start_rules_def)
  then show ?thesis using a b unfolding started_def by (auto simp: start_chains_def same_rest_def)
qed

text \<open>A chain of the program that is there already is an error, unless iptables answers exit status 1 for it.\<close>

lemma have_chain_needs: "have_chain t tab ch lx = Some lx' \<Longrightarrow> tChainExists t = 1 \<or> \<not> chain_in lx tab ch"
  by (auto simp: have_chain_def chain_in_def split: if_splits)

lemma start_needs:
  assumes g: "gateway_setup_effect t lx = Some l1" and d: "director_setup_effect t l1 = Some lx'"
  shows "tChainExists t = 1 \<or> (\<forall>(tab, ch) \<in> start_chains. \<not> chain_in lx tab ch)"
proof -
  obtain a1 a2 a3 where a1: "have_chain t ''filter'' egressGatewayFWChainName lx = Some a1"
    and a2: "have_back ''filter'' ''FORWARD'' [''-j'', egressGatewayFWChainName] a1 = Some a2"
    and a3: "have_chain t ''nat'' egressGatewayNATChainName a2 = Some a3"
    using g by (auto simp: gateway_setup_effect_def Option_bind_Some_iff)
  obtain b1 b2 where b1: "have_policy t l1 = Some b1" and b2: "have_chain t ''nat'' bypassCNIMasquradeChainName b1 = Some b2"
    using d by (auto simp: director_setup_effect_def Option_bind_Some_iff)
  have "chain_in lx ''nat'' egressGatewayNATChainName \<Longrightarrow> chain_in a2 ''nat'' egressGatewayNATChainName"
    using have_chain_Some(3) [OF a1] have_back_Some(5) [OF a2] by simp
  moreover have "chain_in lx ''nat'' bypassCNIMasquradeChainName \<Longrightarrow> chain_in b1 ''nat'' bypassCNIMasquradeChainName"
    using gateway_setup_Some [OF g] have_policy_Some(2) [OF b1] by simp
  ultimately show ?thesis
    using have_chain_needs [OF a1] have_chain_needs [OF a3] have_chain_needs [OF b2] unfolding start_chains_def by auto
qed

text \<open>The two files of \<open>/proc\<close>: what goes wrong there is only logged.\<close>

context node_contract
begin

lemma proc_write:
  obtains q where "logE (writeFile h f s) p = (Ok (), q)" and "ipsetPath q = ipsetPath p" and "view v q = view v p"
proof -
  obtain ok w where w: "hWriteFile h f s (os p) = (ok, w)" by (rule prod.exhaust)
  then have "v w = v (os p)" using quiet_calls(2) [of f s "os p"] by simp
  with w show thesis by (intro that [of "p\<lparr>os := w\<rparr>"]) (simp_all add: logE_run writeFile_def view_def)
qed

lemma NewGateway_ready:
  assumes "iptables_modern h t"
  obtains gw q where "NewEgressGateway h p = (Ok gw, q)" and "ipt_ready t (gwIpt gw)"
    and "ipsetPath q = ipsetPath p" and "view v q = view v p"
proof -
  obtain ipt q where new: "iptables_New h p = (Ok ipt, q)" "ipt_ready t ipt" "ipsetPath q = ipsetPath p" "view v q = view v p"
    by (rule New_ready [OF assms])
  then show thesis by (intro that [of "\<lparr>gwIpt = ipt\<rparr>" q]) (simp_all add: NewEgressGateway_def bindE_def wrapE_run)
qed

lemma NewDirector_ready:
  assumes "iptables_modern h t"
  obtains r q where "NewEgressDirector h p = (r, q)" and "\<forall>d. r = Ok d \<longrightarrow> ipt_ready t (dirIpt d)"
    and "ipsetPath q = ipsetPath p" and "view v q = view v p" and "known_here h \<longrightarrow> (\<exists>d. r = Ok d)"
proof -
  obtain ipt q where new: "iptables_New h p = (Ok ipt, q)" "ipt_ready t ipt" "ipsetPath q = ipsetPath p" "view v q = view v p"
    by (rule New_ready [OF assms])
  obtain r q' where run: "NewEgressDirector h p = (r, q')" by (rule prod.exhaust)
  show thesis
  proof (rule that [OF run])
    obtain r1 where g: "GetNodeObject h [] q = (r1, q)" using GetNodeObject_state by (metis prod.exhaust)
    have q': "q' = q" using run new(1) g
      by (cases r1) (auto simp: NewEgressDirector_def bindE_def wrapE_run split: sum.splits)
    show "ipsetPath q' = ipsetPath p" "view v q' = view v p" using new(3,4) q' by simp_all
    show "\<forall>d. r = Ok d \<longrightarrow> ipt_ready t (dirIpt d)"
      using run new(1,2) g
      by (cases r1) (auto simp: NewEgressDirector_def bindE_def wrapE_run split: sum.splits)
    show "known_here h \<longrightarrow> (\<exists>d. r = Ok d)"
    proof
      assume "known_here h"
      then obtain node ip where "GetNodeObject h [] q = (Ok node, q)" "GetNodeIP node = Inr ip"
        unfolding known_here_def by blast
      then show "\<exists>d. r = Ok d" using run new(1) by (auto simp: NewEgressDirector_def bindE_def wrapE_run)
    qed
  qed
qed

end


text \<open>\<open>Run\<close> up to the first call that changes the node, and what is left of it.\<close>

lemma controller_Run_start:
  assumes "documented h t v" and "iptables_modern h t" and "path_ready t p"
  obtains gw q where "ipt_ready t (gwIpt gw)" and "path_at t False q" and "view v q = view v p"
    and "controller_Run h synced c p = bindE (fatalE (gateway_Setup h gw)) (\<lambda>_. bindE (fatalE (NewEgressDirector h))
      (\<lambda>d. bindE (fatalE (director_Setup h d)) (\<lambda>_. bindE (readE synced)
         (\<lambda>ok. if ok then returnE (c\<lparr>trafficGateway := Some gw, trafficDirector := Some d\<rparr>)
              else failE (ErrText ''failed to wait for caches to sync''))))) q"
proof -
  have nc: "node_contract h t v" using assms(1) by unfold_locales
  obtain q1 where q1: "logE (writeFile h ''/proc/sys/net/ipv4/conf/all/rp_filter'' (Itoa 0)) p = (Ok (), q1)"
      "ipsetPath q1 = ipsetPath p" "view v q1 = view v p"
    by (rule node_contract.proc_write [OF nc])
  obtain q2 where q2: "logE (writeFile h ''/proc/sys/net/ipv4/conf/default/rp_filter'' (Itoa 0)) q1 = (Ok (), q2)"
      "ipsetPath q2 = ipsetPath q1" "view v q2 = view v q1"
    by (rule node_contract.proc_write [OF nc])
  obtain gw q3 where q3: "NewEgressGateway h q2 = (Ok gw, q3)" "ipt_ready t (gwIpt gw)" "ipsetPath q3 = ipsetPath q2"
      "view v q3 = view v q2"
    by (rule node_contract.NewGateway_ready [OF nc assms(2)])
  show thesis
    by (rule that [OF q3(2)])
      (use assms(3) q1 q2 q3 in \<open>simp_all add: path_ready_def controller_Run_def bindE_def fatalE_def catchE_def\<close>)
qed

text \<open>On a node without faults that knows itself \<open>Run\<close> gets to its workers.\<close>

lemma controller_Run_reaches:
  assumes "documented h t v" and "iptables_modern h t" and "path_ready t p" and "controller_Run h synced c p = (r, p')"
    and a: "reliable h t v" "known_here h" "chain_in (view v p) ''filter'' ''FORWARD''" "chain_in (view v p) ''nat'' ''POSTROUTING''"
      "tChainExists t = 1 \<or> (\<forall>(tab, ch) \<in> start_chains. \<not> chain_in (view v p) tab ch)" "synced (os p')"
  shows "\<exists>c'. r = Ok c'"
proof -
  have nc: "node_contract h t v" using assms(1) by unfold_locales
  obtain gw q3 where q3: "ipt_ready t (gwIpt gw)" "path_at t False q3" "view v q3 = view v p"
    and start: "controller_Run h synced c p = bindE (fatalE (gateway_Setup h gw)) (\<lambda>_. bindE (fatalE (NewEgressDirector h))
      (\<lambda>d. bindE (fatalE (director_Setup h d)) (\<lambda>_. bindE (readE synced)
         (\<lambda>ok. if ok then returnE (c\<lparr>trafficGateway := Some gw, trafficDirector := Some d\<rparr>)
              else failE (ErrText ''failed to wait for caches to sync''))))) q3"
    by (rule controller_Run_start [OF assms(1-3)])
  obtain r4 q4 where q4: "gateway_Setup h gw q3 = (r4, q4)" by (rule prod.exhaust)
  note i4 = implementsD [OF node_contract.implements_gateway_Setup [OF nc q3(1)] q3(2) q4]
  obtain r5 q5 where q5: "NewEgressDirector h q4 = (r5, q5)" "\<forall>d. r5 = Ok d \<longrightarrow> ipt_ready t (dirIpt d)"
      "ipsetPath q5 = ipsetPath q4" "view v q5 = view v q4" "known_here h \<longrightarrow> (\<exists>d. r5 = Ok d)"
    by (rule node_contract.NewDirector_ready [OF nc assms(2)])
  have path5: "path_at t False q5" using i4(1) q5(3) by (simp add: path_ready_def)
  obtain l4 where l4: "gateway_setup_effect t (view v q3) = Some l4"
    using gateway_setup_defined [of "view v q3" t] a q3(3) by (auto simp: start_chains_def)
  then have ok4: "r4 = Ok ()" using i4(4) a by simp
  have v4: "view v q4 = l4" using i4(3) [OF ok4] l4 by simp
  obtain d where ok5: "r5 = Ok d" using q5(5) a by blast
  obtain r6 q6 where q6: "director_Setup h d q5 = (r6, q6)" by (rule prod.exhaust)
  have ready5: "ipt_ready t (dirIpt d)" using q5(2) ok5 by blast
  note i6 = implementsD [OF node_contract.implements_director_Setup [OF nc ready5] path5 q6]
  have "director_setup_effect t (view v q5) \<noteq> None"
    using director_setup_defined [of "view v q5" t] gateway_setup_Some [OF l4] a q3(3) q5(4) v4
    by (auto simp: start_chains_def egressGatewayFWChainName_def egressGatewayNATChainName_def bypassCNIMasquradeChainName_def)
  then have "r6 = Ok ()" using i6(4) a by simp
  then show ?thesis
    using assms(4) start q4 q5(1) ok4 ok5 q6 a(6) by (auto simp: bindE_def fatalE_def catchE_def readE_def split: if_splits)
qed

text \<open>What a \<open>Run\<close> that got to its workers has done.\<close>

lemma controller_Run_effect:
  assumes "documented h t v" and "iptables_modern h t" and "path_ready t p" and "controller_Run h synced c p = (Ok c', p')"
  shows "ctl_ready t c' \<and> trafficDirector c' \<noteq> None \<and> trafficGateway c' \<noteq> None \<and>
       egressIndexer c' = egressIndexer c \<and> endpointsIndexer c' = endpointsIndexer c \<and> ctlNodeIP c' = ctlNodeIP c \<and>
       path_ready t p' \<and> started t (view v p) (view v p') \<and>
       (tChainExists t = 1 \<or> (\<forall>(tab, ch) \<in> start_chains. \<not> chain_in (view v p) tab ch))"
proof -
  have nc: "node_contract h t v" using assms(1) by unfold_locales
  obtain gw q3 where q3: "ipt_ready t (gwIpt gw)" "path_at t False q3" "view v q3 = view v p"
    and start: "controller_Run h synced c p = bindE (fatalE (gateway_Setup h gw)) (\<lambda>_. bindE (fatalE (NewEgressDirector h))
      (\<lambda>d. bindE (fatalE (director_Setup h d)) (\<lambda>_. bindE (readE synced)
         (\<lambda>ok. if ok then returnE (c\<lparr>trafficGateway := Some gw, trafficDirector := Some d\<rparr>)
              else failE (ErrText ''failed to wait for caches to sync''))))) q3"
    by (rule controller_Run_start [OF assms(1-3)])
  obtain r4 q4 where q4: "gateway_Setup h gw q3 = (r4, q4)" by (rule prod.exhaust)
  note i4 = implementsD [OF node_contract.implements_gateway_Setup [OF nc q3(1)] q3(2) q4]
  obtain r5 q5 where q5: "NewEgressDirector h q4 = (r5, q5)" "\<forall>d. r5 = Ok d \<longrightarrow> ipt_ready t (dirIpt d)"
      "ipsetPath q5 = ipsetPath q4" "view v q5 = view v q4"
    by (rule node_contract.NewDirector_ready [OF nc assms(2)])
  have path5: "path_at t False q5" using i4(1) q5(3) by (simp add: path_ready_def)
  obtain d q6 where ok4: "r4 = Ok ()" and ok5: "r5 = Ok d" and q6: "director_Setup h d q5 = (Ok (), q6)"
    and c': "c' = c\<lparr>trafficGateway := Some gw, trafficDirector := Some d\<rparr>" and p': "p' = q6"
    using assms(4) start q4 q5(1)
    by (cases r4; cases r5) (auto simp: bindE_def fatalE_def catchE_def readE_def split: prod.splits outcome.splits if_splits)
  have ready5: "ipt_ready t (dirIpt d)" using q5(2) ok5 by blast
  note i6 = implementsD [OF node_contract.implements_director_Setup [OF nc ready5] path5 q6]
  have "started t (view v p) (view v p')"
    using startedI [OF i4(3) [OF ok4] ] i6(3) [OF refl] q3(3) q5(4) p' by simp
  moreover have "tChainExists t = 1 \<or> (\<forall>(tab, ch) \<in> start_chains. \<not> chain_in (view v p) tab ch)"
    using start_needs [OF i4(3) [OF ok4]] i6(3) [OF refl] q3(3) q5(4) by simp
  ultimately show ?thesis using c' p' i6(1) q3(1) ready5 by (simp add: ctl_ready_def)
qed

text \<open>What \<open>Run\<close> can change at most, wherever it ends.\<close>

lemma controller_Run_frame:
  assumes "documented h t v" and "iptables_modern h t" and "path_ready t p" and "controller_Run h synced c p = (r, p')"
  shows "path_ready t p' \<and> node_edits (view v p) (view v p') \<and>
    all_rules (view v p) \<subseteq> all_rules (view v p') \<and> all_rules (view v p') \<subseteq> all_rules (view v p) \<union> start_rules"
proof -
  have nc: "node_contract h t v" using assms(1) by unfold_locales
  have sub: "setup_rules \<subseteq> start_rules" "{(''nat'', ''POSTROUTING'', [''-j'', bypassCNIMasquradeChainName])} \<subseteq> start_rules"
    by (auto simp: start_rules_def)
  obtain gw q3 where q3: "ipt_ready t (gwIpt gw)" "path_at t False q3" "view v q3 = view v p"
    and start: "controller_Run h synced c p = bindE (fatalE (gateway_Setup h gw)) (\<lambda>_. bindE (fatalE (NewEgressDirector h))
      (\<lambda>d. bindE (fatalE (director_Setup h d)) (\<lambda>_. bindE (readE synced)
         (\<lambda>ok. if ok then returnE (c\<lparr>trafficGateway := Some gw, trafficDirector := Some d\<rparr>)
              else failE (ErrText ''failed to wait for caches to sync''))))) q3"
    by (rule controller_Run_start [OF assms(1-3)])
  obtain r4 q4 where q4: "gateway_Setup h gw q3 = (r4, q4)" by (rule prod.exhaust)
  note e4 = implementsD(1,2) [OF node_contract.implements_gateway_Setup [OF nc q3(1)] q3(2) q4]
    and c4 = changesD [OF node_contract.changes_gateway_Setup [OF nc q3(1)] q3(2) q4]
  obtain r5 q5 where q5: "NewEgressDirector h q4 = (r5, q5)" "\<forall>d. r5 = Ok d \<longrightarrow> ipt_ready t (dirIpt d)"
      "ipsetPath q5 = ipsetPath q4" "view v q5 = view v q4"
    by (rule node_contract.NewDirector_ready [OF nc assms(2)])
  have path5: "path_at t False q5" using e4(1) q5(3) by (simp add: path_ready_def)
  show ?thesis
  proof (cases "r4 = Ok () \<and> (\<exists>d. r5 = Ok d)")
    case True
    then obtain d where d: "r5 = Ok d" by blast
    obtain r6 q6 where q6: "director_Setup h d q5 = (r6, q6)" by (rule prod.exhaust)
    have ready5: "ipt_ready t (dirIpt d)" using q5(2) d by blast
    note e6 = implementsD(1,2) [OF node_contract.implements_director_Setup [OF nc ready5] path5 q6]
      and c6 = changesD [OF node_contract.changes_director_Setup [OF nc ready5] path5 q6]
    have p': "p' = q6" using assms(4) start True d q4 q5(1) q6
      by (cases r6) (auto simp: bindE_def fatalE_def catchE_def readE_def split: if_splits)
    show ?thesis
    proof (intro conjI)
      show "path_ready t p'" using e6(1) p' by simp
      show "node_edits (view v p) (view v p')" using rtranclp_trans [OF e4(2)] e6(2) q3(3) q5(4) p' by simp
      show "all_rules (view v p) \<subseteq> all_rules (view v p')" "all_rules (view v p') \<subseteq> all_rules (view v p) \<union> start_rules"
        using c4 c6 sub q3(3) q5(4) p' by auto
    qed
  next
    case False
    then have p': "view v p' = view v q4 \<and> ipsetPath p' = ipsetPath q4" using assms(4) start q4 q5
      by (cases r4; cases r5) (auto simp: bindE_def fatalE_def catchE_def)
    have "path_ready t p'" using e4(1) p' by (simp add: path_ready_def)
    moreover have "node_edits (view v p) (view v p')" using e4(2) q3(3) p' by simp
    ultimately show ?thesis using c4 sub(1) q3(3) p' by auto
  qed
qed

text \<open>
  C14 (run_prepares). \<open>Run\<close> on a node with a modern iptables: when it gets to its workers, the controller has
  both handles and the caches it had, the chains of both roles exist, the built-in chains
  jump to them, the policy rule for the custom table is there unless one was listed, and
  other rules and chains, the sets, the links, the tunnels and the routes are as they were
  (\<open>rp_filter\<close> and \<open>rt_tables\<close>, which it also writes, are not part of that state). On a node
  without faults that knows itself and has the built-in chains it gets there when the caches
  synchronise, provided that none of its own chains is there yet or iptables answers exit
  status 1 for a chain that is. Where it answers another status and one of the chains is left
  from an earlier run, it never gets there.
\<close>

theorem run_prepares:
  assumes "documented h t v" and "iptables_modern h t" and "path_ready t p" and "controller_Run h synced c p = (r, p')"
  shows "(\<forall>c'. r = Ok c' \<longrightarrow>
       ctl_ready t c' \<and> trafficDirector c' \<noteq> None \<and> trafficGateway c' \<noteq> None \<and>
       egressIndexer c' = egressIndexer c \<and> endpointsIndexer c' = endpointsIndexer c \<and> ctlNodeIP c' = ctlNodeIP c \<and>
       path_ready t p' \<and> started t (view v p) (view v p')) \<and>
     (reliable h t v \<and> known_here h \<and> chain_in (view v p) ''filter'' ''FORWARD'' \<and> chain_in (view v p) ''nat'' ''POSTROUTING'' \<and>
      (tChainExists t = 1 \<or> (\<forall>(tab, ch) \<in> start_chains. \<not> chain_in (view v p) tab ch)) \<and> synced (os p') \<longrightarrow> (\<exists>c'. r = Ok c')) \<and>
     (tChainExists t \<noteq> 1 \<and> (\<exists>(tab, ch) \<in> start_chains. chain_in (view v p) tab ch) \<longrightarrow> (\<forall>c'. r \<noteq> Ok c'))"
  using controller_Run_reaches [OF assms] controller_Run_effect [OF assms(1-3)] assms(4) by blast

lemma ref_version: "extractIptablesVersion ''iptables v1.6.2'' = Some (1, 6, 2, ''legacy'')"
proof -
  have "find_version ''iptables v1.6.2'' = Some (''1'', ''6'', ''2'', [])" by code_simp
  moreover have "digits_value ''1'' = 1" "digits_value ''6'' = 6" "digits_value ''2'' = 2" by code_simp+
  ultimately show ?thesis by (simp add: extractIptablesVersion_def atoi_digits_def)
qed

lemma ref_alone_run: "iptables_modern ref_alone (ref_tools 1)" "known_here ref_alone"
proof -
  have "Rel 1 4 20 \<le> Rel 1 6 2" by (simp add: less_eq_release_def)
  then show "iptables_modern ref_alone (ref_tools 1)"
    using ref_version
    by (simp add: iptables_modern_def ref_alone_def ref_host_def ref_exec_def ref_version_args cmd_error_def)
  show "known_here ref_alone"
    by (simp add: known_here_def ref_alone_def GetNodeObject_def Let_def catchE_def getNode_def ref_self_IP)
qed

theorem run_prepares_witness:
  "\<exists>c' p'. controller_Run ref_alone (\<lambda>w. True) (ref_caches [] []) (ref_node_proc ''u1'' fresh_lx) = (Ok c', p') \<and>
     trafficDirector c' \<noteq> None \<and> chain_in (view rwNode p') ''nat'' bypassCNIMasquradeChainName"
proof -
  obtain r p' where run: "controller_Run ref_alone (\<lambda>w. True) (ref_caches [] []) (ref_node_proc ''u1'' fresh_lx) = (r, p')"
    by (rule prod.exhaust)
  show ?thesis
    using run_prepares [OF ref_alone_laws(1) ref_alone_run(1) _ run] run ref_alone_laws(2) ref_alone_run(2)
    by (auto simp: chain_in_def started_def start_chains_def)
qed

end
