(* ===== verification/Agent.thy ===== *)
theory Agent
  imports Handlers Startup
begin

text \<open>
  The agent as a transition system: the handlers of the informer, the rounds of the workers,
  the waiting loop of the queue and whatever happens outside, in any order. A sync, and a
  handler, is one step, also when it ends in a panic; workers that run syncs of different
  keys at the same time interleave at this grain.
\<close>

section \<open>Steps\<close>

datatype agent_event =
  Added informer_obj
| Updated informer_obj informer_obj
| Deleted informer_obj
| Round
| Waiting
| Outside

inductive agent_step ::
  "'w host \<Rightarrow> ('w \<Rightarrow> linux) \<Rightarrow> 'w controller \<Rightarrow> agent_event \<Rightarrow> 'w agent \<Rightarrow> 'w agent \<Rightarrow> bool"
  for h :: "'w host" and v :: "'w \<Rightarrow> linux" and c :: "'w controller" where
  added: "addStaticEgressIP b now obj st = (r, st') \<Longrightarrow> agent_step h v c (Added obj) st st'"
| updated: "updateStaticEgressIP h c b now old new st = (r, st') \<Longrightarrow> agent_step h v c (Updated old new) st st'"
| deleted: "deleteStaticEgressIP h c b now obj st = (r, st') \<Longrightarrow> agent_step h v c (Deleted obj) st st'"
| round: "processNextWorkItem h c b now st = Some (r, st') \<Longrightarrow> agent_step h v c Round st st'"
| ready: "agent_step h v c Waiting st (st\<lparr>agQueue := loop_ready now (agQueue st)\<rparr>)"
| receive: "agent_step h v c Waiting st (st\<lparr>agQueue := loop_receive now (agQueue st)\<rparr>)"
| outside: "v w = v (os (agProc st)) \<Longrightarrow> agent_step h v c Outside st (st\<lparr>agProc := (agProc st)\<lparr>os := w\<rparr>\<rparr>)"

inductive_cases agent_stepE:
  "agent_step h v c (Added obj) st st'" "agent_step h v c (Updated old new) st st'"
  "agent_step h v c (Deleted obj) st st'" "agent_step h v c Round st st'"
  "agent_step h v c Waiting st st'" "agent_step h v c Outside st st'"

inductive agent_run ::
  "'w host \<Rightarrow> ('w \<Rightarrow> linux) \<Rightarrow> 'w controller \<Rightarrow> agent_event list \<Rightarrow> 'w agent \<Rightarrow> 'w agent \<Rightarrow> bool"
  for h :: "'w host" and v :: "'w \<Rightarrow> linux" and c :: "'w controller" where
  stop: "agent_run h v c [] st st"
| step: "agent_step h v c e st st1 \<Longrightarrow> agent_run h v c es st1 st2 \<Longrightarrow> agent_run h v c (e # es) st st2"

section \<open>What a step may do\<close>

text \<open>The rules an event may withdraw, and those of the resources that the cache can hold.\<close>

definition withdrawn :: "agent_event \<Rightarrow> rule_set" where
  "withdrawn e =
     (case e of
        Updated (IsStaticEgressIP old) _ \<Rightarrow> cleared_all old \<union> director_all old
      | Deleted obj \<Rightarrow> (case deleted_object obj of None \<Rightarrow> {} | Some sip \<Rightarrow> director_all sip)
      | _ \<Rightarrow> {})"

definition resource_rules :: "'w controller \<Rightarrow> rule_set" where
  "resource_rules c = (\<Union>sip \<in> {sip. \<exists>w key. cached c w key = Some sip}. gateway_all sip \<union> director_all sip)"

definition agent_ok :: "tools \<Rightarrow> ('w \<Rightarrow> linux) \<Rightarrow> 'w agent \<Rightarrow> bool" where
  "agent_ok t v st \<longleftrightarrow> path_ready t (agProc st) \<and> node_wf (view v (agProc st)) \<and> rq_ok (agQueue st)"

definition agent_moves :: "tools \<Rightarrow> ('w \<Rightarrow> linux) \<Rightarrow> rule_set \<Rightarrow> rule_set \<Rightarrow> 'w agent \<Rightarrow> 'w agent \<Rightarrow> bool" where
  "agent_moves t v A B st st' \<longleftrightarrow>
     (agent_ok t v st \<longrightarrow> agent_ok t v st' \<and> node_edits (view v (agProc st)) (view v (agProc st')) \<and>
        all_rules (view v (agProc st)) \<subseteq> all_rules (view v (agProc st')) \<union> A \<and>
        all_rules (view v (agProc st')) \<subseteq> all_rules (view v (agProc st)) \<union> B)"

interpretation ag: step_order "agent_moves t v A B" for t v A B
proof
  fix s r u
  assume "agent_moves t v A B s r" and "agent_moves t v A B r u"
  then show "agent_moves t v A B s u"
    unfolding agent_moves_def using rtranclp_trans [of node_edit "view v (agProc s)" "view v (agProc r)" "view v (agProc u)"] by blast
qed (simp add: agent_moves_def)

lemma agent_moves_mono: "agent_moves t v A B st st' \<Longrightarrow> A \<subseteq> A' \<Longrightarrow> B \<subseteq> B' \<Longrightarrow> agent_moves t v A' B' st st'"
  unfolding agent_moves_def by blast

text \<open>A program of the node, run by the agent.\<close>

lemma on_node_moves:
  assumes "moves (changes t v False A B) m" and "moves (edits t v False) m"
  shows "moves (agent_moves t v A B) (on_node m)"
proof (rule movesI)
  fix st r st'
  assume run: "on_node m st = (r, st')"
  obtain r1 p where m: "m (agProc st) = (r1, p)" by (rule prod.exhaust)
  have st': "st' = st\<lparr>agProc := p\<rparr>" using run m by (simp add: on_node_def)
  show "agent_moves t v A B st st'"
  proof (cases "path_ready t (agProc st)")
    case True
    then have path: "path_at t False (agProc st)" by simp
    show ?thesis
      using changesD [OF assms(1) path m] editsD [OF assms(2) path m] node_edits_wf st'
      by (simp add: agent_moves_def agent_ok_def)
  qed (simp add: agent_moves_def agent_ok_def)
qed

lemma enqueue_moves: "moves (agent_moves t v A B) (enqueueStaticEgressIP b now sip)"
  by (rule movesI) (auto simp: enqueueStaticEgressIP_def agent_moves_def agent_ok_def rq.later_ok)


context node_contract
begin

lemma sync_moves:
  assumes "ctl_ready t c"
  shows "moves (changes t v False {} (resource_rules c)) (syncHandler h c key)"
proof (rule movesI)
  fix p r p'
  assume run: "syncHandler h c key p = (r, p')"
  have "(case cached c (os p) key of None \<Rightarrow> {} | Some sip \<Rightarrow> role_rules h sip p) \<subseteq> resource_rules c"
  proof (cases "cached c (os p) key")
    case (Some sip)
    then have "gateway_all sip \<union> director_all sip \<subseteq> resource_rules c" unfolding resource_rules_def by blast
    with role_rules_subset have "role_rules h sip p \<subseteq> resource_rules c" by (rule order_trans)
    then show ?thesis using Some by simp
  qed simp
  then show "changes t v False {} (resource_rules c) p p'"
    using sync_changes [OF node_contract_axioms assms _ run] editsD(1) [OF edits_syncHandler [OF assms] _ run]
    by (fastforce simp: changes_def)
qed

lemma round_moves:
  assumes "ctl_ready t c" and run: "processNextWorkItem h c b now st = Some (r, st')"
  shows "agent_moves t v {} (resource_rules c) st st'"
proof -
  obtain got q where g: "rq_Get (agQueue st) = (got, q)" by (rule prod.exhaust)
  show ?thesis
  proof (cases got)
    case (Got k)
    obtain r1 p where sync: "syncHandler h c k (agProc st) = (r1, p)" by (rule prod.exhaust)
    have st': "agProc st' = p" "agQueue st' \<in> {rq_Done k (rq_Forget k q), rq_Done k (rq_AddRateLimited k b now q), rq_Done k q}"
      using run g Got sync by (cases r1; simp add: processNextWorkItem_def; auto)+
    have "moves (agent_moves t v {} (resource_rules c)) (on_node (syncHandler h c k))"
      by (rule on_node_moves [OF sync_moves [OF assms(1)] edits_syncHandler [OF assms(1)]])
    then have "agent_moves t v {} (resource_rules c) st (st\<lparr>agProc := p\<rparr>)"
      by (rule movesD) (simp add: on_node_def sync)
    moreover have "rq_ok (agQueue st')" if ok: "rq_ok (agQueue st)"
    proof -
      have "rq_ok q" and "k \<in> wqProcessing (rqBase q)"
        using rq.get_ok [OF ok] rq.get_Got [OF ok, of k q] g Got by simp_all
      then show ?thesis using st'(2) by (auto simp: rq.ok_ops rq.fin_ok rq.busy_ops)
    qed
    ultimately show ?thesis using st'(1) by (simp add: agent_moves_def agent_ok_def)
  next
    case Blocked
    then show ?thesis using run g by (simp add: processNextWorkItem_def)
  next
    case Shutdown
    then have "st' = st\<lparr>agQueue := q\<rparr>" using run g by (simp add: processNextWorkItem_def)
    moreover have "rq_ok q" if "rq_ok (agQueue st)" using rq.get_ok [OF that] g by simp
    ultimately show ?thesis by (simp add: agent_moves_def agent_ok_def)
  qed
qed


lemma handler_moves:
  assumes "moves (changes t v False A B) m" and "moves (edits t v False) m"
  shows "moves (agent_moves t v A B) (bindE (on_node m) (\<lambda>_. enqueueStaticEgressIP b now sip))"
  by (intro ag.moves_bindE on_node_moves assms enqueue_moves)

lemma update_moves:
  assumes "ctl_ready t c"
  shows "moves (agent_moves t v (withdrawn (Updated old new)) B) (updateStaticEgressIP h c b now old new)"
  by (cases old; cases new)
    (simp_all add: updateStaticEgressIP_def withdrawn_def ag.moves_panicE handler_moves edits_transition [OF assms]
      changes_mono [OF changes_transition [OF assms]])

lemma delete_moves:
  assumes "ctl_ready t c"
  shows "moves (agent_moves t v (withdrawn (Deleted obj)) B) (deleteStaticEgressIP h c b now obj)"
  by (cases "deleted_object obj")
    (simp_all add: deleteStaticEgressIP_def withdrawn_def ag.moves_returnE handler_moves edits_delete [OF assms]
      changes_mono [OF changes_delete [OF assms]])

lemma step_moves:
  assumes ready: "ctl_ready t c" and step: "agent_step h v c e st st'"
  shows "agent_moves t v (withdrawn e) (resource_rules c) st st'"
  using step
proof cases
  case (added b now obj r)
  have "moves (agent_moves t v (withdrawn e) (resource_rules c)) (addStaticEgressIP b now obj)"
    unfolding addStaticEgressIP_def by (cases obj) (simp_all add: enqueue_moves ag.moves_panicE)
  from movesD [OF this added(2)] show ?thesis .
next
  case (updated b now old new r)
  then show ?thesis using movesD [OF update_moves [OF ready] updated(2)] by simp
next
  case (deleted b now obj r)
  then show ?thesis using movesD [OF delete_moves [OF ready] deleted(2)] by simp
next
  case (round b now r)
  then show ?thesis using agent_moves_mono [OF round_moves [OF ready round(2)]] by simp
qed (simp_all add: agent_moves_def agent_ok_def rq.ok_ops view_def path_ready_def)

lemma run_moves:
  assumes "ctl_ready t c" and "agent_run h v c es st st'"
  shows "agent_moves t v (\<Union>e \<in> set es. withdrawn e) (resource_rules c) st st'"
  using assms(2)
proof induction
  case (step e st st1 es st2)
  have "agent_moves t v (\<Union>e \<in> set (e # es). withdrawn e) (resource_rules c) st st1"
    by (rule agent_moves_mono [OF step_moves [OF assms(1) step(1)]]) auto
  moreover have "agent_moves t v (\<Union>e \<in> set (e # es). withdrawn e) (resource_rules c) st1 st2"
    by (rule agent_moves_mono [OF step.IH]) auto
  ultimately show ?case by (rule ag.R_trans)
qed (rule ag.R_refl)

end

text \<open>
  Whatever the agent does, in any order of handlers, syncs, steps of the waiting loop and
  events outside, with failing commands and with crashes: the node stays well formed, the
  queue keeps its invariant, every rule that came belongs to a resource the cache can hold, in
  the role of the gateway or of a director, and every rule that went belonged to the old
  version of an update or to a deleted resource.
\<close>

lemma agent_safe:
  assumes "documented h t v" and "ctl_ready t c"
    and "path_ready t (agProc st)" and "node_wf (view v (agProc st))" and "rq_ok (agQueue st)"
    and "agent_run h v c es st st'"
  shows "path_ready t (agProc st') \<and> node_wf (view v (agProc st')) \<and> rq_ok (agQueue st') \<and>
     all_rules (view v (agProc st')) \<subseteq> all_rules (view v (agProc st)) \<union> resource_rules c \<and>
     all_rules (view v (agProc st)) \<subseteq> all_rules (view v (agProc st')) \<union> (\<Union>e \<in> set es. withdrawn e)"
proof -
  have "node_contract h t v" using assms(1) by unfold_locales
  from node_contract.run_moves [OF this assms(2,6)] show ?thesis
    using assms(3-5) by (simp add: agent_moves_def agent_ok_def)
qed

lemma round_ex: "rq_Get (agQueue st) = (Got k, q) \<Longrightarrow> \<exists>r st'. processNextWorkItem h c b now st = Some (r, st')"
  by (cases "syncHandler h c k (agProc st)" rule: prod.exhaust; cases "fst (syncHandler h c k (agProc st))")
    (simp_all add: processNextWorkItem_def)

text \<open>A resource is added, its delay passes and a worker syncs it.\<close>

lemma ref_agent_run:
  "\<exists>st'. agent_run (ref_host 1) rwNode c [Added (IsStaticEgressIP sip), Waiting, Round]
     \<lparr>agProc = p, agQueue = rq_New\<rparr> st'"
proof -
  let ?k = "MetaNamespaceKeyFunc sip" and ?fs = "[MetaNamespaceKeyFunc sip \<mapsto> 1]"
  let ?q1 = "rq_New\<lparr>rqFailures := ?fs, rqChan := [(?k, 5000000)]\<rparr>"
  let ?q2 = "rq_New\<lparr>rqFailures := ?fs, rqBase := \<lparr>wqQueue = [?k], wqDirty = {?k}, wqProcessing = {}, wqDown = False\<rparr>\<rparr>"
  have q1: "rq_AddRateLimited ?k 0 0 rq_New = ?q1"
    by (simp add: rq_AddRateLimited_eq rq_New_def wq_New_def failure_count_def baseDelay_def maxDelay_def)
  have q2: "loop_receive 6000000 ?q1 = ?q2"
    by (simp add: loop_receive_def receive_def wq_ShuttingDown_def rq_New_def wq_New_def on_base_def wq_Add_def Let_def)
  obtain q where "rq_Get ?q2 = (Got ?k, q)" by (simp add: rq_Get_def wq_Get_def)
  then obtain r st' where round: "processNextWorkItem (ref_host 1) c 0 0 \<lparr>agProc = p, agQueue = ?q2\<rparr> = Some (r, st')"
    using round_ex [of "\<lparr>agProc = p, agQueue = ?q2\<rparr>"] by fastforce
  have "agent_step (ref_host 1) rwNode c (Added (IsStaticEgressIP sip)) \<lparr>agProc = p, agQueue = rq_New\<rparr> \<lparr>agProc = p, agQueue = ?q1\<rparr>"
    by (rule agent_step.added [of 0 0 _ _ "Ok ()"]) (simp add: addStaticEgressIP_def enqueueStaticEgressIP_def q1)
  moreover have "agent_step (ref_host 1) rwNode c Waiting \<lparr>agProc = p, agQueue = ?q1\<rparr> \<lparr>agProc = p, agQueue = ?q2\<rparr>"
    using agent_step.receive [of "ref_host 1" rwNode c "\<lparr>agProc = p, agQueue = ?q1\<rparr>" 6000000] q2 by simp
  moreover have "agent_step (ref_host 1) rwNode c Round \<lparr>agProc = p, agQueue = ?q2\<rparr> st'"
    by (rule agent_step.round [OF round])
  ultimately show ?thesis by (blast intro: agent_run.intros)
qed

lemma agent_safe_witness:
  "\<exists>st'. agent_run (ref_host 1) rwNode (ref_caches [ref_resource ''u9''] [(''default/web'', ref_endpoints)])
       [Added (IsStaticEgressIP (ref_resource ''u9'')), Waiting, Round]
       \<lparr>agProc = ref_node_proc ''u1'' ref_serving_lx, agQueue = rq_New\<rparr> st' \<and>
     node_wf (view rwNode (agProc st')) \<and> all_rules ref_serving_lx \<subseteq> all_rules (view rwNode (agProc st'))"
proof -
  let ?c = "ref_caches [ref_resource ''u9''] [(''default/web'', ref_endpoints)]"
    and ?st = "\<lparr>agProc = ref_node_proc ''u1'' ref_serving_lx, agQueue = rq_New\<rparr> :: ref_world agent"
  obtain st' where run: "agent_run (ref_host 1) rwNode ?c [Added (IsStaticEgressIP (ref_resource ''u9'')), Waiting, Round] ?st st'"
    using ref_agent_run by blast
  have "rq_ok rq_New" by (simp add: rq_ok_def wq_ok_def rq_New_def wq_New_def)
  then show ?thesis
    using agent_safe [OF ref_documented ref_caches_ready _ _ _ run] run by (auto simp: withdrawn_def)
qed

end
