(* ===== verification/DeepCopy.thy ===== *)
theory DeepCopy
  imports ApiTypes
begin

text \<open>
  \<open>zz_generated.deepcopy.go\<close>: the copies that the manager makes before it writes into an
  object of the cache it shares with the informer. Here slices and pointers are addresses
  in an explicit heap, since what matters is what the copy does not share.
\<close>

section \<open>The heap\<close>

text \<open>
  A slice is nil or the address of its backing array, a pointer is nil or the address of its
  object; arrays and objects are never freed, so an address is a position.
\<close>

record go_spec =
  gRules :: "nat option"

record go_sip =
  gName :: string
  gNamespace :: string
  gSpec :: go_spec
  gStatus :: egress_status

record go_list =
  gItems :: "nat option"

record go_heap =
  ruleArrays :: "egress_rule list list"
  itemArrays :: "go_sip list list"
  sipObjects :: "go_sip list"
  listObjects :: "go_list list"
  ruleObjects :: "egress_rule list"
  specObjects :: "go_spec list"
  statusObjects :: "egress_status list"

section \<open>Copies\<close>

definition Rule_DeepCopyInto :: "egress_rule \<Rightarrow> egress_rule" where
  "Rule_DeepCopyInto i = i"

definition Status_DeepCopyInto :: "egress_status \<Rightarrow> egress_status" where
  "Status_DeepCopyInto i = i"

definition Spec_DeepCopyInto :: "go_spec \<Rightarrow> go_heap \<Rightarrow> go_spec \<times> go_heap" where
  "Spec_DeepCopyInto i h =
     (case gRules i of
        None \<Rightarrow> (i, h)
      | Some a \<Rightarrow>
          (i\<lparr>gRules := Some (length (ruleArrays h))\<rparr>, h\<lparr>ruleArrays := ruleArrays h @ [ruleArrays h ! a]\<rparr>))"

definition SIP_DeepCopyInto :: "go_sip \<Rightarrow> go_heap \<Rightarrow> go_sip \<times> go_heap" where
  "SIP_DeepCopyInto i h =
     (case Spec_DeepCopyInto (gSpec i) h of (spec, h') \<Rightarrow> (i\<lparr>gSpec := spec, gStatus := gStatus i\<rparr>, h'))"

definition SIP_DeepCopy :: "nat option \<Rightarrow> go_heap \<Rightarrow> nat option \<times> go_heap" where
  "SIP_DeepCopy i h =
     (case i of
        None \<Rightarrow> (None, h)
      | Some a \<Rightarrow>
          (case SIP_DeepCopyInto (sipObjects h ! a) h of
             (s, h') \<Rightarrow> (Some (length (sipObjects h')), h'\<lparr>sipObjects := sipObjects h' @ [s]\<rparr>)))"

definition SIP_DeepCopyObject :: "nat option \<Rightarrow> go_heap \<Rightarrow> nat option \<times> go_heap" where
  "SIP_DeepCopyObject i h =
     (case SIP_DeepCopy i h of (c, h') \<Rightarrow> (case c of Some a \<Rightarrow> (Some a, h') | None \<Rightarrow> (None, h')))"

text \<open>The loop of the list: every element into its place of the new array.\<close>

fun items_DeepCopyInto :: "go_sip list \<Rightarrow> go_heap \<Rightarrow> go_sip list \<times> go_heap" where
  "items_DeepCopyInto [] h = ([], h)"
| "items_DeepCopyInto (s # ss) h =
     (case SIP_DeepCopyInto s h of (s', h1) \<Rightarrow>
      (case items_DeepCopyInto ss h1 of (ss', h2) \<Rightarrow> (s' # ss', h2)))"

definition List_DeepCopyInto :: "go_list \<Rightarrow> go_heap \<Rightarrow> go_list \<times> go_heap" where
  "List_DeepCopyInto i h =
     (case gItems i of
        None \<Rightarrow> (i, h)
      | Some a \<Rightarrow>
          (case items_DeepCopyInto (itemArrays h ! a) h of (ss, h') \<Rightarrow>
             (i\<lparr>gItems := Some (length (itemArrays h'))\<rparr>, h'\<lparr>itemArrays := itemArrays h' @ [ss]\<rparr>)))"

definition List_DeepCopy :: "nat option \<Rightarrow> go_heap \<Rightarrow> nat option \<times> go_heap" where
  "List_DeepCopy i h =
     (case i of
        None \<Rightarrow> (None, h)
      | Some a \<Rightarrow>
          (case List_DeepCopyInto (listObjects h ! a) h of
             (l, h') \<Rightarrow> (Some (length (listObjects h')), h'\<lparr>listObjects := listObjects h' @ [l]\<rparr>)))"

definition List_DeepCopyObject :: "nat option \<Rightarrow> go_heap \<Rightarrow> nat option \<times> go_heap" where
  "List_DeepCopyObject i h =
     (case List_DeepCopy i h of (c, h') \<Rightarrow> (case c of Some a \<Rightarrow> (Some a, h') | None \<Rightarrow> (None, h')))"

text \<open>Copies of the parts of a resource into objects of their own.\<close>

definition Rule_DeepCopy :: "nat option \<Rightarrow> go_heap \<Rightarrow> nat option \<times> go_heap" where
  "Rule_DeepCopy i h =
     (case i of
        None \<Rightarrow> (None, h)
      | Some a \<Rightarrow> (Some (length (ruleObjects h)), h\<lparr>ruleObjects := ruleObjects h @ [Rule_DeepCopyInto (ruleObjects h ! a)]\<rparr>))"

definition Spec_DeepCopy :: "nat option \<Rightarrow> go_heap \<Rightarrow> nat option \<times> go_heap" where
  "Spec_DeepCopy i h =
     (case i of
        None \<Rightarrow> (None, h)
      | Some a \<Rightarrow>
          (case Spec_DeepCopyInto (specObjects h ! a) h of
             (s, h') \<Rightarrow> (Some (length (specObjects h')), h'\<lparr>specObjects := specObjects h' @ [s]\<rparr>)))"

definition Status_DeepCopy :: "nat option \<Rightarrow> go_heap \<Rightarrow> nat option \<times> go_heap" where
  "Status_DeepCopy i h =
     (case i of
        None \<Rightarrow> (None, h)
      | Some a \<Rightarrow>
          (Some (length (statusObjects h)), h\<lparr>statusObjects := statusObjects h @ [Status_DeepCopyInto (statusObjects h ! a)]\<rparr>))"

section \<open>Values and writes\<close>

definition rules_at :: "go_heap \<Rightarrow> go_spec \<Rightarrow> egress_rule list" where
  "rules_at h s = (case gRules s of None \<Rightarrow> [] | Some a \<Rightarrow> ruleArrays h ! a)"

definition sip_value :: "go_heap \<Rightarrow> go_sip \<Rightarrow> static_egress_ip" where
  "sip_value h s =
     \<lparr>sName = gName s, sNamespace = gNamespace s, Spec = \<lparr>Rules = rules_at h (gSpec s)\<rparr>, Status = gStatus s\<rparr>"

definition sip_at :: "go_heap \<Rightarrow> nat \<Rightarrow> static_egress_ip" where
  "sip_at h a = sip_value h (sipObjects h ! a)"

text \<open>\<open>p.Status = st\<close> and \<open>s.Rules[i] = r\<close>.\<close>

definition write_status :: "nat \<Rightarrow> egress_status \<Rightarrow> go_heap \<Rightarrow> go_heap" where
  "write_status a st h = h\<lparr>sipObjects := (sipObjects h)[a := (sipObjects h ! a)\<lparr>gStatus := st\<rparr>]\<rparr>"

definition write_rule :: "go_spec \<Rightarrow> nat \<Rightarrow> egress_rule \<Rightarrow> go_heap \<Rightarrow> go_heap" where
  "write_rule s i r h =
     (case gRules s of
        None \<Rightarrow> h
      | Some a \<Rightarrow> h\<lparr>ruleArrays := (ruleArrays h)[a := (ruleArrays h ! a)[i := r]]\<rparr>)"

definition spec_in :: "go_heap \<Rightarrow> go_spec \<Rightarrow> bool" where
  "spec_in h s \<longleftrightarrow> (\<forall>a. gRules s = Some a \<longrightarrow> a < length (ruleArrays h))"

text \<open>Every address that an object holds is one of the heap.\<close>

definition heap_ok :: "go_heap \<Rightarrow> bool" where
  "heap_ok h \<longleftrightarrow> (\<forall>s \<in> set (sipObjects h). spec_in h (gSpec s)) \<and>
     (\<forall>ss \<in> set (itemArrays h). \<forall>s \<in> set ss. spec_in h (gSpec s)) \<and> (\<forall>s \<in> set (specObjects h). spec_in h s)"

section \<open>Laws\<close>

text \<open>Copying allocates rule arrays and leaves everything else alone.\<close>

definition extends :: "go_heap \<Rightarrow> go_heap \<Rightarrow> bool" where
  "extends h h' \<longleftrightarrow> (\<exists>as. h' = h\<lparr>ruleArrays := ruleArrays h @ as\<rparr>)"

lemma extends_refl [simp]: "extends h h"
  unfolding extends_def by (rule exI [of _ "[]"]) simp

lemma extends_alloc [simp]: "extends h (h\<lparr>ruleArrays := ruleArrays h @ as\<rparr>)"
  unfolding extends_def by blast

lemma extends_trans: "extends h h1 \<Longrightarrow> extends h1 h2 \<Longrightarrow> extends h h2"
  by (auto simp: extends_def)

lemma extends_rules: "extends h h' \<Longrightarrow> spec_in h s \<Longrightarrow> rules_at h' s = rules_at h s \<and> spec_in h' s"
  by (auto simp: extends_def spec_in_def rules_at_def nth_append split: option.split)

lemma Spec_copy:
  assumes "Spec_DeepCopyInto s h = (s', h')" and "spec_in h s"
  shows "extends h h'" and "rules_at h' s' = rules_at h s" and "spec_in h' s'"
    and "gRules s' = Some a \<Longrightarrow> length (ruleArrays h) \<le> a" and "gRules s' = None \<longleftrightarrow> gRules s = None"
  using assms
  by (auto simp: Spec_DeepCopyInto_def rules_at_def spec_in_def nth_append split: option.splits)

lemma SIP_copy:
  assumes "SIP_DeepCopyInto s h = (s', h')" and "spec_in h (gSpec s)"
  shows "extends h h'" and "sip_value h' s' = sip_value h s" and "spec_in h' (gSpec s')"
    and "gRules (gSpec s') = Some a \<Longrightarrow> length (ruleArrays h) \<le> a"
proof -
  obtain sp where sp: "Spec_DeepCopyInto (gSpec s) h = (sp, h')" "s' = s\<lparr>gSpec := sp, gStatus := gStatus s\<rparr>"
    using assms(1) by (auto simp: SIP_DeepCopyInto_def split: prod.splits)
  note c = Spec_copy [OF sp(1) assms(2)]
  show "extends h h'" "spec_in h' (gSpec s')" using c sp(2) by simp_all
  show "sip_value h' s' = sip_value h s" using c(2) sp(2) by (simp add: sip_value_def)
  show "gRules (gSpec s') = Some a \<Longrightarrow> length (ruleArrays h) \<le> a" using c(4) sp(2) by simp
qed


text \<open>The arrays that the objects of a list refer to.\<close>

definition arrays_of :: "go_sip list \<Rightarrow> nat list" where
  "arrays_of ss = List.map_filter (\<lambda>s. gRules (gSpec s)) ss"

lemma arrays_of_simps [simp]:
  "arrays_of [] = []"
  "arrays_of (s # ss) = (case gRules (gSpec s) of None \<Rightarrow> arrays_of ss | Some a \<Rightarrow> a # arrays_of ss)"
  by (simp_all add: arrays_of_def map_filter_simps split: option.split)

lemma extends_length: "extends h h' \<Longrightarrow> length (ruleArrays h) \<le> length (ruleArrays h')"
  by (auto simp: extends_def)

lemma extends_value: "extends h h' \<Longrightarrow> spec_in h (gSpec s) \<Longrightarrow> sip_value h' s = sip_value h s"
  by (simp add: sip_value_def extends_rules)

lemma items_copy:
  assumes "items_DeepCopyInto ss h = (ss', h')" and "\<forall>s \<in> set ss. spec_in h (gSpec s)"
  shows "extends h h' \<and> map (sip_value h') ss' = map (sip_value h) ss \<and> (\<forall>s \<in> set ss'. spec_in h' (gSpec s)) \<and>
     distinct (arrays_of ss') \<and> (\<forall>a \<in> set (arrays_of ss'). length (ruleArrays h) \<le> a)"
  using assms
proof (induction ss arbitrary: h ss')
  case (Cons s ss)
  obtain s' h1 where s: "SIP_DeepCopyInto s h = (s', h1)" by (rule prod.exhaust)
  obtain ts where ts: "items_DeepCopyInto ss h1 = (ts, h')" "ss' = s' # ts"
    using Cons.prems(1) s by (auto split: prod.splits)
  note c = SIP_copy [OF s]
  have in_h: "spec_in h (gSpec s)" "\<forall>x \<in> set ss. spec_in h (gSpec x)" using Cons.prems(2) by simp_all
  have in_h1: "\<forall>x \<in> set ss. spec_in h1 (gSpec x)" using in_h(2) extends_rules [OF c(1) [OF in_h(1)]] by blast
  note IH = Cons.IH [OF ts(1) in_h1]
  have ext: "extends h h'" using extends_trans [OF c(1) [OF in_h(1)]] IH by blast
  have vals: "map (sip_value h1) ss = map (sip_value h) ss"
    using in_h(2) extends_value [OF c(1) [OF in_h(1)]] by simp
  have first: "sip_value h' s' = sip_value h s" "spec_in h' (gSpec s')"
    using IH c(2,3) [OF in_h(1)] extends_value [of h1 h' s'] extends_rules [of h1 h'] by simp_all
  have below: "a < length (ruleArrays h1)" if "gRules (gSpec s') = Some a" for a
    using c(3) [OF in_h(1)] that by (simp add: spec_in_def)
  have above: "length (ruleArrays h) \<le> a" if "a \<in> set (arrays_of ts)" for a
    using IH that extends_length [OF c(1) [OF in_h(1)]] by fastforce
  have fresh: "gRules (gSpec s') \<noteq> Some a" if "a \<in> set (arrays_of ts)" for a
    using IH that below by (meson leD)
  have "distinct (arrays_of ss')" and "\<forall>a \<in> set (arrays_of ss'). length (ruleArrays h) \<le> a"
    using IH fresh above c(4) [OF in_h(1)] ts(2) by (auto split: option.splits)
  then show ?case using ext first vals IH ts(2) by simp
qed simp

text \<open>Copies of a list: the same values, and no two elements share an array with each other or with anything old.\<close>

lemma list_copy_independent:
  assumes "heap_ok h" and "gItems l = Some a" and "a < length (itemArrays h)" and "List_DeepCopyInto l h = (l', h')"
  shows "\<exists>b. gItems l' = Some b \<and> map (sip_value h') (itemArrays h' ! b) = map (sip_value h) (itemArrays h ! a) \<and>
     distinct (arrays_of (itemArrays h' ! b)) \<and>
     (\<forall>ss \<in> set (itemArrays h). set (arrays_of ss) \<inter> set (arrays_of (itemArrays h' ! b)) = {})"
proof -
  obtain ss h1 where c: "items_DeepCopyInto (itemArrays h ! a) h = (ss, h1)" by (rule prod.exhaust)
  have inh: "\<forall>s \<in> set (itemArrays h ! a). spec_in h (gSpec s)"
    using assms(1,3) unfolding heap_ok_def by (meson nth_mem)
  note i = items_copy [OF c inh]
  have h': "h' = h1\<lparr>itemArrays := itemArrays h1 @ [ss]\<rparr>" "gItems l' = Some (length (itemArrays h1))"
    using assms(2,4) c by (auto simp: List_DeepCopyInto_def)
  have same: "sip_value h' = sip_value h1" using h' by (simp add: fun_eq_iff sip_value_def rules_at_def split: option.split)
  have old: "x < length (ruleArrays h)" if "ts \<in> set (itemArrays h)" "x \<in> set (arrays_of ts)" for ts x
  proof -
    have "\<forall>s \<in> set ts. spec_in h (gSpec s)" using assms(1) that(1) by (simp add: heap_ok_def)
    then show ?thesis using that(2) by (induction ts) (auto simp: spec_in_def split: option.splits)
  qed
  have "set (arrays_of ts) \<inter> set (arrays_of ss) = {}" if "ts \<in> set (itemArrays h)" for ts
    using old [OF that] i by (meson disjoint_iff leD)
  then show ?thesis using i h' same by simp
qed

text \<open>The copy of a spec has its rules in an array of its own.\<close>

lemma spec_copy_independent:
  assumes "heap_ok h" and "a < length (specObjects h)" and "Spec_DeepCopy (Some a) h = (q, h')"
  shows "\<exists>b. q = Some b \<and> rules_at h' (specObjects h' ! b) = rules_at h (specObjects h ! a) \<and> heap_ok h' \<and>
     (\<forall>n < length (specObjects h). \<forall>i r. rules_at (write_rule (specObjects h' ! b) i r h') (specObjects h ! n) =
        rules_at h (specObjects h ! n))"
proof -
  let ?b = "length (specObjects h)"
  obtain s h1 where c: "Spec_DeepCopyInto (specObjects h ! a) h = (s, h1)" by (rule prod.exhaust)
  have ok: "spec_in h (specObjects h ! n)" if "n < ?b" for n using assms(1) that by (simp add: heap_ok_def)
  note f = Spec_copy [OF c ok [OF assms(2)]]
  obtain as where h1: "h1 = h\<lparr>ruleArrays := ruleArrays h @ as\<rparr>" using f(1) by (auto simp: extends_def)
  have q: "q = Some ?b" and h': "h' = h1\<lparr>specObjects := specObjects h @ [s]\<rparr>"
    using assms(3) c h1 by (auto simp: Spec_DeepCopy_def)
  have same: "rules_at h' = rules_at h1" "spec_in h' = spec_in h1"
    using h' by (simp_all add: fun_eq_iff rules_at_def spec_in_def split: option.split)
  have "heap_ok h'" using assms(1) f(3) extends_rules [OF f(1)] same h' h1 by (auto simp: heap_ok_def)
  moreover have "rules_at (write_rule s i r h') (specObjects h ! n) = rules_at h (specObjects h ! n)" if "n < ?b" for n i r
  proof -
    have "rules_at (write_rule s i r h') (specObjects h ! n) = rules_at h' (specObjects h ! n)"
      using f(4) ok [OF that] by (fastforce simp: write_rule_def rules_at_def spec_in_def split: option.split)
    then show ?thesis using same extends_rules [OF f(1) ok [OF that]] by simp
  qed
  ultimately show ?thesis using q f(2) same h' by simp
qed

section \<open>Independence\<close>

text \<open>
  C33 (deep_copy_independent). The copy of a resource has the value of the original, and neither making it nor writing
  into it, its status or any of its rules, changes the value of any object that was there:
  the manager may edit its copy although the original belongs to the informer.
\<close>

theorem deep_copy_independent:
  assumes "heap_ok h" and "a < length (sipObjects h)" and "SIP_DeepCopy (Some a) h = (q, h')"
  shows "\<exists>b. q = Some b \<and> sip_at h' b = sip_at h a \<and> heap_ok h' \<and>
     (\<forall>o' < length (sipObjects h). \<forall>st i r. sip_at h' o' = sip_at h o' \<and>
        sip_at (write_status b st h') o' = sip_at h o' \<and>
        sip_at (write_rule (gSpec (sipObjects h' ! b)) i r h') o' = sip_at h o')"
proof -
  let ?b = "length (sipObjects h)"
  obtain s h1 where c: "SIP_DeepCopyInto (sipObjects h ! a) h = (s, h1)" by (rule prod.exhaust)
  have ok: "spec_in h (gSpec (sipObjects h ! n))" if "n < length (sipObjects h)" for n
    using assms(1) that by (simp add: heap_ok_def)
  note f = SIP_copy [OF c ok [OF assms(2)]]
  obtain as where h1: "h1 = h\<lparr>ruleArrays := ruleArrays h @ as\<rparr>" using f(1) by (auto simp: extends_def)
  have q: "q = Some ?b" and h': "h' = h1\<lparr>sipObjects := sipObjects h @ [s]\<rparr>"
    using assms(3) c h1 by (auto simp: SIP_DeepCopy_def)
  have same: "sip_value h' = sip_value h1" "spec_in h' = spec_in h1"
    using h' by (simp_all add: fun_eq_iff sip_value_def rules_at_def spec_in_def split: option.split)
  have copy: "sip_at h' ?b = sip_at h a" using f(2) same h' by (simp add: sip_at_def)
  have old: "sip_at h' n = sip_at h n" if "n < ?b" for n
    using that same h' extends_value [OF f(1) ok [OF that]] by (simp add: sip_at_def nth_append)
  have heap: "heap_ok h'"
    using assms(1) f(3) extends_rules [OF f(1)] same h' h1 by (auto simp: heap_ok_def)
  have status: "sip_at (write_status ?b st h') n = sip_at h' n" if "n < ?b" for n st
    using that h' by (simp add: sip_at_def write_status_def sip_value_def rules_at_def nth_append split: option.split)
  have rule: "sip_at (write_rule (gSpec (sipObjects h' ! ?b)) i r h') n = sip_at h' n" if n: "n < ?b" for n i r
  proof (cases "gRules (gSpec s)")
    case None
    then show ?thesis using h' by (simp add: write_rule_def)
  next
    case (Some x)
    have "length (ruleArrays h) \<le> x" using f(4) [OF Some] .
    moreover have "y < length (ruleArrays h)" if "gRules (gSpec (sipObjects h ! n)) = Some y" for y
      using ok [OF n] that by (simp add: spec_in_def)
    ultimately show ?thesis
      using n Some h' by (auto simp: sip_at_def write_rule_def sip_value_def rules_at_def nth_append split: option.split)
  qed
  show ?thesis using q copy old heap status rule by simp
qed

theorem deep_copy_independent_witness:
  "\<exists>b h'. SIP_DeepCopy (Some 0) \<lparr>ruleArrays = [[\<lparr>ServiceName = ''web'', EgressIP = ''192.168.1.200'', Cidr = ''8.8.8.0/24''\<rparr>]],
         itemArrays = [], sipObjects = [\<lparr>gName = ''eip'', gNamespace = ''default'', gSpec = \<lparr>gRules = Some 0\<rparr>,
         gStatus = \<lparr>GatewayNode = [], GatewayIP = []\<rparr>\<rparr>], listObjects = [], ruleObjects = [], specObjects = [], statusObjects = []\<rparr> = (Some b, h') \<and>
     GatewayNode (Status (sip_at (write_status b \<lparr>GatewayNode = ''u1'', GatewayIP = []\<rparr> h') 0)) = []"
proof -
  let ?h = "\<lparr>ruleArrays = [[\<lparr>ServiceName = ''web'', EgressIP = ''192.168.1.200'', Cidr = ''8.8.8.0/24''\<rparr>]],
         itemArrays = [], sipObjects = [\<lparr>gName = ''eip'', gNamespace = ''default'', gSpec = \<lparr>gRules = Some 0\<rparr>,
         gStatus = \<lparr>GatewayNode = [], GatewayIP = []\<rparr>\<rparr>], listObjects = [], ruleObjects = [], specObjects = [], statusObjects = []\<rparr>"
  obtain q h' where run: "SIP_DeepCopy (Some 0) ?h = (q, h')" by (rule prod.exhaust)
  have "heap_ok ?h" by (simp add: heap_ok_def spec_in_def)
  moreover have "GatewayNode (Status (sip_at ?h 0)) = []" by (simp add: sip_at_def sip_value_def)
  ultimately show ?thesis using deep_copy_independent [OF _ _ run] run by auto
qed

end
