(* ===== verification/Election.thy ===== *)
theory Election
  imports GatewayManager
begin

text \<open>
  The election of the one manager that runs its loop: \<open>tools/leaderelection\<close> and the
  ConfigMap lock of client-go, as \<open>Run\<close> of \<open>pkg/ha/gateway_manager.go\<close> configures them. The
  API server is a parameter. A call that goes to the server is cut into what the client
  sends and what it does with the answer, because other managers act in between.
\<close>

section \<open>The record and its ConfigMap\<close>

text \<open>Times are nanoseconds; \<open>None\<close> is the zero time.\<close>

record leader_record =
  HolderIdentity :: string
  LeaseDurationSeconds :: int
  AcquireTime :: "int option"
  RenewTime :: "int option"
  LeaderTransitions :: int

definition zero_record :: leader_record where
  "zero_record = \<lparr>HolderIdentity = [], LeaseDurationSeconds = 0, AcquireTime = None, RenewTime = None, LeaderTransitions = 0\<rparr>"

definition second :: int where
  "second = 10 ^ 9"

text \<open>\<open>json.Marshal\<close> writes times in whole seconds, so this is what a reader sees.\<close>

definition on_wire :: "leader_record \<Rightarrow> leader_record" where
  "on_wire r =
     r\<lparr>AcquireTime := map_option (\<lambda>t. t div second * second) (AcquireTime r),
       RenewTime := map_option (\<lambda>t. t div second * second) (RenewTime r)\<rparr>"

datatype annotation = RecordJson leader_record | OtherText string

definition LeaderElectionRecordAnnotationKey :: string where
  "LeaderElectionRecordAnnotationKey = ''control-plane.alpha.kubernetes.io/leader''"

text \<open>The parts of a ConfigMap that the lock reads and writes; a nil map of annotations is \<open>None\<close>.\<close>

record config_map =
  cmVersion :: string
  cmAnnotations :: "(string \<Rightarrow> annotation option) option"

definition empty_cm :: config_map where
  "empty_cm = \<lparr>cmVersion = [], cmAnnotations = None\<rparr>"

text \<open>The client of ConfigMaps, for the namespace and the name of the lock.\<close>

record 'w cm_api =
  cmGet :: "'w \<Rightarrow> (goerror + config_map) \<times> 'w"
  cmCreate :: "config_map \<Rightarrow> 'w \<Rightarrow> (goerror + config_map) \<times> 'w"
  cmUpdate :: "config_map \<Rightarrow> 'w \<Rightarrow> (goerror + config_map) \<times> 'w"

section \<open>The lock\<close>

text \<open>What \<open>Run\<close> puts into the configuration. \<open>Identity\<close> is the environment variable \<open>POD_IP\<close>.\<close>

record lease_config =
  Identity :: string
  LeaseDuration :: int
  RenewDeadline :: int
  RetryPeriod :: int
  ReleaseOnCancel :: bool

definition manager_config :: "string \<Rightarrow> lease_config" where
  "manager_config podIP =
     \<lparr>Identity = podIP, LeaseDuration = 60 * second, RenewDeadline = 15 * second, RetryPeriod = 5 * second,
      ReleaseOnCancel = True\<rparr>"

text \<open>The checks of \<open>NewLeaderElector\<close>; \<open>JitterFactor\<close> is 1.2.\<close>

definition elector_config_ok :: "lease_config \<Rightarrow> bool" where
  "elector_config_ok c \<longleftrightarrow>
     LeaseDuration c > RenewDeadline c \<and> RenewDeadline c > 12 * RetryPeriod c div 10 \<and>
     LeaseDuration c \<ge> 1 \<and> RenewDeadline c \<ge> 1 \<and> RetryPeriod c \<ge> 1"

text \<open>The elector with its lock, whose field \<open>cm\<close> is nil at first.\<close>

record elector =
  observedRecord :: leader_record
  observedTime :: int
  lockCm :: "config_map option"

definition new_elector :: elector where
  "new_elector = \<lparr>observedRecord = zero_record, observedTime = 0, lockCm = None\<rparr>"

definition IsLeader :: "lease_config \<Rightarrow> elector \<Rightarrow> bool" where
  "IsLeader c le \<longleftrightarrow> HolderIdentity (observedRecord le) = Identity c"

text \<open>\<open>cml.Get\<close> after the answer: with an error the client returns an empty ConfigMap beside it.\<close>

definition cml_Get :: "goerror + config_map \<Rightarrow> elector \<Rightarrow> (goerror + leader_record) \<times> elector" where
  "cml_Get answer le =
     (case answer of
        Inl e \<Rightarrow> (Inl e, le\<lparr>lockCm := Some empty_cm\<rparr>)
      | Inr cm \<Rightarrow>
          (let annotations = (case cmAnnotations cm of None \<Rightarrow> (\<lambda>_. None) | Some m \<Rightarrow> m);
               le' = le\<lparr>lockCm := Some (cm\<lparr>cmAnnotations := Some annotations\<rparr>)\<rparr> in
           case annotations LeaderElectionRecordAnnotationKey of
             None \<Rightarrow> (Inr zero_record, le')
           | Some (RecordJson r) \<Rightarrow> (Inr r, le')
           | Some (OtherText s) \<Rightarrow> (Inl (ErrText ''invalid JSON''), le')))"

datatype request = CreateCM config_map | UpdateCM config_map

definition cml_Create :: "leader_record \<Rightarrow> request" where
  "cml_Create ler =
     CreateCM \<lparr>cmVersion = [], cmAnnotations = Some ((\<lambda>_. None)(LeaderElectionRecordAnnotationKey \<mapsto> RecordJson (on_wire ler)))\<rparr>"

text \<open>
  \<open>cml.Update\<close> up to the call: nil ConfigMaps are refused, and writing into a nil map of
  annotations is a run-time panic. The annotation is written into the cached object.
\<close>

datatype prepared = Refused goerror | NilMap | Prepared config_map

definition cml_Update :: "leader_record \<Rightarrow> elector \<Rightarrow> prepared" where
  "cml_Update ler le =
     (case lockCm le of
        None \<Rightarrow> Refused (ErrText ''configmap not initialized, call get or create first'')
      | Some cm \<Rightarrow>
          (case cmAnnotations cm of
             None \<Rightarrow> NilMap
           | Some m \<Rightarrow> Prepared (cm\<lparr>cmAnnotations := Some (m(LeaderElectionRecordAnnotationKey \<mapsto> RecordJson (on_wire ler)))\<rparr>)))"

text \<open>After the answer of \<open>Create\<close> or \<open>Update\<close> the object of the answer is cached, empty with an error.\<close>

definition cml_cache :: "goerror + config_map \<Rightarrow> elector \<Rightarrow> elector" where
  "cml_cache answer le = le\<lparr>lockCm := Some (case answer of Inl _ \<Rightarrow> empty_cm | Inr cm \<Rightarrow> cm)\<rparr>"

section \<open>The elector\<close>

definition own_record :: "lease_config \<Rightarrow> int \<Rightarrow> leader_record" where
  "own_record c now =
     \<lparr>HolderIdentity = Identity c, LeaseDurationSeconds = LeaseDuration c div second, AcquireTime = Some now,
      RenewTime = Some now, LeaderTransitions = 0\<rparr>"

text \<open>
  \<open>tryAcquireOrRenew\<close> that began at \<open>now\<close>, from the answer of \<open>Get\<close>, which arrives at
  \<open>clock\<close>: it ends, or it sends a request that is to write the record.
\<close>

datatype after_get = Ended bool | Sends request leader_record | Crashes

definition try_handle_get ::
  "lease_config \<Rightarrow> int \<Rightarrow> int \<Rightarrow> goerror + config_map \<Rightarrow> elector \<Rightarrow> after_get \<times> elector" where
  "try_handle_get c now clock answer le0 =
     (case cml_Get answer le0 of
        (Inl e, le) \<Rightarrow>
          (case e of
             ErrNotFound _ \<Rightarrow> (Sends (cml_Create (own_record c now)) (own_record c now), le)
           | _ \<Rightarrow> (Ended False, le))
      | (Inr old, le1) \<Rightarrow>
          (let le = (if observedRecord le1 \<noteq> old then le1\<lparr>observedRecord := old, observedTime := clock\<rparr> else le1) in
           if HolderIdentity old \<noteq> [] \<and> observedTime le + LeaseDuration c > now \<and> \<not> IsLeader c le
           then (Ended False, le)
           else
             (let ler =
                (if IsLeader c le
                 then (own_record c now)\<lparr>AcquireTime := AcquireTime old, LeaderTransitions := LeaderTransitions old\<rparr>
                 else (own_record c now)\<lparr>LeaderTransitions := LeaderTransitions old + 1\<rparr>) in
              case cml_Update ler le of
                Refused e \<Rightarrow> (Ended False, le)
              | NilMap \<Rightarrow> (Crashes, le)
              | Prepared cm \<Rightarrow> (Sends (UpdateCM cm) ler, le\<lparr>lockCm := Some cm\<rparr>))))"

text \<open>The rest, from the answer to the request.\<close>

definition try_handle_put :: "leader_record \<Rightarrow> int \<Rightarrow> goerror + config_map \<Rightarrow> elector \<Rightarrow> bool \<times> elector" where
  "try_handle_put ler clock answer le0 =
     (let le = cml_cache answer le0 in
      case answer of
        Inl e \<Rightarrow> (False, le)
      | Inr _ \<Rightarrow> (True, le\<lparr>observedRecord := ler, observedTime := clock\<rparr>))"

definition send :: "'w cm_api \<Rightarrow> request \<Rightarrow> 'w \<Rightarrow> (goerror + config_map) \<times> 'w" where
  "send api req w = (case req of CreateCM cm \<Rightarrow> cmCreate api cm w | UpdateCM cm \<Rightarrow> cmUpdate api cm w)"

text \<open>
  The whole of \<open>tryAcquireOrRenew\<close> when nobody else acts in between; \<open>now\<close>, \<open>t1\<close> and \<open>t2\<close> are
  the three readings of the clock.
\<close>

definition tryAcquireOrRenew ::
  "'w cm_api \<Rightarrow> lease_config \<Rightarrow> int \<Rightarrow> int \<Rightarrow> int \<Rightarrow> elector \<times> 'w \<Rightarrow> bool outcome \<times> elector \<times> 'w" where
  "tryAcquireOrRenew api c now t1 t2 st =
     (case st of (le0, w0) \<Rightarrow>
      case cmGet api w0 of (answer, w1) \<Rightarrow>
      case try_handle_get c now t1 answer le0 of
        (Ended b, le) \<Rightarrow> (Ok b, le, w1)
      | (Crashes, le) \<Rightarrow> (Panic NilMapWrite, le, w1)
      | (Sends req ler, le) \<Rightarrow>
          (case send api req w1 of (answer', w2) \<Rightarrow>
           case try_handle_put ler t2 answer' le of (b, le') \<Rightarrow> (Ok b, le', w2)))"

text \<open>\<open>release\<close> up to the call, and after the answer.\<close>

definition release_record :: "elector \<Rightarrow> leader_record" where
  "release_record le = zero_record\<lparr>LeaderTransitions := LeaderTransitions (observedRecord le)\<rparr>"

definition release_prepare :: "lease_config \<Rightarrow> elector \<Rightarrow> prepared option" where
  "release_prepare c le = (if \<not> IsLeader c le then None else Some (cml_Update (release_record le) le))"

definition release_done :: "leader_record \<Rightarrow> int \<Rightarrow> goerror + config_map \<Rightarrow> elector \<Rightarrow> elector" where
  "release_done ler clock answer le = snd (try_handle_put ler clock answer le)"

text \<open>
  What the manager's \<open>Run\<close> answers after the election returned. Its last call goes through a
  client that answers ''the leader is shutting down'' once the context is cancelled; another
  answer is fatal.
\<close>

definition run_result :: "bool \<Rightarrow> goerror option \<Rightarrow> unit outcome" where
  "run_result cancelled answer =
     (if cancelled then Ok ()
      else case answer of
             Some (ErrText m) \<Rightarrow> if contains m ''the leader is shutting down'' then Ok () else Panic FatalExit
           | _ \<Rightarrow> Panic FatalExit)"

end
