(* ===== verification/Managers.thy ===== *)
theory Managers
  imports Election
begin

text \<open>
  The managers of a cluster as one transition system: every manager runs the elector of
  \<open>Run\<close> and, while it leads, the loop over the resources; they share one ConfigMap. The
  steps of the managers, the arrival of their requests at the API server, crashes, restarts,
  the stop signal and the passing of time interleave in any order.
\<close>

section \<open>States\<close>

text \<open>
  The progress of one \<open>tryAcquireOrRenew\<close>, with the time at which it began: the request is
  on its way, or the answer is there and not yet handled.
\<close>

datatype call =
    Idle
  | Getting int
  | GotAnswer int "goerror + config_map"
  | Putting int request leader_record
  | PutAnswer int leader_record "goerror + config_map"

fun call_begun :: "call \<Rightarrow> int option" where
  "call_begun Idle = None"
| "call_begun (Getting now) = Some now"
| "call_begun (GotAnswer now _) = Some now"
| "call_begun (Putting now _ _) = Some now"
| "call_begun (PutAnswer now _ _) = Some now"

text \<open>
  \<open>acquire\<close>; \<open>renew\<close> between two rounds, with the time at which it got there; \<open>renew\<close> in a
  round, with the time at which its deadline was set; after \<open>renew\<close>; no process.
\<close>

datatype phase = Acquiring | Sleeping int | Renewing int | Stopped | Dead

record manager =
  mgElector :: elector
  mgCall :: call
  mgPhase :: phase
  mgLoop :: bool
  mgCancelled :: bool
  mgRelease :: "(int \<times> config_map \<times> leader_record) option"

definition fresh_manager :: manager where
  "fresh_manager = \<lparr>mgElector = new_elector, mgCall = Idle, mgPhase = Acquiring, mgLoop = False, mgCancelled = False,
     mgRelease = None\<rparr>"

text \<open>\<open>clOrphans\<close>: requests of processes that are gone may still reach the server.\<close>

record 'w cluster =
  clClock :: int
  clApi :: 'w
  clManagers :: "nat \<Rightarrow> manager"
  clOrphans :: "(nat \<times> int \<times> request) list"

text \<open>
  The server, the address of each pod, how far its clock is off, and how late things may be:
  \<open>callTime\<close> bounds a call of a candidate, which the code itself does not bound, and
  \<open>timerLag\<close> the delay after which a process reacts to a timer.
\<close>

record 'w setting =
  stApi :: "'w cm_api"
  podIP :: "nat \<Rightarrow> string"
  clockOffset :: "nat \<Rightarrow> int"
  callTime :: int
  timerLag :: int

definition config_of :: "'w setting \<Rightarrow> nat \<Rightarrow> lease_config" where
  "config_of s m = manager_config (podIP s m)"

definition wall :: "'w setting \<Rightarrow> 'w cluster \<Rightarrow> nat \<Rightarrow> int" where
  "wall s cl m = clClock cl + clockOffset s m"

definition timely :: "'w setting \<Rightarrow> nat \<Rightarrow> manager \<Rightarrow> int \<Rightarrow> bool" where
  "timely s m mg t \<longleftrightarrow>
     (case mgPhase mg of
        Acquiring \<Rightarrow> (case call_begun (mgCall mg) of None \<Rightarrow> True | Some now \<Rightarrow> t \<le> now - clockOffset s m + callTime s)
      | Sleeping e \<Rightarrow> t \<le> e + RetryPeriod (config_of s m) + timerLag s
      | Renewing b \<Rightarrow> t \<le> b + RenewDeadline (config_of s m) + timerLag s
      | _ \<Rightarrow> True)"

section \<open>Steps\<close>

text \<open>A try returned: \<open>acquire\<close> goes on to lead, a round of \<open>renew\<close> ends or tries again.\<close>

definition try_ended :: "int \<Rightarrow> bool \<Rightarrow> manager \<Rightarrow> manager" where
  "try_ended clock ok mg0 =
     (let mg = mg0\<lparr>mgCall := Idle\<rparr> in
      if \<not> ok then mg
      else case mgPhase mg of
             Acquiring \<Rightarrow> mg\<lparr>mgPhase := Sleeping clock, mgLoop := True\<rparr>
           | Renewing b \<Rightarrow> mg\<lparr>mgPhase := Sleeping clock\<rparr>
           | _ \<Rightarrow> mg)"

text \<open>A process ends; what it sent is still on its way.\<close>

definition process_gone :: "manager \<Rightarrow> manager" where
  "process_gone mg = mg\<lparr>mgPhase := Dead, mgLoop := False\<rparr>"

definition got_handled :: "int \<Rightarrow> after_get \<times> elector \<Rightarrow> int \<Rightarrow> manager \<Rightarrow> manager" where
  "got_handled now res clock mg0 =
     (case res of (after, le) \<Rightarrow>
      let mg = mg0\<lparr>mgElector := le\<rparr> in
      case after of
        Ended b \<Rightarrow> try_ended clock b mg
      | Sends req ler \<Rightarrow> mg\<lparr>mgCall := Putting now req ler\<rparr>
      | Crashes \<Rightarrow> process_gone mg)"

text \<open>The end of \<open>renew\<close>, where \<open>ReleaseOnCancel\<close> is set.\<close>

definition leave_renew :: "lease_config \<Rightarrow> int \<Rightarrow> manager \<Rightarrow> manager" where
  "leave_renew c now mg0 =
     (let mg = mg0\<lparr>mgPhase := Stopped\<rparr>; le = mgElector mg0 in
      case release_prepare c le of
        None \<Rightarrow> mg
      | Some (Refused e) \<Rightarrow> mg
      | Some NilMap \<Rightarrow> process_gone mg
      | Some (Prepared cm) \<Rightarrow>
          mg\<lparr>mgElector := le\<lparr>lockCm := Some cm\<rparr>, mgRelease := Some (now, cm, release_record le)\<rparr>)"

definition on_the_way :: "nat \<Rightarrow> manager \<Rightarrow> (nat \<times> int \<times> request) list" where
  "on_the_way m mg =
     (case mgCall mg of Putting now req ler \<Rightarrow> [(m, now, req)] | _ \<Rightarrow> []) @
     (case mgRelease mg of Some (now, cm, ler) \<Rightarrow> [(m, now, UpdateCM cm)] | None \<Rightarrow> [])"

abbreviation set_manager :: "nat \<Rightarrow> manager \<Rightarrow> 'w cluster \<Rightarrow> 'w cluster" where
  "set_manager m mg cl \<equiv> cl\<lparr>clManagers := (clManagers cl)(m := mg)\<rparr>"

inductive cluster_step :: "'w setting \<Rightarrow> 'w cluster \<Rightarrow> 'w cluster \<Rightarrow> bool" for s where
  advance: "clClock cl \<le> t \<Longrightarrow> (\<And>m. timely s m (clManagers cl m) t) \<Longrightarrow> cluster_step s cl (cl\<lparr>clClock := t\<rparr>)"
| begin_try: "mgCall (clManagers cl m) = Idle \<Longrightarrow>
    mgPhase (clManagers cl m) = Acquiring \<and> \<not> mgCancelled (clManagers cl m) \<or> (\<exists>b. mgPhase (clManagers cl m) = Renewing b) \<Longrightarrow>
    cluster_step s cl (set_manager m ((clManagers cl m)\<lparr>mgCall := Getting (wall s cl m)\<rparr>) cl)"
| serve_get: "mgCall (clManagers cl m) = Getting now \<Longrightarrow> cmGet (stApi s) (clApi cl) = (answer, w) \<Longrightarrow>
    cluster_step s cl (set_manager m ((clManagers cl m)\<lparr>mgCall := GotAnswer now answer\<rparr>) (cl\<lparr>clApi := w\<rparr>))"
| handle_get: "mgCall (clManagers cl m) = GotAnswer now answer \<Longrightarrow> mgPhase (clManagers cl m) \<noteq> Dead \<Longrightarrow>
    try_handle_get (config_of s m) now (wall s cl m) answer (mgElector (clManagers cl m)) = res \<Longrightarrow>
    cluster_step s cl (set_manager m (got_handled now res (clClock cl) (clManagers cl m)) cl)"
| serve_put: "mgCall (clManagers cl m) = Putting now req ler \<Longrightarrow> send (stApi s) req (clApi cl) = (answer, w) \<Longrightarrow>
    cluster_step s cl (set_manager m ((clManagers cl m)\<lparr>mgCall := PutAnswer now ler answer\<rparr>) (cl\<lparr>clApi := w\<rparr>))"
| handle_put: "mgCall (clManagers cl m) = PutAnswer now ler answer \<Longrightarrow> mgPhase (clManagers cl m) \<noteq> Dead \<Longrightarrow>
    try_handle_put ler (wall s cl m) answer (mgElector (clManagers cl m)) = (ok, le) \<Longrightarrow>
    cluster_step s cl (set_manager m (try_ended (clClock cl) ok ((clManagers cl m)\<lparr>mgElector := le\<rparr>)) cl)"
| start_round: "mgPhase (clManagers cl m) = Sleeping e \<Longrightarrow>
    cluster_step s cl (set_manager m ((clManagers cl m)\<lparr>mgPhase := Renewing (clClock cl)\<rparr>) cl)"
| leave: "(\<exists>b. mgPhase (clManagers cl m) = Renewing b \<and>
              (mgCancelled (clManagers cl m) \<or> b + RenewDeadline (config_of s m) \<le> clClock cl)) \<or>
          (\<exists>e. mgPhase (clManagers cl m) = Sleeping e \<and> mgCancelled (clManagers cl m)) \<Longrightarrow>
    cluster_step s cl (set_manager m (leave_renew (config_of s m) (wall s cl m) (clManagers cl m)) cl)"
| serve_release: "mgRelease (clManagers cl m) = Some (now, cm, ler) \<Longrightarrow> cmUpdate (stApi s) cm (clApi cl) = (answer, w) \<Longrightarrow>
    cluster_step s cl (set_manager m ((clManagers cl m)\<lparr>mgRelease := None,
        mgElector := release_done ler (wall s cl m) answer (mgElector (clManagers cl m))\<rparr>) (cl\<lparr>clApi := w\<rparr>))"
| give_up: "mgPhase (clManagers cl m) = Acquiring \<Longrightarrow> mgCall (clManagers cl m) = Idle \<Longrightarrow> mgCancelled (clManagers cl m) \<Longrightarrow>
    cluster_step s cl (set_manager m ((clManagers cl m)\<lparr>mgPhase := Stopped\<rparr>) cl)"
| stop_signal: "cluster_step s cl (set_manager m ((clManagers cl m)\<lparr>mgCancelled := True\<rparr>) cl)"
| end_loop: "mgCancelled (clManagers cl m) \<or> mgPhase (clManagers cl m) = Stopped \<Longrightarrow>
    cluster_step s cl (set_manager m ((clManagers cl m)\<lparr>mgLoop := False\<rparr>) cl)"
| die: "cluster_step s cl (set_manager m (process_gone (clManagers cl m)) cl)"
| restart: "mgPhase (clManagers cl m) = Dead \<Longrightarrow>
    cluster_step s cl (set_manager m fresh_manager (cl\<lparr>clOrphans := on_the_way m (clManagers cl m) @ clOrphans cl\<rparr>))"
| serve_orphan: "clOrphans cl = xs @ (m, now, req) # ys \<Longrightarrow> send (stApi s) req (clApi cl) = (answer, w) \<Longrightarrow>
    cluster_step s cl (cl\<lparr>clApi := w, clOrphans := xs @ ys\<rparr>)"

section \<open>The API server\<close>

text \<open>The record that a ConfigMap carries.\<close>

definition lock_record :: "config_map option \<Rightarrow> leader_record" where
  "lock_record cm =
     (case cm of
        None \<Rightarrow> zero_record
      | Some c \<Rightarrow>
          (case cmAnnotations c of
             None \<Rightarrow> zero_record
           | Some m \<Rightarrow> (case m LeaderElectionRecordAnnotationKey of Some (RecordJson r) \<Rightarrow> r | _ \<Rightarrow> zero_record)))"

text \<open>
  What the API conventions of Kubernetes promise of resource versions: an update is applied
  only when it names the current version, and what is applied gets a version that was never
  used. A call may fail with or without having been applied. \<open>srv\<close> is the stored object and
  \<open>used\<close> the versions so far.
\<close>

definition applied :: "config_map option \<Rightarrow> string set \<Rightarrow> request \<Rightarrow> config_map option \<Rightarrow> string set \<Rightarrow> bool" where
  "applied cur U req cur' U' \<longleftrightarrow> U \<subseteq> U' \<and> (\<exists>v. v \<notin> U \<and> v \<in> U' \<and>
     (case req of
        CreateCM cm \<Rightarrow> cur = None \<and> cur' = Some (cm\<lparr>cmVersion := v\<rparr>)
      | UpdateCM cm \<Rightarrow> (\<exists>c. cur = Some c \<and> cmVersion cm = cmVersion c) \<and> cur' = Some (cm\<lparr>cmVersion := v\<rparr>)))"

definition documented_server :: "'w cm_api \<Rightarrow> ('w \<Rightarrow> config_map option) \<Rightarrow> ('w \<Rightarrow> string set) \<Rightarrow> bool" where
  "documented_server api srv used \<longleftrightarrow>
     (\<forall>w cm. srv w = Some cm \<longrightarrow> cmVersion cm \<in> used w) \<and>
     (\<forall>w answer w'. cmGet api w = (answer, w') \<longrightarrow>
        srv w' = srv w \<and> used w \<subseteq> used w' \<and> (\<forall>cm. answer = Inr cm \<longrightarrow> srv w = Some cm)) \<and>
     (\<forall>w req answer w'. send api req w = (answer, w') \<longrightarrow>
        srv w' = srv w \<and> used w \<subseteq> used w' \<and> (\<exists>e. answer = Inl e) \<or>
        applied (srv w) (used w) req (srv w') (used w') \<and> (\<forall>cm. answer = Inr cm \<longrightarrow> srv w' = Some cm))"

end
