(* ===== verification/Leases.thy ===== *)
theory Leases
  imports Managers
begin

text \<open>
  Who leads. The invariant of \<open>Managers\<close>: the record on the server names the leader, was
  renewed recently enough, and no request is on its way that could take the lease from it.
\<close>

section \<open>Times and records\<close>

definition stamp :: "leader_record \<Rightarrow> int" where
  "stamp r = (case RenewTime r of None \<Rightarrow> 0 | Some t \<Rightarrow> t)"

lemma second_pos: "0 < second"
  by (simp add: second_def)

lemma wire_time: "t div second * second \<le> t" "t < t div second * second + second"
  using second_pos by (simp_all add: minus_mod_eq_div_mult [symmetric])

lemma on_wire_simps [simp]:
  "HolderIdentity (on_wire r) = HolderIdentity r"
  "LeaderTransitions (on_wire r) = LeaderTransitions r"
  by (simp_all add: on_wire_def)

lemma stamp_wire: "RenewTime r = Some now \<Longrightarrow> stamp (on_wire r) \<le> now \<and> now < stamp (on_wire r) + second"
  by (simp add: stamp_def on_wire_def wire_time)

lemma zero_record_simps [simp]: "HolderIdentity zero_record = []" "stamp zero_record = 0"
  by (simp_all add: zero_record_def stamp_def)

lemma own_record_simps [simp]:
  "HolderIdentity (own_record c now) = Identity c" "RenewTime (own_record c now) = Some now"
  by (simp_all add: own_record_def)

lemma config_of_simps [simp]:
  "Identity (config_of s m) = podIP s m" "LeaseDuration (config_of s m) = 60 * second"
  "RenewDeadline (config_of s m) = 15 * second" "RetryPeriod (config_of s m) = 5 * second"
  by (simp_all add: config_of_def manager_config_def)

text \<open>What a request writes.\<close>

fun written :: "request \<Rightarrow> leader_record" where
  "written (CreateCM cm) = lock_record (Some cm)"
| "written (UpdateCM cm) = lock_record (Some cm)"

lemma lock_record_None [simp]: "lock_record None = zero_record"
  by (simp add: lock_record_def)

lemma lock_record_version [simp]: "lock_record (Some (cm\<lparr>cmVersion := v\<rparr>)) = lock_record (Some cm)"
  by (simp add: lock_record_def)

lemma written_Create [simp]: "written (cml_Create r) = on_wire r"
  by (simp add: cml_Create_def lock_record_def)

lemma Update_prepared:
  "cml_Update r le = Prepared cm \<longleftrightarrow> (\<exists>c m. lockCm le = Some c \<and> cmAnnotations c = Some m \<and>
     cm = c\<lparr>cmAnnotations := Some (m(LeaderElectionRecordAnnotationKey \<mapsto> RecordJson (on_wire r)))\<rparr>)"
  by (auto simp: cml_Update_def split: option.splits)

lemma Update_written:
  assumes "cml_Update r le = Prepared cm"
  shows "lock_record (Some cm) = on_wire r" and "\<exists>c. lockCm le = Some c \<and> cmAnnotations c \<noteq> None \<and> cmVersion cm = cmVersion c"
  using assms by (auto simp: Update_prepared lock_record_def)

lemma cml_Get_ok:
  assumes "cml_Get (Inr cm) le = (Inr old, le')"
  shows "old = lock_record (Some cm)" and "\<exists>c. lockCm le' = Some c \<and> cmVersion c = cmVersion cm \<and> cmAnnotations c \<noteq> None"
    and "observedRecord le' = observedRecord le" and "observedTime le' = observedTime le"
  using assms by (auto simp: cml_Get_def lock_record_def Let_def split: option.splits annotation.splits)

section \<open>The invariant\<close>

text \<open>The addresses of pods are different and known; how late things may be.\<close>

definition setting_ok :: "'w setting \<Rightarrow> bool" where
  "setting_ok s \<longleftrightarrow> inj (podIP s) \<and> (\<forall>m. podIP s m \<noteq> []) \<and> 0 \<le> callTime s \<and> 0 \<le> timerLag s \<and>
     callTime s + 2 * timerLag s < 39 * second \<and> 3 * timerLag s < 24 * second"

definition slack :: "'w setting \<Rightarrow> int" where
  "slack s = max (callTime s + second) (16 * second + timerLag s)"

definition holder_is :: "'w setting \<Rightarrow> config_map option \<Rightarrow> nat \<Rightarrow> bool" where
  "holder_is s cur a \<longleftrightarrow> HolderIdentity (lock_record cur) = podIP s a"

text \<open>The last renewal, by the common clock.\<close>

definition renewed :: "'w setting \<Rightarrow> config_map option \<Rightarrow> nat \<Rightarrow> int" where
  "renewed s cur a = stamp (lock_record cur) - clockOffset s a"

definition current_version :: "config_map option \<Rightarrow> string \<Rightarrow> bool" where
  "current_version cur v \<longleftrightarrow> (\<exists>c. cur = Some c \<and> cmVersion c = v)"

text \<open>A request that would be applied now takes the lease only when it has run out, or it belongs to the holder.\<close>

definition request_ok :: "'w setting \<Rightarrow> config_map option \<Rightarrow> string set \<Rightarrow> int \<Rightarrow> nat \<Rightarrow> int \<Rightarrow> request \<Rightarrow> bool" where
  "request_ok s cur U t m now req \<longleftrightarrow>
     now - clockOffset s m \<le> t \<and>
     (HolderIdentity (written req) = [] \<or>
        HolderIdentity (written req) = podIP s m \<and> stamp (written req) \<le> now \<and> now < stamp (written req) + second) \<and>
     (\<forall>cm. req = UpdateCM cm \<longrightarrow> cmVersion cm \<in> U \<and>
        (current_version cur (cmVersion cm) \<longrightarrow>
           (\<forall>a. holder_is s cur a \<longrightarrow> a = m \<or> renewed s cur a + 60 * second \<le> now - clockOffset s m)))"

definition stale :: "config_map option \<Rightarrow> request \<Rightarrow> bool" where
  "stale cur req \<longleftrightarrow>
     (case req of CreateCM cm \<Rightarrow> cur \<noteq> None | UpdateCM cm \<Rightarrow> \<not> current_version cur (cmVersion cm))"

text \<open>A manager that leads, or will when it reads the answer that is there.\<close>

definition claims_lease :: "manager \<Rightarrow> bool" where
  "claims_lease mg \<longleftrightarrow>
     (case mgPhase mg of
        Acquiring \<Rightarrow> (\<exists>now ler cm. mgCall mg = PutAnswer now ler (Inr cm))
      | Sleeping e \<Rightarrow> True
      | Renewing b \<Rightarrow> True
      | _ \<Rightarrow> False)"

definition lease_bound :: "'w setting \<Rightarrow> config_map option \<Rightarrow> nat \<Rightarrow> manager \<Rightarrow> bool" where
  "lease_bound s cur a mg \<longleftrightarrow>
     (case mgPhase mg of
        Acquiring \<Rightarrow> (\<forall>now ler cm. mgCall mg = PutAnswer now ler (Inr cm) \<longrightarrow> now - clockOffset s a < renewed s cur a + second)
      | Sleeping e \<Rightarrow> mgCall mg = Idle \<and> e \<le> renewed s cur a + slack s
      | Renewing b \<Rightarrow>
          b \<le> renewed s cur a + slack s + 5 * second + timerLag s \<and>
          (\<forall>now. call_begun (mgCall mg) = Some now \<longrightarrow> b \<le> now - clockOffset s a) \<and>
          (\<forall>now ler cm. mgCall mg = PutAnswer now ler (Inr cm) \<longrightarrow> b < renewed s cur a + second)
      | _ \<Rightarrow> True)"

definition got_ok :: "'w setting \<Rightarrow> config_map option \<Rightarrow> string set \<Rightarrow> int \<Rightarrow> config_map \<Rightarrow> bool" where
  "got_ok s cur U t cm \<longleftrightarrow> cmVersion cm \<in> U \<and> (current_version cur (cmVersion cm) \<longrightarrow> cur = Some cm) \<and>
     (\<forall>a. holder_is s (Some cm) a \<longrightarrow> renewed s (Some cm) a \<le> t)"

fun call_ok :: "'w setting \<Rightarrow> config_map option \<Rightarrow> string set \<Rightarrow> int \<Rightarrow> nat \<Rightarrow> call \<Rightarrow> bool" where
  "call_ok s cur U t m Idle \<longleftrightarrow> True"
| "call_ok s cur U t m (Getting now) \<longleftrightarrow> now - clockOffset s m \<le> t"
| "call_ok s cur U t m (GotAnswer now answer) \<longleftrightarrow>
     now - clockOffset s m \<le> t \<and> (case answer of Inl e \<Rightarrow> True | Inr cm \<Rightarrow> got_ok s cur U t cm)"
| "call_ok s cur U t m (Putting now req ler) \<longleftrightarrow>
     request_ok s cur U t m now req \<and> HolderIdentity (written req) = podIP s m \<and> HolderIdentity ler = podIP s m"
| "call_ok s cur U t m (PutAnswer now ler answer) \<longleftrightarrow>
     now - clockOffset s m \<le> t \<and> HolderIdentity ler = podIP s m \<and> (case answer of Inl e \<Rightarrow> True | Inr cm \<Rightarrow> cmVersion cm \<in> U)"

definition elector_ok :: "'w setting \<Rightarrow> string set \<Rightarrow> nat \<Rightarrow> elector \<Rightarrow> bool" where
  "elector_ok s U m le \<longleftrightarrow>
     (\<forall>a. HolderIdentity (observedRecord le) = podIP s a \<and> a \<noteq> m \<longrightarrow>
        stamp (observedRecord le) - clockOffset s a \<le> observedTime le - clockOffset s m) \<and>
     (\<forall>cm. lockCm le = Some cm \<and> cmAnnotations cm \<noteq> None \<longrightarrow> cmVersion cm \<in> U)"

definition release_ok :: "'w setting \<Rightarrow> config_map option \<Rightarrow> string set \<Rightarrow> int \<Rightarrow> nat \<Rightarrow> manager \<Rightarrow> bool" where
  "release_ok s cur U t m mg \<longleftrightarrow>
     (\<forall>now cm ler. mgRelease mg = Some (now, cm, ler) \<longrightarrow>
        request_ok s cur U t m now (UpdateCM cm) \<and> HolderIdentity ler = [] \<and> mgPhase mg \<in> {Stopped, Dead})"

definition round_begun :: "manager \<Rightarrow> int \<Rightarrow> bool" where
  "round_begun mg t \<longleftrightarrow> (\<forall>b. mgPhase mg = Renewing b \<longrightarrow> b \<le> t)"

definition manager_ok :: "'w setting \<Rightarrow> config_map option \<Rightarrow> string set \<Rightarrow> int \<Rightarrow> nat \<Rightarrow> manager \<Rightarrow> bool" where
  "manager_ok s cur U t m mg \<longleftrightarrow>
     timely s m mg t \<and> (claims_lease mg \<longrightarrow> holder_is s cur m) \<and> lease_bound s cur m mg \<and>
     call_ok s cur U t m (mgCall mg) \<and> elector_ok s U m (mgElector mg) \<and> release_ok s cur U t m mg \<and> round_begun mg t"

definition orphans_ok :: "'w setting \<Rightarrow> config_map option \<Rightarrow> string set \<Rightarrow> int \<Rightarrow> (nat \<Rightarrow> manager) \<Rightarrow> (nat \<times> int \<times> request) list \<Rightarrow> bool" where
  "orphans_ok s cur U t mgs orphs \<longleftrightarrow>
     (\<forall>(m, now, req) \<in> set orphs. request_ok s cur U t m now req \<and> (claims_lease (mgs m) \<longrightarrow> stale cur req))"

definition lock_ok :: "'w setting \<Rightarrow> config_map option \<Rightarrow> string set \<Rightarrow> int \<Rightarrow> bool" where
  "lock_ok s cur U t \<longleftrightarrow> (\<forall>c. cur = Some c \<longrightarrow> cmVersion c \<in> U) \<and> (\<forall>a. holder_is s cur a \<longrightarrow> renewed s cur a \<le> t)"

definition cluster_ok :: "'w setting \<Rightarrow> ('w \<Rightarrow> config_map option) \<Rightarrow> ('w \<Rightarrow> string set) \<Rightarrow> 'w cluster \<Rightarrow> bool" where
  "cluster_ok s srv used cl \<longleftrightarrow>
     lock_ok s (srv (clApi cl)) (used (clApi cl)) (clClock cl) \<and>
     (\<forall>m. manager_ok s (srv (clApi cl)) (used (clApi cl)) (clClock cl) m (clManagers cl m)) \<and>
     orphans_ok s (srv (clApi cl)) (used (clApi cl)) (clClock cl) (clManagers cl) (clOrphans cl)"

section \<open>Time passes, the server learns versions\<close>

lemma request_ok_mono: "request_ok s cur U t m now req \<Longrightarrow> U \<subseteq> U' \<Longrightarrow> t \<le> t' \<Longrightarrow> request_ok s cur U' t' m now req"
  by (auto simp: request_ok_def)

lemma got_ok_mono: "got_ok s cur U t cm \<Longrightarrow> U \<subseteq> U' \<Longrightarrow> t \<le> t' \<Longrightarrow> got_ok s cur U' t' cm"
  by (force simp: got_ok_def)

lemma call_ok_mono: "call_ok s cur U t m c \<Longrightarrow> U \<subseteq> U' \<Longrightarrow> t \<le> t' \<Longrightarrow> call_ok s cur U' t' m c"
  by (cases c) (auto intro: got_ok_mono request_ok_mono split: sum.split)

lemma manager_ok_mono:
  assumes "manager_ok s cur U t m mg" and "U \<subseteq> U'" and "t \<le> t'" and "timely s m mg t'"
  shows "manager_ok s cur U' t' m mg"
  using assms call_ok_mono [of s cur U t m "mgCall mg" U' t'] request_ok_mono [of s cur U t m _ _ U' t']
  unfolding manager_ok_def release_ok_def round_begun_def elector_ok_def by (blast intro: order_trans)

lemma orphans_ok_mono:
  "orphans_ok s cur U t mgs orphs \<Longrightarrow> U \<subseteq> U' \<Longrightarrow> t \<le> t' \<Longrightarrow> orphans_ok s cur U' t' mgs orphs"
  unfolding orphans_ok_def using request_ok_mono [of s cur U t] by blast

lemma lock_ok_mono: "lock_ok s cur U t \<Longrightarrow> U \<subseteq> U' \<Longrightarrow> t \<le> t' \<Longrightarrow> lock_ok s cur U' t'"
  unfolding lock_ok_def by (blast intro: order_trans)

text \<open>A manager that claims the lease holds a young one.\<close>

lemma lease_young:
  assumes ok: "setting_ok s" and inv: "manager_ok s cur U t a mg" and claim: "claims_lease mg"
  shows "t < renewed s cur a + 60 * second"
  using assms second_pos
  by (auto simp: setting_ok_def manager_ok_def claims_lease_def timely_def lease_bound_def slack_def split: phase.splits)

section \<open>A request reaches the server\<close>

lemma sendE:
  assumes "documented_server api srv used" and "send api req w = (answer, w')"
  obtains (refused) e where "answer = Inl e" and "srv w' = srv w" and "used w \<subseteq> used w'"
    | (done') "applied (srv w) (used w) req (srv w') (used w')" and "\<forall>cm. answer = Inr cm \<longrightarrow> srv w' = Some cm"
  using assms unfolding documented_server_def by blast

lemma getE:
  assumes "documented_server api srv used" and "cmGet api w = (answer, w')"
  shows "srv w' = srv w" and "used w \<subseteq> used w'" and "answer = Inr cm \<Longrightarrow> srv w = Some cm"
  using assms unfolding documented_server_def by blast+

text \<open>A request that keeps the invariant's promise takes effect.\<close>

definition takes_effect ::
  "'w setting \<Rightarrow> config_map option \<Rightarrow> string set \<Rightarrow> int \<Rightarrow> nat \<Rightarrow> int \<Rightarrow> request \<Rightarrow> config_map option \<Rightarrow> string set \<Rightarrow> bool" where
  "takes_effect s cur U t m now req cur' U' \<longleftrightarrow>
     setting_ok s \<and> request_ok s cur U t m now req \<and> applied cur U req cur' U' \<and> lock_ok s cur U t"

lemma eff_record: "takes_effect s cur U t m now req cur' U' \<Longrightarrow> lock_record cur' = written req"
  by (cases req) (auto simp: takes_effect_def applied_def)

lemma eff_used: "takes_effect s cur U t m now req cur' U' \<Longrightarrow> U \<subseteq> U'"
  by (simp add: takes_effect_def applied_def)

lemma eff_current: "takes_effect s cur U t m now req (Some c) U' \<Longrightarrow> cmVersion c \<in> U'"
  by (cases req) (auto simp: takes_effect_def applied_def)

lemma eff_fresh: "takes_effect s cur U t m now req cur' U' \<Longrightarrow> v \<in> U \<Longrightarrow> \<not> current_version cur' v"
  by (cases req) (auto simp: takes_effect_def applied_def current_version_def)

lemma eff_not_stale: "takes_effect s cur U t m now req cur' U' \<Longrightarrow> \<not> stale cur req"
  by (cases req) (auto simp: takes_effect_def applied_def stale_def current_version_def)

lemma eff_stale:
  assumes "takes_effect s cur U t m now req cur' U'" and "request_ok s cur U t k now' req'"
  shows "stale cur' req' \<and> request_ok s cur' U' t k now' req'"
  using assms
  by (cases req; cases req') (auto simp: takes_effect_def applied_def stale_def request_ok_def current_version_def)

lemma eff_lock:
  assumes eff: "takes_effect s cur U t m now req cur' U'"
  shows "lock_ok s cur' U' t"
proof -
  note parts = eff [unfolded takes_effect_def request_ok_def setting_ok_def]
  have "renewed s cur' a \<le> t" if "holder_is s cur' a" for a
  proof -
    have "a = m" using that parts eff_record [OF eff] unfolding holder_is_def by (metis injD)
    then show ?thesis using that parts eff_record [OF eff] by (auto simp: holder_is_def renewed_def)
  qed
  then show ?thesis using eff_current eff by (auto simp: lock_ok_def)
qed

text \<open>Nobody else claims the lease.\<close>

lemma eff_others:
  assumes eff: "takes_effect s cur U t m now req cur' U'"
    and inv: "manager_ok s cur U t k mg" and claim: "claims_lease mg"
  shows "k = m"
proof (rule ccontr)
  assume k: "k \<noteq> m"
  have ok: "setting_ok s" and req: "request_ok s cur U t m now req" using eff by (simp_all add: takes_effect_def)
  have held: "holder_is s cur k" and young: "t < renewed s cur k + 60 * second"
    using inv claim lease_young [OF ok inv claim] by (simp_all add: manager_ok_def)
  then have "lock_record cur \<noteq> zero_record" using ok by (metis holder_is_def setting_ok_def zero_record_simps(1))
  then have "cur \<noteq> None" by (metis lock_record_None)
  then obtain cm where "req = UpdateCM cm" "current_version cur (cmVersion cm)"
    using eff_not_stale [OF eff] by (cases req) (auto simp: stale_def)
  then have "renewed s cur k + 60 * second \<le> t" using req held k unfolding request_ok_def by force
  then show False using young by simp
qed

lemma eff_call: "takes_effect s cur U t m now req cur' U' \<Longrightarrow> call_ok s cur U t k c \<Longrightarrow> call_ok s cur' U' t k c"
  using eff_fresh [of s cur U t m now req cur' U'] eff_used [of s cur U t m now req cur' U']
  by (cases c) (auto simp: got_ok_def eff_stale split: sum.splits)

lemma eff_manager:
  assumes eff: "takes_effect s cur U t m now req cur' U'"
    and inv: "manager_ok s cur U t k mg" and idle: "\<not> claims_lease mg"
  shows "manager_ok s cur' U' t k mg"
proof -
  have "lease_bound s cur' k mg" using idle by (auto simp: lease_bound_def claims_lease_def split: phase.splits)
  moreover have "release_ok s cur' U' t k mg" using inv eff_stale [OF eff] by (auto simp: manager_ok_def release_ok_def round_begun_def)
  moreover have "elector_ok s U' k (mgElector mg)" using inv eff_used [OF eff] by (auto simp: manager_ok_def elector_ok_def)
  ultimately show ?thesis using inv idle eff_call [OF eff] by (simp add: manager_ok_def)
qed

lemma eff_orphans:
  "takes_effect s cur U t m now req cur' U' \<Longrightarrow> orphans_ok s cur U t mgs orphs \<Longrightarrow> orphans_ok s cur' U' t mgs' orphs"
  using eff_stale [of s cur U t m now req cur' U'] by (auto simp: orphans_ok_def)

text \<open>The request of a try arrives.\<close>

lemma eff_own:
  assumes eff: "takes_effect s cur U t m now req cur' U'" and inv: "manager_ok s cur U t m mg"
    and c: "mgCall mg = Putting now req ler" and ans: "\<forall>cm. answer = Inr cm \<longrightarrow> cur' = Some cm"
  shows "manager_ok s cur' U' t m (mg\<lparr>mgCall := PutAnswer now ler answer\<rparr>)"
proof -
  note parts = eff [unfolded takes_effect_def request_ok_def setting_ok_def]
  have holder: "holder_is s cur' m" and own: "HolderIdentity (written req) = podIP s m" "HolderIdentity ler = podIP s m"
    using inv c eff_record [OF eff] by (simp_all add: manager_ok_def holder_is_def)
  have young: "now - clockOffset s m < renewed s cur' m + second"
    using parts own eff_record [OF eff] by (auto simp: renewed_def)
  have begun: "b \<le> now - clockOffset s m" if "mgPhase mg = Renewing b" for b
    using inv c that by (simp add: manager_ok_def lease_bound_def)
  have "lease_bound s cur' m (mg\<lparr>mgCall := PutAnswer now ler answer\<rparr>)"
    using inv c young begun parts second_pos by (fastforce simp: manager_ok_def lease_bound_def slack_def split: phase.splits)
  moreover have "call_ok s cur' U' t m (PutAnswer now ler answer)"
    using parts own(2) ans eff_current [of s cur U t m now req _ U'] eff by (auto split: sum.split)
  moreover have "release_ok s cur' U' t m mg" using inv eff_stale [OF eff] by (auto simp: manager_ok_def release_ok_def round_begun_def)
  moreover have "elector_ok s U' m (mgElector mg)" using inv eff_used [OF eff] by (auto simp: manager_ok_def elector_ok_def)
  moreover have "timely s m (mg\<lparr>mgCall := PutAnswer now ler answer\<rparr>) t"
    using inv c by (simp add: manager_ok_def timely_def split: phase.splits)
  ultimately show ?thesis using inv holder c by (simp add: manager_ok_def release_ok_def round_begun_def)
qed

section \<open>A manager acts\<close>

lemma own_request_ok:
  assumes "now - clockOffset s m \<le> t" and "written req = on_wire ler" and "HolderIdentity ler = podIP s m"
    and "RenewTime ler = Some now" and "\<And>cm. req = UpdateCM cm \<Longrightarrow> cmVersion cm \<in> U"
    and "\<And>cm a. req = UpdateCM cm \<Longrightarrow> current_version cur (cmVersion cm) \<Longrightarrow> holder_is s cur a \<Longrightarrow>
           a = m \<or> renewed s cur a + 60 * second \<le> now - clockOffset s m"
  shows "request_ok s cur U t m now req \<and> HolderIdentity (written req) = podIP s m"
  using assms stamp_wire [of ler now] unfolding request_ok_def by auto

text \<open>The answer to \<open>Get\<close>: what the elector then knows is true, and what it sends is allowed.\<close>

lemma get_observed:
  assumes inv: "elector_ok s U m le0" and got: "got_ok s cur U t cm" and run: "cml_Get (Inr cm) le0 = (Inr old, le1)"
    and le: "le = (if observedRecord le1 \<noteq> old then le1\<lparr>observedRecord := old, observedTime := t + clockOffset s m\<rparr> else le1)"
  shows "elector_ok s U m le" and "observedRecord le = old" and "old = lock_record (Some cm)"
    and "\<exists>c. lockCm le = Some c \<and> cmVersion c = cmVersion cm \<and> cmAnnotations c \<noteq> None"
proof -
  note g = cml_Get_ok [OF run]
  show "observedRecord le = old" "old = lock_record (Some cm)" using le g by auto
  show lck: "\<exists>c. lockCm le = Some c \<and> cmVersion c = cmVersion cm \<and> cmAnnotations c \<noteq> None" using le g(2) by auto
  show "elector_ok s U m le"
    using inv got lck le g by (auto simp: elector_ok_def got_ok_def holder_is_def renewed_def)
qed

lemma try_get_ok:
  assumes ok: "setting_ok s" and inv: "elector_ok s U m le0" and now: "now - clockOffset s m \<le> t"
    and got: "case answer of Inl e \<Rightarrow> True | Inr cm \<Rightarrow> got_ok s cur U t cm"
    and run: "try_handle_get (config_of s m) now (t + clockOffset s m) answer le0 = (res, le)"
  shows "elector_ok s U m le \<and> res \<noteq> Ended True \<and>
     (\<forall>req ler. res = Sends req ler \<longrightarrow> request_ok s cur U t m now req \<and> HolderIdentity (written req) = podIP s m \<and>
        HolderIdentity ler = podIP s m)"
proof (cases "fst (cml_Get answer le0)")
  case (Inl e)
  have le: "le = snd (cml_Get answer le0)" and
    res: "res = Ended False \<or> res = Sends (cml_Create (own_record (config_of s m) now)) (own_record (config_of s m) now)"
    using run Inl by (auto simp: try_handle_get_def split: prod.splits goerror.splits)
  have "elector_ok s U m le"
    using le inv got by (auto simp: cml_Get_def elector_ok_def got_ok_def empty_cm_def Let_def split: sum.splits option.splits annotation.splits)
  moreover have "request_ok s cur U t m now (cml_Create (own_record (config_of s m) now)) \<and>
      HolderIdentity (written (cml_Create (own_record (config_of s m) now))) = podIP s m"
    by (rule own_request_ok [OF now written_Create]) (simp_all add: cml_Create_def)
  ultimately show ?thesis using res by auto
next
  case (Inr old)
  obtain cm where cm: "answer = Inr cm" using Inr by (cases answer) (auto simp: cml_Get_def)
  obtain le1 where g: "cml_Get (Inr cm) le0 = (Inr old, le1)" using Inr cm by (metis prod.collapse)
  define le2 where "le2 = (if observedRecord le1 \<noteq> old then le1\<lparr>observedRecord := old, observedTime := t + clockOffset s m\<rparr> else le1)"
  have got': "got_ok s cur U t cm" using got cm by simp
  note o = get_observed [OF inv got' g le2_def]
  define held where "held \<longleftrightarrow> HolderIdentity old \<noteq> [] \<and> observedTime le2 + 60 * second > now \<and> HolderIdentity old \<noteq> podIP s m"
  define ler where "ler = (if HolderIdentity old = podIP s m
      then (own_record (config_of s m) now)\<lparr>AcquireTime := AcquireTime old, LeaderTransitions := LeaderTransitions old\<rparr>
      else (own_record (config_of s m) now)\<lparr>LeaderTransitions := LeaderTransitions old + 1\<rparr>)"
  have le2': "(if observedRecord le1 \<noteq> old then le1\<lparr>observedRecord := old, observedTime := t + clockOffset s m\<rparr> else le1) = le2"
    by (simp add: le2_def)
  obtain c where c: "lockCm le2 = Some c" "cmVersion c = cmVersion cm" "cmAnnotations c \<noteq> None" using o(4) by blast
  then obtain cm' where cm': "cml_Update ler le2 = Prepared cm'" by (auto simp: cml_Update_def)
  note w = Update_written [OF cm']
  have step: "(res, le) = (if held then (Ended False, le2) else (Sends (UpdateCM cm') ler, le2\<lparr>lockCm := Some cm'\<rparr>))"
    using run cm' unfolding cm try_handle_get_def g held_def ler_def
    by (simp only: prod.case sum.case le2' Let_def IsLeader_def o(2) config_of_simps split: if_split)
      (auto split: if_splits)
  have version: "cmVersion cm' \<in> U" using w(2) c got' by (auto simp: got_ok_def)
  have ler: "HolderIdentity ler = podIP s m" "RenewTime ler = Some now" by (simp_all add: ler_def)
  have young: "a = m \<or> renewed s cur a + 60 * second \<le> now - clockOffset s m"
    if "\<not> held" and "current_version cur (cmVersion cm')" and "holder_is s cur a" for a
  proof -
    have "cur = Some cm" using that(2) w(2) c got' by (auto simp: got_ok_def)
    then have a: "HolderIdentity old = podIP s a" "renewed s cur a = stamp old - clockOffset s a"
      using that(3) o(3) by (simp_all add: holder_is_def renewed_def)
    then have "a = m \<or> observedTime le2 + 60 * second \<le> now"
      using that(1) ok unfolding held_def setting_ok_def by (metis injD linorder_not_less)
    then show ?thesis using o(1,2) a unfolding elector_ok_def by force
  qed
  have "request_ok s cur U t m now (UpdateCM cm') \<and> HolderIdentity (written (UpdateCM cm')) = podIP s m" if "\<not> held"
    by (rule own_request_ok [OF now _ ler]) (use w(1) version young [OF that] in simp_all)
  moreover have "elector_ok s U m (le2\<lparr>lockCm := Some cm'\<rparr>)" using o(1) version by (simp add: elector_ok_def)
  ultimately show ?thesis using step o(1) ler by (auto split: if_splits)
qed

lemma got_handled_ok:
  assumes ok: "setting_ok s" and inv: "manager_ok s cur U t m mg" and c: "mgCall mg = GotAnswer now answer"
    and run: "try_handle_get (config_of s m) now (t + clockOffset s m) answer (mgElector mg) = res"
  shows "manager_ok s cur U t m (got_handled now res t mg) \<and> (claims_lease (got_handled now res t mg) \<longrightarrow> claims_lease mg)"
proof -
  obtain r le where res: "res = (r, le)" by (rule prod.exhaust)
  have "call_ok s cur U t m (mgCall mg)" "elector_ok s U m (mgElector mg)" using inv by (simp_all add: manager_ok_def)
  then have "now - clockOffset s m \<le> t" "case answer of Inl e \<Rightarrow> True | Inr cm \<Rightarrow> got_ok s cur U t cm" by (simp_all add: c)
  note g = try_get_ok [OF ok \<open>elector_ok s U m (mgElector mg)\<close> this run [unfolded res]]
  show ?thesis
  proof (cases r)
    case (Ended b)
    then show ?thesis using g inv res c
      by (auto simp: got_handled_def try_ended_def manager_ok_def timely_def lease_bound_def claims_lease_def release_ok_def round_begun_def
          split: phase.splits)
  next
    case (Sends req ler)
    then show ?thesis using g inv res c
      by (auto simp: got_handled_def manager_ok_def timely_def lease_bound_def claims_lease_def release_ok_def round_begun_def
          split: phase.splits)
  next
    case Crashes
    then show ?thesis using g inv res c
      by (auto simp: got_handled_def process_gone_def manager_ok_def timely_def lease_bound_def claims_lease_def release_ok_def round_begun_def
          split: phase.splits)
  qed
qed

lemma put_handled_ok:
  assumes ok: "setting_ok s" and inv: "manager_ok s cur U t m mg" and c: "mgCall mg = PutAnswer now ler answer"
    and run: "try_handle_put ler clk answer (mgElector mg) = (b, le)"
  shows "manager_ok s cur U t m (try_ended t b (mg\<lparr>mgElector := le\<rparr>)) \<and>
     (claims_lease (try_ended t b (mg\<lparr>mgElector := le\<rparr>)) \<longrightarrow> claims_lease mg)"
proof -
  have parts: "call_ok s cur U t m (mgCall mg)" "elector_ok s U m (mgElector mg)" "timely s m mg t" "lease_bound s cur m mg"
    using inv by (simp_all add: manager_ok_def)
  have le: "elector_ok s U m le"
    using parts(1,2) run ok unfolding c setting_ok_def
    by (auto simp: elector_ok_def try_handle_put_def cml_cache_def empty_cm_def Let_def dest: injD split: sum.splits)
  show ?thesis
  proof (cases answer)
    case (Inl e)
    then have "\<not> b" using run by (simp add: try_handle_put_def Let_def)
    then show ?thesis using le inv c Inl
      by (auto simp: try_ended_def manager_ok_def timely_def lease_bound_def claims_lease_def release_ok_def round_begun_def split: phase.splits)
  next
    case (Inr cm)
    then have b: "b" using run by (auto simp: try_handle_put_def Let_def)
    show ?thesis
    proof (cases "mgPhase mg")
      case Acquiring
      have "t \<le> renewed s cur m + slack s" using parts(3,4) Acquiring c Inr by (simp add: timely_def lease_bound_def slack_def)
      then show ?thesis using le inv c Inr b Acquiring ok second_pos
        by (simp add: try_ended_def manager_ok_def timely_def lease_bound_def claims_lease_def release_ok_def round_begun_def setting_ok_def)
    next
      case (Renewing x)
      have "x < renewed s cur m + second" "t \<le> x + 15 * second + timerLag s"
        using parts(3,4) Renewing c Inr by (simp_all add: timely_def lease_bound_def)
      then have "t \<le> renewed s cur m + slack s" by (simp add: slack_def)
      then show ?thesis using le inv c Inr b Renewing ok second_pos
        by (simp add: try_ended_def manager_ok_def timely_def lease_bound_def claims_lease_def release_ok_def round_begun_def setting_ok_def)
    qed (use le inv c Inr b in \<open>auto simp: try_ended_def manager_ok_def timely_def lease_bound_def claims_lease_def release_ok_def round_begun_def\<close>)
  qed
qed

lemma leave_ok:
  assumes ok: "setting_ok s" and inv: "manager_ok s cur U t m mg" and claim: "claims_lease mg" and ph: "mgPhase mg \<noteq> Acquiring"
  shows "manager_ok s cur U t m (leave_renew (config_of s m) (t + clockOffset s m) mg) \<and>
     \<not> claims_lease (leave_renew (config_of s m) (t + clockOffset s m) mg)"
proof -
  have parts: "holder_is s cur m" "elector_ok s U m (mgElector mg)" "call_ok s cur U t m (mgCall mg)" "mgRelease mg = None"
    using inv claim ph by (cases "mgRelease mg"; auto simp: manager_ok_def release_ok_def round_begun_def claims_lease_def split: phase.splits)+
  have others: "a = m" if "holder_is s cur a" for a
    using that parts(1) ok unfolding holder_is_def setting_ok_def by (metis injD)
  show ?thesis
  proof (cases "release_prepare (config_of s m) (mgElector mg)")
    case (Some pr)
    then have pr: "pr = cml_Update (release_record (mgElector mg)) (mgElector mg)"
      by (auto simp: release_prepare_def split: if_splits)
    show ?thesis
    proof (cases pr)
      case (Prepared cm)
      note w = Update_written [OF pr [symmetric, unfolded Prepared]]
      have v: "cmVersion cm \<in> U" using w(2) parts(2) by (auto simp: elector_ok_def)
      have h: "HolderIdentity (release_record (mgElector mg)) = []" by (simp add: release_record_def zero_record_def)
      have "request_ok s cur U t m (t + clockOffset s m) (UpdateCM cm)"
        using w(1) v h others by (auto simp: request_ok_def)
      moreover have "elector_ok s U m ((mgElector mg)\<lparr>lockCm := Some cm\<rparr>)" using parts(2) v by (simp add: elector_ok_def)
      ultimately show ?thesis using Some Prepared parts(3) h
        by (simp add: leave_renew_def Let_def manager_ok_def timely_def lease_bound_def claims_lease_def release_ok_def round_begun_def)
    qed (use Some parts in \<open>simp_all add: leave_renew_def Let_def process_gone_def manager_ok_def timely_def lease_bound_def claims_lease_def release_ok_def round_begun_def\<close>)
  qed (use parts in \<open>simp add: leave_renew_def Let_def manager_ok_def timely_def lease_bound_def claims_lease_def release_ok_def round_begun_def\<close>)
qed

lemma flags_ok [simp]:
  "manager_ok s cur U t m (mg\<lparr>mgCancelled := b\<rparr>) = manager_ok s cur U t m mg"
  "manager_ok s cur U t m (mg\<lparr>mgLoop := b\<rparr>) = manager_ok s cur U t m mg"
  "claims_lease (mg\<lparr>mgCancelled := b\<rparr>) = claims_lease mg" "claims_lease (mg\<lparr>mgLoop := b\<rparr>) = claims_lease mg"
  by (cases "mgPhase mg"; simp add: manager_ok_def timely_def lease_bound_def claims_lease_def release_ok_def round_begun_def)+

lemma pod_known: "setting_ok s \<Longrightarrow> podIP s a \<noteq> [] \<and> [] \<noteq> podIP s a"
  by (metis setting_ok_def)

lemma gone_ok: "manager_ok s cur U t m mg \<Longrightarrow> manager_ok s cur U t m (process_gone mg)"
  by (simp add: process_gone_def manager_ok_def timely_def lease_bound_def claims_lease_def release_ok_def round_begun_def)

lemma fresh_ok: "setting_ok s \<Longrightarrow> manager_ok s cur U t m fresh_manager"
  by (simp add: pod_known fresh_manager_def new_elector_def manager_ok_def timely_def lease_bound_def claims_lease_def release_ok_def round_begun_def
      elector_ok_def)

lemma released_ok:
  assumes ok: "setting_ok s" and inv: "manager_ok s cur U t m mg" and rel: "mgRelease mg = Some (now, cm, ler)"
    and ans: "\<forall>c. answer = Inr c \<longrightarrow> cmVersion c \<in> U"
  shows "manager_ok s cur U t m (mg\<lparr>mgRelease := None, mgElector := release_done ler clk answer (mgElector mg)\<rparr>) \<and> \<not> claims_lease mg"
proof -
  have ph: "mgPhase mg \<in> {Stopped, Dead}" "HolderIdentity ler = []" "elector_ok s U m (mgElector mg)"
    using inv rel by (auto simp: manager_ok_def release_ok_def round_begun_def)
  then have "elector_ok s U m (release_done ler clk answer (mgElector mg))"
    using ans pod_known [OF ok]
    by (cases answer) (auto simp: elector_ok_def release_done_def try_handle_put_def cml_cache_def empty_cm_def Let_def)
  then show ?thesis using inv ph(1)
    by (auto simp: manager_ok_def timely_def lease_bound_def claims_lease_def release_ok_def round_begun_def split: phase.splits)
qed

section \<open>The cluster\<close>

lemma orphans_ok_claims:
  assumes "orphans_ok s cur U t mgs orphs" and "\<And>k. claims_lease (mgs' k) \<Longrightarrow> claims_lease (mgs k)"
  shows "orphans_ok s cur U t mgs' orphs"
  using assms unfolding orphans_ok_def by blast

lemma cluster_parts:
  assumes "cluster_ok s srv used cl"
  shows "lock_ok s (srv (clApi cl)) (used (clApi cl)) (clClock cl)"
    and "orphans_ok s (srv (clApi cl)) (used (clApi cl)) (clClock cl) (clManagers cl) (clOrphans cl)"
  using assms by (simp_all add: cluster_ok_def)

lemma cluster_set:
  assumes inv: "cluster_ok s srv used cl"
    and mg: "manager_ok s (srv (clApi cl)) (used (clApi cl)) (clClock cl) m mg" "claims_lease mg \<longrightarrow> claims_lease (clManagers cl m)"
  shows "cluster_ok s srv used (set_manager m mg cl)"
proof -
  have "orphans_ok s (srv (clApi cl)) (used (clApi cl)) (clClock cl) ((clManagers cl)(m := mg)) (clOrphans cl)"
    by (rule orphans_ok_claims [OF cluster_parts(2) [OF inv]]) (use mg(2) in \<open>simp split: if_splits\<close>)
  then show ?thesis using inv mg(1) by (simp add: cluster_ok_def)
qed

lemma cluster_manager:
  "cluster_ok s srv used cl \<Longrightarrow> manager_ok s (srv (clApi cl)) (used (clApi cl)) (clClock cl) m (clManagers cl m)"
  by (simp add: cluster_ok_def)

text \<open>A call that has no effect on the object.\<close>

lemma cluster_quiet:
  assumes inv: "cluster_ok s srv used cl" and w: "srv w = srv (clApi cl)" "used (clApi cl) \<subseteq> used w"
  shows "cluster_ok s srv used (cl\<lparr>clApi := w\<rparr>)"
proof -
  have "manager_ok s (srv w) (used w) (clClock cl) k (clManagers cl k)" for k
    using manager_ok_mono [OF cluster_manager [OF inv] w(2) order_refl] cluster_manager [OF inv, of k] w(1)
    by (simp add: manager_ok_def)
  moreover have "lock_ok s (srv w) (used w) (clClock cl)" "orphans_ok s (srv w) (used w) (clClock cl) (clManagers cl) (clOrphans cl)"
    using lock_ok_mono [OF cluster_parts(1) [OF inv] w(2) order_refl] orphans_ok_mono [OF cluster_parts(2) [OF inv] w(2) order_refl]
    by (simp_all add: w(1))
  ultimately show ?thesis by (simp add: cluster_ok_def)
qed

text \<open>A call that has one.\<close>

lemma cluster_takes_effect:
  "cluster_ok s srv used cl \<Longrightarrow> setting_ok s \<Longrightarrow> applied (srv (clApi cl)) (used (clApi cl)) req (srv w) (used w) \<Longrightarrow>
   request_ok s (srv (clApi cl)) (used (clApi cl)) (clClock cl) m now req \<Longrightarrow>
   takes_effect s (srv (clApi cl)) (used (clApi cl)) (clClock cl) m now req (srv w) (used w)"
  by (simp add: cluster_ok_def takes_effect_def)

lemma cluster_effect:
  assumes inv: "cluster_ok s srv used cl" and ok: "setting_ok s"
    and app: "applied (srv (clApi cl)) (used (clApi cl)) req (srv w) (used w)"
    and req: "request_ok s (srv (clApi cl)) (used (clApi cl)) (clClock cl) m now req"
    and idle: "\<not> claims_lease (clManagers cl m)"
  shows "cluster_ok s srv used (cl\<lparr>clApi := w\<rparr>)"
proof -
  note eff = cluster_takes_effect [OF inv ok app req]
  have "\<not> claims_lease (clManagers cl k)" for k
    using eff_others [OF eff cluster_manager [OF inv]] idle by blast
  then have "manager_ok s (srv w) (used w) (clClock cl) k (clManagers cl k)" for k
    by (rule eff_manager [OF eff cluster_manager [OF inv]])
  then show ?thesis using inv eff_lock [OF eff] eff_orphans [OF eff cluster_parts(2) [OF inv]] by (simp add: cluster_ok_def)
qed

lemma cluster_effect_own:
  assumes inv: "cluster_ok s srv used cl" and ok: "setting_ok s"
    and app: "applied (srv (clApi cl)) (used (clApi cl)) req (srv w) (used w)"
    and c: "mgCall (clManagers cl m) = Putting now req ler" and ans: "\<forall>cm. answer = Inr cm \<longrightarrow> srv w = Some cm"
  shows "cluster_ok s srv used (set_manager m ((clManagers cl m)\<lparr>mgCall := PutAnswer now ler answer\<rparr>) (cl\<lparr>clApi := w\<rparr>))"
proof -
  have req: "request_ok s (srv (clApi cl)) (used (clApi cl)) (clClock cl) m now req"
    using cluster_manager [OF inv, of m] c by (simp add: manager_ok_def)
  note eff = cluster_takes_effect [OF inv ok app req]
  have "manager_ok s (srv w) (used w) (clClock cl) k (clManagers cl k)" if "k \<noteq> m" for k
    using eff_manager [OF eff cluster_manager [OF inv]] eff_others [OF eff cluster_manager [OF inv]] that by blast
  moreover have "manager_ok s (srv w) (used w) (clClock cl) m ((clManagers cl m)\<lparr>mgCall := PutAnswer now ler answer\<rparr>)"
    by (rule eff_own [OF eff cluster_manager [OF inv] c ans])
  ultimately show ?thesis using inv eff_lock [OF eff] eff_orphans [OF eff cluster_parts(2) [OF inv]] by (simp add: cluster_ok_def)
qed

lemma way_ok:
  assumes "manager_ok s cur U t m mg" and "(k, now, req) \<in> set (on_the_way m mg)"
  shows "k = m \<and> request_ok s cur U t m now req"
  using assms by (cases "mgCall mg"; cases "mgRelease mg") (auto simp: on_the_way_def manager_ok_def release_ok_def round_begun_def)

lemma cluster_restart:
  assumes inv: "cluster_ok s srv used cl" and ok: "setting_ok s"
  shows "cluster_ok s srv used (set_manager m fresh_manager (cl\<lparr>clOrphans := on_the_way m (clManagers cl m) @ clOrphans cl\<rparr>))"
proof -
  let ?ok = "orphans_ok s (srv (clApi cl)) (used (clApi cl)) (clClock cl) ((clManagers cl)(m := fresh_manager))"
  have idle: "\<not> claims_lease fresh_manager" by (simp add: fresh_manager_def claims_lease_def)
  have "?ok (clOrphans cl)"
    by (rule orphans_ok_claims [OF cluster_parts(2) [OF inv]]) (use idle in \<open>simp split: if_splits\<close>)
  moreover have "?ok (on_the_way m (clManagers cl m))"
    unfolding orphans_ok_def
  proof clarify
    fix k now req
    assume "(k, now, req) \<in> set (on_the_way m (clManagers cl m))"
    from way_ok [OF cluster_manager [OF inv] this] idle
    show "request_ok s (srv (clApi cl)) (used (clApi cl)) (clClock cl) k now req \<and>
        (claims_lease (((clManagers cl)(m := fresh_manager)) k) \<longrightarrow> stale (srv (clApi cl)) req)" by simp
  qed
  ultimately have "?ok (on_the_way m (clManagers cl m) @ clOrphans cl)" by (simp add: orphans_ok_def ball_Un)
  then show ?thesis using inv fresh_ok [OF ok] by (simp add: cluster_ok_def)
qed

lemma cluster_orphan:
  assumes inv: "cluster_ok s srv used cl" and ok: "setting_ok s" and laws: "documented_server (stApi s) srv used"
    and o: "clOrphans cl = xs @ (m, now, req) # ys" and run: "send (stApi s) req (clApi cl) = (answer, w)"
  shows "cluster_ok s srv used (cl\<lparr>clApi := w, clOrphans := xs @ ys\<rparr>)"
proof -
  have mine: "request_ok s (srv (clApi cl)) (used (clApi cl)) (clClock cl) m now req"
      "claims_lease (clManagers cl m) \<longrightarrow> stale (srv (clApi cl)) req"
    using cluster_parts(2) [OF inv] o by (auto simp: orphans_ok_def)
  have "cluster_ok s srv used (cl\<lparr>clApi := w\<rparr>)"
    using laws run
  proof (cases rule: sendE)
    case (refused e)
    then show ?thesis by (intro cluster_quiet [OF inv])
  next
    case done'
    have "\<not> claims_lease (clManagers cl m)"
      using eff_not_stale [OF cluster_takes_effect [OF inv ok done'(1) mine(1)]] mine(2) by blast
    then show ?thesis by (rule cluster_effect [OF inv ok done'(1) mine(1)])
  qed
  then show ?thesis using o by (simp add: cluster_ok_def orphans_ok_def)
qed

lemma cluster_put:
  assumes inv: "cluster_ok s srv used cl" and ok: "setting_ok s" and laws: "documented_server (stApi s) srv used"
    and c: "mgCall (clManagers cl m) = Putting now req ler" and run: "send (stApi s) req (clApi cl) = (answer, w)"
  shows "cluster_ok s srv used (set_manager m ((clManagers cl m)\<lparr>mgCall := PutAnswer now ler answer\<rparr>) (cl\<lparr>clApi := w\<rparr>))"
  using laws run
proof (cases rule: sendE)
  case (refused e)
  have "cluster_ok s srv used (cl\<lparr>clApi := w\<rparr>)" using refused by (intro cluster_quiet [OF inv])
  moreover have "manager_ok s (srv w) (used w) (clClock cl) m ((clManagers cl m)\<lparr>mgCall := PutAnswer now ler answer\<rparr>)"
    using cluster_manager [OF calculation, of m] c refused(1)
    by (auto simp: manager_ok_def timely_def lease_bound_def claims_lease_def release_ok_def round_begun_def request_ok_def split: phase.splits)
  moreover have "claims_lease ((clManagers cl m)\<lparr>mgCall := PutAnswer now ler answer\<rparr>) \<longrightarrow> claims_lease (clManagers cl m)"
    using refused(1) by (auto simp: claims_lease_def split: phase.splits)
  ultimately show ?thesis using cluster_set [of s srv used "cl\<lparr>clApi := w\<rparr>" m] by simp
next
  case done'
  then show ?thesis by (intro cluster_effect_own [OF inv ok _ c])
qed

lemma cluster_get:
  assumes inv: "cluster_ok s srv used cl" and laws: "documented_server (stApi s) srv used"
    and c: "mgCall (clManagers cl m) = Getting now" and run: "cmGet (stApi s) (clApi cl) = (answer, w)"
  shows "cluster_ok s srv used (set_manager m ((clManagers cl m)\<lparr>mgCall := GotAnswer now answer\<rparr>) (cl\<lparr>clApi := w\<rparr>))"
proof -
  note g = getE [OF laws run]
  have q: "cluster_ok s srv used (cl\<lparr>clApi := w\<rparr>)" by (rule cluster_quiet [OF inv g(1,2)])
  have "got_ok s (srv w) (used w) (clClock cl) cm" if "answer = Inr cm" for cm
    using cluster_parts(1) [OF q] g(1) g(3) [OF that] by (simp add: got_ok_def lock_ok_def)
  then have "manager_ok s (srv w) (used w) (clClock cl) m ((clManagers cl m)\<lparr>mgCall := GotAnswer now answer\<rparr>)"
    using cluster_manager [OF q, of m] c
    by (auto simp: manager_ok_def timely_def lease_bound_def claims_lease_def release_ok_def round_begun_def split: phase.splits sum.splits)
  moreover have "claims_lease ((clManagers cl m)\<lparr>mgCall := GotAnswer now answer\<rparr>) \<longrightarrow> claims_lease (clManagers cl m)"
    by (auto simp: claims_lease_def split: phase.splits)
  ultimately show ?thesis using cluster_set [OF q, of m] by simp
qed

lemma cluster_release:
  assumes inv: "cluster_ok s srv used cl" and ok: "setting_ok s" and laws: "documented_server (stApi s) srv used"
    and rel: "mgRelease (clManagers cl m) = Some (now, cm, ler)" and run: "cmUpdate (stApi s) cm (clApi cl) = (answer, w)"
  shows "cluster_ok s srv used (set_manager m ((clManagers cl m)\<lparr>mgRelease := None,
        mgElector := release_done ler clk answer (mgElector (clManagers cl m))\<rparr>) (cl\<lparr>clApi := w\<rparr>))"
proof -
  have req: "request_ok s (srv (clApi cl)) (used (clApi cl)) (clClock cl) m now (UpdateCM cm)"
    and idle: "\<not> claims_lease (clManagers cl m)"
    using cluster_manager [OF inv, of m] rel
    by (auto simp: manager_ok_def release_ok_def round_begun_def claims_lease_def split: phase.splits)
  have run': "send (stApi s) (UpdateCM cm) (clApi cl) = (answer, w)" using run by (simp add: send_def)
  have q: "cluster_ok s srv used (cl\<lparr>clApi := w\<rparr>) \<and> (\<forall>c. answer = Inr c \<longrightarrow> cmVersion c \<in> used w)"
    using laws run'
  proof (cases rule: sendE)
    case (refused e)
    then show ?thesis by (intro conjI cluster_quiet [OF inv]) simp_all
  next
    case done'
    have "cluster_ok s srv used (cl\<lparr>clApi := w\<rparr>)" by (rule cluster_effect [OF inv ok done'(1) req idle])
    then show ?thesis using done'(2) cluster_parts(1) by (fastforce simp: lock_ok_def)
  qed
  have "manager_ok s (srv w) (used w) (clClock cl) m (clManagers cl m)" using cluster_manager [of s srv used "cl\<lparr>clApi := w\<rparr>"] q by simp
  from released_ok [OF ok this rel, of answer clk] q
  show ?thesis using cluster_set [of s srv used "cl\<lparr>clApi := w\<rparr>" m] idle
    by (auto simp: manager_ok_def release_ok_def round_begun_def claims_lease_def split: phase.splits)
qed

lemma cluster_step_ok:
  assumes step: "cluster_step s cl cl'" and inv: "cluster_ok s srv used cl" and ok: "setting_ok s"
    and laws: "documented_server (stApi s) srv used"
  shows "cluster_ok s srv used cl'"
  using step
proof cases
  case (advance t)
  have "manager_ok s (srv (clApi cl)) (used (clApi cl)) t m (clManagers cl m)" for m
    by (rule manager_ok_mono [OF cluster_manager [OF inv] order_refl advance(2) advance(3)])
  then show ?thesis
    using advance(1) lock_ok_mono [OF cluster_parts(1) [OF inv] order_refl advance(2)]
      orphans_ok_mono [OF cluster_parts(2) [OF inv] order_refl advance(2)] by (simp add: cluster_ok_def)
next
  case (begin_try m)
  have "manager_ok s (srv (clApi cl)) (used (clApi cl)) (clClock cl) m ((clManagers cl m)\<lparr>mgCall := Getting (wall s cl m)\<rparr>)"
    using cluster_manager [OF inv, of m] begin_try(2,3) ok
    by (auto simp: manager_ok_def timely_def lease_bound_def claims_lease_def release_ok_def round_begun_def wall_def setting_ok_def
        split: phase.splits)
  moreover have "claims_lease ((clManagers cl m)\<lparr>mgCall := Getting (wall s cl m)\<rparr>) \<longrightarrow> claims_lease (clManagers cl m)"
    by (auto simp: claims_lease_def split: phase.splits)
  ultimately show ?thesis unfolding begin_try(1) by (intro cluster_set [OF inv])
next
  case (serve_get m now answer w)
  then show ?thesis using cluster_get [OF inv laws] by simp
next
  case (handle_get m now answer res)
  from got_handled_ok [OF ok cluster_manager [OF inv] handle_get(2) handle_get(4) [unfolded wall_def]]
  show ?thesis unfolding handle_get(1) by (intro cluster_set [OF inv]) simp_all
next
  case (serve_put m now req ler answer w)
  then show ?thesis using cluster_put [OF inv ok laws] by simp
next
  case (handle_put m now ler answer ok' le)
  from put_handled_ok [OF ok cluster_manager [OF inv] handle_put(2) handle_put(4)]
  show ?thesis unfolding handle_put(1) by (intro cluster_set [OF inv]) simp_all
next
  case (start_round m e)
  have "manager_ok s (srv (clApi cl)) (used (clApi cl)) (clClock cl) m ((clManagers cl m)\<lparr>mgPhase := Renewing (clClock cl)\<rparr>)"
    using cluster_manager [OF inv, of m] start_round(2) ok second_pos
    by (auto simp: manager_ok_def timely_def lease_bound_def claims_lease_def release_ok_def round_begun_def setting_ok_def)
  then show ?thesis unfolding start_round(1)
    by (intro cluster_set [OF inv]) (simp_all add: claims_lease_def start_round(2))
next
  case (leave m)
  then have "claims_lease (clManagers cl m)" "mgPhase (clManagers cl m) \<noteq> Acquiring" by (auto simp: claims_lease_def)
  from leave_ok [OF ok cluster_manager [OF inv] this]
  show ?thesis unfolding leave(1) wall_def by (intro cluster_set [OF inv]) simp_all
next
  case (serve_release m now cm ler answer w)
  then show ?thesis using cluster_release [OF inv ok laws] by simp
next
  case (give_up m)
  have "manager_ok s (srv (clApi cl)) (used (clApi cl)) (clClock cl) m ((clManagers cl m)\<lparr>mgPhase := Stopped\<rparr>)"
    using cluster_manager [OF inv, of m] give_up(2)
    by (auto simp: manager_ok_def timely_def lease_bound_def claims_lease_def release_ok_def round_begun_def)
  then show ?thesis unfolding give_up(1) by (intro cluster_set [OF inv]) (simp_all add: claims_lease_def)
next
  case (stop_signal m)
  show ?thesis unfolding stop_signal by (intro cluster_set [OF inv]) (simp_all add: cluster_manager [OF inv])
next
  case (end_loop m)
  show ?thesis unfolding end_loop(1) by (intro cluster_set [OF inv]) (simp_all add: cluster_manager [OF inv])
next
  case (die m)
  show ?thesis unfolding die
    by (intro cluster_set [OF inv] gone_ok cluster_manager [OF inv]) (simp add: claims_lease_def process_gone_def)
next
  case (restart m)
  then show ?thesis using cluster_restart [OF inv ok] by simp
next
  case (serve_orphan xs m now req ys answer w)
  then show ?thesis using cluster_orphan [OF inv ok laws] by simp
qed

section \<open>One leader\<close>

definition leads :: "manager \<Rightarrow> bool" where
  "leads mg \<longleftrightarrow> (case mgPhase mg of Sleeping e \<Rightarrow> True | Renewing b \<Rightarrow> True | _ \<Rightarrow> False)"

text \<open>The start: no process has done anything, and nobody is named in the lock.\<close>

definition cluster_start :: "('w \<Rightarrow> config_map option) \<Rightarrow> 'w cluster \<Rightarrow> bool" where
  "cluster_start srv cl \<longleftrightarrow>
     (\<forall>m. clManagers cl m = fresh_manager) \<and> clOrphans cl = [] \<and> lock_record (srv (clApi cl)) = zero_record"

lemma start_ok:
  assumes "cluster_start srv cl" and ok: "setting_ok s" and "documented_server (stApi s) srv used"
  shows "cluster_ok s srv used cl"
proof -
  have "\<not> holder_is s (srv (clApi cl)) a" for a using assms(1) pod_known [OF ok] by (simp add: cluster_start_def holder_is_def)
  then have "lock_ok s (srv (clApi cl)) (used (clApi cl)) (clClock cl)"
    using assms(3) by (simp add: lock_ok_def documented_server_def)
  then show ?thesis using assms(1) fresh_ok [OF ok] by (simp add: cluster_ok_def cluster_start_def orphans_ok_def)
qed

lemma reachable_ok:
  assumes "(cluster_step s)\<^sup>*\<^sup>* cl cl'" and "cluster_start srv cl" and "setting_ok s" and "documented_server (stApi s) srv used"
  shows "cluster_ok s srv used cl'"
  using assms(1)
proof (induction rule: rtranclp_induct)
  case base
  show ?case by (rule start_ok [OF assms(2-4)])
next
  case (step y z)
  show ?case by (rule cluster_step_ok [OF step(2,3) assms(3,4)])
qed

text \<open>The loop runs only while the manager leads, or after it left \<open>renew\<close>.\<close>

definition loop_ok :: "manager \<Rightarrow> bool" where
  "loop_ok mg \<longleftrightarrow> (mgLoop mg \<longrightarrow> leads mg \<or> mgPhase mg = Stopped)"

lemma loop_ok_ops:
  "loop_ok mg \<Longrightarrow> loop_ok (try_ended clk b (mg\<lparr>mgElector := le\<rparr>))"
  "loop_ok mg \<Longrightarrow> loop_ok (leave_renew c now mg)"
  "loop_ok (process_gone mg)" "loop_ok fresh_manager"
  by (auto simp: loop_ok_def leads_def try_ended_def leave_renew_def process_gone_def fresh_manager_def Let_def
      split: phase.splits option.splits prepared.splits if_splits)

lemma loop_ok_got: "loop_ok mg \<Longrightarrow> loop_ok (got_handled now res clk mg)"
  by (cases res; cases "fst res") (auto simp: got_handled_def Let_def loop_ok_ops, simp add: loop_ok_def leads_def)

lemma loop_ok_step: "cluster_step s cl cl' \<Longrightarrow> \<forall>m. loop_ok (clManagers cl m) \<Longrightarrow> loop_ok (clManagers cl' m)"
  by (induction rule: cluster_step.induct) (auto simp: loop_ok_ops loop_ok_got, auto simp: loop_ok_def leads_def)

lemma loop_phase:
  assumes "(cluster_step s)\<^sup>*\<^sup>* cl cl'" and "cluster_start srv cl"
  shows "loop_ok (clManagers cl' m)"
  using assms(1)
proof (induction arbitrary: m rule: rtranclp_induct)
  case base
  then show ?case using assms(2) by (simp add: cluster_start_def loop_ok_ops)
next
  case (step y z)
  from loop_ok_step [OF step(2)] step(3) show ?case by blast
qed

end
