(* ===== verification/Leaders.thy ===== *)
theory Leaders
  imports Leases
begin

text \<open>
  The properties of the election: one leader, when a lease can be taken, what goes wrong at
  its end. \<open>cluster_do\<close> executes steps of the cluster, so runs can be evaluated.
\<close>

section \<open>A server\<close>

text \<open>Versions are numbers in unary, so each is used once.\<close>

record ref_server =
  rsCm :: "config_map option"
  rsNext :: nat

definition ref_current :: "ref_server \<Rightarrow> config_map option" where
  "ref_current w =
     (case rsCm w of None \<Rightarrow> None | Some cm \<Rightarrow> if length (cmVersion cm) < rsNext w then Some cm else None)"

definition ref_store :: "config_map \<Rightarrow> ref_server \<Rightarrow> (goerror + config_map) \<times> ref_server" where
  "ref_store cm w =
     (let cm' = cm\<lparr>cmVersion := replicate (rsNext w) CHR ''i''\<rparr> in
      (Inr cm', \<lparr>rsCm = Some cm', rsNext = Suc (rsNext w)\<rparr>))"

definition ref_api :: "ref_server cm_api" where
  "ref_api =
     \<lparr>cmGet = (\<lambda>w. (case ref_current w of None \<Rightarrow> Inl (ErrNotFound ''lock'') | Some cm \<Rightarrow> Inr cm, w)),
      cmCreate = (\<lambda>cm w. case ref_current w of None \<Rightarrow> ref_store cm w | Some _ \<Rightarrow> (Inl (ErrText ''exists''), w)),
      cmUpdate = (\<lambda>cm w. case ref_current w of
                     None \<Rightarrow> (Inl (ErrNotFound ''lock''), w)
                   | Some c \<Rightarrow> if cmVersion cm = cmVersion c then ref_store cm w else (Inl (ErrText ''conflict''), w))\<rparr>"

abbreviation ref_used :: "ref_server \<Rightarrow> string set" where
  "ref_used w \<equiv> {v. length v < rsNext w}"

lemma ref_store_run:
  assumes "ref_store cm w = (answer, w')"
  shows "\<exists>v. v \<notin> ref_used w \<and> v \<in> ref_used w' \<and> ref_used w \<subseteq> ref_used w' \<and>
     ref_current w' = Some (cm\<lparr>cmVersion := v\<rparr>) \<and> answer = Inr (cm\<lparr>cmVersion := v\<rparr>)"
  using assms by (intro exI [of _ "replicate (rsNext w) CHR ''i''"]) (auto simp: ref_store_def ref_current_def Let_def)

lemma ref_server_laws: "documented_server ref_api ref_current ref_used"
  unfolding documented_server_def
proof (intro conjI allI impI)
  show "cmVersion cm \<in> ref_used w" if "ref_current w = Some cm" for w cm
    using that by (auto simp: ref_current_def split: option.splits if_splits)
next
  fix w req answer w'
  assume "send ref_api req w = (answer, w')"
  then show "ref_current w' = ref_current w \<and> ref_used w \<subseteq> ref_used w' \<and> (\<exists>e. answer = Inl e) \<or>
      applied (ref_current w) (ref_used w) req (ref_current w') (ref_used w') \<and> (\<forall>cm. answer = Inr cm \<longrightarrow> ref_current w' = Some cm)"
    using ref_store_run [of _ w answer w']
    by (cases req; cases "ref_current w") (fastforce simp: send_def ref_api_def applied_def split: if_splits)+
qed (auto simp: ref_api_def split: option.splits)

section \<open>Executable runs\<close>

text \<open>One step of manager \<open>m\<close>; time passes when the managers below \<open>n\<close> allow it.\<close>

datatype move = Advance int | Begin nat | Serve nat | Handle nat | NextRound nat | Leave nat | ServeRelease nat | Signal nat

fun mover :: "move \<Rightarrow> nat" where
  "mover (Advance t) = 0"
| "mover (Begin m) = m"
| "mover (Serve m) = m"
| "mover (Handle m) = m"
| "mover (NextRound m) = m"
| "mover (Leave m) = m"
| "mover (ServeRelease m) = m"
| "mover (Signal m) = m"

definition may_begin :: "manager \<Rightarrow> bool" where
  "may_begin mg \<longleftrightarrow> call_begun (mgCall mg) = None \<and>
     (case mgPhase mg of Acquiring \<Rightarrow> \<not> mgCancelled mg | Renewing b \<Rightarrow> True | _ \<Rightarrow> False)"

definition may_leave :: "'w setting \<Rightarrow> 'w cluster \<Rightarrow> nat \<Rightarrow> bool" where
  "may_leave s cl m \<longleftrightarrow>
     (case mgPhase (clManagers cl m) of
        Renewing b \<Rightarrow> mgCancelled (clManagers cl m) \<or> b + RenewDeadline (config_of s m) \<le> clClock cl
      | Sleeping e \<Rightarrow> mgCancelled (clManagers cl m)
      | _ \<Rightarrow> False)"

fun cluster_do :: "'w setting \<Rightarrow> nat \<Rightarrow> move \<Rightarrow> 'w cluster \<Rightarrow> 'w cluster option" where
  "cluster_do s n (Advance t) cl =
     (if clClock cl \<le> t \<and> list_all (\<lambda>m. timely s m (clManagers cl m) t) [0..<n] then Some (cl\<lparr>clClock := t\<rparr>) else None)"
| "cluster_do s n (Begin m) cl =
     (if may_begin (clManagers cl m)
      then Some (set_manager m ((clManagers cl m)\<lparr>mgCall := Getting (wall s cl m)\<rparr>) cl) else None)"
| "cluster_do s n (Serve m) cl =
     (case mgCall (clManagers cl m) of
        Getting now \<Rightarrow>
          (case cmGet (stApi s) (clApi cl) of (answer, w) \<Rightarrow>
             Some (set_manager m ((clManagers cl m)\<lparr>mgCall := GotAnswer now answer\<rparr>) (cl\<lparr>clApi := w\<rparr>)))
      | Putting now req ler \<Rightarrow>
          (case send (stApi s) req (clApi cl) of (answer, w) \<Rightarrow>
             Some (set_manager m ((clManagers cl m)\<lparr>mgCall := PutAnswer now ler answer\<rparr>) (cl\<lparr>clApi := w\<rparr>)))
      | _ \<Rightarrow> None)"
| "cluster_do s n (Handle m) cl =
     (if mgPhase (clManagers cl m) = Dead then None
      else case mgCall (clManagers cl m) of
        GotAnswer now answer \<Rightarrow>
          Some (set_manager m (got_handled now
            (try_handle_get (config_of s m) now (wall s cl m) answer (mgElector (clManagers cl m)))
            (clClock cl) (clManagers cl m)) cl)
      | PutAnswer now ler answer \<Rightarrow>
          (case try_handle_put ler (wall s cl m) answer (mgElector (clManagers cl m)) of (ok, le) \<Rightarrow>
             Some (set_manager m (try_ended (clClock cl) ok ((clManagers cl m)\<lparr>mgElector := le\<rparr>)) cl))
      | _ \<Rightarrow> None)"
| "cluster_do s n (NextRound m) cl =
     (case mgPhase (clManagers cl m) of
        Sleeping e \<Rightarrow> Some (set_manager m ((clManagers cl m)\<lparr>mgPhase := Renewing (clClock cl)\<rparr>) cl)
      | _ \<Rightarrow> None)"
| "cluster_do s n (Leave m) cl =
     (if may_leave s cl m
      then Some (set_manager m (leave_renew (config_of s m) (wall s cl m) (clManagers cl m)) cl) else None)"
| "cluster_do s n (ServeRelease m) cl =
     (case mgRelease (clManagers cl m) of
        None \<Rightarrow> None
      | Some (now, cm, ler) \<Rightarrow>
          (case cmUpdate (stApi s) cm (clApi cl) of (answer, w) \<Rightarrow>
             Some (set_manager m ((clManagers cl m)\<lparr>mgRelease := None,
               mgElector := release_done ler (wall s cl m) answer (mgElector (clManagers cl m))\<rparr>) (cl\<lparr>clApi := w\<rparr>))))"
| "cluster_do s n (Signal m) cl = Some (set_manager m ((clManagers cl m)\<lparr>mgCancelled := True\<rparr>) cl)"

fun cluster_run :: "'w setting \<Rightarrow> nat \<Rightarrow> move list \<Rightarrow> 'w cluster \<Rightarrow> 'w cluster option" where
  "cluster_run s n [] cl = Some cl"
| "cluster_run s n (mv # mvs) cl =
     (if mover mv < n then case cluster_do s n mv cl of None \<Rightarrow> None | Some cl' \<Rightarrow> cluster_run s n mvs cl' else None)"

definition quiet_from :: "nat \<Rightarrow> 'w cluster \<Rightarrow> bool" where
  "quiet_from n cl \<longleftrightarrow> (\<forall>m \<ge> n. clManagers cl m = fresh_manager)"

lemma cluster_do_quiet: "cluster_do s n mv cl = Some cl' \<Longrightarrow> mover mv < n \<Longrightarrow> quiet_from n cl \<Longrightarrow> quiet_from n cl'"
  by (cases mv) (auto simp: quiet_from_def split: if_splits call.splits phase.splits option.splits prod.splits)

lemma call_begun_None [simp]: "call_begun c = None \<longleftrightarrow> c = Idle"
  by (cases c) simp_all

lemmas served = cluster_step.serve_get [simplified] cluster_step.serve_put [simplified] cluster_step.serve_release [simplified]

lemma cluster_do_step:
  assumes "cluster_do s n mv cl = Some cl'" and quiet: "(\<exists>t. mv = Advance t) \<Longrightarrow> quiet_from n cl"
  shows "cluster_step s cl cl'"
proof (cases mv)
  case (Advance t)
  then have assms: "cluster_do s n mv cl = Some cl'" "quiet_from n cl" using assms by auto
  have "timely s m (clManagers cl m) t" if "\<forall>m < n. timely s m (clManagers cl m) t" for m
    using that assms(2) by (cases "m < n") (auto simp: quiet_from_def timely_def fresh_manager_def)
  then show ?thesis using assms(1) Advance
    by (auto simp: list_all_iff split: if_splits intro!: cluster_step.advance)
qed (use assms(1) in \<open>auto simp: may_begin_def may_leave_def split: if_splits call.splits phase.splits option.splits prod.splits
      intro!: cluster_step.intros served\<close>)

lemma cluster_run_steps:
  "cluster_run s n mvs cl = Some cl' \<Longrightarrow> quiet_from n cl \<Longrightarrow> (cluster_step s)\<^sup>*\<^sup>* cl cl'"
proof (induction mvs arbitrary: cl)
  case (Cons mv mvs)
  then obtain cl1 where do: "cluster_do s n mv cl = Some cl1" "mover mv < n" "cluster_run s n mvs cl1 = Some cl'"
    by (auto split: if_splits option.splits)
  show ?case
    by (rule converse_rtranclp_into_rtranclp [OF cluster_do_step [OF do(1)]
        Cons.IH [OF do(3) cluster_do_quiet [OF do(1,2) Cons.prems(2)]]]) (rule Cons.prems(2))
qed simp

lemma cluster_run_instant:
  "cluster_run s n mvs cl = Some cl' \<Longrightarrow> (\<And>t. Advance t \<notin> set mvs) \<Longrightarrow> (cluster_step s)\<^sup>*\<^sup>* cl cl'"
proof (induction mvs arbitrary: cl)
  case (Cons mv mvs)
  then obtain cl1 where do: "cluster_do s n mv cl = Some cl1" "cluster_run s n mvs cl1 = Some cl'"
    by (auto split: if_splits option.splits)
  have "cluster_step s cl cl1" by (rule cluster_do_step [OF do(1)]) (use Cons.prems(2) in auto)
  moreover have "(cluster_step s)\<^sup>*\<^sup>* cl1 cl'" using Cons.IH [OF do(2)] Cons.prems(2) by simp
  ultimately show ?case by (rule converse_rtranclp_into_rtranclp)
qed simp

section \<open>Properties\<close>

definition ref_setting :: "int \<Rightarrow> ref_server setting" where
  "ref_setting callSeconds =
     \<lparr>stApi = ref_api, podIP = (\<lambda>m. replicate (Suc m) CHR ''1''), clockOffset = (\<lambda>_. 0), callTime = callSeconds * second,
      timerLag = second\<rparr>"

text \<open>The ConfigMap of the deployment, without annotations, at noon of the first day.\<close>

definition ref_cluster_start :: "ref_server cluster" where
  "ref_cluster_start =
     \<lparr>clClock = 43200 * second, clApi = \<lparr>rsCm = Some empty_cm, rsNext = 1\<rparr>, clManagers = (\<lambda>_. fresh_manager), clOrphans = []\<rparr>"

lemma ref_cluster_ok: "cluster_start ref_current ref_cluster_start" "quiet_from n ref_cluster_start"
  by (simp_all add: cluster_start_def ref_cluster_start_def ref_current_def empty_cm_def lock_record_def quiet_from_def)

lemma ref_setting_ok: "0 \<le> c \<Longrightarrow> c < 37 \<Longrightarrow> setting_ok (ref_setting c)"
  by (simp add: setting_ok_def ref_setting_def inj_def second_def)

text \<open>Manager \<open>m\<close> tries for the lease without interruption.\<close>

definition whole_try :: "nat \<Rightarrow> move list" where
  "whole_try m = [Begin m, Serve m, Handle m, Serve m, Handle m]"

text \<open>Manager 0 leads and gets the stop signal; manager 1 takes the lease that it released.\<close>

definition handover :: "move list" where
  "handover = whole_try 0 @ [NextRound 0] @ whole_try 0 @ [Signal 0, Leave 0, ServeRelease 0] @ whole_try 1"

definition stuck_call :: "move list" where
  "stuck_call = [Begin 0, Serve 0, Handle 0, Serve 0, Begin 1, Serve 1, Handle 1, Advance (43261 * second)] @ whole_try 1 @ [Handle 0]"

lemma handover_run:
  "case cluster_run (ref_setting 10) 2 handover ref_cluster_start of
     None \<Rightarrow> False
   | Some cl \<Rightarrow> mgLoop (clManagers cl 0) \<and> mgPhase (clManagers cl 0) = Stopped \<and> leads (clManagers cl 1) \<and> mgLoop (clManagers cl 1)"
  by code_simp

lemma stuck_run:
  "case cluster_run (ref_setting 100) 2 stuck_call ref_cluster_start of
     None \<Rightarrow> False
   | Some cl \<Rightarrow> leads (clManagers cl 0) \<and> leads (clManagers cl 1)"
  by code_simp

text \<open>
  C5 (one_leader). At most one manager is in \<open>renew\<close>, and the lock names it, whatever the managers, the API
  server and the network do: any number of managers, calls that fail with or without effect,
  requests of dead processes that arrive late, crashes, restarts, clocks that are apart by
  any amount. The bounds in \<open>setting_ok\<close> are needed: a candidate's call returns within 37 s
  (with timers one second late) and a timer fires less than 8 s late. The loop over the
  resources runs only in that manager, or in one that has left \<open>renew\<close> and not yet ended.
\<close>

theorem one_leader:
  assumes "documented_server (stApi s) srv used" and "setting_ok s" and "cluster_start srv cl"
    and "(cluster_step s)\<^sup>*\<^sup>* cl cl'"
  shows "(leads (clManagers cl' m) \<and> leads (clManagers cl' m') \<longrightarrow> m = m') \<and>
     (leads (clManagers cl' m) \<longrightarrow> HolderIdentity (lock_record (srv (clApi cl'))) = podIP s m) \<and>
     (mgLoop (clManagers cl' m) \<longrightarrow> leads (clManagers cl' m) \<or> mgPhase (clManagers cl' m) = Stopped)"
proof -
  note inv = reachable_ok [OF assms(4,3,2,1)]
  have held: "HolderIdentity (lock_record (srv (clApi cl'))) = podIP s k" if "leads (clManagers cl' k)" for k
    using cluster_manager [OF inv, of k] that
    by (auto simp: manager_ok_def claims_lease_def leads_def holder_is_def split: phase.splits)
  moreover have "m = m'" if "leads (clManagers cl' m)" "leads (clManagers cl' m')"
    using held [OF that(1)] held [OF that(2)] assms(2) unfolding setting_ok_def by (metis injD)
  ultimately show ?thesis using loop_phase [OF assms(4,3), of m] by (auto simp: loop_ok_def)
qed

theorem one_leader_witness:
  "\<exists>cl. cluster_run (ref_setting 10) 2 handover ref_cluster_start = Some cl \<and> leads (clManagers cl 1) \<and> \<not> leads (clManagers cl 0) \<and>
     HolderIdentity (lock_record (ref_current (clApi cl))) = ''11''"
proof -
  obtain cl where run: "cluster_run (ref_setting 10) 2 handover ref_cluster_start = Some cl" and lead: "leads (clManagers cl 1)"
    using handover_run by (auto split: option.splits)
  have laws: "documented_server (stApi (ref_setting 10)) ref_current ref_used" using ref_server_laws by (simp add: ref_setting_def)
  have ok: "setting_ok (ref_setting 10)" by (rule ref_setting_ok) simp_all
  note one = one_leader [OF laws ok ref_cluster_ok(1) cluster_run_steps [OF run ref_cluster_ok(2)], of 1 0]
  have "podIP (ref_setting 10) 1 = ''11''" by (simp add: ref_setting_def numeral_2_eq_2)
  with one run lead show ?thesis by auto
qed

text \<open>
  The bound on the calls of candidates is needed: \<open>acquire\<close> has no deadline, so a manager
  whose winning answer is held up for longer than the lease begins to lead although another
  one leads by then.
\<close>

lemma stuck_call_two_leaders:
  "\<exists>cl. (cluster_step (ref_setting 100))\<^sup>*\<^sup>* ref_cluster_start cl \<and> leads (clManagers cl 0) \<and> leads (clManagers cl 1)"
proof -
  obtain cl where run: "cluster_run (ref_setting 100) 2 stuck_call ref_cluster_start = Some cl"
    and "leads (clManagers cl 0)" "leads (clManagers cl 1)"
    using stuck_run by (auto split: option.splits)
  then show ?thesis using cluster_run_steps [OF run ref_cluster_ok(2)] by blast
qed

section \<open>Taking and losing the lease\<close>

text \<open>The record that a successful try writes.\<close>

definition next_record :: "lease_config \<Rightarrow> int \<Rightarrow> leader_record \<Rightarrow> leader_record" where
  "next_record c now old =
     (if HolderIdentity old = Identity c
      then (own_record c now)\<lparr>AcquireTime := AcquireTime old, LeaderTransitions := LeaderTransitions old\<rparr>
      else (own_record c now)\<lparr>LeaderTransitions := LeaderTransitions old + 1\<rparr>)"

text \<open>What a try does with a record that it can read.\<close>

lemma read_step:
  assumes "cml_Get (Inr cm) le = (Inr old, le1)"
  obtains sent le2 where "try_handle_get c now t1 (Inr cm) le =
      (if HolderIdentity old \<noteq> [] \<and> observedTime le2 + LeaseDuration c > now \<and> HolderIdentity old \<noteq> Identity c
       then (Ended False, le2) else (Sends (UpdateCM sent) (next_record c now old), le2\<lparr>lockCm := Some sent\<rparr>))"
    and "observedRecord le2 = old" and "observedTime le2 = (if observedRecord le = old then observedTime le else t1)"
    and "cmVersion sent = cmVersion cm" and "lock_record (Some sent) = on_wire (next_record c now old)"
proof -
  note g = cml_Get_ok [OF assms]
  define le2 where "le2 = (if observedRecord le1 \<noteq> old then le1\<lparr>observedRecord := old, observedTime := t1\<rparr> else le1)"
  have le2: "observedRecord le2 = old" "observedTime le2 = (if observedRecord le = old then observedTime le else t1)"
      "lockCm le2 = lockCm le1" using g by (auto simp: le2_def)
  obtain x where x: "lockCm le2 = Some x" "cmVersion x = cmVersion cm" "cmAnnotations x \<noteq> None" using g(2) le2(3) by auto
  then obtain sent where sent: "cml_Update (next_record c now old) le2 = Prepared sent" by (auto simp: cml_Update_def)
  note u = Update_written [OF sent]
  show thesis
  proof (rule that [OF _ le2(1,2)])
    show "try_handle_get c now t1 (Inr cm) le =
      (if HolderIdentity old \<noteq> [] \<and> observedTime le2 + LeaseDuration c > now \<and> HolderIdentity old \<noteq> Identity c
       then (Ended False, le2) else (Sends (UpdateCM sent) (next_record c now old), le2\<lparr>lockCm := Some sent\<rparr>))"
      using sent unfolding try_handle_get_def assms next_record_def
      by (simp only: prod.case sum.case Let_def le2_def [symmetric] IsLeader_def le2(1) split: if_split) (auto split: if_splits)
  qed (use u x in auto)
qed

text \<open>
  A server that answers what it is asked; a manager that leads, has the current version of its
  own lock in hand and runs its loop; and one that waits for the lease, which has not run out for it.
\<close>

definition responsive :: "'w cm_api \<Rightarrow> ('w \<Rightarrow> config_map option) \<Rightarrow> bool" where
  "responsive api srv \<longleftrightarrow>
     (\<forall>w cm. srv w = Some cm \<longrightarrow> (\<exists>w'. cmGet api w = (Inr cm, w') \<and> srv w' = Some cm)) \<and>
     (\<forall>w cm cm'. srv w = Some cm \<and> cmVersion cm' = cmVersion cm \<longrightarrow>
        (\<exists>v w'. cmUpdate api cm' w = (Inr (cm'\<lparr>cmVersion := v\<rparr>), w') \<and> srv w' = Some (cm'\<lparr>cmVersion := v\<rparr>)))"

lemma responsive_update:
  "responsive api srv \<Longrightarrow> srv w = Some cm \<Longrightarrow> cmVersion cm' = cmVersion cm \<Longrightarrow>
     \<exists>v w'. cmUpdate api cm' w = (Inr (cm'\<lparr>cmVersion := v\<rparr>), w') \<and> srv w' = Some (cm'\<lparr>cmVersion := v\<rparr>)"
  unfolding responsive_def by blast

definition holds_lease :: "'w setting \<Rightarrow> config_map \<Rightarrow> nat \<Rightarrow> manager \<Rightarrow> bool" where
  "holds_lease s cm m mg \<longleftrightarrow>
     (\<exists>e. mgPhase mg = Sleeping e) \<and> mgLoop mg \<and> IsLeader (config_of s m) (mgElector mg) \<and>
     (\<exists>own. lockCm (mgElector mg) = Some own \<and> cmVersion own = cmVersion cm \<and> cmAnnotations own \<noteq> None) \<and>
     HolderIdentity (lock_record (Some cm)) = podIP s m"

lemma held_record:
  assumes "HolderIdentity (lock_record (Some cm)) \<noteq> []"
  shows "\<exists>ann r. cmAnnotations cm = Some ann \<and> ann LeaderElectionRecordAnnotationKey = Some (RecordJson r)"
  using assms by (auto simp: lock_record_def split: option.splits annotation.splits)

definition waits_for_lease :: "'w setting \<Rightarrow> 'w cluster \<Rightarrow> config_map \<Rightarrow> nat \<Rightarrow> manager \<Rightarrow> bool" where
  "waits_for_lease s cl cm m mg \<longleftrightarrow>
     mgPhase mg = Acquiring \<and> mgCall mg = Idle \<and> \<not> mgCancelled mg \<and> \<not> mgLoop mg \<and>
     (observedRecord (mgElector mg) = lock_record (Some cm) \<longrightarrow> wall s cl m < observedTime (mgElector mg) + 60 * second)"

text \<open>A try with a server that answers, when the record that is read is free.\<close>

lemma try_takes:
  assumes api: "responsive (stApi s) srv" and cm: "srv (clApi cl) = Some cm"
    and free: "HolderIdentity (lock_record (Some cm)) = []"
    and readable: "\<exists>ann r. cmAnnotations cm = Some ann \<and> ann LeaderElectionRecordAnnotationKey = Some (RecordJson r)"
    and m: "mgPhase (clManagers cl m) = Acquiring" "mgCall (clManagers cl m) = Idle" "\<not> mgCancelled (clManagers cl m)" "m < n"
  shows "\<exists>cl'. cluster_run s n (whole_try m) cl = Some cl' \<and> clClock cl' = clClock cl \<and>
     (\<forall>k. k \<noteq> m \<longrightarrow> clManagers cl' k = clManagers cl k) \<and> leads (clManagers cl' m) \<and> mgLoop (clManagers cl' m)"
proof -
  let ?mg = "clManagers cl m"
  obtain w1 where get: "cmGet (stApi s) (clApi cl) = (Inr cm, w1)" "srv w1 = Some cm"
    using api cm unfolding responsive_def by blast
  obtain ann r where ann: "cmAnnotations cm = Some ann" "ann LeaderElectionRecordAnnotationKey = Some (RecordJson r)"
    using readable by blast
  then have r: "HolderIdentity r = []" using free by (simp add: lock_record_def)
  obtain le1 where read: "cml_Get (Inr cm) (mgElector ?mg) = (Inr r, le1)" using ann by (simp add: cml_Get_def)
  obtain sent le2 where h: "try_handle_get (config_of s m) (wall s cl m) (wall s cl m) (Inr cm) (mgElector ?mg) =
      (Sends (UpdateCM sent) (next_record (config_of s m) (wall s cl m) r), le2\<lparr>lockCm := Some sent\<rparr>)"
    and v: "cmVersion sent = cmVersion cm"
    by (rule read_step [OF read]) (use r in auto)
  obtain u w2 where put: "cmUpdate (stApi s) sent w1 = (Inr u, w2)"
    using api get(2) v unfolding responsive_def by blast
  show ?thesis
    using m get(1) h put
    by (simp add: whole_try_def may_begin_def got_handled_def wall_def send_def try_handle_put_def try_ended_def leads_def Let_def)
qed

text \<open>A try with a server that answers, when another manager holds the lease.\<close>

lemma try_refused:
  assumes api: "responsive (stApi s) srv" and cm: "srv (clApi cl) = Some cm" and ok: "setting_ok s"
    and readable: "cmAnnotations cm = Some ann" "ann LeaderElectionRecordAnnotationKey = Some (RecordJson r)"
    and held: "HolderIdentity r = podIP s k" "k \<noteq> m" and wait: "waits_for_lease s cl cm m (clManagers cl m)" and "m < n"
  shows "\<exists>cl'. cluster_run s n [Begin m, Serve m, Handle m] cl = Some cl' \<and>
     (\<forall>k. k \<noteq> m \<longrightarrow> clManagers cl' k = clManagers cl k) \<and> mgPhase (clManagers cl' m) = Acquiring \<and>
     mgCall (clManagers cl' m) = Idle \<and> \<not> mgLoop (clManagers cl' m)"
proof -
  let ?mg = "clManagers cl m"
  obtain w1 where get: "cmGet (stApi s) (clApi cl) = (Inr cm, w1)" using api cm unfolding responsive_def by blast
  have rec: "lock_record (Some cm) = r" using readable by (simp add: lock_record_def)
  have other: "podIP s k \<noteq> podIP s m" "podIP s k \<noteq> []" using ok held(2) unfolding setting_ok_def by (auto dest: injD)
  obtain le1 where read: "cml_Get (Inr cm) (mgElector ?mg) = (Inr r, le1)" using readable by (simp add: cml_Get_def)
  obtain le2 where h: "try_handle_get (config_of s m) (wall s cl m) (wall s cl m) (Inr cm) (mgElector ?mg) = (Ended False, le2)"
    by (rule read_step [OF read, of "config_of s m" "wall s cl m" "wall s cl m"])
      (use wait rec held other second_pos in \<open>auto simp: waits_for_lease_def split: if_splits\<close>)
  show ?thesis
    using wait get h assms(9)
    by (simp add: waits_for_lease_def may_begin_def got_handled_def wall_def try_ended_def Let_def)
qed

text \<open>
  C34 (stopped_loop_overlaps). One leader is not one loop. A leader that gets the stop signal leaves \<open>renew\<close> and, since
  \<open>ReleaseOnCancel\<close> is set, releases the lease without waiting for its loop: as soon as the
  server has the release, a try of a waiting manager succeeds, at the same instant and
  whatever was left of the lease, and its loop starts while the old one is still in its round
  over the resources. It is the release that does it: the same try after the stop signal but
  before the release is served is refused. The library asks that all work be done before the
  context is cancelled; \<open>Run\<close> cancels it first and waits for nothing.
\<close>

theorem stopped_loop_overlaps:
  assumes "setting_ok s" and "responsive (stApi s) srv" and "srv (clApi cl) = Some cm"
    and "holds_lease s cm m (clManagers cl m)" and "waits_for_lease s cl cm m' (clManagers cl m')"
    and "m \<noteq> m'" and "m < n" and "m' < n"
  shows "(\<exists>cl'. cluster_run s n ([Signal m, Leave m, ServeRelease m] @ whole_try m') cl = Some cl' \<and>
        (cluster_step s)\<^sup>*\<^sup>* cl cl' \<and> clClock cl' = clClock cl \<and>
        mgPhase (clManagers cl' m) = Stopped \<and> mgLoop (clManagers cl' m) \<and>
        leads (clManagers cl' m') \<and> mgLoop (clManagers cl' m')) \<and>
     (\<exists>cl'. cluster_run s n [Signal m, Leave m, Begin m', Serve m', Handle m'] cl = Some cl' \<and>
        mgPhase (clManagers cl' m) = Stopped \<and> mgLoop (clManagers cl' m) \<and>
        mgPhase (clManagers cl' m') = Acquiring \<and> mgCall (clManagers cl' m') = Idle \<and> \<not> mgLoop (clManagers cl' m'))"
proof -
  let ?mg = "clManagers cl m"
  obtain e own oann where h: "mgPhase ?mg = Sleeping e" "mgLoop ?mg" "lockCm (mgElector ?mg) = Some own"
      "IsLeader (config_of s m) (mgElector ?mg)" and own: "cmVersion own = cmVersion cm" "cmAnnotations own = Some oann"
    and holder: "HolderIdentity (lock_record (Some cm)) = podIP s m"
    using assms(4) unfolding holds_lease_def by blast
  have "podIP s m \<noteq> []" using assms(1) by (simp add: setting_ok_def)
  then obtain ann r where ann: "cmAnnotations cm = Some ann" "ann LeaderElectionRecordAnnotationKey = Some (RecordJson r)"
    using held_record holder by metis
  then have r: "HolderIdentity r = podIP s m" using holder by (simp add: lock_record_def)
  let ?rel = "release_record (mgElector ?mg)"
  let ?cm1 = "own\<lparr>cmAnnotations := Some (oann(LeaderElectionRecordAnnotationKey \<mapsto> RecordJson (on_wire ?rel)))\<rparr>"
  let ?left = "?mg\<lparr>mgCancelled := True, mgPhase := Stopped, mgElector := (mgElector ?mg)\<lparr>lockCm := Some ?cm1\<rparr>,
    mgRelease := Some (wall s cl m, ?cm1, ?rel)\<rparr>"
  let ?cl2 = "set_manager m ?left cl"
  have leave: "cluster_run s n (Signal m # Leave m # mvs) cl = cluster_run s n mvs ?cl2" for mvs
  proof -
    have "release_prepare (config_of s m) (mgElector ?mg) = Some (Prepared ?cm1)"
      using h(3,4) own(2) by (simp add: release_prepare_def cml_Update_def)
    then show ?thesis using h(1) assms(7) by (simp add: may_leave_def leave_renew_def wall_def Let_def)
  qed
  have wait: "clManagers ?cl2 m' = clManagers cl m'" using assms(6) by simp
  obtain v w where rel: "cmUpdate (stApi s) ?cm1 (clApi cl) = (Inr (?cm1\<lparr>cmVersion := v\<rparr>), w)" "srv w = Some (?cm1\<lparr>cmVersion := v\<rparr>)"
    using responsive_update [OF assms(2,3), of ?cm1] own(1) by auto
  obtain left' where serve: "cluster_run s n (ServeRelease m # mvs) ?cl2 = cluster_run s n mvs (set_manager m left' (?cl2\<lparr>clApi := w\<rparr>))"
    and left': "mgPhase left' = Stopped" "mgLoop left'" for mvs
    using rel(1) assms(7) h(2) by (auto simp: release_done_def try_handle_put_def)
  let ?cl3 = "set_manager m left' (?cl2\<lparr>clApi := w\<rparr>)"
  have "\<exists>cl'. cluster_run s n (whole_try m') ?cl3 = Some cl' \<and> clClock cl' = clClock ?cl3 \<and>
     (\<forall>k. k \<noteq> m' \<longrightarrow> clManagers cl' k = clManagers ?cl3 k) \<and> leads (clManagers cl' m') \<and> mgLoop (clManagers cl' m')"
    by (rule try_takes [OF assms(2), of _ "?cm1\<lparr>cmVersion := v\<rparr>"])
      (use rel(2) assms(5,6,8) in \<open>auto simp: waits_for_lease_def lock_record_def release_record_def\<close>)
  then obtain cl' where taken: "cluster_run s n (whole_try m') ?cl3 = Some cl'" "clClock cl' = clClock cl"
      "clManagers cl' m = left'" "leads (clManagers cl' m')" "mgLoop (clManagers cl' m')" using assms(6) by auto
  have run: "cluster_run s n ([Signal m, Leave m, ServeRelease m] @ whole_try m') cl = Some cl'"
    using leave serve taken(1) by simp
  then have "(cluster_step s)\<^sup>*\<^sup>* cl cl'" by (rule cluster_run_instant) (simp add: whole_try_def)
  then have first: "\<exists>cl'. cluster_run s n ([Signal m, Leave m, ServeRelease m] @ whole_try m') cl = Some cl' \<and>
        (cluster_step s)\<^sup>*\<^sup>* cl cl' \<and> clClock cl' = clClock cl \<and>
        mgPhase (clManagers cl' m) = Stopped \<and> mgLoop (clManagers cl' m) \<and>
        leads (clManagers cl' m') \<and> mgLoop (clManagers cl' m')"
    using run taken left' by blast
  have "waits_for_lease s ?cl2 cm m' (clManagers ?cl2 m')"
    using assms(5) unfolding wait by (simp add: waits_for_lease_def wall_def)
  then have "\<exists>cl'. cluster_run s n [Begin m', Serve m', Handle m'] ?cl2 = Some cl' \<and>
     (\<forall>k. k \<noteq> m' \<longrightarrow> clManagers cl' k = clManagers ?cl2 k) \<and> mgPhase (clManagers cl' m') = Acquiring \<and>
     mgCall (clManagers cl' m') = Idle \<and> \<not> mgLoop (clManagers cl' m')"
    by (intro try_refused [OF assms(2) _ assms(1) ann r assms(6)]) (use assms(3,8) in simp_all)
  then have "\<exists>cl'. cluster_run s n [Signal m, Leave m, Begin m', Serve m', Handle m'] cl = Some cl' \<and>
        mgPhase (clManagers cl' m) = Stopped \<and> mgLoop (clManagers cl' m) \<and>
        mgPhase (clManagers cl' m') = Acquiring \<and> mgCall (clManagers cl' m') = Idle \<and> \<not> mgLoop (clManagers cl' m')"
    unfolding leave using assms(6) h(2) by fastforce
  with first show ?thesis by blast
qed

text \<open>Manager 0 of the deployment leads and has renewed its lease, manager 1 waits.\<close>

definition before_stop :: "ref_server cluster" where
  "before_stop = the (cluster_run (ref_setting 10) 2 (whole_try 0 @ [NextRound 0] @ whole_try 0) ref_cluster_start)"

definition sleeps :: "phase \<Rightarrow> bool" where
  "sleeps ph \<longleftrightarrow> (case ph of Sleeping e \<Rightarrow> True | _ \<Rightarrow> False)"

lemma before_stop_run:
  "case cluster_run (ref_setting 10) 2 (whole_try 0 @ [NextRound 0] @ whole_try 0) ref_cluster_start of
     None \<Rightarrow> False
   | Some cl \<Rightarrow>
      (case (ref_current (clApi cl), lockCm (mgElector (clManagers cl 0))) of
         (Some cm, Some own) \<Rightarrow>
           cmVersion own = cmVersion cm \<and> (case cmAnnotations own of None \<Rightarrow> False | Some a \<Rightarrow> True) \<and>
           HolderIdentity (lock_record (Some cm)) = ''1''
       | _ \<Rightarrow> False) \<and>
      sleeps (mgPhase (clManagers cl 0)) \<and> mgLoop (clManagers cl 0) \<and> IsLeader (config_of (ref_setting 10) 0) (mgElector (clManagers cl 0)) \<and>
      mgPhase (clManagers cl 1) = Acquiring \<and> call_begun (mgCall (clManagers cl 1)) = None \<and>
      \<not> mgCancelled (clManagers cl 1) \<and> \<not> mgLoop (clManagers cl 1) \<and> HolderIdentity (observedRecord (mgElector (clManagers cl 1))) = []"
  by code_simp

lemma ref_responsive: "responsive ref_api ref_current"
  unfolding responsive_def
proof (intro conjI allI impI)
  fix w cm
  assume cur: "ref_current w = Some cm"
  then show "\<exists>w'. cmGet ref_api w = (Inr cm, w') \<and> ref_current w' = Some cm" by (simp add: ref_api_def)
next
  fix w and cm cm' :: config_map
  assume "ref_current w = Some cm \<and> cmVersion cm' = cmVersion cm"
  then show "\<exists>v w'. cmUpdate ref_api cm' w = (Inr (cm'\<lparr>cmVersion := v\<rparr>), w') \<and> ref_current w' = Some (cm'\<lparr>cmVersion := v\<rparr>)"
    by (auto simp: ref_api_def ref_store_def ref_current_def Let_def)
qed

theorem stopped_loop_overlaps_witness:
  "\<exists>cl. cluster_run (ref_setting 10) 2 ([Signal 0, Leave 0, ServeRelease 0] @ whole_try 1) before_stop = Some cl \<and>
     mgPhase (clManagers cl 0) = Stopped \<and> mgLoop (clManagers cl 0) \<and> mgLoop (clManagers cl 1)"
proof -
  obtain cl cm own where run: "cluster_run (ref_setting 10) 2 (whole_try 0 @ [NextRound 0] @ whole_try 0) ref_cluster_start = Some cl"
    and cm: "ref_current (clApi cl) = Some cm" and own: "lockCm (mgElector (clManagers cl 0)) = Some own"
    using before_stop_run by (auto split: option.splits)
  note f = before_stop_run [unfolded run option.case cm own prod.case]
  have here: "before_stop = cl" by (simp only: before_stop_def run option.sel)
  have pod: "podIP (ref_setting 10) 0 = ''1''" by (simp add: ref_setting_def)
  have holds: "holds_lease (ref_setting 10) cm 0 (clManagers cl 0)"
    using f own pod by (auto simp: holds_lease_def sleeps_def split: phase.splits option.splits)
  have "observedRecord (mgElector (clManagers cl 1)) \<noteq> lock_record (Some cm)" using f by auto
  then have waits: "waits_for_lease (ref_setting 10) cl cm 1 (clManagers cl 1)"
    using f by (simp add: waits_for_lease_def)
  have api: "responsive (stApi (ref_setting 10)) ref_current" using ref_responsive by (simp add: ref_setting_def)
  have ok: "setting_ok (ref_setting 10)" by (rule ref_setting_ok) simp_all
  have distinct: "(0::nat) \<noteq> 1" "(0::nat) < 2" "(1::nat) < 2" by simp_all
  show ?thesis using stopped_loop_overlaps [OF ok api cm holds waits distinct] unfolding here by blast
qed

text \<open>
  C35 (try_outcomes). A try that can read the record: while another manager holds a lease that was seen to be
  renewed less than 60 s before the try began, nothing is sent and the try fails. Otherwise,
  for a free, an own or an expired lease, the record with the new holder is sent once, with
  the version that was read, and the try succeeds exactly when the server takes it. A change
  of holder counts one transition more, a renewal keeps the time of acquisition.
\<close>

theorem try_outcomes:
  assumes "cmGet api w = (Inr cm, w1)" and "cml_Get (Inr cm) le = (Inr old, le1)"
  shows "if HolderIdentity old \<noteq> [] \<and> HolderIdentity old \<noteq> Identity c \<and>
            now < (if observedRecord le = old then observedTime le else t1) + LeaseDuration c
         then \<exists>le'. tryAcquireOrRenew api c now t1 t2 (le, w) = (Ok False, le', w1)
         else \<exists>sent answer w2 le'. cmUpdate api sent w1 = (answer, w2) \<and> cmVersion sent = cmVersion cm \<and>
                lock_record (Some sent) = on_wire (next_record c now old) \<and>
                tryAcquireOrRenew api c now t1 t2 (le, w) = (Ok (\<exists>x. answer = Inr x), le', w2)"
proof -
  obtain sent le2 where s: "try_handle_get c now t1 (Inr cm) le =
      (if HolderIdentity old \<noteq> [] \<and> observedTime le2 + LeaseDuration c > now \<and> HolderIdentity old \<noteq> Identity c
       then (Ended False, le2) else (Sends (UpdateCM sent) (next_record c now old), le2\<lparr>lockCm := Some sent\<rparr>))"
    "observedTime le2 = (if observedRecord le = old then observedTime le else t1)" "cmVersion sent = cmVersion cm"
    "lock_record (Some sent) = on_wire (next_record c now old)"
    by (rule read_step [OF assms(2)])
  obtain answer w2 where up: "cmUpdate api sent w1 = (answer, w2)" by (rule prod.exhaust)
  show ?thesis
    using s assms(1) up by (cases answer) (auto simp: tryAcquireOrRenew_def send_def try_handle_put_def Let_def)
qed

text \<open>The unclaimed lock of the deployment is taken.\<close>

theorem try_outcomes_witness:
  "fst (tryAcquireOrRenew ref_api (manager_config ''11'') second second second (new_elector, \<lparr>rsCm = Some empty_cm, rsNext = 1\<rparr>)) = Ok True"
proof -
  let ?w = "\<lparr>rsCm = Some empty_cm, rsNext = 1\<rparr>"
  have cur: "ref_current ?w = Some empty_cm" by (simp add: ref_current_def empty_cm_def)
  have get: "cmGet ref_api ?w = (Inr empty_cm, ?w)" using cur by (simp add: ref_api_def)
  obtain le1 where read: "cml_Get (Inr empty_cm) new_elector = (Inr zero_record, le1)" by (simp add: cml_Get_def empty_cm_def Let_def)
  have "\<exists>a w2. cmUpdate ref_api sent ?w = (Inr a, w2)" if "cmVersion sent = cmVersion empty_cm" for sent
    using that cur by (simp add: ref_api_def ref_store_def Let_def)
  then show ?thesis using try_outcomes [OF get read, of "manager_config ''11''" second second second] by fastforce
qed

lemma readable:
  assumes "\<forall>m s. cmAnnotations cm = Some m \<longrightarrow> m LeaderElectionRecordAnnotationKey \<noteq> Some (OtherText s)"
  shows "\<exists>old le1. cml_Get (Inr cm) le = (Inr old, le1)"
proof (cases "cmAnnotations cm")
  case (Some m)
  then show ?thesis using assms
    by (cases "m LeaderElectionRecordAnnotationKey"; cases "the (m LeaderElectionRecordAnnotationKey)")
      (auto simp: cml_Get_def Let_def)
qed (simp add: cml_Get_def Let_def)

text \<open>
  C36 (failed_renewal_crashes). A leader whose last try failed on the API server, and that then leaves \<open>renew\<close> because its
  deadline passed or it was told to stop, dies of a write into a nil map instead of releasing
  the lease: the failed call left an empty ConfigMap in the lock.
\<close>

theorem failed_renewal_crashes:
  assumes "tryAcquireOrRenew api c now t1 t2 (le, w) = (Ok False, le', w')" and "IsLeader c le'"
    and "\<forall>cm m s. fst (cmGet api w) = Inr cm \<and> cmAnnotations cm = Some m \<longrightarrow> m LeaderElectionRecordAnnotationKey \<noteq> Some (OtherText s)"
  shows "release_prepare c le' = Some NilMap \<and> mgPhase (leave_renew c t (mg\<lparr>mgElector := le'\<rparr>)) = Dead"
proof -
  have empty: "lockCm le' = Some empty_cm"
  proof (cases "fst (cmGet api w)")
    case (Inl e)
    then show ?thesis using assms(1)
      by (auto simp: tryAcquireOrRenew_def try_handle_get_def cml_Get_def try_handle_put_def cml_cache_def Let_def
          split: prod.splits goerror.splits sum.splits)
  next
    case (Inr cm)
    obtain w1 where get: "cmGet api w = (Inr cm, w1)" using Inr by (metis prod.collapse)
    obtain old le1 where read: "cml_Get (Inr cm) le = (Inr old, le1)"
      using readable [of cm le] assms(3) Inr by blast
    obtain sent le2 where s: "try_handle_get c now t1 (Inr cm) le =
        (if HolderIdentity old \<noteq> [] \<and> observedTime le2 + LeaseDuration c > now \<and> HolderIdentity old \<noteq> Identity c
         then (Ended False, le2) else (Sends (UpdateCM sent) (next_record c now old), le2\<lparr>lockCm := Some sent\<rparr>))"
      and "observedRecord le2 = old"
      by (rule read_step [OF read])
    then show ?thesis using assms(1,2) get
      by (auto simp: tryAcquireOrRenew_def IsLeader_def try_handle_put_def cml_cache_def Let_def
          split: prod.splits sum.splits if_splits)
  qed
  then show ?thesis using assms(2)
    by (auto simp: release_prepare_def cml_Update_def empty_cm_def leave_renew_def process_gone_def Let_def)
qed

text \<open>A leader that can no longer reach the API server.\<close>

theorem failed_renewal_crashes_witness:
  "mgPhase (leave_renew (manager_config ''11'') (20 * second) (fresh_manager\<lparr>mgElector := snd (cml_Get (Inl (ErrText ''timeout''))
      (new_elector\<lparr>observedRecord := own_record (manager_config ''11'') second\<rparr>))\<rparr>)) = Dead"
proof -
  let ?le = "new_elector\<lparr>observedRecord := own_record (manager_config ''11'') second\<rparr>"
  let ?down = "ref_api\<lparr>cmGet := \<lambda>w. (Inl (ErrText ''timeout''), w)\<rparr>"
  let ?w = "\<lparr>rsCm = None, rsNext = 0\<rparr>"
  have "tryAcquireOrRenew ?down (manager_config ''11'') second second second (?le, ?w) =
      (Ok False, snd (cml_Get (Inl (ErrText ''timeout'')) ?le), ?w)"
    by (simp add: tryAcquireOrRenew_def try_handle_get_def cml_Get_def)
  from failed_renewal_crashes [OF this, of "20 * second" fresh_manager] show ?thesis
    by (simp add: IsLeader_def cml_Get_def)
qed

end
