(* ===== verification/Scheme.thy ===== *)
theory Scheme
  imports ApiTypes
begin

text \<open>
  The registration of the resource with the API machinery: \<open>pkg/apis/egressip/v1alpha1/register.go\<close>
  and the \<open>register.go\<close> of the two clientsets, over the maps of \<open>runtime.Scheme\<close> between the
  Go types and the kinds they are sent as. A \<open>reflect.Type\<close> is a term; only its shape, its
  package and its name are looked at. The conversion functions and the defaulters of a scheme
  are kept in other fields, which nothing here reads; they are not modelled.
\<close>

section \<open>Kinds, resources and types\<close>

record group_version =
  gvGroup :: string
  gvVersion :: string

record gvk =
  gvkGroup :: string
  gvkVersion :: string
  gvkKind :: string

record gvr =
  gvrGroup :: string
  gvrVersion :: string
  gvrResource :: string

definition WithKind :: "group_version \<Rightarrow> string \<Rightarrow> gvk" where
  "WithKind gv kind = \<lparr>gvkGroup = gvGroup gv, gvkVersion = gvVersion gv, gvkKind = kind\<rparr>"

definition WithResource :: "group_version \<Rightarrow> string \<Rightarrow> gvr" where
  "WithResource gv res = \<lparr>gvrGroup = gvGroup gv, gvrVersion = gvVersion gv, gvrResource = res\<rparr>"

definition gvk_GroupVersion :: "gvk \<Rightarrow> group_version" where
  "gvk_GroupVersion k = \<lparr>gvGroup = gvkGroup k, gvVersion = gvkVersion k\<rparr>"

text \<open>\<open>GroupKind\<close> and \<open>GroupResource\<close>: a pair of the group and the name.\<close>

definition GroupKind :: "gvk \<Rightarrow> string \<times> string" where
  "GroupKind k = (gvkGroup k, gvkKind k)"

definition GroupResource :: "gvr \<Rightarrow> string \<times> string" where
  "GroupResource r = (gvrGroup r, gvrResource r)"

lemma WithKind_simps [simp]:
  "gvkGroup (WithKind gv k) = gvGroup gv" "gvkVersion (WithKind gv k) = gvVersion gv" "gvkKind (WithKind gv k) = k"
  by (simp_all add: WithKind_def)

lemma gvk_GroupVersion_WithKind [simp]: "gvk_GroupVersion (WithKind gv k) = gv"
  by (cases gv) (simp add: gvk_GroupVersion_def WithKind_def)

text \<open>A struct type and any other named type with package and name, and a pointer type.\<close>

datatype gotype = TStruct string string | TNamed string string | TPtr gotype

primrec type_Name :: "gotype \<Rightarrow> string" where
  "type_Name (TStruct p n) = n"
| "type_Name (TNamed p n) = n"
| "type_Name (TPtr t) = []"

primrec is_struct :: "gotype \<Rightarrow> bool" where
  "is_struct (TStruct p n) \<longleftrightarrow> True"
| "is_struct (TNamed p n) \<longleftrightarrow> False"
| "is_struct (TPtr t) \<longleftrightarrow> False"

section \<open>The scheme\<close>

record scheme =
  gvkToType :: "gvk \<Rightarrow> gotype option"
  typeToGVK :: "gotype \<Rightarrow> gvk list option"
  unversionedTypes :: "gotype \<Rightarrow> gvk option"
  unversionedKinds :: "string \<Rightarrow> gotype option"
  observedVersions :: "group_version list"

definition NewScheme :: scheme where
  "NewScheme =
     \<lparr>gvkToType = (\<lambda>_. None), typeToGVK = (\<lambda>_. None), unversionedTypes = (\<lambda>_. None), unversionedKinds = (\<lambda>_. None),
      observedVersions = []\<rparr>"

definition APIVersionInternal :: string where
  "APIVersionInternal = ''__internal''"

definition addObservedVersion :: "group_version \<Rightarrow> scheme \<Rightarrow> scheme" where
  "addObservedVersion gv s =
     (if gvVersion gv = [] \<or> gvVersion gv = APIVersionInternal then s
      else if gv \<in> set (observedVersions s) then s
      else s\<lparr>observedVersions := observedVersions s @ [gv]\<rparr>)"

definition observeE :: "group_version \<Rightarrow> (scheme, unit) prog" where
  "observeE gv s = (Ok (), addObservedVersion gv s)"

definition must_be_pointers :: gopanic where
  "must_be_pointers = PanicErr (ErrText ''All types must be pointers to structs.'')"

text \<open>The last part of \<open>AddKnownTypeWithName\<close>, once the type is known to be a struct.\<close>

definition append_kind :: "gvk \<Rightarrow> gvk list option \<Rightarrow> gvk list" where
  "append_kind k ks = (case ks of None \<Rightarrow> [k] | Some l \<Rightarrow> if k \<in> set l then l else l @ [k])"

definition register_kind :: "gvk \<Rightarrow> gotype \<Rightarrow> (scheme, unit) prog" where
  "register_kind k t s =
     (if gvkToType s k \<noteq> None \<and> gvkToType s k \<noteq> Some t
      then (Panic (PanicErr (ErrText ''Double registration of different types'')), s)
      else (Ok (), s\<lparr>gvkToType := (gvkToType s)(k \<mapsto> t),
                    typeToGVK := (typeToGVK s)(t \<mapsto> append_kind k (typeToGVK s t))\<rparr>))"

definition AddKnownTypeWithName :: "gvk \<Rightarrow> gotype \<Rightarrow> (scheme, unit) prog" where
  "AddKnownTypeWithName k obj =
     bindE (observeE (gvk_GroupVersion k)) (\<lambda>_.
       if gvkVersion k = [] then panicE (PanicErr (ErrText ''version is required on all types''))
       else (case obj of
               TPtr t \<Rightarrow> if is_struct t then register_kind k t else panicE must_be_pointers
             | _ \<Rightarrow> panicE must_be_pointers))"

definition AddKnownTypes :: "group_version \<Rightarrow> gotype list \<Rightarrow> (scheme, unit) prog" where
  "AddKnownTypes gv types =
     bindE (observeE gv) (\<lambda>_.
       forE types (\<lambda>obj. case obj of
           TPtr t \<Rightarrow> AddKnownTypeWithName (WithKind gv (type_Name t)) obj
         | _ \<Rightarrow> panicE must_be_pointers))"

text \<open>\<open>reflect.TypeOf(obj).Elem()\<close> of a type that has no element panics; it was refused before.\<close>

definition register_unversioned :: "group_version \<Rightarrow> gotype \<Rightarrow> (scheme, unit) prog" where
  "register_unversioned gv obj s =
     (case obj of
        TPtr t \<Rightarrow>
          (let k = WithKind gv (type_Name t); s1 = s\<lparr>unversionedTypes := (unversionedTypes s)(t \<mapsto> k)\<rparr> in
           if unversionedKinds s (gvkKind k) \<noteq> None \<and> unversionedKinds s (gvkKind k) \<noteq> Some t
           then (Panic (PanicErr (ErrText ''kind name must be unique in scheme'')), s1)
           else (Ok (), s1\<lparr>unversionedKinds := (unversionedKinds s)(gvkKind k \<mapsto> t)\<rparr>))
      | _ \<Rightarrow> (Panic (PanicErr (ErrText ''reflect: Elem of invalid type'')), s))"

definition AddUnversionedTypes :: "group_version \<Rightarrow> gotype list \<Rightarrow> (scheme, unit) prog" where
  "AddUnversionedTypes gv types =
     bindE (observeE gv) (\<lambda>_. bindE (AddKnownTypes gv types) (\<lambda>_. forE types (register_unversioned gv)))"

text \<open>What the scheme answers: the kinds of a type and whether it is unversioned, and the type of a kind.\<close>

definition ObjectKinds :: "scheme \<Rightarrow> gotype \<Rightarrow> goerror + (gvk list \<times> bool)" where
  "ObjectKinds s obj =
     (case obj of
        TPtr t \<Rightarrow>
          (case typeToGVK s t of
             None \<Rightarrow> Inl (ErrText ''no kind is registered for the type'')
           | Some ks \<Rightarrow> Inr (ks, unversionedTypes s t \<noteq> None))
      | _ \<Rightarrow> Inl (ErrText ''expected pointer''))"

definition Recognizes :: "scheme \<Rightarrow> gvk \<Rightarrow> bool" where
  "Recognizes s k \<longleftrightarrow> gvkToType s k \<noteq> None"

definition scheme_New :: "scheme \<Rightarrow> gvk \<Rightarrow> goerror + gotype" where
  "scheme_New s k =
     (case gvkToType s k of
        Some t \<Rightarrow> Inr (TPtr t)
      | None \<Rightarrow>
          (case unversionedKinds s (gvkKind k) of
             Some t \<Rightarrow> Inr (TPtr t)
           | None \<Rightarrow> Inl (ErrText ''no kind is registered in scheme'')))"

section \<open>Scheme builders\<close>

type_synonym scheme_builder = "(scheme, unit) prog list"

definition sb_Register :: "(scheme, unit) prog list \<Rightarrow> scheme_builder \<Rightarrow> scheme_builder" where
  "sb_Register funcs sb = fold (\<lambda>f l. l @ [f]) funcs sb"

definition NewSchemeBuilder :: "(scheme, unit) prog list \<Rightarrow> scheme_builder" where
  "NewSchemeBuilder funcs = sb_Register funcs []"

definition sb_AddToScheme :: "scheme_builder \<Rightarrow> (scheme, unit) prog" where
  "sb_AddToScheme sb = forE sb (\<lambda>f. f)"

text \<open>\<open>utilruntime.Must\<close>.\<close>

definition mustE :: "('s, unit) prog \<Rightarrow> ('s, unit) prog" where
  "mustE m = catchE m (\<lambda>e. panicE (PanicErr e))"

section \<open>The common types of a version\<close>

definition meta_type :: "string \<Rightarrow> gotype" where
  "meta_type n = TPtr (TStruct ''k8s.io/apimachinery/pkg/apis/meta/v1'' n)"

definition Unversioned :: group_version where
  "Unversioned = \<lparr>gvGroup = [], gvVersion = ''v1''\<rparr>"

definition option_types :: "gotype list" where
  "option_types =
     [meta_type ''ListOptions'', meta_type ''ExportOptions'', meta_type ''GetOptions'', meta_type ''DeleteOptions'',
      meta_type ''CreateOptions'', meta_type ''UpdateOptions'']"

definition unversioned_types :: "gotype list" where
  "unversioned_types =
     [meta_type ''Status'', meta_type ''APIVersions'', meta_type ''APIGroupList'', meta_type ''APIGroup'',
      meta_type ''APIResourceList'']"

definition AddToGroupVersion :: "group_version \<Rightarrow> (scheme, unit) prog" where
  "AddToGroupVersion gv =
     bindE (AddKnownTypeWithName (WithKind gv ''WatchEvent'') (meta_type ''WatchEvent'')) (\<lambda>_.
     bindE (AddKnownTypeWithName (WithKind \<lparr>gvGroup = gvGroup gv, gvVersion = APIVersionInternal\<rparr> ''WatchEvent'')
              (meta_type ''InternalEvent'')) (\<lambda>_.
     bindE (AddKnownTypes gv option_types) (\<lambda>_.
       AddUnversionedTypes Unversioned unversioned_types)))"

section \<open>The group of the resource\<close>

definition GroupName :: string where
  "GroupName = ''staticegressips.nirmata.io''"

definition SchemeGroupVersion :: group_version where
  "SchemeGroupVersion = \<lparr>gvGroup = GroupName, gvVersion = ''v1alpha1''\<rparr>"

definition egress_Kind :: "string \<Rightarrow> string \<times> string" where
  "egress_Kind kind = GroupKind (WithKind SchemeGroupVersion kind)"

definition egress_Resource :: "string \<Rightarrow> string \<times> string" where
  "egress_Resource resource = GroupResource (WithResource SchemeGroupVersion resource)"

definition egress_type :: "string \<Rightarrow> gotype" where
  "egress_type n = TPtr (TStruct ''github.com/nirmata/kube-static-egress-ip/pkg/apis/egressip/v1alpha1'' n)"

definition addKnownTypes :: "(scheme, unit) prog" where
  "addKnownTypes =
     bindE (AddKnownTypes SchemeGroupVersion [egress_type ''StaticEgressIP'', egress_type ''StaticEgressIPList'']) (\<lambda>_.
     bindE (AddToGroupVersion SchemeGroupVersion) (\<lambda>_. returnE ()))"

definition egress_SchemeBuilder :: scheme_builder where
  "egress_SchemeBuilder = NewSchemeBuilder [addKnownTypes]"

definition egress_AddToScheme :: "(scheme, unit) prog" where
  "egress_AddToScheme = sb_AddToScheme egress_SchemeBuilder"

text \<open>The package variables of the clientset and of the fake clientset, and their \<open>init\<close>.\<close>

definition localSchemeBuilder :: scheme_builder where
  "localSchemeBuilder = [egress_AddToScheme]"

definition clientset_AddToScheme :: "(scheme, unit) prog" where
  "clientset_AddToScheme = sb_AddToScheme localSchemeBuilder"

definition clientset_init :: "(scheme, unit) prog" where
  "clientset_init =
     bindE (AddToGroupVersion \<lparr>gvGroup = [], gvVersion = ''v1''\<rparr>) (\<lambda>_. mustE clientset_AddToScheme)"

definition clientset_scheme :: scheme where
  "clientset_scheme = snd (clientset_init NewScheme)"

definition fake_localSchemeBuilder :: scheme_builder where
  "fake_localSchemeBuilder = [egress_AddToScheme]"

definition fake_AddToScheme :: "(scheme, unit) prog" where
  "fake_AddToScheme = sb_AddToScheme fake_localSchemeBuilder"

definition fake_init :: "(scheme, unit) prog" where
  "fake_init = bindE (AddToGroupVersion \<lparr>gvGroup = [], gvVersion = ''v1''\<rparr>) (\<lambda>_. mustE fake_AddToScheme)"

definition fake_scheme :: scheme where
  "fake_scheme = snd (fake_init NewScheme)"

section \<open>From a kind to a resource\<close>

definition lower_char :: "char \<Rightarrow> char" where
  "lower_char c = (let n = of_char c :: nat in if 65 \<le> n \<and> n \<le> 90 then char_of (n + 32) else c)"

text \<open>\<open>UnsafeGuessKindToResource\<close> for a kind of ASCII letters: the plural and the singular.\<close>

definition UnsafeGuessKindToResource :: "gvk \<Rightarrow> gvr \<times> gvr" where
  "UnsafeGuessKindToResource k =
     (if gvkKind k = [] then (\<lparr>gvrGroup = [], gvrVersion = [], gvrResource = []\<rparr>, \<lparr>gvrGroup = [], gvrVersion = [], gvrResource = []\<rparr>)
      else (let gv = gvk_GroupVersion k; singularName = map lower_char (gvkKind k); singular = WithResource gv singularName in
            if suffix ''endpoints'' singularName then (singular, singular)
            else if last singularName = CHR ''s'' then (WithResource gv (singularName @ ''es''), singular)
            else if last singularName = CHR ''y'' then (WithResource gv (butlast singularName @ ''ies''), singular)
            else (WithResource gv (singularName @ ''s''), singular)))"

section \<open>What every scheme keeps\<close>

text \<open>
  The two maps between types and kinds are inverse to each other, only structs are registered,
  and a type that is unversioned is registered under its own name.
\<close>

definition scheme_ok :: "scheme \<Rightarrow> bool" where
  "scheme_ok s \<longleftrightarrow>
     (\<forall>k t. gvkToType s k = Some t \<longleftrightarrow> (\<exists>ks. typeToGVK s t = Some ks \<and> k \<in> set ks)) \<and>
     (\<forall>t ks. typeToGVK s t = Some ks \<longrightarrow> ks \<noteq> [] \<and> distinct ks) \<and>
     (\<forall>t k. unversionedTypes s t = Some k \<longrightarrow> gvkKind k = type_Name t \<and> gvkToType s k = Some t) \<and>
     (\<forall>n t. unversionedKinds s n = Some t \<longrightarrow> type_Name t = n \<and> unversionedTypes s t \<noteq> None)"

lemma scheme_okD:
  assumes "scheme_ok s"
  shows "gvkToType s k = Some t \<longleftrightarrow> (\<exists>ks. typeToGVK s t = Some ks \<and> k \<in> set ks)"
    and "typeToGVK s t = Some ks \<Longrightarrow> ks \<noteq> [] \<and> distinct ks"
    and "unversionedTypes s t = Some k \<Longrightarrow> gvkKind k = type_Name t \<and> gvkToType s k = Some t"
    and "unversionedKinds s n = Some t \<Longrightarrow> type_Name t = n \<and> unversionedTypes s t \<noteq> None"
  using assms unfolding scheme_ok_def by blast+

lemma NewScheme_ok: "scheme_ok NewScheme"
  by (simp add: scheme_ok_def NewScheme_def)

lemma addObservedVersion_simps [simp]:
  "gvkToType (addObservedVersion gv s) = gvkToType s" "typeToGVK (addObservedVersion gv s) = typeToGVK s"
  "unversionedTypes (addObservedVersion gv s) = unversionedTypes s"
  "unversionedKinds (addObservedVersion gv s) = unversionedKinds s"
  by (simp_all add: addObservedVersion_def)

lemma scheme_ok_observed [simp]: "scheme_ok (addObservedVersion gv s) = scheme_ok s"
  by (simp add: scheme_ok_def)

lemma set_append_kind [simp]: "set (append_kind k ks) = insert k (case ks of None \<Rightarrow> {} | Some l \<Rightarrow> set l)"
  by (auto simp: append_kind_def split: option.split)

lemma append_kind_ok: "(\<And>l. ks = Some l \<Longrightarrow> distinct l) \<Longrightarrow> append_kind k ks \<noteq> [] \<and> distinct (append_kind k ks)"
  by (cases ks) (auto simp: append_kind_def)

lemma register_kind_ok:
  assumes "scheme_ok s" shows "scheme_ok (snd (register_kind k t s))"
proof (cases "gvkToType s k \<noteq> None \<and> gvkToType s k \<noteq> Some t")
  case False
  note ok = scheme_okD [OF assms]
  have free: "gvkToType s k = Some u \<Longrightarrow> u = t" for u using False by auto
  let ?s = "s\<lparr>gvkToType := (gvkToType s)(k \<mapsto> t), typeToGVK := (typeToGVK s)(t \<mapsto> append_kind k (typeToGVK s t))\<rparr>"
  have "gvkToType ?s k' = Some u \<longleftrightarrow> (\<exists>ks. typeToGVK ?s u = Some ks \<and> k' \<in> set ks)" for k' u
    using ok(1) [of k' u] ok(1) [of k u] free [of u] by (auto split: option.splits)
  moreover have "typeToGVK ?s u = Some ks \<Longrightarrow> ks \<noteq> [] \<and> distinct ks" for u ks
    using ok(2) [of u ks] append_kind_ok [of "typeToGVK s t" k] ok(2) [of t] by (auto split: if_splits)
  moreover have "unversionedTypes ?s u = Some k' \<Longrightarrow> gvkKind k' = type_Name u \<and> gvkToType ?s k' = Some u" for u k'
    using ok(3) [of u k'] free [of u] by auto
  moreover have "unversionedKinds ?s n = Some u \<Longrightarrow> type_Name u = n \<and> unversionedTypes ?s u \<noteq> None" for n u
    using ok(4) [of n u] by simp
  ultimately have "scheme_ok ?s" unfolding scheme_ok_def by blast
  with False show ?thesis by (auto simp: register_kind_def)
qed (use assms in \<open>simp add: register_kind_def\<close>)

text \<open>Nothing that was registered is forgotten.\<close>

definition knows_more :: "scheme \<Rightarrow> scheme \<Rightarrow> bool" where
  "knows_more s s' \<longleftrightarrow>
     (scheme_ok s \<longrightarrow> scheme_ok s') \<and> gvkToType s \<subseteq>\<^sub>m gvkToType s' \<and>
     set (observedVersions s) \<subseteq> set (observedVersions s')"

interpretation knows: step_order knows_more
  by unfold_locales (auto simp: knows_more_def intro: map_le_trans)

lemma moves_observeE: "moves knows_more (observeE gv)"
  using scheme_ok_observed [of gv]
  by (auto simp: moves_def observeE_def knows_more_def addObservedVersion_def simp del: scheme_ok_observed)

lemma moves_register_kind: "moves knows_more (register_kind k t)"
  unfolding moves_def knows_more_def
  by (auto simp: register_kind_ok) (auto simp: register_kind_def map_le_def)

lemma moves_AddKnownTypeWithName: "moves knows_more (AddKnownTypeWithName k obj)"
  unfolding AddKnownTypeWithName_def
  by (intro knows.moves_rules moves_observeE) (auto split: gotype.split intro: knows.moves_rules moves_register_kind)

lemma moves_AddKnownTypes: "moves knows_more (AddKnownTypes gv types)"
  unfolding AddKnownTypes_def
  by (intro knows.moves_rules moves_observeE)
    (auto split: gotype.split intro: knows.moves_rules moves_AddKnownTypeWithName)

text \<open>A registration that succeeded changes nothing when it is made again.\<close>

definition observed :: "scheme \<Rightarrow> group_version \<Rightarrow> bool" where
  "observed s gv \<longleftrightarrow> gvVersion gv = [] \<or> gvVersion gv = APIVersionInternal \<or> gv \<in> set (observedVersions s)"

lemma observed_after [simp]: "observed (addObservedVersion gv s) gv"
  by (simp add: observed_def addObservedVersion_def)

lemma addObservedVersion_again: "observed s gv \<Longrightarrow> addObservedVersion gv s = s"
  by (auto simp: observed_def addObservedVersion_def)

lemma knows_moreD:
  assumes "knows_more s s'"
  shows "scheme_ok s \<Longrightarrow> scheme_ok s'" and "gvkToType s k = Some t \<Longrightarrow> gvkToType s' k = Some t"
    and "observed s gv \<Longrightarrow> observed s' gv"
proof -
  have le: "gvkToType s \<subseteq>\<^sub>m gvkToType s'" using assms by (simp add: knows_more_def)
  show "gvkToType s k = Some t \<Longrightarrow> gvkToType s' k = Some t" using le by (metis domI map_le_def)
qed (use assms in \<open>auto simp: knows_more_def observed_def\<close>)

definition holds_kind :: "scheme \<Rightarrow> gvk \<Rightarrow> gotype \<Rightarrow> bool" where
  "holds_kind s k obj \<longleftrightarrow>
     gvkVersion k \<noteq> [] \<and> observed s (gvk_GroupVersion k) \<and>
     (\<exists>t. obj = TPtr t \<and> is_struct t \<and> gvkToType s k = Some t)"

lemma holds_kind_more: "holds_kind s k obj \<Longrightarrow> knows_more s s' \<Longrightarrow> holds_kind s' k obj"
  by (auto simp: holds_kind_def dest: knows_moreD)

lemma register_kind_observed [simp]: "observedVersions (snd (register_kind k t s)) = observedVersions s"
  by (simp add: register_kind_def)

lemma AddKnownTypeWithName_Ok:
  assumes "AddKnownTypeWithName k obj s = (Ok (), s')"
  shows "holds_kind s' k obj"
proof -
  let ?s = "addObservedVersion (gvk_GroupVersion k) s"
  obtain t where t: "obj = TPtr t" "is_struct t" "gvkVersion k \<noteq> []" and r: "register_kind k t ?s = (Ok (), s')"
    using assms
    by (auto simp: AddKnownTypeWithName_def bindE_def observeE_def panicE_def split: gotype.splits if_splits)
  have "observed s' (gvk_GroupVersion k)"
    using observed_after [of "gvk_GroupVersion k" s] arg_cong [OF r, of "\<lambda>x. observedVersions (snd x)"]
    by (simp add: observed_def)
  moreover have "gvkToType s' k = Some t" using r by (auto simp: register_kind_def split: if_splits)
  ultimately show ?thesis using t by (auto simp: holds_kind_def)
qed

lemma AddKnownTypeWithName_again:
  assumes "holds_kind s k obj" and ok: "scheme_ok s"
  shows "AddKnownTypeWithName k obj s = (Ok (), s)"
proof -
  obtain t where t: "obj = TPtr t" "is_struct t" "gvkVersion k \<noteq> []" "gvkToType s k = Some t"
    and obs: "observed s (gvk_GroupVersion k)"
    using assms by (auto simp: holds_kind_def)
  obtain ks where ks: "typeToGVK s t = Some ks" "k \<in> set ks" using scheme_okD(1) [OF ok] t by blast
  have "register_kind k t s = (Ok (), s)"
    using t ks by (simp add: register_kind_def append_kind_def fun_upd_idem)
  then show ?thesis
    using t obs by (simp add: AddKnownTypeWithName_def bindE_def observeE_def addObservedVersion_again)
qed

lemma forE_Ok_each:
  assumes "forE xs body s = (Ok (), s')" and "\<And>x. moves R (body x)" and "step_order R"
    and "\<And>x t t'. x \<in> set xs \<Longrightarrow> body x t = (Ok (), t') \<Longrightarrow> Q x t'"
    and "\<And>x t t'. Q x t \<Longrightarrow> R t t' \<Longrightarrow> Q x t'"
  shows "\<forall>x\<in>set xs. Q x s'"
  using assms(1,4)
proof (induction xs arbitrary: s)
  case (Cons x xs)
  obtain u t where b: "body x s = (Ok u, t)" and rest: "forE xs body t = (Ok (), s')"
    using Cons.prems(1) by (auto elim: bindE_OkE)
  have "R t s'" using movesD [OF step_order.moves_forE [OF assms(3)] rest] assms(2) by blast
  moreover have "Q x t" using b Cons.prems(2) [of x s t] by simp
  ultimately show ?case using Cons.IH [OF rest] Cons.prems(2) assms(5) by auto
qed simp

lemma forE_again: "(\<And>x. x \<in> set xs \<Longrightarrow> body x s = (Ok (), s)) \<Longrightarrow> forE xs body s = (Ok (), s)"
  by (induction xs) (simp_all add: bindE_def)

text \<open>The loop body of \<open>AddKnownTypes\<close>.\<close>

definition holds_type :: "scheme \<Rightarrow> group_version \<Rightarrow> gotype \<Rightarrow> bool" where
  "holds_type s gv obj \<longleftrightarrow> (\<exists>t. obj = TPtr t \<and> holds_kind s (WithKind gv (type_Name t)) obj)"

lemma AddKnownTypes_Ok:
  assumes "AddKnownTypes gv types s = (Ok (), s')"
  shows "observed s' gv" and "\<forall>obj\<in>set types. holds_type s' gv obj"
proof -
  let ?body = "\<lambda>obj. case obj of TPtr t \<Rightarrow> AddKnownTypeWithName (WithKind gv (type_Name t)) obj | _ \<Rightarrow> panicE must_be_pointers"
  have run: "forE types ?body (addObservedVersion gv s) = (Ok (), s')"
    using assms by (simp add: AddKnownTypes_def bindE_def observeE_def)
  have mv: "moves knows_more (?body obj)" for obj
    by (auto split: gotype.split intro: knows.moves_rules moves_AddKnownTypeWithName)
  have so: "step_order knows_more" by unfold_locales (rule knows.R_refl, rule knows.R_trans)
  show "observed s' gv"
    using movesD [OF knows.moves_forE run] mv knows_moreD(3) observed_after by blast
  show "\<forall>obj\<in>set types. holds_type s' gv obj"
  proof (rule forE_Ok_each [OF run mv so])
    show "holds_type t' gv obj" if "?body obj t = (Ok (), t')" for obj t t'
      using that by (cases obj) (auto simp: holds_type_def panicE_def dest: AddKnownTypeWithName_Ok)
    show "holds_type t gv obj \<Longrightarrow> knows_more t t' \<Longrightarrow> holds_type t' gv obj" for obj t t'
      using holds_kind_more by (auto simp: holds_type_def)
  qed
qed

lemma AddKnownTypes_again:
  assumes "observed s gv" and "\<forall>obj\<in>set types. holds_type s gv obj" and "scheme_ok s"
  shows "AddKnownTypes gv types s = (Ok (), s)"
proof -
  have "(case obj of TPtr t \<Rightarrow> AddKnownTypeWithName (WithKind gv (type_Name t)) obj | _ \<Rightarrow> panicE must_be_pointers) s = (Ok (), s)"
    if "obj \<in> set types" for obj
    using that assms(2) AddKnownTypeWithName_again [OF _ assms(3)] by (auto simp: holds_type_def)
  then show ?thesis
    using assms(1) by (simp add: AddKnownTypes_def bindE_def observeE_def addObservedVersion_again forE_again)
qed

text \<open>The unversioned types.\<close>

definition holds_unversioned :: "scheme \<Rightarrow> group_version \<Rightarrow> gotype \<Rightarrow> bool" where
  "holds_unversioned s gv obj \<longleftrightarrow>
     (\<exists>t. obj = TPtr t \<and> unversionedTypes s t = Some (WithKind gv (type_Name t)) \<and>
          unversionedKinds s (type_Name t) = Some t)"

lemma register_unversioned_Ok:
  "register_unversioned gv obj s = (Ok (), s') \<Longrightarrow> holds_unversioned s' gv obj"
  by (auto simp: register_unversioned_def holds_unversioned_def Let_def split: gotype.splits if_splits)

lemma register_unversioned_again:
  assumes "holds_unversioned s gv obj" shows "register_unversioned gv obj s = (Ok (), s)"
proof -
  obtain t where t: "obj = TPtr t" and u: "unversionedTypes s t = Some (WithKind gv (type_Name t))"
    and k: "unversionedKinds s (type_Name t) = Some t"
    using assms unfolding holds_unversioned_def by blast
  have "(unversionedTypes s)(t \<mapsto> WithKind gv (type_Name t)) = unversionedTypes s"
    and "(unversionedKinds s)(type_Name t \<mapsto> t) = unversionedKinds s"
    using u k by (simp_all add: fun_upd_idem)
  with t k show ?thesis by (simp add: register_unversioned_def)
qed

lemma register_unversioned_fixes:
  assumes "holds_unversioned s gv obj"
  shows "holds_unversioned (snd (register_unversioned gv obj' s)) gv obj"
proof (cases obj')
  case (TPtr u)
  obtain t where t: "obj = TPtr t" "unversionedTypes s t = Some (WithKind gv (type_Name t))"
    "unversionedKinds s (type_Name t) = Some t"
    using assms unfolding holds_unversioned_def by blast
  let ?s = "snd (register_unversioned gv obj' s)"
  have "unversionedTypes ?s t = Some (WithKind gv (type_Name t))"
    using t(2) TPtr by (simp add: register_unversioned_def Let_def)
  moreover have "unversionedKinds ?s (type_Name t) = Some t"
  proof (cases "unversionedKinds s (type_Name u) \<noteq> None \<and> unversionedKinds s (type_Name u) \<noteq> Some u")
    case True
    then have "unversionedKinds ?s = unversionedKinds s"
      by (simp add: TPtr register_unversioned_def Let_def)
    with t(3) show ?thesis by simp
  next
    case False
    then have "unversionedKinds ?s = (unversionedKinds s)(type_Name u \<mapsto> u)"
      unfolding TPtr register_unversioned_def by (auto simp: Let_def)
    moreover have "u = t" if "type_Name u = type_Name t"
    proof -
      have "unversionedKinds s (type_Name u) = Some t" by (simp only: that t(3))
      with False show ?thesis by (metis option.distinct(1) option.inject)
    qed
    ultimately show ?thesis using t(3) by (metis fun_upd_apply)
  qed
  ultimately show ?thesis unfolding holds_unversioned_def using t(1) by blast
qed (use assms in \<open>simp_all add: register_unversioned_def\<close>)

definition keeps_unversioned :: "group_version \<Rightarrow> scheme \<Rightarrow> scheme \<Rightarrow> bool" where
  "keeps_unversioned gv s s' \<longleftrightarrow>
     (\<forall>obj. holds_unversioned s gv obj \<longrightarrow> holds_unversioned s' gv obj) \<and>
     gvkToType s' = gvkToType s \<and> typeToGVK s' = typeToGVK s \<and> observedVersions s' = observedVersions s"

interpretation unv: step_order "keeps_unversioned gv" for gv
  by unfold_locales (auto simp: keeps_unversioned_def)

lemma moves_register_unversioned: "moves (keeps_unversioned gv) (register_unversioned gv obj)"
  unfolding moves_def keeps_unversioned_def
  using register_unversioned_fixes by (auto simp: register_unversioned_def Let_def split: gotype.split)

lemma AddUnversionedTypes_Ok:
  assumes "AddUnversionedTypes gv types s = (Ok (), s')"
  shows "observed s' gv" and "\<forall>obj\<in>set types. holds_type s' gv obj \<and> holds_unversioned s' gv obj"
proof -
  obtain s1 where add: "AddKnownTypes gv types (addObservedVersion gv s) = (Ok (), s1)"
    and run: "forE types (register_unversioned gv) s1 = (Ok (), s')"
    using assms by (auto simp: AddUnversionedTypes_def bindE_def observeE_def split: prod.splits outcome.splits)
  have kept: "keeps_unversioned gv s1 s'"
    using movesD [OF unv.moves_forE run] moves_register_unversioned by blast
  have same: "holds_type s' gv obj = holds_type s1 gv obj" "observed s' g = observed s1 g" for obj g
    using kept by (auto simp: keeps_unversioned_def holds_type_def holds_kind_def observed_def)
  have so: "step_order (keeps_unversioned gv)" by unfold_locales (rule unv.R_refl, rule unv.R_trans)
  have "\<forall>obj\<in>set types. holds_unversioned s' gv obj"
    by (rule forE_Ok_each [OF run moves_register_unversioned so])
      (auto simp: keeps_unversioned_def dest: register_unversioned_Ok)
  with AddKnownTypes_Ok [OF add] same
  show "observed s' gv" and "\<forall>obj\<in>set types. holds_type s' gv obj \<and> holds_unversioned s' gv obj" by simp_all
qed

lemma AddUnversionedTypes_again:
  assumes "observed s gv" and "\<forall>obj\<in>set types. holds_type s gv obj \<and> holds_unversioned s gv obj" and "scheme_ok s"
  shows "AddUnversionedTypes gv types s = (Ok (), s)"
  using assms AddKnownTypes_again [of s gv types]
  by (simp add: AddUnversionedTypes_def bindE_def observeE_def addObservedVersion_again forE_again register_unversioned_again)

text \<open>An unversioned type is registered before it is entered as unversioned.\<close>

lemma register_unversioned_ok:
  assumes "scheme_ok s" and "holds_type s gv obj"
  shows "scheme_ok (snd (register_unversioned gv obj s))"
proof -
  obtain t where t: "obj = TPtr t" "gvkToType s (WithKind gv (type_Name t)) = Some t"
    using assms(2) by (auto simp: holds_type_def holds_kind_def)
  note ok = scheme_okD [OF assms(1)]
  let ?s = "snd (register_unversioned gv obj s)" and ?k = "WithKind gv (type_Name t)"
  have maps: "gvkToType ?s = gvkToType s" "typeToGVK ?s = typeToGVK s"
    "unversionedTypes ?s = (unversionedTypes s)(t \<mapsto> ?k)"
    by (simp_all add: t register_unversioned_def Let_def)
  have kinds: "unversionedKinds ?s n = Some u \<Longrightarrow> unversionedKinds s n = Some u \<or> u = t \<and> n = type_Name t" for n u
    by (auto simp: t register_unversioned_def Let_def split: if_splits)
  have 1: "gvkToType ?s k = Some u \<longleftrightarrow> (\<exists>ks. typeToGVK ?s u = Some ks \<and> k \<in> set ks)" for k u
    using ok(1) by (simp add: maps)
  have 2: "typeToGVK ?s u = Some ks \<Longrightarrow> ks \<noteq> [] \<and> distinct ks" for u ks
    using ok(2) by (simp add: maps)
  have 3: "unversionedTypes ?s u = Some k \<Longrightarrow> gvkKind k = type_Name u \<and> gvkToType ?s k = Some u" for u k
    using ok(3) [of u k] t(2) by (auto simp: maps split: if_splits)
  have 4: "unversionedKinds ?s n = Some u \<Longrightarrow> type_Name u = n \<and> unversionedTypes ?s u \<noteq> None" for n u
    using kinds [of n u] ok(4) [of n u] by (auto simp: maps)
  show ?thesis using 1 2 3 4 unfolding scheme_ok_def by blast
qed

lemma forE_register_unversioned_ok:
  assumes "scheme_ok s" and "\<forall>obj\<in>set types. holds_type s gv obj"
  shows "scheme_ok (snd (forE types (register_unversioned gv) s))"
  using assms
proof (induction types arbitrary: s)
  case (Cons obj types)
  obtain r s1 where r: "register_unversioned gv obj s = (r, s1)" by (cases "register_unversioned gv obj s")
  have "scheme_ok s1" using register_unversioned_ok [of s gv obj] Cons.prems r by simp
  moreover have "holds_type s1 gv o' = holds_type s gv o'" for o'
    using movesD [OF moves_register_unversioned r]
    by (simp add: keeps_unversioned_def holds_type_def holds_kind_def observed_def)
  ultimately show ?case using Cons.IH [of s1] Cons.prems r by (cases r) (simp_all add: bindE_def)
qed simp

lemma moves_forE_register_unversioned: "moves (keeps_unversioned gv) (forE types (register_unversioned gv))"
  by (rule unv.moves_forE) (rule moves_register_unversioned)

lemma moves_AddUnversionedTypes: "moves knows_more (AddUnversionedTypes gv types)"
proof (rule movesI)
  fix s r s' assume run: "AddUnversionedTypes gv types s = (r, s')"
  obtain r1 s1 where add: "AddKnownTypes gv types (addObservedVersion gv s) = (r1, s1)"
    by (cases "AddKnownTypes gv types (addObservedVersion gv s)")
  have k1: "knows_more s s1"
    using knows.R_trans [OF movesD [OF moves_observeE [of gv], of s] movesD [OF moves_AddKnownTypes add]]
    by (simp add: observeE_def)
  show "knows_more s s'"
  proof (cases r1)
    case (Ok u)
    then have rest: "forE types (register_unversioned gv) s1 = (r, s')"
      using run add by (simp add: AddUnversionedTypes_def bindE_def observeE_def)
    have "keeps_unversioned gv s1 s'" by (rule movesD [OF moves_forE_register_unversioned rest])
    moreover have "scheme_ok s1 \<Longrightarrow> scheme_ok s'"
      using forE_register_unversioned_ok [of s1 types gv] AddKnownTypes_Ok(2) [of gv types "addObservedVersion gv s" s1]
        add Ok rest by simp
    ultimately have "knows_more s1 s'" by (simp add: knows_more_def keeps_unversioned_def)
    with k1 show ?thesis by (rule knows.R_trans)
  qed (use run add k1 in \<open>simp_all add: AddUnversionedTypes_def bindE_def observeE_def\<close>)
qed

lemma moves_AddToGroupVersion: "moves knows_more (AddToGroupVersion gv)"
  unfolding AddToGroupVersion_def
  by (intro knows.moves_rules moves_AddKnownTypeWithName moves_AddKnownTypes moves_AddUnversionedTypes)

lemma moves_addKnownTypes: "moves knows_more addKnownTypes"
  unfolding addKnownTypes_def
  by (intro knows.moves_rules moves_AddKnownTypes moves_AddToGroupVersion)

lemma egress_AddToScheme_run: "egress_AddToScheme s = addKnownTypes s"
  by (simp add: egress_AddToScheme_def sb_AddToScheme_def egress_SchemeBuilder_def NewSchemeBuilder_def sb_Register_def
        bindE_def split: prod.split outcome.split)

lemma clientset_AddToScheme_run: "clientset_AddToScheme = addKnownTypes"
  by (rule ext) (simp add: clientset_AddToScheme_def sb_AddToScheme_def localSchemeBuilder_def egress_AddToScheme_run
        bindE_def split: prod.split outcome.split)

lemma fake_AddToScheme_run: "fake_AddToScheme = addKnownTypes"
  by (simp add: fake_AddToScheme_def fake_localSchemeBuilder_def flip: clientset_AddToScheme_run
        [unfolded clientset_AddToScheme_def localSchemeBuilder_def])

text \<open>The registrations a program can make, and the schemes they lead to, also by panicking in the middle.\<close>

datatype registration =
    RegName gvk gotype
  | RegTypes group_version "gotype list"
  | RegUnversioned group_version "gotype list"
  | RegGroup group_version
  | RegEgress

primrec register :: "registration \<Rightarrow> (scheme, unit) prog" where
  "register (RegName k obj) = AddKnownTypeWithName k obj"
| "register (RegTypes gv types) = AddKnownTypes gv types"
| "register (RegUnversioned gv types) = AddUnversionedTypes gv types"
| "register (RegGroup gv) = AddToGroupVersion gv"
| "register RegEgress = clientset_AddToScheme"

inductive registered :: "scheme \<Rightarrow> bool" where
  fresh: "registered NewScheme"
| more: "registered s \<Longrightarrow> registered (snd (register r s))"

lemma moves_register: "moves knows_more (register r)"
  by (cases r) (simp_all add: moves_AddKnownTypeWithName moves_AddKnownTypes moves_AddUnversionedTypes
      moves_AddToGroupVersion clientset_AddToScheme_run moves_addKnownTypes)

lemma registered_ok: "registered s \<Longrightarrow> scheme_ok s"
proof (induction rule: registered.induct)
  case (more s r)
  then show ?case using moves_register [of r] by (simp add: moves_def knows_more_def)
qed (rule NewScheme_ok)

lemma group_v1_registers: "fst (AddToGroupVersion \<lparr>gvGroup = [], gvVersion = ''v1''\<rparr> NewScheme) = Ok ()"
  by code_simp

lemma clientset_AddToScheme_registers:
  "fst (clientset_AddToScheme (snd (AddToGroupVersion \<lparr>gvGroup = [], gvVersion = ''v1''\<rparr> NewScheme))) = Ok ()"
  by code_simp

lemma clientset_scheme_registered:
  "registered clientset_scheme" and clientset_init_run: "clientset_init NewScheme = (Ok (), clientset_scheme)"
  and clientset_AddToScheme_ran: "\<exists>s. registered s \<and> clientset_AddToScheme s = (Ok (), clientset_scheme)"
proof -
  let ?s = "snd (register (RegGroup \<lparr>gvGroup = [], gvVersion = ''v1''\<rparr>) NewScheme)"
  have "registered ?s" by (rule registered.more [OF registered.fresh])
  then have two: "registered (snd (register RegEgress ?s))" by (rule registered.more)
  note r = group_v1_registers clientset_AddToScheme_registers
  obtain s1 where one: "AddToGroupVersion \<lparr>gvGroup = [], gvVersion = ''v1''\<rparr> NewScheme = (Ok (), s1)"
    using r(1) by (metis prod.collapse)
  with r(2) obtain s2 where "clientset_AddToScheme s1 = (Ok (), s2)" by (metis prod.collapse snd_conv)
  with one have "clientset_init NewScheme = (Ok (), snd (clientset_AddToScheme ?s))"
    by (simp add: clientset_init_def bindE_def mustE_def catchE_def)
  with two show "registered clientset_scheme" and "clientset_init NewScheme = (Ok (), clientset_scheme)"
    by (simp_all add: clientset_scheme_def)
  have "registered s1" using registered.more [OF registered.fresh, of "RegGroup \<lparr>gvGroup = [], gvVersion = ''v1''\<rparr>"] one
    by simp
  moreover have "clientset_AddToScheme s1 = (Ok (), clientset_scheme)"
    using one \<open>clientset_AddToScheme s1 = (Ok (), s2)\<close> \<open>clientset_init NewScheme = (Ok (), snd (clientset_AddToScheme ?s))\<close>
    by (simp add: clientset_scheme_def)
  ultimately show "\<exists>s. registered s \<and> clientset_AddToScheme s = (Ok (), clientset_scheme)" by blast
qed

text \<open>The registration of the group, run a second time.\<close>

lemma AddToGroupVersion_Ok:
  assumes "AddToGroupVersion gv s = (Ok (), s')" and "scheme_ok s"
  shows "AddToGroupVersion gv s' = (Ok (), s')"
proof -
  let ?int = "WithKind \<lparr>gvGroup = gvGroup gv, gvVersion = APIVersionInternal\<rparr> ''WatchEvent''"
  obtain u1 s1 where r1: "AddKnownTypeWithName (WithKind gv ''WatchEvent'') (meta_type ''WatchEvent'') s = (Ok u1, s1)"
    and b1: "bindE (AddKnownTypeWithName ?int (meta_type ''InternalEvent'')) (\<lambda>_. bindE (AddKnownTypes gv option_types)
               (\<lambda>_. AddUnversionedTypes Unversioned unversioned_types)) s1 = (Ok (), s')"
    using assms(1) unfolding AddToGroupVersion_def by (auto elim: bindE_OkE)
  obtain u2 s2 where r2: "AddKnownTypeWithName ?int (meta_type ''InternalEvent'') s1 = (Ok u2, s2)"
    and b2: "bindE (AddKnownTypes gv option_types) (\<lambda>_. AddUnversionedTypes Unversioned unversioned_types) s2 = (Ok (), s')"
    using b1 by (auto elim: bindE_OkE)
  obtain u3 s3 where r3: "AddKnownTypes gv option_types s2 = (Ok u3, s3)"
    and r4: "AddUnversionedTypes Unversioned unversioned_types s3 = (Ok (), s')"
    using b2 by (auto elim: bindE_OkE)
  have m4: "knows_more s3 s'" using movesD [OF moves_AddUnversionedTypes r4] .
  have m3: "knows_more s2 s'" using knows.R_trans [OF movesD [OF moves_AddKnownTypes r3] m4] .
  have m2: "knows_more s1 s'" using knows.R_trans [OF movesD [OF moves_AddKnownTypeWithName r2] m3] .
  have m1: "knows_more s s'" using knows.R_trans [OF movesD [OF moves_AddKnownTypeWithName r1] m2] .
  have ok: "scheme_ok s'" using knows_moreD(1) [OF m1] assms(2) .
  have h1: "holds_kind s' (WithKind gv ''WatchEvent'') (meta_type ''WatchEvent'')"
    using AddKnownTypeWithName_Ok [of "WithKind gv ''WatchEvent''" "meta_type ''WatchEvent''" s s1] r1 holds_kind_more m2
    by simp
  have h2: "holds_kind s' ?int (meta_type ''InternalEvent'')"
    using AddKnownTypeWithName_Ok [of ?int "meta_type ''InternalEvent''" s1 s2] r2 holds_kind_more m3 by simp
  have h3: "observed s' gv" "\<forall>obj\<in>set option_types. holds_type s' gv obj"
    using AddKnownTypes_Ok [of gv option_types s2 s3] r3 knows_moreD(3) [OF m4] holds_kind_more [OF _ m4]
    by (auto simp: holds_type_def)
  note h4 = AddUnversionedTypes_Ok [OF r4]
  show ?thesis
    by (simp add: AddToGroupVersion_def bindE_def AddKnownTypeWithName_again [OF h1 ok] AddKnownTypeWithName_again [OF h2 ok]
        AddKnownTypes_again [OF h3 ok] AddUnversionedTypes_again [OF h4 ok])
qed

lemma addKnownTypes_again:
  assumes "addKnownTypes s = (Ok (), s')" and "scheme_ok s"
  shows "addKnownTypes s' = (Ok (), s')"
    and "holds_type s' SchemeGroupVersion (egress_type ''StaticEgressIP'')"
    and "holds_type s' SchemeGroupVersion (egress_type ''StaticEgressIPList'')"
proof -
  let ?types = "[egress_type ''StaticEgressIP'', egress_type ''StaticEgressIPList'']"
  obtain s1 where r1: "AddKnownTypes SchemeGroupVersion ?types s = (Ok (), s1)"
    and r2: "AddToGroupVersion SchemeGroupVersion s1 = (Ok (), s')"
    using assms(1) unfolding addKnownTypes_def by (auto elim!: bindE_OkE)
  have m2: "knows_more s1 s'" using movesD [OF moves_AddToGroupVersion r2] .
  have ok1: "scheme_ok s1" using knows_moreD(1) [OF movesD [OF moves_AddKnownTypes r1] assms(2)] .
  have h: "observed s' SchemeGroupVersion" "\<forall>obj\<in>set ?types. holds_type s' SchemeGroupVersion obj"
    using AddKnownTypes_Ok [OF r1] knows_moreD(3) [OF m2] holds_kind_more [OF _ m2] by (auto simp: holds_type_def)
  then show "holds_type s' SchemeGroupVersion (egress_type ''StaticEgressIP'')"
    "holds_type s' SchemeGroupVersion (egress_type ''StaticEgressIPList'')" by simp_all
  show "addKnownTypes s' = (Ok (), s')"
    using AddKnownTypes_again [OF h knows_moreD(1) [OF m2 ok1]] AddToGroupVersion_Ok [OF r2 ok1]
    by (simp add: addKnownTypes_def bindE_def)
qed

text \<open>The clientset's scheme and that of the fake clientset.\<close>

lemma fake_scheme_same: "fake_scheme = clientset_scheme"
  by (simp add: fake_scheme_def fake_init_def clientset_scheme_def clientset_init_def fake_AddToScheme_run
      clientset_AddToScheme_run)

lemma AddToScheme_again:
  assumes "registered s" and "clientset_AddToScheme s = (Ok (), s')"
  shows "clientset_AddToScheme s' = (Ok (), s')"
    and "scheme_New s' (WithKind SchemeGroupVersion ''StaticEgressIP'') = Inr (egress_type ''StaticEgressIP'')"
    and "scheme_New s' (WithKind SchemeGroupVersion ''StaticEgressIPList'') = Inr (egress_type ''StaticEgressIPList'')"
  using addKnownTypes_again [of s s'] assms registered_ok [OF assms(1)]
  by (auto simp: clientset_AddToScheme_run holds_type_def holds_kind_def scheme_New_def egress_type_def)

lemma clientset_scheme_complete:
  "clientset_AddToScheme clientset_scheme = (Ok (), clientset_scheme)"
  "scheme_New clientset_scheme (WithKind SchemeGroupVersion ''StaticEgressIP'') = Inr (egress_type ''StaticEgressIP'')"
  "scheme_New clientset_scheme (WithKind SchemeGroupVersion ''StaticEgressIPList'') = Inr (egress_type ''StaticEgressIPList'')"
  using clientset_AddToScheme_ran AddToScheme_again by blast+

lemma ObjectKinds_egress:
  "ObjectKinds clientset_scheme (egress_type ''StaticEgressIP'') = Inr ([WithKind SchemeGroupVersion ''StaticEgressIP''], False)"
  by code_simp

lemma guess_egress:
  "fst (UnsafeGuessKindToResource (WithKind SchemeGroupVersion ''StaticEgressIP'')) = WithResource SchemeGroupVersion ''staticegressips''"
  by code_simp

text \<open>
  C20 (registered_types_sound). In every scheme that registrations can lead to: what is
  created for a registered kind is sent under that kind again; a kind that is not registered
  creates something only when its name is that of an unversioned type, and then the object is
  marked as unversioned and sent under a registered kind of the same name in another group or
  version, never under the kind that was asked for (so \<open>Status\<close> in the group of the resource
  gives the \<open>Status\<close> of \<open>v1\<close>); and each kind under which a type is sent creates that type.
\<close>

theorem registered_types_sound:
  assumes "registered s"
  shows "(scheme_New s k = Inr obj \<longrightarrow>
            (\<exists>ks u. ObjectKinds s obj = Inr (ks, u) \<and>
               (if gvkToType s k \<noteq> None then k \<in> set ks
                else u \<and> k \<notin> set ks \<and> (\<exists>k' \<in> set ks. gvkKind k' = gvkKind k))))
       \<and> (ObjectKinds s obj = Inr (ks, u) \<longrightarrow> ks \<noteq> [] \<and> distinct ks \<and> (\<forall>k\<in>set ks. scheme_New s k = Inr obj))"
proof (intro conjI impI)
  note ok = scheme_okD [OF registered_ok [OF assms]]
  assume new: "scheme_New s k = Inr obj"
  show "\<exists>ks u. ObjectKinds s obj = Inr (ks, u) \<and>
      (if gvkToType s k \<noteq> None then k \<in> set ks else u \<and> k \<notin> set ks \<and> (\<exists>k' \<in> set ks. gvkKind k' = gvkKind k))"
  proof (cases "gvkToType s k")
    case None
    with new obtain t where t: "obj = TPtr t" "unversionedKinds s (gvkKind k) = Some t"
      by (auto simp: scheme_New_def split: option.splits)
    then obtain k' where u: "unversionedTypes s t = Some k'" and n: "type_Name t = gvkKind k" using ok(4) by blast
    have "gvkToType s k' = Some t" and same: "gvkKind k' = gvkKind k" using ok(3) [OF u] n by simp_all
    then obtain ks where ks: "typeToGVK s t = Some ks" "k' \<in> set ks" using ok(1) by blast
    have "ObjectKinds s obj = Inr (ks, True)" using t(1) u ks(1) by (simp add: ObjectKinds_def)
    moreover have "k \<notin> set ks" using ok(1) ks(1) None by force
    ultimately show ?thesis using None ks(2) same by auto
  next
    case (Some t)
    then obtain ks where "typeToGVK s t = Some ks" "k \<in> set ks" using ok(1) by blast
    with new Some show ?thesis by (auto simp: scheme_New_def ObjectKinds_def)
  qed
next
  note ok = scheme_okD [OF registered_ok [OF assms]]
  assume "ObjectKinds s obj = Inr (ks, u)"
  then obtain t where t: "obj = TPtr t" "typeToGVK s t = Some ks"
    by (auto simp: ObjectKinds_def split: gotype.splits option.splits)
  have "gvkToType s k = Some t" if "k \<in> set ks" for k using t(2) that ok(1) by blast
  then show "\<forall>k\<in>set ks. scheme_New s k = Inr obj" by (simp add: scheme_New_def t(1))
  show "ks \<noteq> []" and "distinct ks" using t(2) ok(2) by blast+
qed

lemma registered_types_sound_witness:
  "scheme_New clientset_scheme (WithKind SchemeGroupVersion ''StaticEgressIP'') = Inr (egress_type ''StaticEgressIP'') \<and>
   (\<exists>ks u. ObjectKinds clientset_scheme (egress_type ''StaticEgressIP'') = Inr (ks, u) \<and>
      WithKind SchemeGroupVersion ''StaticEgressIP'' \<in> set ks)"
proof
  show new: "scheme_New clientset_scheme (WithKind SchemeGroupVersion ''StaticEgressIP'') = Inr (egress_type ''StaticEgressIP'')"
    using clientset_scheme_complete(2) by simp
  have "\<exists>ks u. ObjectKinds clientset_scheme (egress_type ''StaticEgressIP'') = Inr (ks, u) \<and>
      (if gvkToType clientset_scheme (WithKind SchemeGroupVersion ''StaticEgressIP'') \<noteq> None
       then WithKind SchemeGroupVersion ''StaticEgressIP'' \<in> set ks
       else u \<and> WithKind SchemeGroupVersion ''StaticEgressIP'' \<notin> set ks \<and>
            (\<exists>k' \<in> set ks. gvkKind k' = gvkKind (WithKind SchemeGroupVersion ''StaticEgressIP'')))"
    by (rule mp [OF conjunct1 [OF registered_types_sound [OF clientset_scheme_registered]] new])
  then show "\<exists>ks u. ObjectKinds clientset_scheme (egress_type ''StaticEgressIP'') = Inr (ks, u) \<and>
      WithKind SchemeGroupVersion ''StaticEgressIP'' \<in> set ks"
    unfolding ObjectKinds_egress by (auto split: if_splits)
qed

end
