(* ===== verification/Informers.thy ===== *)
theory Informers
  imports Scheme
begin

text \<open>
  \<open>pkg/client/informers/externalversions\<close>: the factory through which both programs get the
  informer that fills their cache, and \<open>pkg/client/listers\<close> over it. An informer is an object
  with an address, since it matters which of them run and which one a lister reads; a
  \<open>reflect.Type\<close> is its name.
\<close>

section \<open>Informers\<close>

text \<open>The typed client as the informer uses it: namespace, options, answer.\<close>

record ('o, 'r) egress_client =
  clList :: "string \<Rightarrow> 'o \<Rightarrow> 'r"
  clWatch :: "string \<Rightarrow> 'o \<Rightarrow> 'r"

text \<open>What \<open>cache.NewSharedIndexInformer\<close> is given; the closures hold client, namespace and options.\<close>

record ('o, 'r) informer =
  ifClient :: "('o, 'r) egress_client"
  ifNamespace :: string
  ifTweak :: "('o \<Rightarrow> 'o) option"
  ifResync :: int
  ifIndexers :: "string list"

definition NewFilteredStaticEgressIPInformer ::
  "('o, 'r) egress_client \<Rightarrow> string \<Rightarrow> int \<Rightarrow> string list \<Rightarrow> ('o \<Rightarrow> 'o) option \<Rightarrow> ('o, 'r) informer" where
  "NewFilteredStaticEgressIPInformer client namespace resync indexers tweak =
     \<lparr>ifClient = client, ifNamespace = namespace, ifTweak = tweak, ifResync = resync, ifIndexers = indexers\<rparr>"

definition NewStaticEgressIPInformer ::
  "('o, 'r) egress_client \<Rightarrow> string \<Rightarrow> int \<Rightarrow> string list \<Rightarrow> ('o, 'r) informer" where
  "NewStaticEgressIPInformer client namespace resync indexers =
     NewFilteredStaticEgressIPInformer client namespace resync indexers None"

definition informer_ListFunc :: "('o, 'r) informer \<Rightarrow> 'o \<Rightarrow> 'r" where
  "informer_ListFunc i options =
     clList (ifClient i) (ifNamespace i) (case ifTweak i of None \<Rightarrow> options | Some tweak \<Rightarrow> tweak options)"

definition informer_WatchFunc :: "('o, 'r) informer \<Rightarrow> 'o \<Rightarrow> 'r" where
  "informer_WatchFunc i options =
     clWatch (ifClient i) (ifNamespace i) (case ifTweak i of None \<Rightarrow> options | Some tweak \<Rightarrow> tweak options)"

section \<open>The factory\<close>

record ('o, 'r) factory =
  fyClient :: "('o, 'r) egress_client"
  fyNamespace :: string
  fyTweak :: "('o \<Rightarrow> 'o) option"
  fyDefaultResync :: int
  fyCustomResync :: "string \<Rightarrow> int option"
  fyInformers :: "string \<Rightarrow> nat option"
  fyStarted :: "string \<Rightarrow> bool"

text \<open>Options; the map of \<open>WithCustomResyncConfig\<close> comes as its entries in some order.\<close>

definition WithCustomResyncConfig :: "(string \<times> int) list \<Rightarrow> ('o, 'r) factory \<Rightarrow> ('o, 'r) factory" where
  "WithCustomResyncConfig config fy = fold (\<lambda>(k, v) f. f\<lparr>fyCustomResync := (fyCustomResync f)(k \<mapsto> v)\<rparr>) config fy"

definition WithTweakListOptions :: "('o \<Rightarrow> 'o) option \<Rightarrow> ('o, 'r) factory \<Rightarrow> ('o, 'r) factory" where
  "WithTweakListOptions tweak fy = fy\<lparr>fyTweak := tweak\<rparr>"

definition WithNamespace :: "string \<Rightarrow> ('o, 'r) factory \<Rightarrow> ('o, 'r) factory" where
  "WithNamespace namespace fy = fy\<lparr>fyNamespace := namespace\<rparr>"

definition NewSharedInformerFactoryWithOptions ::
  "('o, 'r) egress_client \<Rightarrow> int \<Rightarrow> (('o, 'r) factory \<Rightarrow> ('o, 'r) factory) list \<Rightarrow> ('o, 'r) factory" where
  "NewSharedInformerFactoryWithOptions client resync options =
     fold (\<lambda>opt f. opt f) options
       \<lparr>fyClient = client, fyNamespace = [], fyTweak = None, fyDefaultResync = resync, fyCustomResync = (\<lambda>_. None),
        fyInformers = (\<lambda>_. None), fyStarted = (\<lambda>_. False)\<rparr>"

definition NewSharedInformerFactory :: "('o, 'r) egress_client \<Rightarrow> int \<Rightarrow> ('o, 'r) factory" where
  "NewSharedInformerFactory client resync = NewSharedInformerFactoryWithOptions client resync []"

definition NewFilteredSharedInformerFactory ::
  "('o, 'r) egress_client \<Rightarrow> int \<Rightarrow> string \<Rightarrow> ('o \<Rightarrow> 'o) option \<Rightarrow> ('o, 'r) factory" where
  "NewFilteredSharedInformerFactory client resync namespace tweak =
     NewSharedInformerFactoryWithOptions client resync [WithNamespace namespace, WithTweakListOptions tweak]"

text \<open>The factory in its process: the informers that were made, and the goroutines that run one.\<close>

record ('o, 'r) informer_proc =
  ipFactory :: "('o, 'r) factory"
  ipObjects :: "('o, 'r) informer list"
  ipRuns :: "nat list"

text \<open>\<open>Start\<close>; \<open>order\<close> is the order in which the range loop visits the map.\<close>

definition start_one :: "string \<Rightarrow> ('o, 'r) informer_proc \<Rightarrow> ('o, 'r) informer_proc" where
  "start_one ty ip =
     (case fyInformers (ipFactory ip) ty of
        None \<Rightarrow> ip
      | Some a \<Rightarrow>
          if \<not> fyStarted (ipFactory ip) ty
          then ip\<lparr>ipRuns := ipRuns ip @ [a], ipFactory := (ipFactory ip)\<lparr>fyStarted := (fyStarted (ipFactory ip))(ty := True)\<rparr>\<rparr>
          else ip)"

definition factory_Start :: "string list \<Rightarrow> ('o, 'r) informer_proc \<Rightarrow> ('o, 'r) informer_proc" where
  "factory_Start order ip = fold start_one order ip"

text \<open>\<open>WaitForCacheSync\<close>: \<open>synced\<close> is what \<open>cache.WaitForCacheSync\<close> answers of an informer.\<close>

definition factory_WaitForCacheSync :: "(nat \<Rightarrow> bool) \<Rightarrow> ('o, 'r) informer_proc \<Rightarrow> string \<Rightarrow> bool option" where
  "factory_WaitForCacheSync synced ip ty =
     (case fyInformers (ipFactory ip) ty of
        None \<Rightarrow> None
      | Some a \<Rightarrow> if fyStarted (ipFactory ip) ty then Some (synced a) else None)"

definition factory_InformerFor ::
  "string \<Rightarrow> (('o, 'r) egress_client \<Rightarrow> int \<Rightarrow> ('o, 'r) informer) \<Rightarrow> ('o, 'r) informer_proc \<Rightarrow> nat \<times> ('o, 'r) informer_proc" where
  "factory_InformerFor ty newFunc ip =
     (let fy = ipFactory ip in
      case fyInformers fy ty of
        Some a \<Rightarrow> (a, ip)
      | None \<Rightarrow>
          (let resync = (case fyCustomResync fy ty of None \<Rightarrow> fyDefaultResync fy | Some d \<Rightarrow> d);
               a = length (ipObjects ip) in
           (a, ip\<lparr>ipObjects := ipObjects ip @ [newFunc (fyClient fy) resync],
                 ipFactory := fy\<lparr>fyInformers := (fyInformers fy)(ty \<mapsto> a)\<rparr>\<rparr>)))"

text \<open>
  \<open>Staticegressips().V1alpha1().StaticEgressIPs()\<close>: the accessor keeps namespace and options
  of the factory at the time of the call.
\<close>

record 'o egress_accessor =
  acNamespace :: string
  acTweak :: "('o \<Rightarrow> 'o) option"

definition factory_Staticegressips :: "('o, 'r) factory \<Rightarrow> 'o egress_accessor" where
  "factory_Staticegressips fy = \<lparr>acNamespace = fyNamespace fy, acTweak = fyTweak fy\<rparr>"

definition group_V1alpha1 :: "'o egress_accessor \<Rightarrow> 'o egress_accessor" where
  "group_V1alpha1 g = \<lparr>acNamespace = acNamespace g, acTweak = acTweak g\<rparr>"

definition version_StaticEgressIPs :: "'o egress_accessor \<Rightarrow> 'o egress_accessor" where
  "version_StaticEgressIPs g = \<lparr>acNamespace = acNamespace g, acTweak = acTweak g\<rparr>"

definition egressIPs_of :: "('o, 'r) informer_proc \<Rightarrow> 'o egress_accessor" where
  "egressIPs_of ip = version_StaticEgressIPs (group_V1alpha1 (factory_Staticegressips (ipFactory ip)))"

definition NamespaceIndex :: string where
  "NamespaceIndex = ''namespace''"

definition StaticEgressIP_type :: string where
  "StaticEgressIP_type = ''*v1alpha1.StaticEgressIP''"

definition defaultInformer :: "'o egress_accessor \<Rightarrow> ('o, 'r) egress_client \<Rightarrow> int \<Rightarrow> ('o, 'r) informer" where
  "defaultInformer ac client resync = NewFilteredStaticEgressIPInformer client (acNamespace ac) resync [NamespaceIndex] (acTweak ac)"

definition accessor_Informer :: "'o egress_accessor \<Rightarrow> ('o, 'r) informer_proc \<Rightarrow> nat \<times> ('o, 'r) informer_proc" where
  "accessor_Informer ac ip = factory_InformerFor StaticEgressIP_type (defaultInformer ac) ip"

text \<open>A lister reads the indexer of an informer, so it is given by the address of the informer.\<close>

definition accessor_Lister :: "'o egress_accessor \<Rightarrow> ('o, 'r) informer_proc \<Rightarrow> nat \<times> ('o, 'r) informer_proc" where
  "accessor_Lister ac ip = accessor_Informer ac ip"

definition factory_ForResource ::
  "gvr \<Rightarrow> ('o, 'r) informer_proc \<Rightarrow> (goerror + nat \<times> string \<times> string) \<times> ('o, 'r) informer_proc" where
  "factory_ForResource resource ip =
     (if resource = WithResource SchemeGroupVersion ''staticegressips''
      then (case accessor_Informer (egressIPs_of ip) ip of (a, ip') \<Rightarrow> (Inr (a, GroupResource resource), ip'))
      else (Inl (ErrText ''no informer found''), ip))"

section \<open>Listers\<close>

text \<open>
  \<open>cache.ListAll\<close> and \<open>ListAllByNamespace\<close> over the objects of the indexer; a selector that is
  empty takes everything without reading labels. The index by namespace answers the objects
  of the namespace; reading it cannot fail, since \<open>defaultInformer\<close> makes it.
\<close>

record 'l selector =
  selEmpty :: bool
  selMatches :: "'l \<Rightarrow> bool"

definition ListAll :: "'l selector \<Rightarrow> (static_egress_ip \<Rightarrow> 'l) \<Rightarrow> static_egress_ip list \<Rightarrow> static_egress_ip list" where
  "ListAll sel labels items = filter (\<lambda>m. selEmpty sel \<or> selMatches sel (labels m)) items"

definition egressLister_List :: "'l selector \<Rightarrow> (static_egress_ip \<Rightarrow> 'l) \<Rightarrow> static_egress_ip list \<Rightarrow> static_egress_ip list" where
  "egressLister_List sel labels items = ListAll sel labels items"

definition namespaceLister_List ::
  "string \<Rightarrow> 'l selector \<Rightarrow> (static_egress_ip \<Rightarrow> 'l) \<Rightarrow> static_egress_ip list \<Rightarrow> static_egress_ip list" where
  "namespaceLister_List namespace sel labels items =
     (if namespace = [] then ListAll sel labels items
      else ListAll sel labels (filter (\<lambda>m. sNamespace m = namespace) items))"

section \<open>Runs of the factory\<close>

definition iteration :: "('o, 'r) informer_proc \<Rightarrow> string list \<Rightarrow> bool" where
  "iteration ip order \<longleftrightarrow> distinct order \<and> set order = dom (fyInformers (ipFactory ip))"

inductive factory_step :: "('o, 'r) informer_proc \<Rightarrow> ('o, 'r) informer_proc \<Rightarrow> bool" where
  start: "iteration ip order \<Longrightarrow> factory_step ip (factory_Start order ip)"
| informer_for: "factory_InformerFor ty newFunc ip = (a, ip') \<Longrightarrow> factory_step ip ip'"
| for_resource: "factory_ForResource resource ip = (r, ip') \<Longrightarrow> factory_step ip ip'"

definition new_informer_proc :: "('o, 'r) factory \<Rightarrow> ('o, 'r) informer_proc" where
  "new_informer_proc fy = \<lparr>ipFactory = fy, ipObjects = [], ipRuns = []\<rparr>"

text \<open>The invariant: types have informers of their own, and those run that were started.\<close>

definition factory_ok :: "('o, 'r) informer_proc \<Rightarrow> bool" where
  "factory_ok ip \<longleftrightarrow>
     distinct (ipRuns ip) \<and> set (ipRuns ip) \<subseteq> ran (fyInformers (ipFactory ip)) \<and>
     (\<forall>ty a. fyInformers (ipFactory ip) ty = Some a \<longrightarrow>
        a < length (ipObjects ip) \<and> (fyStarted (ipFactory ip) ty \<longleftrightarrow> a \<in> set (ipRuns ip)) \<and>
        (\<forall>ty'. fyInformers (ipFactory ip) ty' = Some a \<longrightarrow> ty' = ty)) \<and>
     (\<forall>ty. fyInformers (ipFactory ip) ty = None \<longrightarrow> \<not> fyStarted (ipFactory ip) ty)"

lemma start_one_ok: "factory_ok ip \<Longrightarrow> factory_ok (start_one ty ip)"
  unfolding start_one_def by (auto simp: factory_ok_def ran_def split: option.splits)

lemma start_one_same [simp]: "fyInformers (ipFactory (start_one ty ip)) = fyInformers (ipFactory ip)"
  by (simp add: start_one_def split: option.split)

lemma Start_ok: "factory_ok ip \<Longrightarrow> factory_ok (factory_Start order ip)"
  unfolding factory_Start_def by (induction order arbitrary: ip) (simp_all add: start_one_ok)

lemma Start_same [simp]: "fyInformers (ipFactory (factory_Start order ip)) = fyInformers (ipFactory ip)"
  unfolding factory_Start_def by (induction order arbitrary: ip) simp_all

lemma Start_started:
  "fyStarted (ipFactory (factory_Start order ip)) ty \<longleftrightarrow>
     fyStarted (ipFactory ip) ty \<or> ty \<in> set order \<and> fyInformers (ipFactory ip) ty \<noteq> None"
  unfolding factory_Start_def
  by (induction order arbitrary: ip) (auto simp: start_one_def split: option.splits if_splits)

text \<open>A second \<open>Start\<close> starts nothing.\<close>

lemma Start_idle:
  assumes "\<And>ty. ty \<in> set order \<Longrightarrow> fyInformers (ipFactory ip) ty \<noteq> None \<Longrightarrow> fyStarted (ipFactory ip) ty"
  shows "factory_Start order ip = ip"
proof -
  have "start_one ty ip = ip" if "ty \<in> set order" for ty
    using assms [OF that] by (simp add: start_one_def split: option.split)
  then show ?thesis unfolding factory_Start_def by (induction order) simp_all
qed

lemma InformerFor_ok:
  assumes "factory_ok ip" and "factory_InformerFor ty newFunc ip = (a, ip')"
  shows "factory_ok ip'" and "fyInformers (ipFactory ip') ty = Some a"
    and "fyInformers (ipFactory ip) ty' = Some b \<Longrightarrow> fyInformers (ipFactory ip') ty' = Some b"
proof -
  show "fyInformers (ipFactory ip') ty = Some a"
    using assms(2) by (auto simp: factory_InformerFor_def Let_def split: option.splits)
  show "fyInformers (ipFactory ip') ty' = Some b" if "fyInformers (ipFactory ip) ty' = Some b"
    using assms(2) that by (auto simp: factory_InformerFor_def Let_def split: option.splits)
  show "factory_ok ip'"
  proof (cases "fyInformers (ipFactory ip) ty")
    case None
    let ?n = "length (ipObjects ip)" and ?m = "fyInformers (ipFactory ip)"
    note ok = assms(1) [unfolded factory_ok_def]
    have fresh: "?m x \<noteq> Some ?n" for x using ok by blast
    have unrun: "?n \<notin> set (ipRuns ip)" "\<not> fyStarted (ipFactory ip) ty" using ok fresh None by (auto simp: ran_def)
    have new: "ipRuns ip' = ipRuns ip" "fyStarted (ipFactory ip') = fyStarted (ipFactory ip)"
        "fyInformers (ipFactory ip') = ?m(ty \<mapsto> ?n)" "length (ipObjects ip') = Suc ?n"
      using assms(2) None by (auto simp: factory_InformerFor_def Let_def)
    have "x < Suc ?n \<and> (fyStarted (ipFactory ip) k \<longleftrightarrow> x \<in> set (ipRuns ip)) \<and> (\<forall>k'. (?m(ty \<mapsto> ?n)) k' = Some x \<longrightarrow> k' = k)"
      if "(?m(ty \<mapsto> ?n)) k = Some x" for k x
    proof (cases "k = ty")
      case True
      then show ?thesis using that fresh unrun by auto
    next
      case False
      then have k: "?m k = Some x" using that by simp
      then have "x < ?n" "fyStarted (ipFactory ip) k \<longleftrightarrow> x \<in> set (ipRuns ip)" "\<forall>k'. ?m k' = Some x \<longrightarrow> k' = k" using ok by blast+
      then show ?thesis by auto
    qed
    moreover have "\<not> fyStarted (ipFactory ip) k" if "(?m(ty \<mapsto> ?n)) k = None" for k
      using that ok by (auto split: if_splits)
    moreover have "set (ipRuns ip) \<subseteq> ran (?m(ty \<mapsto> ?n))" using ok by (auto simp: ran_map_upd [of ?m ty, OF None])
    ultimately show ?thesis using ok unfolding factory_ok_def new by meson
  qed (use assms in \<open>simp add: factory_InformerFor_def Let_def\<close>)
qed

lemma ForResource_cases:
  assumes "factory_ForResource resource ip = (r, ip')"
  obtains "ip' = ip" | a where "accessor_Informer (egressIPs_of ip) ip = (a, ip')"
  using assms by (auto simp: factory_ForResource_def split: if_splits prod.splits)

lemma factory_step_ok: "factory_step ip ip' \<Longrightarrow> factory_ok ip \<Longrightarrow> factory_ok ip'"
  by (erule factory_step.cases)
    (auto simp: Start_ok InformerFor_ok elim: ForResource_cases simp: accessor_Informer_def)

lemma options_fresh:
  assumes "\<forall>opt \<in> set options. \<forall>fy. fyInformers (opt fy) = fyInformers fy \<and> fyStarted (opt fy) = fyStarted fy"
  shows "factory_ok (new_informer_proc (NewSharedInformerFactoryWithOptions client resync options))"
proof -
  have "fyInformers (fold (\<lambda>opt f. opt f) options fy) = fyInformers fy \<and>
      fyStarted (fold (\<lambda>opt f. opt f) options fy) = fyStarted fy" for fy
    using assms by (induction options arbitrary: fy) auto
  then show ?thesis
    by (simp add: factory_ok_def new_informer_proc_def NewSharedInformerFactoryWithOptions_def ran_def)
qed

definition package_option :: "(('o, 'r) factory \<Rightarrow> ('o, 'r) factory) \<Rightarrow> bool" where
  "package_option opt \<longleftrightarrow>
     (\<exists>ns. opt = WithNamespace ns) \<or> (\<exists>tweak. opt = WithTweakListOptions tweak) \<or> (\<exists>config. opt = WithCustomResyncConfig config)"

lemma package_option_fresh:
  assumes "package_option opt"
  shows "fyInformers (opt fy) = fyInformers fy \<and> fyStarted (opt fy) = fyStarted fy"
proof -
  have "fyInformers (WithCustomResyncConfig config fy) = fyInformers fy \<and> fyStarted (WithCustomResyncConfig config fy) = fyStarted fy"
    for config and fy :: "('a, 'b) factory"
    unfolding WithCustomResyncConfig_def by (induction config arbitrary: fy) auto
  then show ?thesis using assms by (auto simp: package_option_def WithNamespace_def WithTweakListOptions_def)
qed

text \<open>
  C38 (factory_runs_once). Whatever is asked of a factory, in any order and with any order of its maps: no informer is
  run twice, \<open>Start\<close> leaves exactly the registered informers running and a second \<open>Start\<close> adds
  none, and everybody who asks for the informer of a type gets the same one.
\<close>

theorem factory_runs_once:
  assumes "\<forall>opt \<in> set options. package_option opt"
    and "factory_step\<^sup>*\<^sup>* (new_informer_proc (NewSharedInformerFactoryWithOptions client resync options)) ip"
    and "iteration ip order" and "iteration ip order'"
  shows "distinct (ipRuns ip) \<and>
     distinct (ipRuns (factory_Start order ip)) \<and> set (ipRuns (factory_Start order ip)) = ran (fyInformers (ipFactory ip)) \<and>
     factory_Start order' (factory_Start order ip) = factory_Start order ip \<and>
     (case factory_InformerFor ty newFunc ip of (a, ip') \<Rightarrow> factory_InformerFor ty newFunc' ip' = (a, ip'))"
proof -
  have ok: "factory_ok ip"
    using assms(2)
  proof (induction rule: rtranclp_induct)
    case base
    show ?case by (rule options_fresh) (use assms(1) package_option_fresh in blast)
  qed (rule factory_step_ok)
  let ?ip = "factory_Start order ip"
  have started: "fyStarted (ipFactory ?ip) ty" if "fyInformers (ipFactory ip) ty \<noteq> None" for ty
    using assms(3) that by (auto simp: Start_started iteration_def dom_def)
  have ok': "factory_ok ?ip" by (rule Start_ok [OF ok])
  then have "ran (fyInformers (ipFactory ip)) \<subseteq> set (ipRuns ?ip)"
    using started by (fastforce simp: factory_ok_def ran_def)
  then have runs: "set (ipRuns ?ip) = ran (fyInformers (ipFactory ip))" using ok' by (auto simp: factory_ok_def)
  have idle: "factory_Start order' ?ip = ?ip" using started by (intro Start_idle) simp
  have share: "case factory_InformerFor ty newFunc ip of (a, ip') \<Rightarrow> factory_InformerFor ty newFunc' ip' = (a, ip')"
    using InformerFor_ok(2) [OF ok] by (fastforce simp: factory_InformerFor_def Let_def split: prod.split)
  show ?thesis using ok ok' runs idle share by (simp add: factory_ok_def)
qed

text \<open>A factory that was asked twice for the informer and started twice runs one.\<close>

definition ref_client :: "(string, nat) egress_client" where
  "ref_client = \<lparr>clList = (\<lambda>ns opts. length ns), clWatch = (\<lambda>ns opts. length opts)\<rparr>"

theorem factory_runs_once_witness:
  "case accessor_Informer (egressIPs_of (new_informer_proc (NewSharedInformerFactory ref_client 30)))
          (new_informer_proc (NewSharedInformerFactory ref_client 30)) of
     (a, ip) \<Rightarrow> ipRuns (factory_Start [StaticEgressIP_type] (factory_Start [StaticEgressIP_type] ip)) = [a]"
proof -
  let ?ip0 = "new_informer_proc (NewSharedInformerFactory ref_client 30)"
  obtain a ip where get: "accessor_Informer (egressIPs_of ?ip0) ?ip0 = (a, ip)" by (rule prod.exhaust)
  then have step: "factory_step ?ip0 ip" unfolding accessor_Informer_def by (rule factory_step.informer_for)
  have a: "a = 0" "fyInformers (ipFactory ip) = [StaticEgressIP_type \<mapsto> 0]"
    using get by (auto simp: accessor_Informer_def factory_InformerFor_def new_informer_proc_def NewSharedInformerFactory_def
        NewSharedInformerFactoryWithOptions_def Let_def)
  then have it: "iteration ip [StaticEgressIP_type]" by (simp add: iteration_def)
  have run: "factory_step\<^sup>*\<^sup>* (new_informer_proc (NewSharedInformerFactoryWithOptions ref_client 30 [])) ip"
    using step by (simp add: NewSharedInformerFactory_def)
  let ?runs = "ipRuns (factory_Start [StaticEgressIP_type] ip)"
  have "distinct ?runs \<and> set ?runs = {0} \<and>
      factory_Start [StaticEgressIP_type] (factory_Start [StaticEgressIP_type] ip) = factory_Start [StaticEgressIP_type] ip"
    using factory_runs_once [OF _ run it it] a(2) by (simp add: ran_def)
  moreover from this have "?runs = [0]"
    by (cases ?runs; cases "tl ?runs") (auto simp: subset_singleton_iff)
  ultimately show ?thesis using get a(1) by simp
qed

end
