(* ===== verification/RestClient.thy ===== *)
theory RestClient
  imports ApiTypes
begin

text \<open>
  \<open>pkg/client/clientset\<close>: the client of the resources. Its methods chain calls of the request
  builder of client-go's \<open>rest\<close> package; what goes over the wire is the verb, the path, the
  parameters and the body. The server's answer is not part of it.
\<close>

section \<open>Paths\<close>

text \<open>Go's \<open>path.Clean\<close> and \<open>path.Join\<close>.\<close>

definition slash :: char where
  "slash = CHR ''/''"

fun joined :: "string list \<Rightarrow> string" where
  "joined [] = []"
| "joined [s] = s"
| "joined (s # ss) = s @ slash # joined ss"

definition clean_push :: "bool \<Rightarrow> string \<Rightarrow> string list \<Rightarrow> string list" where
  "clean_push rooted seg done' =
     (if seg = [] \<or> seg = ''.'' then done'
      else if seg = ''..'' then
        (if done' \<noteq> [] \<and> last done' \<noteq> ''..'' then butlast done' else if rooted then done' else done' @ [seg])
      else done' @ [seg])"

definition path_Clean :: "string \<Rightarrow> string" where
  "path_Clean p =
     (if p = [] then ''.''
      else if hd p = slash then slash # joined (fold (clean_push True) (split_on slash p) [])
      else (let q = joined (fold (clean_push False) (split_on slash p) []) in if q = [] then ''.'' else q))"

definition path_Join :: "string list \<Rightarrow> string" where
  "path_Join elems =
     (let es = filter (\<lambda>e. e \<noteq> []) elems in if es = [] then [] else path_Clean (joined es))"

text \<open>\<open>IsValidPathSegmentName\<close>.\<close>

definition valid_segment :: "string \<Rightarrow> bool" where
  "valid_segment s \<longleftrightarrow> s \<noteq> ''.'' \<and> s \<noteq> ''..'' \<and> CHR ''/'' \<notin> set s \<and> CHR ''%'' \<notin> set s"

section \<open>Requests\<close>

record 'b rest_request =
  rqVerb :: string
  rqPrefix :: string
  rqNamespace :: "string option"
  rqResource :: string
  rqName :: string
  rqSub :: string
  rqParams :: "(string \<times> string) list"
  rqBody :: "'b option"
  rqErr :: "goerror option"

definition new_request :: "string \<Rightarrow> string \<Rightarrow> 'b rest_request" where
  "new_request verb pre =
     \<lparr>rqVerb = verb, rqPrefix = pre, rqNamespace = None, rqResource = [], rqName = [], rqSub = [], rqParams = [],
      rqBody = None, rqErr = None\<rparr>"

text \<open>Every method of the builder does nothing once an error is set.\<close>

definition rq_Namespace :: "string \<Rightarrow> 'b rest_request \<Rightarrow> 'b rest_request" where
  "rq_Namespace ns r =
     (if rqErr r \<noteq> None then r
      else if rqNamespace r \<noteq> None then r\<lparr>rqErr := Some (ErrText ''namespace already set'')\<rparr>
      else if \<not> valid_segment ns then r\<lparr>rqErr := Some (ErrText ''invalid namespace'')\<rparr>
      else r\<lparr>rqNamespace := Some ns\<rparr>)"

definition rq_Resource :: "string \<Rightarrow> 'b rest_request \<Rightarrow> 'b rest_request" where
  "rq_Resource res r =
     (if rqErr r \<noteq> None then r
      else if rqResource r \<noteq> [] then r\<lparr>rqErr := Some (ErrText ''resource already set'')\<rparr>
      else if \<not> valid_segment res then r\<lparr>rqErr := Some (ErrText ''invalid resource'')\<rparr>
      else r\<lparr>rqResource := res\<rparr>)"

definition rq_Name :: "string \<Rightarrow> 'b rest_request \<Rightarrow> 'b rest_request" where
  "rq_Name n r =
     (if rqErr r \<noteq> None then r
      else if n = [] then r\<lparr>rqErr := Some (ErrText ''resource name may not be empty'')\<rparr>
      else if rqName r \<noteq> [] then r\<lparr>rqErr := Some (ErrText ''resource name already set'')\<rparr>
      else if \<not> valid_segment n then r\<lparr>rqErr := Some (ErrText ''invalid resource name'')\<rparr>
      else r\<lparr>rqName := n\<rparr>)"

definition rq_SubResource :: "string list \<Rightarrow> 'b rest_request \<Rightarrow> 'b rest_request" where
  "rq_SubResource subs r =
     (if rqErr r \<noteq> None then r
      else if rqSub r \<noteq> [] then r\<lparr>rqErr := Some (ErrText ''subresource already set'')\<rparr>
      else if \<not> list_all valid_segment subs then r\<lparr>rqErr := Some (ErrText ''invalid subresource'')\<rparr>
      else r\<lparr>rqSub := path_Join subs\<rparr>)"

definition rq_VersionedParams :: "(string \<times> string) list \<Rightarrow> 'b rest_request \<Rightarrow> 'b rest_request" where
  "rq_VersionedParams ps r = (if rqErr r \<noteq> None then r else r\<lparr>rqParams := rqParams r @ ps\<rparr>)"

definition rq_Body :: "'b \<Rightarrow> 'b rest_request \<Rightarrow> 'b rest_request" where
  "rq_Body b r = (if rqErr r \<noteq> None then r else r\<lparr>rqBody := Some b\<rparr>)"

text \<open>\<open>URL\<close>; the program uses no suffix. Resources are written in lower case already.\<close>

definition rq_URL :: "'b rest_request \<Rightarrow> string" where
  "rq_URL r =
     (let p1 = (case rqNamespace r of
                  None \<Rightarrow> rqPrefix r
                | Some ns \<Rightarrow> if ns \<noteq> [] then path_Join [rqPrefix r, ''namespaces'', ns] else rqPrefix r);
          p2 = (if rqResource r \<noteq> [] then path_Join [p1, rqResource r] else p1) in
      if rqName r \<noteq> [] \<or> rqSub r \<noteq> [] then path_Join [p2, rqName r, rqSub r] else p2)"

record 'b wire_request =
  wrVerb :: string
  wrPath :: string
  wrParams :: "(string \<times> string) list"
  wrBody :: "'b option"

definition on_the_wire :: "'b rest_request \<Rightarrow> 'b wire_request" where
  "on_the_wire r = \<lparr>wrVerb = rqVerb r, wrPath = rq_URL r, wrParams = rqParams r, wrBody = rqBody r\<rparr>"

text \<open>\<open>Do\<close> and \<open>Watch\<close> up to the first byte that is sent.\<close>

definition rq_Do :: "'b rest_request \<Rightarrow> goerror + 'b wire_request" where
  "rq_Do r =
     (case rqErr r of
        Some e \<Rightarrow> Inl e
      | None \<Rightarrow>
          if rqVerb r \<in> {''GET'', ''PUT'', ''DELETE''} \<and> rqNamespace r = Some [] \<and> rqName r \<noteq> []
          then Inl (ErrText ''an empty namespace may not be set when a resource name is provided'')
          else if rqVerb r = ''POST'' \<and> rqNamespace r = Some []
          then Inl (ErrText ''an empty namespace may not be set during creation'')
          else Inr (on_the_wire r))"

definition rq_Watch :: "'b rest_request \<Rightarrow> goerror + 'b wire_request" where
  "rq_Watch r = (case rqErr r of Some e \<Rightarrow> Inl e | None \<Rightarrow> Inr (on_the_wire r))"

section \<open>The typed client\<close>

text \<open>What a body can be: a resource, the options of a deletion, the bytes of a patch.\<close>

datatype client_body = BodyResource static_egress_ip | BodyOptions string | BodyBytes string

type_synonym client_request = "client_body rest_request"

text \<open>Configurations: the parts that the code reads or sets. A rate limiter is its rate and burst.\<close>

record rest_config =
  cfHost :: string
  cfAPIPath :: string
  cfGroupVersion :: "(string \<times> string) option"
  cfUserAgent :: string
  cfQPS :: int
  cfBurst :: int
  cfRateLimiter :: "(int \<times> int) option"

definition setConfigDefaults :: "string \<Rightarrow> rest_config \<Rightarrow> rest_config" where
  "setConfigDefaults defaultAgent cfg =
     cfg\<lparr>cfGroupVersion := Some (''staticegressips.nirmata.io'', ''v1alpha1''), cfAPIPath := ''/apis'',
       cfUserAgent := (if cfUserAgent cfg = [] then defaultAgent else cfUserAgent cfg)\<rparr>"

definition DefaultVersionedAPIPath :: "string \<Rightarrow> string \<times> string \<Rightarrow> string" where
  "DefaultVersionedAPIPath apiPath gv =
     (if fst gv \<noteq> [] then path_Join [path_Join [''/'', apiPath], fst gv, snd gv]
      else path_Join [path_Join [''/'', apiPath], snd gv])"

text \<open>
  \<open>rest.RESTClientFor\<close>: \<open>server\<close> parses host and transport of the configuration and answers the
  path of the host. A REST client is the prefix of its paths with the configuration it has.
\<close>

record rest_client =
  rcPrefix :: string
  rcConfig :: rest_config

definition RESTClientFor :: "(rest_config \<Rightarrow> goerror + string) \<Rightarrow> rest_config \<Rightarrow> goerror + rest_client" where
  "RESTClientFor server cfg =
     (case cfGroupVersion cfg of
        None \<Rightarrow> Inl (ErrText ''GroupVersion is required when initializing a RESTClient'')
      | Some gv \<Rightarrow>
          (case server cfg of
             Inl e \<Rightarrow> Inl e
           | Inr basePath \<Rightarrow>
               Inr \<lparr>rcPrefix = path_Join [path_Join [''/'', basePath], DefaultVersionedAPIPath (cfAPIPath cfg) gv],
                    rcConfig = cfg\<rparr>))"

definition typed_NewForConfig :: "(rest_config \<Rightarrow> goerror + string) \<Rightarrow> string \<Rightarrow> rest_config \<Rightarrow> goerror + rest_client" where
  "typed_NewForConfig server agent c = RESTClientFor server (setConfigDefaults agent c)"

text \<open>\<open>disc\<close> makes the discovery client, which the program does not use.\<close>

record 'd clientset =
  csDiscovery :: 'd
  csEgress :: rest_client

definition clientset_NewForConfig ::
  "(rest_config \<Rightarrow> goerror + string) \<Rightarrow> (rest_config \<Rightarrow> goerror + 'd) \<Rightarrow> string \<Rightarrow> rest_config \<Rightarrow> goerror + 'd clientset" where
  "clientset_NewForConfig server disc agent c =
     (let copy = (if cfRateLimiter c = None \<and> cfQPS c > 0 then c\<lparr>cfRateLimiter := Some (cfQPS c, cfBurst c)\<rparr> else c) in
      case typed_NewForConfig server agent copy of
        Inl e \<Rightarrow> Inl e
      | Inr typed \<Rightarrow>
          (case disc copy of Inl e \<Rightarrow> Inl e | Inr d \<Rightarrow> Inr \<lparr>csDiscovery = d, csEgress = typed\<rparr>))"

text \<open>The constructors that panic, and those on a REST client that exists.\<close>

definition typed_NewForConfigOrDie :: "(rest_config \<Rightarrow> goerror + string) \<Rightarrow> string \<Rightarrow> rest_config \<Rightarrow> rest_client outcome" where
  "typed_NewForConfigOrDie server agent c =
     (case typed_NewForConfig server agent c of Inl e \<Rightarrow> Panic (PanicErr e) | Inr client \<Rightarrow> Ok client)"

definition clientset_NewForConfigOrDie ::
  "(rest_config \<Rightarrow> goerror + string) \<Rightarrow> (rest_config \<Rightarrow> goerror + 'd) \<Rightarrow> string \<Rightarrow> rest_config \<Rightarrow> 'd clientset outcome" where
  "clientset_NewForConfigOrDie server disc agent c =
     (case typed_NewForConfigOrDie server agent c of
        Ok typed \<Rightarrow> (case disc c of Inl e \<Rightarrow> Panic (PanicErr e) | Inr d \<Rightarrow> Ok \<lparr>csDiscovery = d, csEgress = typed\<rparr>)
      | Err e \<Rightarrow> Err e
      | Panic k \<Rightarrow> Panic k)"

definition clientset_New :: "(rest_client \<Rightarrow> 'd) \<Rightarrow> rest_client \<Rightarrow> 'd clientset" where
  "clientset_New disc c = \<lparr>csDiscovery = disc c, csEgress = c\<rparr>"

text \<open>They agree but for the rate limiter that the clients of \<open>NewForConfig\<close> share.\<close>

lemma OrDie_same:
  assumes "cfRateLimiter c \<noteq> None \<or> cfQPS c \<le> 0"
  shows "clientset_NewForConfigOrDie server disc agent c =
     (case clientset_NewForConfig server disc agent c of Inl e \<Rightarrow> Panic (PanicErr e) | Inr cs \<Rightarrow> Ok cs)"
proof -
  have "\<not> (cfRateLimiter c = None \<and> cfQPS c > 0)" using assms by auto
  then show ?thesis
    unfolding clientset_NewForConfigOrDie_def typed_NewForConfigOrDie_def clientset_NewForConfig_def Let_def
    by (auto split: sum.split)
qed

text \<open>\<open>StaticEgressIPs(ns)\<close>.\<close>

record egress_ips =
  eiClient :: rest_client
  eiNs :: string

definition client_StaticEgressIPs :: "'d clientset \<Rightarrow> string \<Rightarrow> egress_ips" where
  "client_StaticEgressIPs cs ns = \<lparr>eiClient = csEgress cs, eiNs = ns\<rparr>"

definition in_namespace :: "egress_ips \<Rightarrow> string \<Rightarrow> client_request" where
  "in_namespace c verb = rq_Resource ''staticegressips'' (rq_Namespace (eiNs c) (new_request verb (rcPrefix (eiClient c))))"

text \<open>Options are given by the parameters that the codec makes of them.\<close>

definition client_Get :: "egress_ips \<Rightarrow> string \<Rightarrow> (string \<times> string) list \<Rightarrow> goerror + client_body wire_request" where
  "client_Get c nm options = rq_Do (rq_VersionedParams options (rq_Name nm (in_namespace c ''GET'')))"

definition client_List :: "egress_ips \<Rightarrow> (string \<times> string) list \<Rightarrow> goerror + client_body wire_request" where
  "client_List c opts = rq_Do (rq_VersionedParams opts (in_namespace c ''GET''))"

definition client_Watch :: "egress_ips \<Rightarrow> (bool \<Rightarrow> (string \<times> string) list) \<Rightarrow> goerror + client_body wire_request" where
  "client_Watch c opts = rq_Watch (rq_VersionedParams (opts True) (in_namespace c ''GET''))"

definition client_Create :: "egress_ips \<Rightarrow> static_egress_ip \<Rightarrow> goerror + client_body wire_request" where
  "client_Create c sip = rq_Do (rq_Body (BodyResource sip) (in_namespace c ''POST''))"

definition client_Update :: "egress_ips \<Rightarrow> static_egress_ip \<Rightarrow> goerror + client_body wire_request" where
  "client_Update c sip = rq_Do (rq_Body (BodyResource sip) (rq_Name (sName sip) (in_namespace c ''PUT'')))"

definition client_UpdateStatus :: "egress_ips \<Rightarrow> static_egress_ip \<Rightarrow> goerror + client_body wire_request" where
  "client_UpdateStatus c sip =
     rq_Do (rq_Body (BodyResource sip) (rq_SubResource [''status''] (rq_Name (sName sip) (in_namespace c ''PUT''))))"

definition client_Delete :: "egress_ips \<Rightarrow> string \<Rightarrow> string \<Rightarrow> goerror + client_body wire_request" where
  "client_Delete c nm options = rq_Do (rq_Body (BodyOptions options) (rq_Name nm (in_namespace c ''DELETE'')))"

definition client_DeleteCollection ::
  "egress_ips \<Rightarrow> string \<Rightarrow> (string \<times> string) list \<Rightarrow> goerror + client_body wire_request" where
  "client_DeleteCollection c options listOptions =
     rq_Do (rq_Body (BodyOptions options) (rq_VersionedParams listOptions (in_namespace c ''DELETE'')))"

definition client_Patch :: "egress_ips \<Rightarrow> string \<Rightarrow> string \<Rightarrow> string list \<Rightarrow> goerror + client_body wire_request" where
  "client_Patch c nm data subresources =
     rq_Do (rq_Body (BodyBytes data) (rq_Name nm (rq_SubResource subresources (in_namespace c ''PATCH''))))"

section \<open>Laws\<close>

definition clean_segment :: "string \<Rightarrow> bool" where
  "clean_segment s \<longleftrightarrow> s \<noteq> [] \<and> s \<noteq> ''.'' \<and> s \<noteq> ''..'' \<and> slash \<notin> set s"

lemma split_joined:
  assumes "ss \<noteq> []" and "\<forall>s \<in> set ss. slash \<notin> set s"
  shows "split_on slash (joined ss) = ss"
  using assms by (induction ss rule: joined.induct) (auto simp: split_on_append_sep split_on_no_sep)

lemma split_rooted: "split_on slash (slash # p) = [] # split_on slash p"
  by simp

lemma fold_clean: "\<forall>s \<in> set ss. clean_segment s \<Longrightarrow> fold (clean_push b) ss acc = acc @ ss"
  by (induction ss arbitrary: acc) (auto simp: clean_push_def clean_segment_def)

lemma clean_first [simp]: "clean_push b [] acc = acc"
  by (simp add: clean_push_def)

text \<open>A clean path is itself; joining a clean rooted path and clean segments appends them.\<close>

definition rooted :: "string list \<Rightarrow> string" where
  "rooted ss = slash # joined ss"

lemma rooted_neq_Nil [simp]: "rooted ss \<noteq> []"
  by (simp add: rooted_def)

lemma Clean_rooted:
  assumes "\<forall>s \<in> set ss. clean_segment s"
  shows "path_Clean (rooted ss) = rooted ss"
proof (cases "ss = []")
  case False
  have "split_on slash (joined ss) = ss" using assms False by (intro split_joined) (auto simp: clean_segment_def)
  then show ?thesis using assms fold_clean [of ss True "[]"] by (simp add: path_Clean_def rooted_def)
qed (simp add: path_Clean_def rooted_def slash_def)

lemma joined_append: "ss \<noteq> [] \<Longrightarrow> ts \<noteq> [] \<Longrightarrow> joined (ss @ ts) = joined ss @ slash # joined ts"
proof (induction ss rule: joined.induct)
  case (2 s)
  then show ?case by (cases ts) simp_all
qed simp_all

lemma joined_rooted: "ss \<noteq> [] \<Longrightarrow> ts \<noteq> [] \<Longrightarrow> joined (rooted ss # ts) = rooted (ss @ ts)"
  by (cases ts) (simp_all add: rooted_def joined_append)

lemma Join_rooted:
  assumes "ss \<noteq> []" and "\<forall>s \<in> set ss. clean_segment s" and "\<forall>t \<in> set ts. t = [] \<or> clean_segment t"
  shows "path_Join (rooted ss # ts) = rooted (ss @ filter (\<lambda>t. t \<noteq> []) ts)"
proof (cases "filter (\<lambda>t. t \<noteq> []) ts = []")
  case True
  then show ?thesis using Clean_rooted [OF assms(2)] by (simp add: path_Join_def)
next
  case False
  let ?ts = "filter (\<lambda>t. t \<noteq> []) ts"
  have "path_Join (rooted ss # ts) = path_Clean (rooted (ss @ ?ts))"
    using joined_rooted [OF assms(1) False] by (simp add: path_Join_def Let_def)
  also have "\<dots> = rooted (ss @ ?ts)" using assms by (intro Clean_rooted) auto
  finally show ?thesis .
qed

lemma rooted_inj:
  assumes "rooted ss = rooted ts" and "ss \<noteq> []" and "ts \<noteq> []" and "\<forall>s \<in> set ss \<union> set ts. clean_segment s"
  shows "ss = ts"
proof -
  have "split_on slash (joined us) = us" if "us \<noteq> []" "set us \<subseteq> set ss \<union> set ts" for us
    using that assms(4) by (intro split_joined) (auto simp: clean_segment_def)
  from this [of ss] this [of ts] show ?thesis using assms(1,2,3) unfolding rooted_def by (metis Un_upper1 Un_upper2 list.inject)
qed

section \<open>Addresses\<close>

definition api_segments :: "string list" where
  "api_segments = [''apis'', ''staticegressips.nirmata.io'', ''v1alpha1'']"

definition collection_path :: "string \<Rightarrow> string" where
  "collection_path ns = rooted (api_segments @ (if ns = [] then [] else [''namespaces'', ns]) @ [''staticegressips''])"

definition resource_path :: "string \<Rightarrow> string \<Rightarrow> string" where
  "resource_path ns n = rooted (api_segments @ [''namespaces'', ns, ''staticegressips'', n])"

lemma valid_clean: "valid_segment s \<Longrightarrow> s \<noteq> [] \<Longrightarrow> clean_segment s"
  by (simp add: valid_segment_def clean_segment_def slash_def)

lemma fixed_segments:
  "\<forall>s \<in> set api_segments. clean_segment s" "clean_segment ''namespaces''" "clean_segment ''staticegressips''"
  "clean_segment ''status''" "valid_segment ''staticegressips''" "valid_segment ''status''" "api_segments \<noteq> []"
  by (simp_all add: api_segments_def clean_segment_def valid_segment_def slash_def)

lemma api_prefix:
  "path_Join [path_Join [''/'', []], DefaultVersionedAPIPath ''/apis'' (''staticegressips.nirmata.io'', ''v1alpha1'')] = rooted api_segments"
  by code_simp

lemma clientset_prefix:
  assumes "clientset_NewForConfig server disc agent cfg = Inr cs" and "\<forall>c p. server c = Inr p \<longrightarrow> p = []"
  shows "rcPrefix (eiClient (client_StaticEgressIPs cs ns)) = rooted api_segments"
proof -
  obtain copy where run: "RESTClientFor server (setConfigDefaults agent copy) = Inr (csEgress cs)"
    using assms(1) by (auto simp: clientset_NewForConfig_def typed_NewForConfig_def Let_def split: sum.splits)
  have d: "cfGroupVersion (setConfigDefaults agent copy) = Some (''staticegressips.nirmata.io'', ''v1alpha1'')"
      "cfAPIPath (setConfigDefaults agent copy) = ''/apis''" by (simp_all add: setConfigDefaults_def)
  obtain p where p: "server (setConfigDefaults agent copy) = Inr p"
    using run d by (auto simp: RESTClientFor_def split: sum.splits)
  have "csEgress cs = \<lparr>rcPrefix = path_Join [path_Join [''/'', p],
      DefaultVersionedAPIPath ''/apis'' (''staticegressips.nirmata.io'', ''v1alpha1'')], rcConfig = setConfigDefaults agent copy\<rparr>"
    using run d p by (simp add: RESTClientFor_def eq_commute)
  then show ?thesis using assms(2) api_prefix p by (auto simp: client_StaticEgressIPs_def)
qed

lemma collection_url:
  assumes "valid_segment ns" and "rqPrefix r = rooted api_segments" and "rqNamespace r = Some ns" and "rqResource r = ''staticegressips''"
  shows "rq_URL r = (if rqName r \<noteq> [] \<or> rqSub r \<noteq> [] then path_Join [collection_path ns, rqName r, rqSub r] else collection_path ns)"
proof -
  have "path_Join [rooted api_segments, ''namespaces'', ns] = rooted (api_segments @ [''namespaces'', ns])" if "ns \<noteq> []"
    using fixed_segments valid_clean [OF assms(1) that] that by (subst Join_rooted) auto
  moreover have "path_Join [rooted (api_segments @ [''namespaces'', ns]), ''staticegressips''] =
      rooted (api_segments @ [''namespaces'', ns, ''staticegressips''])" if "ns \<noteq> []"
    using fixed_segments valid_clean [OF assms(1) that] that by (subst Join_rooted) auto
  moreover have "path_Join [rooted api_segments, ''staticegressips''] = rooted (api_segments @ [''staticegressips''])"
    using fixed_segments by (subst Join_rooted) auto
  ultimately show ?thesis using assms by (simp add: rq_URL_def collection_path_def Let_def)
qed

lemma named_url:
  assumes "valid_segment ns" and "ns \<noteq> []" and "valid_segment n" and "n \<noteq> []"
  shows "path_Join [collection_path ns, n, []] = resource_path ns n"
    and "path_Join [collection_path ns, n, ''status''] = resource_path ns n @ ''/status''"
proof -
  let ?ss = "api_segments @ [''namespaces'', ns, ''staticegressips'']"
  have c: "\<forall>s \<in> set ?ss. clean_segment s" "clean_segment n" "?ss \<noteq> []" "collection_path ns = rooted ?ss"
    using assms fixed_segments valid_clean by (auto simp: collection_path_def)
  show "path_Join [collection_path ns, n, []] = resource_path ns n"
    using Join_rooted [OF c(3,1), of "[n, []]"] c(2,4) assms(4) by (simp add: resource_path_def)
  have "path_Join [collection_path ns, n, ''status''] = rooted (?ss @ [n, ''status''])"
    using Join_rooted [OF c(3,1), of "[n, ''status'']"] c(2,4) assms(4) fixed_segments(4) by simp
  also have "\<dots> = resource_path ns n @ ''/status''" by (simp add: resource_path_def rooted_def api_segments_def slash_def)
  finally show "path_Join [collection_path ns, n, ''status''] = resource_path ns n @ ''/status''" .
qed

lemma in_namespace_run:
  assumes "rcPrefix (eiClient c) = rooted api_segments"
  shows "in_namespace c verb =
     (if valid_segment (eiNs c)
      then (new_request verb (rooted api_segments))\<lparr>rqNamespace := Some (eiNs c), rqResource := ''staticegressips''\<rparr>
      else (new_request verb (rooted api_segments))\<lparr>rqErr := Some (ErrText ''invalid namespace'')\<rparr>)"
  using assms fixed_segments(5) by (simp add: in_namespace_def rq_Namespace_def rq_Resource_def new_request_def)

lemmas builder_defs = rq_Name_def rq_VersionedParams_def rq_Body_def rq_SubResource_def new_request_def rq_Do_def

text \<open>The methods on a resource of a namespace.\<close>

lemma wire_named:
  assumes "ns \<noteq> []" and "valid_segment ns" and "n \<noteq> []" and "valid_segment n" and "rqPrefix r = rooted api_segments"
    and "rqNamespace r = Some ns" and "rqResource r = ''staticegressips''" and "rqName r = n" and "rqSub r \<in> {[], ''status''}"
  shows "wrPath (on_the_wire r) = resource_path ns n @ (if rqSub r = [] then [] else ''/status'')"
proof -
  have url: "rq_URL r = path_Join [collection_path ns, n, rqSub r]"
    using collection_url [OF assms(2,5,6,7)] assms(3,8) by simp
  show ?thesis
    using assms(9) named_url [OF assms(2,1,4,3)] unfolding on_the_wire_def url by (elim insertE) simp_all
qed

lemma methods_named:
  assumes c: "rcPrefix (eiClient c) = rooted api_segments" "eiNs c = ns"
    and v: "ns \<noteq> []" "valid_segment ns" "sName sip \<noteq> []" "valid_segment (sName sip)"
  shows "client_Get c (sName sip) ps = Inr \<lparr>wrVerb = ''GET'', wrPath = resource_path ns (sName sip), wrParams = ps, wrBody = None\<rparr>"
    and "client_Update c sip =
      Inr \<lparr>wrVerb = ''PUT'', wrPath = resource_path ns (sName sip), wrParams = [], wrBody = Some (BodyResource sip)\<rparr>"
    and "client_UpdateStatus c sip =
      Inr \<lparr>wrVerb = ''PUT'', wrPath = resource_path ns (sName sip) @ ''/status'', wrParams = [], wrBody = Some (BodyResource sip)\<rparr>"
    and "client_Delete c (sName sip) opts =
      Inr \<lparr>wrVerb = ''DELETE'', wrPath = resource_path ns (sName sip), wrParams = [], wrBody = Some (BodyOptions opts)\<rparr>"
proof -
  note b = in_namespace_run [OF c(1), unfolded c(2)]
  have status: "path_Join [''status''] = ''status''" by code_simp
  note wire = wire_named [OF v]
  show "client_Get c (sName sip) ps = Inr \<lparr>wrVerb = ''GET'', wrPath = resource_path ns (sName sip), wrParams = ps, wrBody = None\<rparr>"
    using wire [of "(in_namespace c ''GET'')\<lparr>rqName := sName sip, rqParams := ps\<rparr>"] v
    by (simp add: client_Get_def b builder_defs on_the_wire_def)
  show "client_Update c sip =
      Inr \<lparr>wrVerb = ''PUT'', wrPath = resource_path ns (sName sip), wrParams = [], wrBody = Some (BodyResource sip)\<rparr>"
    using wire [of "(in_namespace c ''PUT'')\<lparr>rqName := sName sip, rqBody := Some (BodyResource sip)\<rparr>"] v
    by (simp add: client_Update_def b builder_defs on_the_wire_def)
  show "client_UpdateStatus c sip =
      Inr \<lparr>wrVerb = ''PUT'', wrPath = resource_path ns (sName sip) @ ''/status'', wrParams = [], wrBody = Some (BodyResource sip)\<rparr>"
    using wire [of "(in_namespace c ''PUT'')\<lparr>rqName := sName sip, rqSub := ''status'', rqBody := Some (BodyResource sip)\<rparr>"] v
    by (simp add: client_UpdateStatus_def b builder_defs on_the_wire_def status fixed_segments(6))
  show "client_Delete c (sName sip) opts =
      Inr \<lparr>wrVerb = ''DELETE'', wrPath = resource_path ns (sName sip), wrParams = [], wrBody = Some (BodyOptions opts)\<rparr>"
    using wire [of "(in_namespace c ''DELETE'')\<lparr>rqName := sName sip, rqBody := Some (BodyOptions opts)\<rparr>"] v
    by (simp add: client_Delete_def b builder_defs on_the_wire_def)
qed

text \<open>A request that will not be sent, whatever is added to it.\<close>

definition refused :: "client_request \<Rightarrow> bool" where
  "refused r \<longleftrightarrow> rqErr r \<noteq> None \<or> rqNamespace r = Some [] \<and> rqName r \<noteq> [] \<and> rqVerb r \<in> {''GET'', ''PUT'', ''DELETE''}"

lemma refused_kept:
  "refused r \<Longrightarrow> refused (rq_VersionedParams ps r)" "refused r \<Longrightarrow> refused (rq_Body b r)"
  "refused r \<Longrightarrow> refused (rq_SubResource subs r)" "refused r \<Longrightarrow> \<exists>e. rq_Do r = Inl e"
  by (auto simp: refused_def rq_VersionedParams_def rq_Body_def rq_SubResource_def rq_Do_def split: option.split)

lemma refused_named:
  assumes "rcPrefix (eiClient c) = rooted api_segments" and "verb \<in> {''GET'', ''PUT'', ''DELETE''}"
    and "\<not> (eiNs c \<noteq> [] \<and> valid_segment (eiNs c) \<and> n \<noteq> [] \<and> valid_segment n)"
  shows "refused (rq_Name n (in_namespace c verb))"
proof (cases "rqErr (rq_Name n (in_namespace c verb)) = None")
  case True
  then have ok: "rqErr (in_namespace c verb) = None" "n \<noteq> []" "valid_segment n"
    by (auto simp: rq_Name_def split: if_splits)
  then have "valid_segment (eiNs c)" by (auto simp: in_namespace_run [OF assms(1)] new_request_def split: if_splits)
  with ok assms show ?thesis by (simp add: refused_def in_namespace_run [OF assms(1)] rq_Name_def new_request_def)
qed (simp add: refused_def)

lemma methods_refuse:
  assumes c: "rcPrefix (eiClient c) = rooted api_segments" "eiNs c = ns"
    and v: "\<not> (ns \<noteq> [] \<and> valid_segment ns \<and> sName sip \<noteq> [] \<and> valid_segment (sName sip))"
  shows "\<exists>e. client_Get c (sName sip) ps = Inl e" and "\<exists>e. client_Update c sip = Inl e"
    and "\<exists>e. client_UpdateStatus c sip = Inl e" and "\<exists>e. client_Delete c (sName sip) opts = Inl e"
proof -
  have "refused (rq_Name (sName sip) (in_namespace c verb))" if "verb \<in> {''GET'', ''PUT'', ''DELETE''}" for verb
    using refused_named [OF c(1) that, of "sName sip"] v c(2) by blast
  then show "\<exists>e. client_Get c (sName sip) ps = Inl e" "\<exists>e. client_Update c sip = Inl e"
      "\<exists>e. client_UpdateStatus c sip = Inl e" "\<exists>e. client_Delete c (sName sip) opts = Inl e"
    unfolding client_Get_def client_Update_def client_UpdateStatus_def client_Delete_def
    by (intro refused_kept; simp)+
qed

lemma methods_collection:
  assumes c: "rcPrefix (eiClient c) = rooted api_segments" "eiNs c = ns"
  shows "client_List c ps =
      (if valid_segment ns then Inr \<lparr>wrVerb = ''GET'', wrPath = collection_path ns, wrParams = ps, wrBody = None\<rparr>
       else Inl (ErrText ''invalid namespace''))"
    and "client_Create c sip =
      (if \<not> valid_segment ns then Inl (ErrText ''invalid namespace'')
       else if ns = [] then Inl (ErrText ''an empty namespace may not be set during creation'')
       else Inr \<lparr>wrVerb = ''POST'', wrPath = collection_path ns, wrParams = [], wrBody = Some (BodyResource sip)\<rparr>)"
proof -
  note b = in_namespace_run [OF c(1), unfolded c(2)]
  show "client_List c ps =
      (if valid_segment ns then Inr \<lparr>wrVerb = ''GET'', wrPath = collection_path ns, wrParams = ps, wrBody = None\<rparr>
       else Inl (ErrText ''invalid namespace''))"
    using collection_url [of ns "(in_namespace c ''GET'')\<lparr>rqParams := ps\<rparr>"]
    by (simp add: client_List_def b builder_defs on_the_wire_def)
  show "client_Create c sip =
      (if \<not> valid_segment ns then Inl (ErrText ''invalid namespace'')
       else if ns = [] then Inl (ErrText ''an empty namespace may not be set during creation'')
       else Inr \<lparr>wrVerb = ''POST'', wrPath = collection_path ns, wrParams = [], wrBody = Some (BodyResource sip)\<rparr>)"
    using collection_url [of ns "(in_namespace c ''POST'')\<lparr>rqBody := Some (BodyResource sip)\<rparr>"]
    by (simp add: client_Create_def b builder_defs on_the_wire_def)
qed

text \<open>A patch, which may name subresources and is the only method on a resource that the builder lets through without a namespace.\<close>

definition patch_path :: "string \<Rightarrow> string \<Rightarrow> string list \<Rightarrow> string" where
  "patch_path ns n subs =
     rooted (api_segments @ (if ns = [] then [] else [''namespaces'', ns]) @ [''staticegressips'', n] @ filter (\<lambda>s. s \<noteq> []) subs)"

lemma joined_head: "u \<noteq> [] \<Longrightarrow> hd (joined (u # us)) = hd u" "u \<noteq> [] \<Longrightarrow> joined (u # us) \<noteq> []"
  by (cases us, simp_all)+

lemma Join_relative:
  assumes "list_all valid_segment ts"
  shows "path_Join ts = joined (filter (\<lambda>t. t \<noteq> []) ts)"
proof (cases "filter (\<lambda>t. t \<noteq> []) ts")
  case Nil
  then show ?thesis by (simp add: path_Join_def)
next
  case (Cons u us)
  let ?ts = "filter (\<lambda>t. t \<noteq> []) ts"
  have clean: "\<forall>t \<in> set ?ts. clean_segment t" using assms valid_clean by (auto simp: list_all_iff)
  have "u \<in> set ?ts" using Cons by (metis list.set_intros(1))
  then have "clean_segment u" using clean by blast
  then have u: "u \<noteq> []" and slashless: "slash \<notin> set u" by (simp_all add: clean_segment_def)
  then have "hd u \<noteq> slash" by (metis hd_in_set)
  have hd: "hd (joined (u # us)) = hd u" "joined (u # us) \<noteq> []" using u by (simp_all add: joined_head)
  have "split_on slash (joined ?ts) = ?ts" using clean Cons by (intro split_joined) (auto simp: clean_segment_def)
  then have "path_Clean (joined ?ts) = joined ?ts"
    using \<open>hd u \<noteq> slash\<close> hd fold_clean [OF clean, of False "[]"] Cons by (simp add: path_Clean_def Let_def)
  then show ?thesis using Cons by (simp add: path_Join_def Let_def)
qed

lemma joined_Cons: "ts \<noteq> [] \<Longrightarrow> joined (s # ts) = s @ slash # joined ts"
  by (cases ts) simp_all

lemma joined_nested: "ts \<noteq> [] \<Longrightarrow> joined [a, b, joined ts] = joined (a # b # ts)"
  by (simp add: joined_Cons)

lemma joined_Nil: "\<forall>t \<in> set ts. t \<noteq> [] \<Longrightarrow> joined ts = [] \<longleftrightarrow> ts = []"
  by (cases ts; cases "tl ts") auto

lemma patch_url:
  assumes "valid_segment ns" and "valid_segment n" and "n \<noteq> []" and "list_all valid_segment subs"
  shows "path_Join [collection_path ns, n, path_Join subs] = patch_path ns n subs"
proof -
  let ?ss = "api_segments @ (if ns = [] then [] else [''namespaces'', ns]) @ [''staticegressips'']"
  let ?ts = "filter (\<lambda>t. t \<noteq> []) subs"
  have ss: "?ss \<noteq> []" "\<forall>s \<in> set ?ss. clean_segment s" "collection_path ns = rooted ?ss"
    using assms(1) fixed_segments valid_clean by (auto simp: collection_path_def)
  have ts: "\<forall>t \<in> set ?ts. clean_segment t" using assms(4) valid_clean by (auto simp: list_all_iff)
  have n: "clean_segment n" using assms(2,3) valid_clean by blast
  have target: "patch_path ns n subs = rooted (?ss @ n # ?ts)" by (simp add: patch_path_def)
  show ?thesis
  proof (cases "?ts = []")
    case True
    then show ?thesis
      using Join_rooted [OF ss(1,2), of "[n, []]"] n assms(3) target by (simp add: Join_relative [OF assms(4)] ss(3))
  next
    case False
    then have "joined ?ts \<noteq> []" using joined_Nil [of ?ts] by auto
    then have "path_Join [rooted ?ss, n, joined ?ts] = path_Clean (joined (rooted ?ss # n # ?ts))"
      using assms(3) joined_nested [OF False] by (simp add: path_Join_def Let_def)
    also have "\<dots> = path_Clean (rooted (?ss @ n # ?ts))" using joined_rooted [OF ss(1), of "n # ?ts"] by simp
    also have "\<dots> = rooted (?ss @ n # ?ts)" using ss(2) ts n by (intro Clean_rooted) auto
    finally show ?thesis by (simp only: Join_relative [OF assms(4)] ss(3) target)
  qed
qed

lemma methods_rest:
  assumes c: "rcPrefix (eiClient c) = rooted api_segments" "eiNs c = ns"
  shows "if valid_segment ns \<and> n \<noteq> [] \<and> valid_segment n \<and> list_all valid_segment subs
     then client_Patch c n data subs =
       Inr \<lparr>wrVerb = ''PATCH'', wrPath = patch_path ns n subs, wrParams = [], wrBody = Some (BodyBytes data)\<rparr>
     else \<exists>e. client_Patch c n data subs = Inl e"
    and "client_Watch c opt =
      (if valid_segment ns then Inr \<lparr>wrVerb = ''GET'', wrPath = collection_path ns, wrParams = opt True, wrBody = None\<rparr>
       else Inl (ErrText ''invalid namespace''))"
    and "client_DeleteCollection c opts ps =
      (if valid_segment ns
       then Inr \<lparr>wrVerb = ''DELETE'', wrPath = collection_path ns, wrParams = ps, wrBody = Some (BodyOptions opts)\<rparr>
       else Inl (ErrText ''invalid namespace''))"
proof -
  note b = in_namespace_run [OF c(1), unfolded c(2)]
  show "client_Watch c opt =
      (if valid_segment ns then Inr \<lparr>wrVerb = ''GET'', wrPath = collection_path ns, wrParams = opt True, wrBody = None\<rparr>
       else Inl (ErrText ''invalid namespace''))"
    using collection_url [of ns "(in_namespace c ''GET'')\<lparr>rqParams := opt True\<rparr>"]
    by (simp add: client_Watch_def rq_Watch_def b builder_defs on_the_wire_def)
  show "client_DeleteCollection c opts ps =
      (if valid_segment ns
       then Inr \<lparr>wrVerb = ''DELETE'', wrPath = collection_path ns, wrParams = ps, wrBody = Some (BodyOptions opts)\<rparr>
       else Inl (ErrText ''invalid namespace''))"
    using collection_url [of ns "(in_namespace c ''DELETE'')\<lparr>rqParams := ps, rqBody := Some (BodyOptions opts)\<rparr>"]
    by (simp add: client_DeleteCollection_def b builder_defs on_the_wire_def)
  show "if valid_segment ns \<and> n \<noteq> [] \<and> valid_segment n \<and> list_all valid_segment subs
     then client_Patch c n data subs =
       Inr \<lparr>wrVerb = ''PATCH'', wrPath = patch_path ns n subs, wrParams = [], wrBody = Some (BodyBytes data)\<rparr>
     else \<exists>e. client_Patch c n data subs = Inl e"
  proof (cases "valid_segment ns \<and> n \<noteq> [] \<and> valid_segment n \<and> list_all valid_segment subs")
    case True
    then have "valid_segment ns" "n \<noteq> []" "valid_segment n" "list_all valid_segment subs" by blast+
    note v = this
    let ?r = "(new_request ''PATCH'' (rooted api_segments))\<lparr>rqNamespace := Some ns, rqResource := ''staticegressips'',
      rqSub := path_Join subs, rqName := n, rqBody := Some (BodyBytes data)\<rparr>"
    have "rq_URL ?r = patch_path ns n subs"
      using collection_url [OF v(1), of ?r] patch_url [OF v(1,3,2,4)] v(2) by (simp add: new_request_def)
    moreover have "client_Patch c n data subs = Inr (on_the_wire ?r)"
      using v by (simp add: client_Patch_def b builder_defs)
    ultimately show ?thesis using True by (simp add: on_the_wire_def new_request_def)
  next
    case False
    have "rqErr (rq_Name n (rq_SubResource subs (in_namespace c ''PATCH''))) \<noteq> None"
    proof (cases "valid_segment ns \<and> list_all valid_segment subs")
      case True
      then show ?thesis using False by (auto simp: b rq_Name_def rq_SubResource_def new_request_def)
    next
      case no: False
      then show ?thesis by (auto simp: b rq_Name_def rq_SubResource_def new_request_def)
    qed
    then show ?thesis unfolding if_not_P [OF False] client_Patch_def rq_Do_def rq_Body_def by (auto split: option.split)
  qed
qed

text \<open>
  C39 (client_addresses). What the typed client sends to an API server at the root of its host, for every method. \<open>Get\<close>,
  \<open>Update\<close>, \<open>UpdateStatus\<close> and \<open>Delete\<close> address
  \<open>/apis/staticegressips.nirmata.io/v1alpha1/namespaces/NS/staticegressips/NAME\<close> with their
  verb and body, and the server can read namespace and name back from the path, so no
  resource is mistaken for another; with an empty namespace or name, or one that could leave
  its segment, they send nothing and return an error. \<open>Patch\<close> addresses the same path with the
  subresources it is given; it refuses an empty name and segments that are none, but an empty
  namespace only leaves the part with the namespace out. The collection is created in, listed,
  watched and deleted at the path without the name; without a namespace \<open>List\<close>, \<open>Watch\<close> and
  \<open>DeleteCollection\<close> address all namespaces and \<open>Create\<close> sends nothing.
\<close>

theorem client_addresses:
  assumes "clientset_NewForConfig server disc agent cfg = Inr cs" and "\<forall>c p. server c = Inr p \<longrightarrow> p = []"
    and "c = client_StaticEgressIPs cs ns"
  shows "(if ns \<noteq> [] \<and> valid_segment ns \<and> sName sip \<noteq> [] \<and> valid_segment (sName sip)
     then client_Get c (sName sip) ps = Inr \<lparr>wrVerb = ''GET'', wrPath = resource_path ns (sName sip), wrParams = ps, wrBody = None\<rparr> \<and>
          client_Update c sip =
            Inr \<lparr>wrVerb = ''PUT'', wrPath = resource_path ns (sName sip), wrParams = [], wrBody = Some (BodyResource sip)\<rparr> \<and>
          client_UpdateStatus c sip =
            Inr \<lparr>wrVerb = ''PUT'', wrPath = resource_path ns (sName sip) @ ''/status'', wrParams = [], wrBody = Some (BodyResource sip)\<rparr> \<and>
          client_Delete c (sName sip) opts =
            Inr \<lparr>wrVerb = ''DELETE'', wrPath = resource_path ns (sName sip), wrParams = [], wrBody = Some (BodyOptions opts)\<rparr> \<and>
          split_on slash (resource_path ns (sName sip)) =
            [] # api_segments @ [''namespaces'', ns, ''staticegressips'', sName sip]
     else (\<exists>e. client_Get c (sName sip) ps = Inl e) \<and> (\<exists>e. client_Update c sip = Inl e) \<and>
          (\<exists>e. client_UpdateStatus c sip = Inl e) \<and> (\<exists>e. client_Delete c (sName sip) opts = Inl e)) \<and>
    (if valid_segment ns
     then client_List c ps = Inr \<lparr>wrVerb = ''GET'', wrPath = collection_path ns, wrParams = ps, wrBody = None\<rparr> \<and>
          client_Create c sip =
            (if ns = [] then Inl (ErrText ''an empty namespace may not be set during creation'')
             else Inr \<lparr>wrVerb = ''POST'', wrPath = collection_path ns, wrParams = [], wrBody = Some (BodyResource sip)\<rparr>)
     else (\<exists>e. client_List c ps = Inl e) \<and> (\<exists>e. client_Create c sip = Inl e)) \<and>
    (if valid_segment ns
     then client_Watch c opt = Inr \<lparr>wrVerb = ''GET'', wrPath = collection_path ns, wrParams = opt True, wrBody = None\<rparr> \<and>
          client_DeleteCollection c opts ps =
            Inr \<lparr>wrVerb = ''DELETE'', wrPath = collection_path ns, wrParams = ps, wrBody = Some (BodyOptions opts)\<rparr>
     else (\<exists>e. client_Watch c opt = Inl e) \<and> (\<exists>e. client_DeleteCollection c opts ps = Inl e)) \<and>
    (if valid_segment ns \<and> n \<noteq> [] \<and> valid_segment n \<and> list_all valid_segment subs
     then client_Patch c n data subs =
       Inr \<lparr>wrVerb = ''PATCH'', wrPath = patch_path ns n subs, wrParams = [], wrBody = Some (BodyBytes data)\<rparr> \<and>
       (ns \<noteq> [] \<longrightarrow> patch_path ns n [] = resource_path ns n)
     else \<exists>e. client_Patch c n data subs = Inl e)"
proof -
  have c: "rcPrefix (eiClient c) = rooted api_segments" "eiNs c = ns"
    using clientset_prefix [OF assms(1,2)] assms(3) by (simp_all add: client_StaticEgressIPs_def)
  have readback: "split_on slash (resource_path ns n) = [] # api_segments @ [''namespaces'', ns, ''staticegressips'', n]"
    if "valid_segment ns" "valid_segment n" for n
    unfolding resource_path_def rooted_def split_rooted using that fixed_segments
    by (subst split_joined) (auto simp: clean_segment_def valid_segment_def slash_def)
  show ?thesis
  proof (intro conjI, goal_cases)
    case 1
    show ?case
    proof (cases "ns \<noteq> [] \<and> valid_segment ns \<and> sName sip \<noteq> [] \<and> valid_segment (sName sip)")
      case True
      then show ?thesis using methods_named [OF c, of sip] readback [of "sName sip"] by simp
    next
      case False
      then show ?thesis unfolding if_not_P [OF False] by (intro conjI methods_refuse [OF c])
    qed
  next
    case 2
    show ?case by (simp add: methods_collection [OF c])
  next
    case 3
    show ?case by (simp add: methods_rest(2,3) [OF c])
  next
    case 4
    show ?case using methods_rest(1) [OF c, of n subs data] by (simp add: patch_path_def resource_path_def split: if_splits)
  qed
qed

text \<open>The client of a pod in the cluster updates a resource of the default namespace.\<close>

theorem client_addresses_witness:
  "\<exists>cs. clientset_NewForConfig (\<lambda>c. Inr []) (\<lambda>c. Inr ()) ''agent'' \<lparr>cfHost = ''10.0.0.1'', cfAPIPath = [], cfGroupVersion = None,
        cfUserAgent = [], cfQPS = 5, cfBurst = 10, cfRateLimiter = None\<rparr> = Inr cs \<and>
     client_Update (client_StaticEgressIPs cs ''default'') \<lparr>sName = ''eip'', sNamespace = ''default'', Spec = \<lparr>Rules = []\<rparr>,
        Status = \<lparr>GatewayNode = ''u1'', GatewayIP = ''192.168.1.10''\<rparr>\<rparr> =
     Inr \<lparr>wrVerb = ''PUT'', wrPath = resource_path ''default'' ''eip'', wrParams = [],
        wrBody = Some (BodyResource \<lparr>sName = ''eip'', sNamespace = ''default'', Spec = \<lparr>Rules = []\<rparr>,
          Status = \<lparr>GatewayNode = ''u1'', GatewayIP = ''192.168.1.10''\<rparr>\<rparr>)\<rparr>"
proof -
  let ?cfg = "\<lparr>cfHost = ''10.0.0.1'', cfAPIPath = [], cfGroupVersion = None, cfUserAgent = [], cfQPS = 5, cfBurst = 10, cfRateLimiter = None\<rparr>"
  let ?sip = "\<lparr>sName = ''eip'', sNamespace = ''default'', Spec = \<lparr>Rules = []\<rparr>, Status = \<lparr>GatewayNode = ''u1'', GatewayIP = ''192.168.1.10''\<rparr>\<rparr>"
  obtain cs :: "unit clientset" where cs: "clientset_NewForConfig (\<lambda>c. Inr []) (\<lambda>c. Inr ()) ''agent'' ?cfg = Inr cs"
    by (simp add: clientset_NewForConfig_def typed_NewForConfig_def RESTClientFor_def setConfigDefaults_def Let_def)
  have "valid_segment ''default''" "valid_segment ''eip''" by (simp_all add: valid_segment_def)
  then show ?thesis
    using client_addresses [OF cs _ refl, where ns = "''default''" and sip = ?sip] cs by (simp split: if_splits)
qed

end
