(* ===== verification/Commands.thy ===== *)
theory Commands
  imports Handlers Startup Informers RestClient
begin

text \<open>
  The two programs of \<open>cmd\<close> from \<open>main\<close> to the call of \<open>Run\<close>, with \<open>pkg/signals\<close>: what is
  wired to what, and in which order it is started.
\<close>

section \<open>Signals\<close>

datatype os_signal = Interrupt | SIGTERM | OtherSignal

definition shutdownSignals :: "os_signal list" where
  "shutdownSignals = [Interrupt, SIGTERM]"

text \<open>
  The package variable \<open>onlyOneSignalHandler\<close>, the stop channel, the buffered channel of
  signals, how many the goroutine has taken, and whether it has called \<open>os.Exit(1)\<close>.
\<close>

record signal_state =
  sgOnce :: bool
  sgStop :: bool
  sgPending :: nat
  sgTaken :: nat
  sgExit :: bool

definition no_signals :: signal_state where
  "no_signals = \<lparr>sgOnce = False, sgStop = False, sgPending = 0, sgTaken = 0, sgExit = False\<rparr>"

definition SetupSignalHandler :: "(signal_state, unit) prog" where
  "SetupSignalHandler st = (if sgOnce st then (Panic CloseClosed, st) else (Ok (), st\<lparr>sgOnce := True\<rparr>))"

text \<open>\<open>signal.Notify\<close> does not block: what does not fit into the buffer of two is dropped.\<close>

definition deliver_signal :: "os_signal \<Rightarrow> signal_state \<Rightarrow> signal_state" where
  "deliver_signal sig st =
     (if sgOnce st \<and> sig \<in> set shutdownSignals \<and> sgPending st < 2 then st\<lparr>sgPending := Suc (sgPending st)\<rparr> else st)"

text \<open>A step of the goroutine: it waits while the channel is empty.\<close>

definition take_signal :: "signal_state \<Rightarrow> signal_state" where
  "take_signal st =
     (if sgPending st = 0 \<or> sgExit st then st
      else if sgTaken st = 0 then st\<lparr>sgPending := sgPending st - 1, sgTaken := 1, sgStop := True\<rparr>
      else if sgTaken st = 1 then st\<lparr>sgPending := sgPending st - 1, sgTaken := 2, sgExit := True\<rparr>
      else st)"

datatype signal_move = Deliver os_signal | Take

fun signal_run :: "signal_move list \<Rightarrow> signal_state \<Rightarrow> signal_state" where
  "signal_run [] st = st"
| "signal_run (Deliver sig # ms) st = signal_run ms (deliver_signal sig st)"
| "signal_run (Take # ms) st = signal_run ms (take_signal st)"

fun shutdowns :: "signal_move list \<Rightarrow> nat" where
  "shutdowns [] = 0"
| "shutdowns (Deliver sig # ms) = (if sig \<in> set shutdownSignals then Suc (shutdowns ms) else shutdowns ms)"
| "shutdowns (Take # ms) = shutdowns ms"

text \<open>The invariant, with \<open>n\<close> signals sent so far.\<close>

definition signals_ok :: "nat \<Rightarrow> signal_state \<Rightarrow> bool" where
  "signals_ok n st \<longleftrightarrow> sgOnce st \<and> sgTaken st \<le> 2 \<and> sgTaken st + sgPending st \<le> n \<and> sgPending st \<le> 2 \<and>
     min n 2 \<le> sgTaken st + sgPending st \<and> (sgStop st \<longleftrightarrow> 1 \<le> sgTaken st) \<and> (sgExit st \<longleftrightarrow> sgTaken st = 2)"

lemma signals_ok_deliver:
  "signals_ok n st \<Longrightarrow> signals_ok (if sig \<in> set shutdownSignals then Suc n else n) (deliver_signal sig st)"
  by (auto simp: signals_ok_def deliver_signal_def)

lemma signals_ok_take: "signals_ok n st \<Longrightarrow> signals_ok n (take_signal st)"
  by (auto simp: signals_ok_def take_signal_def)

lemma signals_ok_run: "signals_ok n st \<Longrightarrow> signals_ok (n + shutdowns ms) (signal_run ms st)"
proof (induction ms arbitrary: n st)
  case (Cons m ms)
  show ?case
  proof (cases m)
    case (Deliver sig)
    then show ?thesis using Cons.IH [OF signals_ok_deliver [OF Cons.prems, of sig]] by (auto split: if_splits)
  next
    case Take
    then show ?thesis using Cons.IH [OF signals_ok_take [OF Cons.prems]] by simp
  qed
qed simp

lemma signal_run_append: "signal_run (xs @ ys) st = signal_run ys (signal_run xs st)"
proof (induction xs arbitrary: st)
  case (Cons m ms)
  then show ?case by (cases m) simp_all
qed simp

lemma signals_settle:
  assumes "signals_ok n st"
  shows "(sgStop (take_signal (take_signal st)) \<longleftrightarrow> 1 \<le> n) \<and> (sgExit (take_signal (take_signal st)) \<longleftrightarrow> 2 \<le> n)"
  using assms by (auto simp: signals_ok_def take_signal_def)

text \<open>
  Once the handler is set up: the stop channel is closed only after an interrupt or a SIGTERM,
  the process exits only after the second, and as soon as the goroutine has run, the first
  has closed the channel and the second has ended the process, however many signals came in
  whatever bursts. Setting it up again panics.
\<close>

lemma signals_stop:
  assumes "SetupSignalHandler no_signals = (Ok (), st)"
  shows "(sgStop (signal_run ms st) \<longrightarrow> 1 \<le> shutdowns ms) \<and> (sgExit (signal_run ms st) \<longrightarrow> 2 \<le> shutdowns ms) \<and>
     (sgStop (signal_run (ms @ [Take, Take]) st) \<longleftrightarrow> 1 \<le> shutdowns ms) \<and>
     (sgExit (signal_run (ms @ [Take, Take]) st) \<longleftrightarrow> 2 \<le> shutdowns ms) \<and>
     fst (SetupSignalHandler (signal_run ms st)) = Panic CloseClosed"
proof -
  have "signals_ok 0 st" using assms by (auto simp: SetupSignalHandler_def no_signals_def signals_ok_def)
  then have inv: "signals_ok (shutdowns ms) (signal_run ms st)" using signals_ok_run [of 0 st ms] by simp
  show ?thesis using inv signals_settle [OF inv] unfolding signal_run_append
    by (auto simp: signals_ok_def SetupSignalHandler_def)
qed

lemma signals_stop_witness:
  "sgStop (signal_run [Deliver OtherSignal, Deliver SIGTERM, Take, Take] (no_signals\<lparr>sgOnce := True\<rparr>)) \<and>
   \<not> sgExit (signal_run [Deliver OtherSignal, Deliver SIGTERM, Take, Take] (no_signals\<lparr>sgOnce := True\<rparr>))"
proof -
  have "SetupSignalHandler no_signals = (Ok (), no_signals\<lparr>sgOnce := True\<rparr>)" by (simp add: SetupSignalHandler_def no_signals_def)
  from signals_stop [OF this, of "[Deliver OtherSignal, Deliver SIGTERM]"] show ?thesis by (simp add: shutdownSignals_def)
qed

section \<open>The programs\<close>

text \<open>
  What the programs are given: the node, the configuration that the flags lead to, the clients
  of Kubernetes, and how a Go map is iterated. \<open>evStore\<close> is what the indexer of the informer
  with an address holds, \<open>evSynced\<close> whether it was filled once.
\<close>

type_synonym list_options = "bool \<Rightarrow> (string \<times> string) list"

type_synonym egress_answer = "goerror + client_body wire_request"

record ('w, 'd, 'o, 'r) cluster_env =
  evHost :: "'w host"
  evConfig :: "goerror + rest_config"
  evKube :: "rest_config \<Rightarrow> goerror + ('o, 'r) egress_client"
  evServer :: "rest_config \<Rightarrow> goerror + string"
  evDiscovery :: "rest_config \<Rightarrow> goerror + 'd"
  evAgent :: string
  evStore :: "'w \<Rightarrow> nat \<Rightarrow> string \<Rightarrow> static_egress_ip option"
  evEndpoints :: "'w \<Rightarrow> nat \<Rightarrow> string \<Rightarrow> endpoints option"
  evSynced :: "'w \<Rightarrow> nat \<Rightarrow> bool"
  evOrder :: "(string \<Rightarrow> nat option) \<Rightarrow> string list"

text \<open>The client of the resources, as the informer of the factory calls it.\<close>

definition egress_client_of :: "'d clientset \<Rightarrow> (list_options, egress_answer) egress_client" where
  "egress_client_of cs =
     \<lparr>clList = (\<lambda>ns options. client_List (client_StaticEgressIPs cs ns) (options False)),
      clWatch = (\<lambda>ns options. client_Watch (client_StaticEgressIPs cs ns) options)\<rparr>"

text \<open>The factory of Kubernetes is generated from the same template.\<close>

definition Endpoints_type :: string where
  "Endpoints_type = ''*v1.Endpoints''"

text \<open>A range loop over the informers visits every one once, in some order.\<close>

definition informer_types :: "string list" where
  "informer_types = [StaticEgressIP_type, Endpoints_type]"

definition map_order :: "((string \<Rightarrow> nat option) \<Rightarrow> string list) \<Rightarrow> bool" where
  "map_order f \<longleftrightarrow> (\<forall>m. dom m \<subseteq> set informer_types \<longrightarrow> distinct (f m) \<and> set (f m) = dom m)"

definition endpoints_of :: "('o, 'r) informer_proc \<Rightarrow> 'o egress_accessor" where
  "endpoints_of ip = \<lparr>acNamespace = fyNamespace (ipFactory ip), acTweak = fyTweak (ipFactory ip)\<rparr>"

definition endpoints_Lister :: "'o egress_accessor \<Rightarrow> ('o, 'r) informer_proc \<Rightarrow> nat \<times> ('o, 'r) informer_proc" where
  "endpoints_Lister ac ip = factory_InformerFor Endpoints_type (defaultInformer ac) ip"

text \<open>
  The controller, its two factories, the informer whose \<open>HasSynced\<close> it waits for, and the
  informers that call its handlers.
\<close>

record ('w, 'o, 'r) wired =
  wdController :: "'w controller"
  wdEgress :: "(list_options, egress_answer) informer_proc"
  wdKube :: "('o, 'r) informer_proc"
  wdSynced :: nat
  wdHandlers :: "nat list"

definition NewEgressIPController_informers ::
  "('w, 'd, 'o, 'r) cluster_env \<Rightarrow> 'o egress_accessor \<Rightarrow> list_options egress_accessor \<Rightarrow> ('o, 'r) informer_proc \<Rightarrow>
     (list_options, egress_answer) informer_proc \<Rightarrow> ('w proc, ('w, 'o, 'r) wired) prog" where
  "NewEgressIPController_informers env endpointsInformer egressIPInformer ku eg =
     (case accessor_Lister egressIPInformer eg of (lister, eg1) \<Rightarrow>
      case endpoints_Lister endpointsInformer ku of (epLister, ku1) \<Rightarrow>
      case accessor_Informer egressIPInformer eg1 of (synced, eg2) \<Rightarrow>
      case accessor_Informer egressIPInformer eg2 of (handled, eg3) \<Rightarrow>
        bindE (NewEgressIPController (evHost env) (\<lambda>w. evStore env w lister) (\<lambda>w. evEndpoints env w epLister))
          (\<lambda>c. returnE \<lparr>wdController = c, wdEgress = eg3, wdKube = ku1, wdSynced = synced, wdHandlers = [handled]\<rparr>))"

record 'w main_state =
  msNode :: "'w proc"
  msSignals :: signal_state

definition main_node :: "('w proc, 'a) prog \<Rightarrow> ('w main_state, 'a) prog" where
  "main_node m st = (case m (msNode st) of (r, p) \<Rightarrow> (r, st\<lparr>msNode := p\<rparr>))"

definition main_signals :: "(signal_state, 'a) prog \<Rightarrow> ('w main_state, 'a) prog" where
  "main_signals m st = (case m (msSignals st) of (r, s) \<Rightarrow> (r, st\<lparr>msSignals := s\<rparr>))"

definition resultE :: "goerror + 'a \<Rightarrow> ('s, 'a) prog" where
  "resultE x = (case x of Inl e \<Rightarrow> failE e | Inr v \<Rightarrow> returnE v)"

definition resyncPeriod :: int where
  "resyncPeriod = 30 * 1000000000"

text \<open>\<open>Start\<close> of a factory in its process.\<close>

definition start_factory :: "((string \<Rightarrow> nat option) \<Rightarrow> string list) \<Rightarrow> ('o, 'r) informer_proc \<Rightarrow> ('o, 'r) informer_proc" where
  "start_factory order ip = factory_Start (order (fyInformers (ipFactory ip))) ip"

text \<open>\<open>main\<close> of the controller up to the call of \<open>Run\<close>, and to where \<open>Run\<close> starts the workers.\<close>

definition controller_wiring :: "('w, 'd, 'o, 'r) cluster_env \<Rightarrow> ('w main_state, ('w, 'o, 'r) wired) prog" where
  "controller_wiring env =
     bindE (main_signals SetupSignalHandler)
       (\<lambda>_.
     bindE (fatalE (resultE (evConfig env)))
       (\<lambda>cfg.
     bindE (fatalE (resultE (evKube env cfg)))
       (\<lambda>kubeClient.
     bindE (fatalE (resultE (clientset_NewForConfig (evServer env) (evDiscovery env) (evAgent env) cfg)))
       (\<lambda>egressipClient.
     let ku = new_informer_proc (NewSharedInformerFactory kubeClient resyncPeriod);
         eg = new_informer_proc (NewSharedInformerFactory (egress_client_of egressipClient) resyncPeriod) in
     bindE (main_node (NewEgressIPController_informers env (endpoints_of ku) (egressIPs_of eg) ku eg))
       (\<lambda>wd. returnE (wd\<lparr>wdKube := start_factory (evOrder env) (wdKube wd),
                         wdEgress := start_factory (evOrder env) (wdEgress wd)\<rparr>))))))"

definition controller_main :: "('w, 'd, 'o, 'r) cluster_env \<Rightarrow> ('w main_state, ('w, 'o, 'r) wired) prog" where
  "controller_main env =
     bindE (controller_wiring env)
       (\<lambda>wd. bindE (main_node (fatalE (controller_Run (evHost env) (\<lambda>w. evSynced env w (wdSynced wd)) (wdController wd))))
          (\<lambda>c. returnE (wd\<lparr>wdController := c\<rparr>)))"

text \<open>\<open>main\<close> of the gateway manager up to the call of \<open>Run\<close>: the lister that the manager gets.\<close>

definition manager_wiring ::
  "('w, 'd, 'o, 'r) cluster_env \<Rightarrow> ('w main_state, nat \<times> (list_options, egress_answer) informer_proc) prog" where
  "manager_wiring env =
     bindE (main_signals SetupSignalHandler)
       (\<lambda>_.
     bindE (fatalE (resultE (evConfig env)))
       (\<lambda>cfg.
     bindE (fatalE (resultE (evKube env cfg)))
       (\<lambda>kubeClient.
     bindE (fatalE (resultE (clientset_NewForConfig (evServer env) (evDiscovery env) (evAgent env) cfg)))
       (\<lambda>egressipClient.
     let eg = new_informer_proc (NewSharedInformerFactory (egress_client_of egressipClient) resyncPeriod) in
     case accessor_Lister (egressIPs_of eg) eg of (lister, eg1) \<Rightarrow> returnE (lister, start_factory (evOrder env) eg1)))))"

section \<open>What runs after the start\<close>

lemma informer_types_set [simp]: "StaticEgressIP_type \<in> set informer_types" "Endpoints_type \<in> set informer_types"
  by (simp_all add: informer_types_def)

lemma map_order_single:
  assumes "map_order f" and "k \<in> set informer_types"
  shows "f [k \<mapsto> a] = [k]"
proof -
  have "distinct (f [k \<mapsto> a])" "set (f [k \<mapsto> a]) = {k}" using assms by (auto simp: map_order_def)
  then show ?thesis by (cases "f [k \<mapsto> a]"; cases "tl (f [k \<mapsto> a])") (auto simp: subset_singleton_iff)
qed

text \<open>The process of a factory that was asked for one informer, and then started.\<close>

definition one_informer :: "string \<Rightarrow> ('o, 'r) informer \<Rightarrow> ('o, 'r) informer_proc \<Rightarrow> bool" where
  "one_informer ty i ip \<longleftrightarrow> ipObjects ip = [i] \<and> fyInformers (ipFactory ip) = [ty \<mapsto> 0]"

lemma InformerFor_first:
  assumes "ip = new_informer_proc (NewSharedInformerFactory client resync)" and "factory_InformerFor ty newFunc ip = (a, ip')"
  shows "a = 0 \<and> one_informer ty (newFunc client resync) ip' \<and> ipRuns ip' = [] \<and> fyStarted (ipFactory ip') = (\<lambda>_. False)"
  using assms by (auto simp: factory_InformerFor_def new_informer_proc_def NewSharedInformerFactory_def
      NewSharedInformerFactoryWithOptions_def one_informer_def Let_def)

lemma InformerFor_again:
  "one_informer ty i ip \<Longrightarrow> factory_InformerFor ty newFunc ip = (0, ip)"
  by (simp add: factory_InformerFor_def one_informer_def Let_def)

lemma start_one_informer:
  assumes "map_order f" and "ty \<in> set informer_types" and "one_informer ty i ip" and "ipRuns ip = []"
    and "\<not> fyStarted (ipFactory ip) ty"
  shows "one_informer ty i (start_factory f ip)" and "ipRuns (start_factory f ip) = [0]"
  using assms map_order_single [OF assms(1,2), of 0]
  by (auto simp: start_factory_def factory_Start_def start_one_def one_informer_def)

text \<open>The informer lists and watches the resources of all namespaces.\<close>

definition watches_all :: "(list_options, egress_answer) informer \<Rightarrow> bool" where
  "watches_all i \<longleftrightarrow> (\<forall>options.
     informer_ListFunc i options =
       Inr \<lparr>wrVerb = ''GET'', wrPath = collection_path [], wrParams = options False, wrBody = None\<rparr> \<and>
     informer_WatchFunc i options =
       Inr \<lparr>wrVerb = ''GET'', wrPath = collection_path [], wrParams = options True, wrBody = None\<rparr>)"

lemma watch_collection:
  assumes "rcPrefix (eiClient c) = rooted api_segments" "eiNs c = []"
  shows "client_Watch c opts = Inr \<lparr>wrVerb = ''GET'', wrPath = collection_path [], wrParams = opts True, wrBody = None\<rparr>"
  using collection_url [of "[]" "(in_namespace c ''GET'')\<lparr>rqParams := opts True\<rparr>"]
  by (simp add: client_Watch_def in_namespace_run [OF assms(1), unfolded assms(2)] builder_defs rq_Watch_def on_the_wire_def
      valid_segment_def)

lemma factory_watches_all:
  assumes "clientset_NewForConfig server disc agent cfg = Inr cs" and "\<forall>c p. server c = Inr p \<longrightarrow> p = []"
    and "ac = egressIPs_of (new_informer_proc (NewSharedInformerFactory (egress_client_of cs) resync))"
  shows "watches_all (defaultInformer ac (egress_client_of cs) resync')"
proof -
  let ?c = "client_StaticEgressIPs cs []"
  have c: "rcPrefix (eiClient ?c) = rooted api_segments" "eiNs ?c = []"
    using clientset_prefix [OF assms(1,2)] by (simp_all add: client_StaticEgressIPs_def)
  have "valid_segment []" by (simp add: valid_segment_def)
  then show ?thesis
    using methods_collection(1) [OF c] watch_collection [OF c]
    by (simp add: watches_all_def assms(3) egressIPs_of_def version_StaticEgressIPs_def group_V1alpha1_def factory_Staticegressips_def
        new_informer_proc_def NewSharedInformerFactory_def NewSharedInformerFactoryWithOptions_def defaultInformer_def
        NewFilteredStaticEgressIPInformer_def informer_ListFunc_def informer_WatchFunc_def egress_client_of_def)
qed

lemma resultE_Ok [simp]: "resultE x st = (Ok y, st') \<longleftrightarrow> x = Inr y \<and> st' = st"
  by (auto simp: resultE_def split: sum.split)

lemma main_signals_Ok: "main_signals SetupSignalHandler st = (Ok u, st') \<longleftrightarrow>
    \<not> sgOnce (msSignals st) \<and> st' = st\<lparr>msSignals := (msSignals st)\<lparr>sgOnce := True\<rparr>\<rparr>"
  by (auto simp: main_signals_def SetupSignalHandler_def)

lemma main_node_Ok: "main_node m st = (Ok x, st') \<longleftrightarrow> (\<exists>p. m (msNode st) = (Ok x, p) \<and> st' = st\<lparr>msNode := p\<rparr>)"
  by (auto simp: main_node_def split: prod.split)

lemma bindE_Ok_iff: "bindE m f st = (Ok y, st'') \<longleftrightarrow> (\<exists>x st'. m st = (Ok x, st') \<and> f x st' = (Ok y, st''))"
  by (auto simp: bindE_def split: prod.split outcome.split)

lemma NewController_Ok:
  assumes "NewEgressIPController h sips eps p = (Ok c, p')"
  shows "egressIndexer c = sips \<and> endpointsIndexer c = eps \<and> trafficDirector c = None \<and> trafficGateway c = None"
  using assms by (auto simp: NewEgressIPController_def bindE_Ok_iff)

lemma controller_Run_Ok:
  assumes "controller_Run h synced c p = (Ok c', p')"
  shows "egressIndexer c' = egressIndexer c \<and> endpointsIndexer c' = endpointsIndexer c \<and> synced (os p') \<and>
    trafficDirector c' \<noteq> None \<and> trafficGateway c' \<noteq> None"
  using assms by (auto simp: controller_Run_def bindE_Ok_iff readE_def split: if_splits)

lemma controller_wiring_Ok:
  assumes order: "map_order (evOrder env)" and server: "\<forall>c p. evServer env c = Inr p \<longrightarrow> p = []"
    and run: "controller_wiring env st = (Ok wd, st')"
  shows "\<not> sgOnce (msSignals st) \<and> sgOnce (msSignals st') \<and>
     (\<exists>i j. one_informer StaticEgressIP_type i (wdEgress wd) \<and> one_informer Endpoints_type j (wdKube wd) \<and> watches_all i) \<and>
     ipRuns (wdEgress wd) = [0] \<and> ipRuns (wdKube wd) = [0] \<and> wdSynced wd = 0 \<and> wdHandlers wd = [0] \<and>
     egressIndexer (wdController wd) = (\<lambda>w. evStore env w 0) \<and> endpointsIndexer (wdController wd) = (\<lambda>w. evEndpoints env w 0) \<and>
     trafficDirector (wdController wd) = None \<and> trafficGateway (wdController wd) = None"
proof -
  let ?ku = "\<lambda>kc. new_informer_proc (NewSharedInformerFactory kc resyncPeriod)"
  obtain cfg kc cs wd0 p where once: "\<not> sgOnce (msSignals st)"
    and cs: "clientset_NewForConfig (evServer env) (evDiscovery env) (evAgent env) cfg = Inr cs"
    and new: "NewEgressIPController_informers env (endpoints_of (?ku kc)) (egressIPs_of (?ku (egress_client_of cs)))
        (?ku kc) (?ku (egress_client_of cs)) (msNode st) = (Ok wd0, p)"
    and wd: "wd = wd0\<lparr>wdKube := start_factory (evOrder env) (wdKube wd0), wdEgress := start_factory (evOrder env) (wdEgress wd0)\<rparr>"
    and st': "sgOnce (msSignals st')"
    using run by (auto simp: controller_wiring_def bindE_Ok_iff main_signals_Ok main_node_Ok Let_def)
  let ?eac = "egressIPs_of (?ku (egress_client_of cs)) :: list_options egress_accessor"
  let ?i = "defaultInformer ?eac (egress_client_of cs) resyncPeriod"
  obtain a eg1 b ku1 where eg1: "factory_InformerFor StaticEgressIP_type (defaultInformer ?eac) (?ku (egress_client_of cs)) = (a, eg1)"
    and ku1: "factory_InformerFor Endpoints_type (defaultInformer (endpoints_of (?ku kc))) (?ku kc) = (b, ku1)"
    by (metis prod.exhaust)
  note e = InformerFor_first [OF refl eg1] and k = InformerFor_first [OF refl ku1]
  have again: "accessor_Informer ac eg1 = (0, eg1)" for ac using e InformerFor_again by (auto simp: accessor_Informer_def)
  obtain c where c: "NewEgressIPController (evHost env) (\<lambda>w. evStore env w 0) (\<lambda>w. evEndpoints env w 0) (msNode st) = (Ok c, p)"
    and wd0: "wd0 = \<lparr>wdController = c, wdEgress = eg1, wdKube = ku1, wdSynced = 0, wdHandlers = [0]\<rparr>"
    using new eg1 ku1 e k again
    by (auto simp: NewEgressIPController_informers_def accessor_Lister_def accessor_Informer_def endpoints_Lister_def bindE_Ok_iff)
  have "watches_all ?i" by (rule factory_watches_all [OF cs server refl])
  then show ?thesis
    using once st' NewController_Ok [OF c] e k start_one_informer [OF order, of StaticEgressIP_type ?i eg1]
      start_one_informer [OF order, of Endpoints_type "defaultInformer (endpoints_of (?ku kc)) kc resyncPeriod" ku1]
    unfolding wd wd0 by auto
qed

lemma manager_wiring_Ok:
  assumes order: "map_order (evOrder env)" and server: "\<forall>c p. evServer env c = Inr p \<longrightarrow> p = []"
    and run: "manager_wiring env st = (Ok (a, ip), st')"
  shows "ipRuns ip = [a] \<and> watches_all (ipObjects ip ! a)"
proof -
  let ?eg = "\<lambda>cs :: 'b clientset. new_informer_proc (NewSharedInformerFactory (egress_client_of cs) resyncPeriod)"
  let ?get = "\<lambda>cs. factory_InformerFor StaticEgressIP_type (defaultInformer (egressIPs_of (?eg cs))) (?eg cs)"
  obtain cfg cs where cs: "clientset_NewForConfig (evServer env) (evDiscovery env) (evAgent env) cfg = Inr cs"
    and get: "fst (?get cs) = a" "ip = start_factory (evOrder env) (snd (?get cs))"
    using run
    by (auto simp: manager_wiring_def bindE_Ok_iff Let_def accessor_Lister_def accessor_Informer_def case_prod_unfold)
  then obtain eg1 where eg1: "?get cs = (a, eg1)" and ip: "ip = start_factory (evOrder env) eg1" by (metis prod.collapse)
  note e = InformerFor_first [OF refl eg1]
  then show ?thesis
    using start_one_informer [OF order, of StaticEgressIP_type _ eg1] factory_watches_all [OF cs server refl]
    unfolding ip by (auto simp: one_informer_def)
qed

text \<open>Programs that do not return errors: what goes wrong is fatal.\<close>

definition errorless :: "('s, 'a) prog \<Rightarrow> bool" where
  "errorless m \<longleftrightarrow> (\<forall>s e s'. m s \<noteq> (Err e, s'))"

lemma errorless_bindE: "errorless m \<Longrightarrow> (\<And>x. errorless (f x)) \<Longrightarrow> errorless (bindE m f)"
  by (auto simp: errorless_def bindE_def split: prod.split outcome.split)

lemma errorless_catchE: "(\<And>e. errorless (f e)) \<Longrightarrow> errorless (catchE m f)"
  by (auto simp: errorless_def catchE_def split: prod.split outcome.split)

lemma errorless_main_node: "errorless m \<Longrightarrow> errorless (main_node m)"
  by (auto simp: errorless_def main_node_def split: prod.split)

lemma errorless_base: "errorless (returnE x)" "errorless (panicE k)" "errorless (main_signals SetupSignalHandler)"
  by (auto simp: errorless_def main_signals_def SetupSignalHandler_def)

lemma errorless_fatalE: "errorless (fatalE m)"
  unfolding fatalE_def by (intro errorless_catchE errorless_base)

lemma errorless_NewController: "errorless (NewEgressIPController_informers env x y ku eg)"
  unfolding NewEgressIPController_informers_def NewEgressIPController_def
  by (auto split: prod.split intro!: errorless_bindE errorless_catchE errorless_base)

lemma errorless_main: "errorless (controller_main env)"
  unfolding controller_main_def controller_wiring_def Let_def
  by (intro errorless_bindE errorless_main_node errorless_base errorless_fatalE errorless_NewController)

text \<open>
  C15 (wiring_fills_caches). When \<open>main\<close> of the controller has come to its workers, with an API server at the
  root of its host: each factory runs exactly one
  informer; the one of the resources lists and watches all namespaces, the lister that syncs
  read, the handlers and the wait for synchronisation belong to it, it has synchronised, and
  the controller has both handles. \<open>main\<close> does not return an error: it dies of it. The
  gateway manager gets a lister on an informer that runs too.
\<close>

theorem wiring_fills_caches:
  assumes "map_order (evOrder env)" and "\<forall>c p. evServer env c = Inr p \<longrightarrow> p = []"
    and "controller_main env st = (r, st')" and "manager_wiring env st2 = (r2, st2')"
  shows "(\<forall>wd. r = Ok wd \<longrightarrow>
      (\<exists>i a b. ipObjects (wdEgress wd) ! a = i \<and> watches_all i \<and> ipRuns (wdEgress wd) = [a] \<and> wdHandlers wd = [a] \<and>
         egressIndexer (wdController wd) = (\<lambda>w. evStore env w a) \<and> evSynced env (os (msNode st')) a \<and>
         ipRuns (wdKube wd) = [b] \<and> endpointsIndexer (wdController wd) = (\<lambda>w. evEndpoints env w b)) \<and>
      trafficDirector (wdController wd) \<noteq> None \<and> trafficGateway (wdController wd) \<noteq> None) \<and>
    (\<forall>e. r \<noteq> Err e) \<and>
    (\<forall>a ip. r2 = Ok (a, ip) \<longrightarrow> ipRuns ip = [a] \<and> watches_all (ipObjects ip ! a))"
proof (intro conjI allI impI)
  fix wd
  assume "r = Ok wd"
  then obtain wd0 st0 c p where w: "controller_wiring env st = (Ok wd0, st0)"
    and run: "controller_Run (evHost env) (\<lambda>w. evSynced env w (wdSynced wd0)) (wdController wd0) (msNode st0) = (Ok c, p)"
    and wd: "wd = wd0\<lparr>wdController := c\<rparr>" "st' = st0\<lparr>msNode := p\<rparr>"
    using assms(3) by (auto simp: controller_main_def bindE_Ok_iff main_node_Ok)
  note i = controller_wiring_Ok [OF assms(1,2) w] and k = controller_Run_Ok [OF run]
  then show "\<exists>i a b. ipObjects (wdEgress wd) ! a = i \<and> watches_all i \<and> ipRuns (wdEgress wd) = [a] \<and> wdHandlers wd = [a] \<and>
         egressIndexer (wdController wd) = (\<lambda>w. evStore env w a) \<and> evSynced env (os (msNode st')) a \<and>
         ipRuns (wdKube wd) = [b] \<and> endpointsIndexer (wdController wd) = (\<lambda>w. evEndpoints env w b)"
    by (intro exI [of _ "ipObjects (wdEgress wd) ! 0"] exI [of _ 0]) (auto simp: wd one_informer_def)
  show "trafficDirector (wdController wd) \<noteq> None" "trafficGateway (wdController wd) \<noteq> None" using k wd by auto
next
  show "r \<noteq> Err e" for e using assms(3) errorless_main by (metis errorless_def)
next
  fix a ip
  assume "r2 = Ok (a, ip)"
  then show "ipRuns ip = [a]" "watches_all (ipObjects ip ! a)" using manager_wiring_Ok [OF assms(1,2)] assms(4) by blast+
qed

text \<open>A pod on the node of the reference host, with a cluster that answers.\<close>

definition ref_config :: rest_config where
  "ref_config = \<lparr>cfHost = ''10.0.0.1'', cfAPIPath = [], cfGroupVersion = None, cfUserAgent = [], cfQPS = 0, cfBurst = 0,
     cfRateLimiter = None\<rparr>"

definition ref_env :: "(ref_world, unit, string, nat) cluster_env" where
  "ref_env = \<lparr>evHost = ref_alone, evConfig = Inr ref_config, evKube = (\<lambda>_. Inr ref_client), evServer = (\<lambda>_. Inr []),
     evDiscovery = (\<lambda>_. Inr ()), evAgent = ''agent'', evStore = (\<lambda>w a. Map.empty), evEndpoints = (\<lambda>w a. Map.empty),
     evSynced = (\<lambda>w a. True), evOrder = (\<lambda>m. filter (\<lambda>ty. m ty \<noteq> None) informer_types)\<rparr>"

definition ref_main :: "ref_world main_state" where
  "ref_main = \<lparr>msNode = ref_node_proc ''u1'' fresh_lx, msSignals = no_signals\<rparr>"

lemma ref_env_laws: "map_order (evOrder ref_env)" "\<forall>c p. evServer ref_env c = Inr p \<longrightarrow> p = []"
  by (auto simp: map_order_def ref_env_def informer_types_def StaticEgressIP_type_def Endpoints_type_def)

lemma ref_wiring:
  obtains wd where "controller_wiring ref_env ref_main = (Ok wd, ref_main\<lparr>msSignals := no_signals\<lparr>sgOnce := True\<rparr>\<rparr>)"
proof -
  obtain cs where cs: "clientset_NewForConfig (\<lambda>_. Inr []) (\<lambda>_. Inr ()) ''agent'' ref_config = Inr cs"
    by (simp add: clientset_NewForConfig_def typed_NewForConfig_def RESTClientFor_def setConfigDefaults_def Let_def)
  obtain node ip where self: "GetNodeObject ref_alone [] (msNode ref_main) = (Ok node, msNode ref_main)"
    using ref_alone_run(2) unfolding known_here_def by blast
  have "\<exists>wd. controller_wiring ref_env ref_main = (Ok wd, ref_main\<lparr>msSignals := no_signals\<lparr>sgOnce := True\<rparr>\<rparr>)"
    using cs self
    by (simp add: controller_wiring_def ref_env_def bindE_def main_signals_def SetupSignalHandler_def ref_main_def no_signals_def
        fatalE_def catchE_def resultE_def main_node_def NewEgressIPController_informers_def NewEgressIPController_def Let_def
        split: prod.split)
  then show thesis using that by blast
qed

theorem wiring_fills_caches_witness:
  "\<exists>wd st' a b. controller_main ref_env ref_main = (Ok wd, st') \<and> ipRuns (wdEgress wd) = [a] \<and> wdHandlers wd = [a] \<and>
     ipRuns (wdKube wd) = [b] \<and> trafficDirector (wdController wd) \<noteq> None"
proof -
  obtain wd where w: "controller_wiring ref_env ref_main = (Ok wd, ref_main\<lparr>msSignals := no_signals\<lparr>sgOnce := True\<rparr>\<rparr>)"
    by (rule ref_wiring)
  obtain r p where run: "controller_Run ref_alone (\<lambda>w. True) (wdController wd) (ref_node_proc ''u1'' fresh_lx) = (r, p)"
    by (rule prod.exhaust)
  obtain c where c: "r = Ok c"
    using controller_Run_reaches [OF ref_alone_laws(1) ref_alone_run(1) _ run] ref_alone_laws(2) ref_alone_run(2)
    by (auto simp: start_chains_def chain_in_def)
  obtain r2 st2 where m: "manager_wiring ref_env ref_main = (r2, st2)" by (rule prod.exhaust)
  obtain st' where main: "controller_main ref_env ref_main = (Ok (wd\<lparr>wdController := c\<rparr>), st')"
    using w run c by (simp add: controller_main_def bindE_def main_node_def fatalE_def catchE_def ref_env_def ref_main_def)
  show ?thesis using wiring_fills_caches [OF ref_env_laws main m] main by blast
qed

section \<open>Events before the handles\<close>

text \<open>
  The factories are started before \<open>Run\<close>, so from then on the handlers may be called while the
  fields of the controller for the director and the gateway are still nil.
\<close>

lemma calm_DeleteRoute: "calm (DeleteRouteToGateway h d n dst gw)"
  unfolding DeleteRouteToGateway_def by (intro calm_ops calm_New)

lemma calm_logE: "calm m \<Longrightarrow> calm (logE m)"
  by (auto simp: calm_def logE_run split: prod.split outcome.split)

lemma calm_foriE: "(\<And>i x. calm (body i x)) \<Longrightarrow> calm (foriE i xs body)"
  by (induction xs arbitrary: i) (simp_all add: calm_returnE calm_bindE)

lemma calm_delete_loop:
  assumes "trafficDirector c = Some d"
  shows "calm (foriE i rs (deleteRule_of h c sip))"
  by (rule calm_foriE) (simp add: deleteRule_of_def on_receiver_def assms calm_logE calm_DeleteRoute)

context reliable_node
begin

lemma nil_director_delete:
  assumes "trafficDirector c = None" and "path_ready t p"
  shows "\<exists>p'. deleteRule_of h c sip i rule p = (Panic NilDeref, p')"
proof -
  obtain s p' where "ipset_New h (ruleId sip i) ''hash:ip'' zero_params p = (Ok s, p')" using New_ok [OF assms(2)] by blast
  then show ?thesis
    using assms(1) by (intro exI [of _ p']) (simp add: deleteRule_of_def on_receiver_def logE_run bindE_def wrapE_run)
qed

end

text \<open>
  C40 (early_delete_crashes). A delete event that comes between \<open>main\<close> starting the informers and \<open>Run\<close> setting the
  director, for a resource that has a rule, kills the agent on a node without faults: the
  handler calls a method of a nil director. After \<open>Run\<close> the same event does not, and an add
  event never does.
\<close>

theorem early_delete_crashes:
  assumes "map_order (evOrder env)" and "\<forall>c p. evServer env c = Inr p \<longrightarrow> p = []"
    and "controller_wiring env st0 = (Ok wd, st1)" and "documented (evHost env) t v" and "reliable (evHost env) t v"
    and "path_ready t (agProc st)" and "deleted_object obj = Some sip" and "Rules (Spec sip) \<noteq> []"
  shows "fst (deleteStaticEgressIP (evHost env) (wdController wd) bucket now obj st) = Panic NilDeref \<and>
     (\<forall>k. fst (deleteStaticEgressIP (evHost env) ((wdController wd)\<lparr>trafficDirector := Some d\<rparr>) bucket now obj st) \<noteq> Panic k) \<and>
     fst (addStaticEgressIP bucket now (IsStaticEgressIP sip) st) = Ok ()"
proof -
  let ?h = "evHost env" and ?c = "wdController wd"
  have rn: "reliable_node ?h t v" using assms(4,5) by unfold_locales
  have none: "trafficDirector ?c = None" using controller_wiring_Ok [OF assms(1-3)] by blast
  obtain rule rest where rules: "Rules (Spec sip) = rule # rest" using assms(8) by (cases "Rules (Spec sip)") auto
  obtain p' where "deleteRule_of ?h ?c sip 0 rule (agProc st) = (Panic NilDeref, p')"
    using reliable_node.nil_director_delete [OF rn none assms(6)] by blast
  then have panic: "fst (deleteStaticEgressIP ?h ?c bucket now obj st) = Panic NilDeref"
    by (simp add: deleteStaticEgressIP_def assms(7) rules on_node_def bindE_def)
  have add: "fst (addStaticEgressIP bucket now (IsStaticEgressIP sip) st) = Ok ()"
    by (simp add: addStaticEgressIP_def enqueueStaticEgressIP_def)
  have calm: "fst (deleteStaticEgressIP ?h (?c\<lparr>trafficDirector := Some d\<rparr>) bucket now obj st) \<noteq> Panic k" for k
    using calmD [OF calm_delete_loop [of "?c\<lparr>trafficDirector := Some d\<rparr>" d 0 "Rules (Spec sip)" ?h sip], of "agProc st"]
    by (auto simp: deleteStaticEgressIP_def assms(7) bindE_def on_node_def enqueueStaticEgressIP_def
        split: prod.splits outcome.splits)
  show ?thesis using panic add calm by blast
qed

theorem early_delete_crashes_witness:
  "\<exists>wd st1. controller_wiring ref_env ref_main = (Ok wd, st1) \<and>
     fst (deleteStaticEgressIP ref_alone (wdController wd) 0 0 (IsStaticEgressIP (ref_resource ''u1''))
       \<lparr>agProc = msNode ref_main, agQueue = rq_New\<rparr>) = Panic NilDeref"
proof -
  let ?st = "\<lparr>agProc = msNode ref_main, agQueue = rq_New\<rparr> :: ref_world agent"
  obtain wd where w: "controller_wiring ref_env ref_main = (Ok wd, ref_main\<lparr>msSignals := no_signals\<lparr>sgOnce := True\<rparr>\<rparr>)"
    by (rule ref_wiring)
  have h: "evHost ref_env = ref_alone" by (simp add: ref_env_def)
  have "fst (deleteStaticEgressIP ref_alone (wdController wd) 0 0 (IsStaticEgressIP (ref_resource ''u1'')) ?st) = Panic NilDeref"
    using early_delete_crashes [OF ref_env_laws w, unfolded h, OF ref_alone_laws, of ?st "IsStaticEgressIP (ref_resource ''u1'')"
        "ref_resource ''u1''"]
    by (simp add: deleted_object_def ref_main_def)
  then show ?thesis using w by blast
qed

end
