(* ===== verification/Program.thy ===== *)
theory Program
  imports Agent Commands
begin

text \<open>
  The agent as a program: \<open>main\<close>, the events that come before \<open>Run\<close> has set the handles,
  \<open>Run\<close>, the workers, and the next process after an exit or a crash. That a process is killed in
  the middle of a sync, a handler or \<open>Run\<close> is added in Killed.
\<close>

section \<open>Lives\<close>

definition new_process :: "'w \<Rightarrow> 'w main_state" where
  "new_process w = \<lparr>msNode = \<lparr>os = w, ipsetPath = [], pkgIpsetPath = []\<rparr>, msSignals = no_signals\<rparr>"

text \<open>The flag says whether the life got to its workers.\<close>

inductive agent_life ::
  "('w, 'd, 'o, 'r) cluster_env \<Rightarrow> ('w \<Rightarrow> linux) \<Rightarrow> 'w \<Rightarrow> agent_event list \<Rightarrow> bool \<Rightarrow> 'w \<Rightarrow> bool"
  for env :: "('w, 'd, 'o, 'r) cluster_env" and v :: "'w \<Rightarrow> linux" where
  not_wired: "controller_wiring env (new_process w) = (r, ms) \<Longrightarrow> (\<forall>wd. r \<noteq> Ok wd) \<Longrightarrow> agent_life env v w [] False (os (msNode ms))"
| dies_early: "controller_wiring env (new_process w) = (Ok wd, ms) \<Longrightarrow> Round \<notin> set es \<Longrightarrow>
     agent_run (evHost env) v (wdController wd) es \<lparr>agProc = msNode ms, agQueue = rq_New\<rparr> st \<Longrightarrow>
     agent_life env v w es False (os (agProc st))"
| dies_in_Run: "controller_wiring env (new_process w) = (Ok wd, ms) \<Longrightarrow> Round \<notin> set es \<Longrightarrow>
     agent_run (evHost env) v (wdController wd) es \<lparr>agProc = msNode ms, agQueue = rq_New\<rparr> st \<Longrightarrow>
     controller_Run (evHost env) (\<lambda>w. evSynced env w (wdSynced wd)) (wdController wd) (agProc st) = (r, p) \<Longrightarrow>
     (\<forall>c. r \<noteq> Ok c) \<Longrightarrow> agent_life env v w es False (os p)"
| works: "controller_wiring env (new_process w) = (Ok wd, ms) \<Longrightarrow> Round \<notin> set es \<Longrightarrow>
     agent_run (evHost env) v (wdController wd) es \<lparr>agProc = msNode ms, agQueue = rq_New\<rparr> st \<Longrightarrow>
     controller_Run (evHost env) (\<lambda>w. evSynced env w (wdSynced wd)) (wdController wd) (agProc st) = (Ok c, p) \<Longrightarrow>
     agent_run (evHost env) v c es' (st\<lparr>agProc := p\<rparr>) st' \<Longrightarrow> agent_life env v w (es @ es') True (os (agProc st'))"

inductive agent_lives ::
  "('w, 'd, 'o, 'r) cluster_env \<Rightarrow> ('w \<Rightarrow> linux) \<Rightarrow> 'w \<Rightarrow> agent_event list \<Rightarrow> bool \<Rightarrow> 'w \<Rightarrow> bool"
  for env :: "('w, 'd, 'o, 'r) cluster_env" and v :: "'w \<Rightarrow> linux" where
  no_life: "agent_lives env v w [] False w"
| next_life: "agent_life env v w es b w1 \<Longrightarrow> v w2 = v w1 \<Longrightarrow> agent_lives env v w2 es' b' w3 \<Longrightarrow>
     agent_lives env v w (es @ es') (b \<or> b') w3"

section \<open>What a life may do\<close>

definition store_rules :: "('w, 'd, 'o, 'r) cluster_env \<Rightarrow> rule_set" where
  "store_rules env = (\<Union>sip \<in> {sip. \<exists>w a key. evStore env w a key = Some sip}. gateway_all sip \<union> director_all sip)"

definition life_moves :: "rule_set \<Rightarrow> rule_set \<Rightarrow> linux \<Rightarrow> linux \<Rightarrow> bool" where
  "life_moves A B lx lx' \<longleftrightarrow>
     (node_wf lx \<longrightarrow> node_wf lx' \<and> node_edits lx lx' \<and> all_rules lx \<subseteq> all_rules lx' \<union> A \<and> all_rules lx' \<subseteq> all_rules lx \<union> B)"

lemma life_moves_refl: "life_moves A B lx lx"
  by (simp add: life_moves_def)

lemma life_moves_trans: "life_moves A B l1 l2 \<Longrightarrow> life_moves A' B' l2 l3 \<Longrightarrow> life_moves (A \<union> A') (B \<union> B') l1 l3"
  unfolding life_moves_def using rtranclp_trans [of node_edit l1 l2 l3] by blast

lemma life_moves_mono: "life_moves A B lx lx' \<Longrightarrow> A \<subseteq> A' \<Longrightarrow> B \<subseteq> B' \<Longrightarrow> life_moves A' B' lx lx'"
  unfolding life_moves_def by blast

lemma life_of_agent:
  "agent_moves t v A B st st' \<Longrightarrow> path_ready t (agProc st) \<Longrightarrow> rq_ok (agQueue st) \<Longrightarrow>
     life_moves A B (view v (agProc st)) (view v (agProc st'))"
  by (simp add: agent_moves_def agent_ok_def life_moves_def)

definition withdrawn_by :: "agent_event list \<Rightarrow> rule_set" where
  "withdrawn_by es = (\<Union>e \<in> set es. withdrawn e)"

lemma withdrawn_by_append [simp]: "withdrawn_by (es @ es') = withdrawn_by es \<union> withdrawn_by es'"
  by (simp add: withdrawn_by_def)

text \<open>The jumps that \<open>Run\<close> installs are not among the rules of resources.\<close>

lemma start_rules_kept: "start_rules \<inter> withdrawn_by es = {}"
proof -
  have "start_rules \<inter> (cleared_all sip \<union> director_all sip) = {}" for sip
    by (auto simp: start_rules_def setup_rules_def all_defs cleared_rules_def director_rules_def egressGatewayFWChainName_def
        egressGatewayNATChainName_def bypassCNIMasquradeChainName_def)
  then have "start_rules \<inter> withdrawn e = {}" for e
    unfolding withdrawn_def by (auto split: agent_event.split informer_obj.split option.split)
  then show ?thesis unfolding withdrawn_by_def by blast
qed

lemma NewController_state: "NewEgressIPController h sips eps p = (r, p') \<Longrightarrow> p' = p"
  using GetNodeObject_state [of h "[]" p]
  by (auto simp: NewEgressIPController_def bindE_def catchE_def split: prod.splits outcome.splits)

lemma wiring_controller:
  assumes "controller_wiring env st = (Ok wd, st')"
  shows "\<exists>a. egressIndexer (wdController wd) = (\<lambda>w. evStore env w a)"
    and "trafficDirector (wdController wd) = None" and "trafficGateway (wdController wd) = None"
proof -
  obtain b p wd0 ku eg x y where "NewEgressIPController_informers env x y ku eg p = (Ok wd0, b)"
    and wd: "wdController wd = wdController wd0"
    using assms by (auto simp: controller_wiring_def bindE_Ok_iff main_signals_Ok main_node_Ok Let_def)
  then obtain a e where "NewEgressIPController (evHost env) (\<lambda>w. evStore env w a) (\<lambda>w. evEndpoints env w e) p = (Ok (wdController wd), b)"
    by (auto simp: NewEgressIPController_informers_def bindE_Ok_iff split: prod.splits)
  then show "\<exists>a. egressIndexer (wdController wd) = (\<lambda>w. evStore env w a)" "trafficDirector (wdController wd) = None"
      "trafficGateway (wdController wd) = None"
    using NewController_Ok by blast+
qed

text \<open>Wiring leaves the node as it is.\<close>

interpretation nd: step_order "\<lambda>s s' :: 'w main_state. msNode s' = msNode s"
  by unfold_locales simp_all

lemma moves_resultE: "moves (\<lambda>s s' :: 'w main_state. msNode s' = msNode s) (fatalE (resultE x))"
  by (rule movesI) (auto simp: fatalE_def catchE_def resultE_def split: sum.splits)

lemma wiring_node:
  assumes "controller_wiring env st = (r, st')"
  shows "msNode st' = msNode st"
proof -
  have sig: "moves (\<lambda>s s' :: 'a main_state. msNode s' = msNode s) (main_signals SetupSignalHandler)"
    by (rule movesI) (auto simp: main_signals_def split: prod.splits)
  have new: "moves (\<lambda>s s' :: 'a main_state. msNode s' = msNode s) (main_node (NewEgressIPController_informers env x y ku eg))"
    for x y ku eg
    by (rule movesI)
      (auto simp: main_node_def NewEgressIPController_informers_def bindE_def dest: NewController_state
        split: prod.splits outcome.splits)
  have "moves (\<lambda>s s' :: 'a main_state. msNode s' = msNode s) (controller_wiring env)"
    unfolding controller_wiring_def Let_def by (intro nd.moves_bindE sig moves_resultE new nd.moves_returnE)
  from movesD [OF this assms] show ?thesis .
qed

section \<open>All lives\<close>

lemma early_moves:
  assumes doc: "documented (evHost env) t v" and w: "controller_wiring env (new_process w) = (Ok wd, ms)"
    and run: "agent_run (evHost env) v (wdController wd) es \<lparr>agProc = msNode ms, agQueue = rq_New\<rparr> st"
  shows "node_wf (v w) \<longrightarrow> path_ready t (agProc st) \<and> rq_ok (agQueue st)"
    and "life_moves (withdrawn_by es) (store_rules env) (v w) (view v (agProc st))"
proof -
  have nc: "node_contract (evHost env) t v" using doc by unfold_locales
  have node: "msNode ms = msNode (new_process w)" by (rule wiring_node [OF w])
  have ready: "ctl_ready t (wdController wd)" using wiring_controller(2,3) [OF w] by (simp add: ctl_ready_def)
  have sub: "resource_rules (wdController wd) \<subseteq> store_rules env"
    using wiring_controller(1) [OF w] unfolding resource_rules_def store_rules_def cached_def
    by (force simp: bind_eq_Some_conv split: prod.splits)
  have run': "agent_moves t v (withdrawn_by es) (resource_rules (wdController wd)) \<lparr>agProc = msNode ms, agQueue = rq_New\<rparr> st"
    using node_contract.run_moves [OF nc ready run] by (simp add: withdrawn_by_def)
  have ok: "rq_ok (agQueue \<lparr>agProc = msNode ms, agQueue = rq_New\<rparr>)" by (simp add: rq_ok_def wq_ok_def rq_New_def wq_New_def)
  have ms: "view v (msNode ms) = v w" "path_ready t (msNode ms)"
    using node by (simp_all add: new_process_def view_def path_ready_def)
  show "node_wf (v w) \<longrightarrow> path_ready t (agProc st) \<and> rq_ok (agQueue st)"
    using run' ok ms by (simp add: agent_moves_def agent_ok_def)
  show "life_moves (withdrawn_by es) (store_rules env) (v w) (view v (agProc st))"
    using life_moves_mono [OF life_of_agent [OF run' _ ok] subset_refl sub] ms by simp
qed

lemma Run_moves:
  assumes doc: "documented (evHost env) t v" and modern: "iptables_modern (evHost env) t" and path: "path_ready t p"
    and run: "controller_Run (evHost env) synced c p = (r, p')"
  shows "path_ready t p'" and "life_moves {} start_rules (view v p) (view v p')"
    and "r = Ok c' \<Longrightarrow> start_rules \<subseteq> all_rules (view v p')"
proof -
  note f = controller_Run_frame [OF doc modern path run]
  then show "path_ready t p'" "life_moves {} start_rules (view v p) (view v p')"
    using node_edits_wf by (auto simp: life_moves_def)
  show "start_rules \<subseteq> all_rules (view v p')" if "r = Ok c'"
    using controller_Run_effect [OF doc modern path run [unfolded that]] by (auto simp: started_def)
qed

lemma life_safe:
  assumes doc: "documented (evHost env) t v" and modern: "iptables_modern (evHost env) t"
    and life: "agent_life env v w es b w'" and wf: "node_wf (v w)"
  shows "life_moves (withdrawn_by es) (start_rules \<union> store_rules env) (v w) (v w') \<and> (b \<longrightarrow> start_rules \<subseteq> all_rules (v w'))"
  using life
proof cases
  case (not_wired r ms)
  then show ?thesis using wiring_node [OF not_wired(4)] by (simp add: life_moves_refl new_process_def)
next
  case (dies_early wd ms st)
  then show ?thesis
    using life_moves_mono [OF early_moves(2) [OF doc dies_early(3,5)]] by (simp add: view_def)
next
  case (dies_in_Run wd ms st r p)
  note e = early_moves [OF doc dies_in_Run(3,5)]
  then have "path_ready t (agProc st)" using wf by simp
  note r = Run_moves [OF doc modern this dies_in_Run(6)]
  show ?thesis using life_moves_mono [OF life_moves_trans [OF e(2) r(2)]] dies_in_Run(1,2) by (auto simp: view_def)
next
  case (works wd ms es1 st c p es2 st')
  note e = early_moves [OF doc works(4,6)]
  then have st: "path_ready t (agProc st)" "rq_ok (agQueue st)" using wf by simp_all
  note r = Run_moves [OF doc modern st(1) works(7)] and x = controller_Run_effect [OF doc modern st(1) works(7)]
  have wf': "node_wf (view v p)" using e(2) r(2) wf by (simp add: life_moves_def)
  have nc: "node_contract (evHost env) t v" using doc by unfold_locales
  have sub: "resource_rules c \<subseteq> store_rules env"
    using wiring_controller(1) [OF works(4)] x unfolding resource_rules_def store_rules_def cached_def
    by (force simp: bind_eq_Some_conv split: prod.splits)
  have "agent_moves t v (withdrawn_by es2) (resource_rules c) (st\<lparr>agProc := p\<rparr>) st'"
    using node_contract.run_moves [OF nc _ works(8)] x unfolding withdrawn_by_def by blast
  then have late: "life_moves (withdrawn_by es2) (store_rules env) (view v p) (view v (agProc st'))"
    using life_moves_mono [OF life_of_agent [of t v "withdrawn_by es2" "resource_rules c" "st\<lparr>agProc := p\<rparr>" st'] _ sub]
      r(1) st(2) by simp
  then have "start_rules \<subseteq> all_rules (view v (agProc st'))"
    using r(3) [OF refl] start_rules_kept [of es2] wf' unfolding life_moves_def by blast
  moreover have "life_moves (withdrawn_by es) (start_rules \<union> store_rules env) (v w) (view v (agProc st'))"
    by (rule life_moves_mono [OF life_moves_trans [OF life_moves_trans [OF e(2) r(2)] late]]) (auto simp: works(1))
  ultimately show ?thesis by (simp add: works(3) view_def)
qed

text \<open>A life, and the lives after it.\<close>

lemma lives_step:
  assumes l: "life_moves (withdrawn_by es) R lx l1 \<and> (b \<longrightarrow> start_rules \<subseteq> all_rules l1)" and "l2 = l1"
    and r: "life_moves (withdrawn_by es') R l2 l3 \<and> (b' \<longrightarrow> start_rules \<subseteq> all_rules l3)" and wf: "node_wf lx"
  shows "life_moves (withdrawn_by (es @ es')) R lx l3 \<and> (b \<or> b' \<longrightarrow> start_rules \<subseteq> all_rules l3)"
proof -
  have "start_rules \<subseteq> all_rules l3" if b
    using l that r start_rules_kept [of es'] wf assms(2) unfolding life_moves_def by blast
  then show ?thesis using life_moves_trans [OF l [THEN conjunct1, folded assms(2)] r [THEN conjunct1]] r by auto
qed

lemma lives_safe:
  assumes "documented (evHost env) t v" and "iptables_modern (evHost env) t"
    and "node_wf (v w)" and "agent_lives env v w es b w'"
  shows "node_wf (v w') \<and>
     all_rules (v w') \<subseteq> all_rules (v w) \<union> start_rules \<union> store_rules env \<and>
     all_rules (v w) \<subseteq> all_rules (v w') \<union> (\<Union>e \<in> set es. withdrawn e) \<and>
     (b \<longrightarrow> start_rules \<subseteq> all_rules (v w'))"
proof -
  have "life_moves (withdrawn_by es) (start_rules \<union> store_rules env) (v w) (v w') \<and> (b \<longrightarrow> start_rules \<subseteq> all_rules (v w'))"
    using assms(4,3)
  proof induction
    case (next_life w es b w1 w2 es' b' w3)
    note l = life_safe [OF assms(1,2) next_life(1,5)]
    have "node_wf (v w2)" using l next_life(2,5) by (simp add: life_moves_def)
    from lives_step [OF l next_life(2) next_life.IH [OF this] next_life(5)] show ?case by simp
  qed (simp add: life_moves_refl)
  then show ?thesis using assms(3) by (auto simp: life_moves_def withdrawn_by_def)
qed

text \<open>
  C1 (program_safe). The agent over all its lives, from \<open>main\<close> to the next \<open>main\<close>, with commands that fail, wrong
  configurations, crashes of handlers and syncs, and events at any time: the node stays well
  formed, the rules that came are those that \<open>Run\<close> installs and rules of resources that the
  informer's store can hold, the rules that went were withdrawn by an update or a deletion, and
  once a life got to its workers the jumps to the program's chains stay for ever.
\<close>

theorem program_safe:
  assumes "documented (evHost env) t v" and "iptables_modern (evHost env) t"
    and "node_wf (v w)" and "agent_lives env v w es b w'"
  shows "node_wf (v w') \<and>
     all_rules (v w') \<subseteq> all_rules (v w) \<union> start_rules \<union> store_rules env \<and>
     all_rules (v w) \<subseteq> all_rules (v w') \<union> (\<Union>e \<in> set es. withdrawn e) \<and>
     (b \<longrightarrow> start_rules \<subseteq> all_rules (v w'))"
  by (rule lives_safe [OF assms])

text \<open>The agent starts on a fresh node, sets it up and is told of a resource.\<close>

theorem program_safe_witness:
  "\<exists>w'. agent_lives ref_env rwNode (os (msNode ref_main)) [Added (IsStaticEgressIP (ref_resource ''u1''))] True w' \<and>
     node_wf (rwNode w') \<and> start_rules \<subseteq> all_rules (rwNode w')"
proof -
  let ?w = "os (msNode ref_main)" and ?es = "[Added (IsStaticEgressIP (ref_resource ''u1''))]"
  have main: "new_process ?w = ref_main" by (simp add: new_process_def ref_main_def ref_node_proc_def)
  have host: "evHost ref_env = ref_alone" by (simp add: ref_env_def)
  obtain wd ms where w: "controller_wiring ref_env (new_process ?w) = (Ok wd, ms)"
    using ref_wiring unfolding main by metis
  have ms: "msNode ms = msNode ref_main" using wiring_node [OF w] main by simp
  obtain r p where run: "controller_Run ref_alone (\<lambda>w. evSynced ref_env w (wdSynced wd)) (wdController wd) (msNode ref_main) = (r, p)"
    by (rule prod.exhaust)
  obtain c where c: "r = Ok c"
    using controller_Run_reaches [OF ref_alone_laws(1) ref_alone_run(1) _ run] ref_alone_laws(2) ref_alone_run(2)
    by (auto simp: start_chains_def chain_in_def ref_main_def ref_env_def)
  let ?st = "\<lparr>agProc = p, agQueue = rq_New\<rparr>"
  obtain st' where "addStaticEgressIP 0 0 (IsStaticEgressIP (ref_resource ''u1'')) ?st = (Ok (), st')"
    by (simp add: addStaticEgressIP_def enqueueStaticEgressIP_def)
  then have late: "agent_run ref_alone rwNode c ?es ?st st'" by (rule agent_run.step [OF agent_step.added agent_run.stop])
  have "agent_life ref_env rwNode ?w ([] @ ?es) True (os (agProc st'))"
    by (rule agent_life.works [OF w]) (use run c ms late host in \<open>auto intro: agent_run.intros\<close>)
  then have lives: "agent_lives ref_env rwNode ?w (?es @ []) (True \<or> False) (os (agProc st'))"
    by (intro agent_lives.next_life [OF _ refl agent_lives.no_life]) simp
  have "node_wf (rwNode ?w)" by (simp add: ref_main_def ref_node_proc_def fresh_lx_wf)
  then show ?thesis
    using program_safe [OF _ _ _ lives, unfolded host, OF ref_alone_laws(1) ref_alone_run(1)] lives by auto
qed

end
