(* ===== verification/Rounds.thy ===== *)
theory Rounds
  imports Roles
begin

text \<open>
  The loop of a worker, and its end: \<open>Run\<close> defers \<open>ShutDown\<close>, after which the workers go on
  until the queue is empty.
\<close>

section \<open>The loop\<close>

text \<open>
  \<open>runWorker\<close>: the list has what the token bucket and the clock answer in each round, so it
  bounds the rounds. \<open>None\<close> is a worker that waits in \<open>Get\<close> or that the list does not suffice for.
\<close>

fun runWorker :: "'w host \<Rightarrow> 'w controller \<Rightarrow> (int \<times> int) list \<Rightarrow> 'w agent \<Rightarrow> (unit outcome \<times> 'w agent) option" where
  "runWorker h c [] st = None"
| "runWorker h c ((bucket, now) # answers) st =
     (case processNextWorkItem h c bucket now st of
        None \<Rightarrow> None
      | Some (Ok goOn, st') \<Rightarrow> if goOn then runWorker h c answers st' else Some (Ok (), st')
      | Some (Err e, st') \<Rightarrow> Some (Err e, st')
      | Some (Panic k, st') \<Rightarrow> Some (Panic k, st'))"

text \<open>\<open>defer c.workqueue.ShutDown()\<close>.\<close>

definition deferredShutDown :: "'w agent \<Rightarrow> 'w agent" where
  "deferredShutDown st = st\<lparr>agQueue := rq_ShutDown (agQueue st)\<rparr>"

section \<open>Draining\<close>

abbreviation agKeys :: "'w agent \<Rightarrow> string list" where
  "agKeys st \<equiv> wqQueue (rqBase (agQueue st))"

abbreviation agDown :: "'w agent \<Rightarrow> bool" where
  "agDown st \<equiv> wqDown (rqBase (agQueue st))"

text \<open>A key that is finished on a queue that is shut down does not come back.\<close>

lemma down_finished:
  assumes "wqDown (rqBase q)" and "k \<notin> wqDirty (rqBase q)"
  shows "rqBase (rq_Done k (rq_Forget k q)) = (rqBase q)\<lparr>wqProcessing := wqProcessing (rqBase q) - {k}\<rparr>"
    and "rqBase (rq_Done k (rq_AddRateLimited k b now q)) = (rqBase q)\<lparr>wqProcessing := wqProcessing (rqBase q) - {k}\<rparr>"
  using assms
  by (simp_all add: rq_Done_def rq_Forget_def on_base_def wq_Done_def Let_def rq_AddRateLimited_eq wq_ShuttingDown_def
      rq_AddRateLimited_def rq_AddAfter_def split: prod.split)

lemma round_down:
  assumes "agDown st" and "agKeys st = k # ks"
  shows "case syncHandler h c k (agProc st) of
     (Panic x, p) \<Rightarrow> \<exists>st'. processNextWorkItem h c b now st = Some (Panic x, st') \<and> agProc st' = p
   | (r, p) \<Rightarrow> \<exists>st'. processNextWorkItem h c b now st = Some (Ok True, st') \<and> agProc st' = p \<and> agKeys st' = ks \<and> agDown st'"
proof -
  let ?q = "(agQueue st)\<lparr>rqBase := (rqBase (agQueue st))\<lparr>wqQueue := ks, wqProcessing := insert k (wqProcessing (rqBase (agQueue st))),
      wqDirty := wqDirty (rqBase (agQueue st)) - {k}\<rparr>\<rparr>"
  have get: "rq_Get (agQueue st) = (Got k, ?q)" using assms(2) by (simp add: rq_Get_def wq_Get_def)
  have fin: "rqBase (rq_Done k (rq_Forget k ?q)) = (rqBase ?q)\<lparr>wqProcessing := wqProcessing (rqBase ?q) - {k}\<rparr>"
    "rqBase (rq_Done k (rq_AddRateLimited k b now ?q)) = (rqBase ?q)\<lparr>wqProcessing := wqProcessing (rqBase ?q) - {k}\<rparr>"
    using down_finished [of ?q k] assms(1) by simp_all
  obtain r p where sync: "syncHandler h c k (agProc st) = (r, p)" by (rule prod.exhaust)
  show ?thesis using assms(1) fin by (cases r) (simp_all add: processNextWorkItem_def get sync)
qed

text \<open>
  C37 (worker_drains). After \<open>ShutDown\<close> a worker ends: with one round more than there are keys in the queue it
  returns, having synced every one of them once and in order whatever errors the syncs
  returned, unless a sync panics, which ends the worker there.
\<close>

theorem worker_drains:
  assumes "length (agKeys st) < length answers"
  shows "\<exists>r st'. runWorker h c answers (deferredShutDown st) = Some (r, st') \<and>
     forE (agKeys st) (\<lambda>k. catchE (syncHandler h c k) (\<lambda>_. returnE ())) (agProc st) = (r, agProc st') \<and>
     (r = Ok () \<longrightarrow> agKeys st' = [])"
proof -
  have down: "agDown (deferredShutDown st)" "agKeys (deferredShutDown st) = agKeys st" "agProc (deferredShutDown st) = agProc st"
    by (simp_all add: deferredShutDown_def rq_ShutDown_def on_base_def wq_ShutDown_def)
  have "\<exists>r st'. runWorker h c answers s = Some (r, st') \<and>
      forE ks (\<lambda>k. catchE (syncHandler h c k) (\<lambda>_. returnE ())) (agProc s) = (r, agProc st') \<and> (r = Ok () \<longrightarrow> agKeys st' = [])"
    if "agDown s" "agKeys s = ks" "length ks < length answers" for s ks
    using that
  proof (induction ks arbitrary: s answers)
    case Nil
    then obtain b now rest where a: "answers = (b, now) # rest" by (cases answers) auto
    have "rq_Get (agQueue s) = (Shutdown, agQueue s)" using Nil by (simp add: rq_Get_def wq_Get_def)
    then show ?case using Nil(2) a by (simp add: processNextWorkItem_def)
  next
    case (Cons k ks)
    then obtain b now rest where a: "answers = (b, now) # rest" "length ks < length rest" by (cases answers) auto
    obtain r p where sync: "syncHandler h c k (agProc s) = (r, p)" by (rule prod.exhaust)
    note round = round_down [OF Cons.prems(1,2), of h c b now, unfolded sync]
    show ?case
    proof (cases "\<exists>x. r = Panic x")
      case True
      then show ?thesis using round a sync by (auto simp: bindE_def catchE_def)
    next
      case False
      then obtain s' where s': "processNextWorkItem h c b now s = Some (Ok True, s')" "agProc s' = p" "agKeys s' = ks" "agDown s'"
        using round by (cases r) auto
      then show ?thesis using Cons.IH [OF s'(4,3) a(2)] a sync False by (cases r) (auto simp: bindE_def catchE_def)
    qed
  qed
  from this [OF down(1,2) assms] show ?thesis using down(3) by simp
qed

text \<open>Two keys of unknown resources are drained in three rounds.\<close>

theorem worker_drains_witness:
  "\<exists>st'. runWorker (ref_host 1) (ref_caches [] []) [(0, 0), (0, 1), (0, 2)]
       (deferredShutDown \<lparr>agProc = ref_node_proc ''u1'' fresh_lx,
          agQueue = rq_New\<lparr>rqBase := \<lparr>wqQueue = [''default/a'', ''default/b''], wqDirty = {''default/a'', ''default/b''},
            wqProcessing = {}, wqDown = False\<rparr>\<rparr>\<rparr>) = Some (Ok (), st') \<and> agKeys st' = []"
proof -
  let ?st = "\<lparr>agProc = ref_node_proc ''u1'' fresh_lx,
      agQueue = rq_New\<lparr>rqBase := \<lparr>wqQueue = [''default/a'', ''default/b''], wqDirty = {''default/a'', ''default/b''},
        wqProcessing = {}, wqDown = False\<rparr>\<rparr>\<rparr> :: ref_world agent"
  have sync: "syncHandler (ref_host 1) (ref_caches [] []) k p = (Ok (), p)" if "k \<in> {''default/a'', ''default/b''}" for k p
    using that by (auto simp: syncHandler_run cached_def SplitMetaNamespaceKey_def ref_caches_def)
  let ?c = "ref_caches [] []" and ?as = "[(0, 0), (0, 1), (0, 2)] :: (int \<times> int) list"
  obtain r st' where run: "runWorker (ref_host 1) ?c ?as (deferredShutDown ?st) = Some (r, st')"
    and loop: "forE (agKeys ?st) (\<lambda>k. catchE (syncHandler (ref_host 1) ?c k) (\<lambda>_. returnE ())) (agProc ?st) = (r, agProc st')"
    and keys: "r = Ok () \<longrightarrow> agKeys st' = []"
    using worker_drains [of ?st ?as "ref_host 1" ?c] by auto
  have "syncHandler (ref_host 1) ?c ''default/a'' p = (Ok (), p)" "syncHandler (ref_host 1) ?c ''default/b'' p = (Ok (), p)" for p
    using sync by simp_all
  then have "r = Ok ()" using loop by (simp add: bindE_def catchE_def)
  then show ?thesis using run keys by blast
qed

end
