(* ===== verification/Cluster.thy ===== *)
theory Cluster
  imports Roles
begin

text \<open>
  Manager and agents together: what the manager writes into the status of a resource, and what
  the agents make of it on their nodes once the caches have it.
\<close>

section \<open>The nodes\<close>




















end
