(* ===== verification/ManagerMain.thy ===== *)
theory ManagerMain
  imports Leaders Commands
begin

text \<open>
  The gateway manager from \<open>main\<close> to the start of the election: the part of \<open>Run\<close> in
  \<open>pkg/ha/gateway_manager.go\<close> before \<open>RunOrDie\<close>.
\<close>

record config_map_lock =
  lkNamespace :: string
  lkName :: string
  lkIdentity :: string

definition manager_lock :: "string \<Rightarrow> config_map_lock" where
  "manager_lock podId = \<lparr>lkNamespace = ''kube-system'', lkName = ''static-egress-ip-configmap'', lkIdentity = podId\<rparr>"

text \<open>
  \<open>kube\<close> is \<open>kubernetes.NewForConfig\<close> on the configuration of the cluster, \<open>wrapped\<close> the same
  after \<open>config.Wrap\<close>. A refused configuration makes \<open>RunOrDie\<close> panic.
\<close>

definition manager_Run_start ::
  "goerror + rest_config \<Rightarrow> (rest_config \<Rightarrow> goerror + 'c) \<Rightarrow> (rest_config \<Rightarrow> goerror + 'c) \<Rightarrow> string \<Rightarrow>
     (config_map_lock \<times> lease_config \<times> elector) outcome" where
  "manager_Run_start inCluster kube wrapped podId =
     (case inCluster of
        Inl e \<Rightarrow> Err (ErrWrap ''failed to create client: '' e)
      | Inr config \<Rightarrow>
          (case kube config of
             Inl e \<Rightarrow> Panic (PanicErr e)
           | Inr client \<Rightarrow>
               (case wrapped config of
                  Inl e \<Rightarrow> Panic (PanicErr e)
                | Inr exampleClient \<Rightarrow>
                    if elector_config_ok (manager_config podId)
                    then Ok (manager_lock podId, manager_config podId, new_elector)
                    else Panic (PanicErr (ErrText ''leader election configuration'')))))"

text \<open>\<open>main\<close>: an error of \<open>Run\<close> is fatal.\<close>

definition manager_main ::
  "('w, 'd, 'o, 'r) cluster_env \<Rightarrow> goerror + rest_config \<Rightarrow> (rest_config \<Rightarrow> goerror + 'c) \<Rightarrow> (rest_config \<Rightarrow> goerror + 'c) \<Rightarrow>
     string \<Rightarrow> ('w main_state, (nat \<times> (list_options, egress_answer) informer_proc) \<times> config_map_lock \<times> lease_config \<times> elector) prog" where
  "manager_main env inCluster kube wrapped podId =
     bindE (manager_wiring env)
       (\<lambda>wd. case manager_Run_start inCluster kube wrapped podId of
          Ok x \<Rightarrow> returnE (wd, x)
        | Err e \<Rightarrow> panicE FatalExit
        | Panic k \<Rightarrow> panicE k)"

text \<open>The configuration passes the checks of the elector, whatever the identity.\<close>

lemma manager_config_ok: "elector_config_ok (manager_config podId)"
  by (simp add: elector_config_ok_def manager_config_def second_def)

text \<open>
  A manager whose clients can be made gets to the election as the manager of the transition
  system: with its configuration and a fresh elector; and its cache is being filled.
\<close>

lemma manager_main_starts:
  assumes "map_order (evOrder env)" and "\<forall>c p. evServer env c = Inr p \<longrightarrow> p = []"
    and "manager_main env inCluster kube wrapped (podIP s m) st = (Ok ((a, ip), lock, c, le), st')"
  shows "c = config_of s m \<and> le = new_elector \<and> lkIdentity lock = podIP s m \<and> ipRuns ip = [a] \<and> watches_all (ipObjects ip ! a)"
proof -
  obtain st1 where w: "manager_wiring env st = (Ok (a, ip), st1)"
    and x: "manager_Run_start inCluster kube wrapped (podIP s m) = Ok (lock, c, le)"
  proof -
    obtain wd st1 where w: "manager_wiring env st = (Ok wd, st1)"
      and k: "(case manager_Run_start inCluster kube wrapped (podIP s m) of
          Ok x \<Rightarrow> returnE (wd, x) | Err e \<Rightarrow> panicE FatalExit | Panic k \<Rightarrow> panicE k) st1 = (Ok ((a, ip), lock, c, le), st')"
      using assms(3) unfolding manager_main_def bindE_Ok_iff by blast
    show thesis using that w k by (cases "manager_Run_start inCluster kube wrapped (podIP s m)") simp_all
  qed
  have "c = config_of s m \<and> le = new_elector \<and> lkIdentity lock = podIP s m"
    using x by (auto simp: manager_Run_start_def manager_lock_def config_of_def split: sum.splits if_splits)
  then show ?thesis using manager_wiring_Ok [OF assms(1,2) w] by simp
qed

lemma manager_main_reaches:
  assumes "manager_wiring env st = (Ok wd, st1)" and "inCluster = Inr cfg" and "kube cfg = Inr c" and "wrapped cfg = Inr c'"
  shows "fst (manager_main env inCluster kube wrapped podId st) = Ok (wd, manager_lock podId, manager_config podId, new_elector)"
  using assms manager_config_ok [of podId] by (simp add: manager_main_def manager_Run_start_def bindE_def)

end
