(* ===== verification/FakeClient.thy ===== *)
theory FakeClient
  imports Scheme RestClient
begin

text \<open>
  The fake clientset of \<open>pkg/client/clientset/versioned/fake\<close>, which tests put in the place
  of the API server: the generated client over the recorder, the reactor chain and the object
  tracker of client-go's \<open>testing\<close> package. A Go function with two results that are looked
  at independently is a program that returns both.
\<close>

section \<open>Objects\<close>

record egress_object = static_egress_ip +
  sLabels :: "(string \<times> string) list"

text \<open>An object of another type counts by its type and, when it has one, its metadata: namespace and name.\<close>

datatype runtime_object =
    ObjEgress egress_object
  | ObjEgressList "egress_object list"
  | ObjOther gotype "(string \<times> string) option"

primrec object_type :: "runtime_object \<Rightarrow> gotype" where
  "object_type (ObjEgress e) = egress_type ''StaticEgressIP''"
| "object_type (ObjEgressList es) = egress_type ''StaticEgressIPList''"
| "object_type (ObjOther t m) = t"

definition egress_key :: "egress_object \<Rightarrow> string \<times> string" where
  "egress_key e = (sNamespace e, sName e)"

text \<open>\<open>meta.Accessor\<close> and what is read and set through it.\<close>

primrec meta_Accessor :: "runtime_object \<Rightarrow> goerror + (string \<times> string)" where
  "meta_Accessor (ObjEgress e) = Inr (egress_key e)"
| "meta_Accessor (ObjEgressList es) = Inl (ErrText ''object does not implement the Object interfaces'')"
| "meta_Accessor (ObjOther t m) =
     (case m of None \<Rightarrow> Inl (ErrText ''object does not implement the Object interfaces'') | Some k \<Rightarrow> Inr k)"

primrec SetNamespace :: "string \<Rightarrow> runtime_object \<Rightarrow> runtime_object" where
  "SetNamespace ns (ObjEgress e) = ObjEgress (e\<lparr>sNamespace := ns\<rparr>)"
| "SetNamespace ns (ObjEgressList es) = ObjEgressList es"
| "SetNamespace ns (ObjOther t m) = ObjOther t (map_option (\<lambda>k. (ns, snd k)) m)"

section \<open>Watchers\<close>

datatype watch_event = Added runtime_object | Modified runtime_object | Deleted runtime_object

record fake_watcher =
  fwResult :: "watch_event list"
  fwStopped :: bool

definition DefaultChanSize :: nat where
  "DefaultChanSize = 100"

section \<open>The tracker\<close>

text \<open>\<open>tkHeap\<close> holds the watchers, which client and tracker share, by their address.\<close>

record tracker =
  tkScheme :: scheme
  tkObjects :: "gvr \<Rightarrow> runtime_object list option"
  tkWatchers :: "gvr \<Rightarrow> string \<Rightarrow> nat list"
  tkHeap :: "fake_watcher list"

definition NewObjectTracker :: "scheme \<Rightarrow> tracker" where
  "NewObjectTracker s = \<lparr>tkScheme = s, tkObjects = (\<lambda>_. None), tkWatchers = (\<lambda>_ _. []), tkHeap = []\<rparr>"

definition objects_at :: "tracker \<Rightarrow> gvr \<Rightarrow> runtime_object list" where
  "objects_at t r = (case tkObjects t r of None \<Rightarrow> [] | Some l \<Rightarrow> l)"

text \<open>\<open>Add\<close>, \<open>Modify\<close> and \<open>Delete\<close> of \<open>RaceFreeFakeWatcher\<close>: a full channel panics.\<close>

definition deliver :: "watch_event \<Rightarrow> nat \<Rightarrow> (tracker, unit) prog" where
  "deliver e w t =
     (let x = tkHeap t ! w in
      if fwStopped x then (Ok (), t)
      else if length (fwResult x) < DefaultChanSize
      then (Ok (), t\<lparr>tkHeap := (tkHeap t)[w := x\<lparr>fwResult := fwResult x @ [e]\<rparr>]\<rparr>)
      else (Panic (PanicErr (ErrText ''channel full'')), t))"

definition getWatches :: "tracker \<Rightarrow> gvr \<Rightarrow> string \<Rightarrow> nat list" where
  "getWatches t r ns = tkWatchers t r ns @ (if ns \<noteq> [] then tkWatchers t r [] else [])"

definition notify :: "gvr \<Rightarrow> string \<Rightarrow> watch_event \<Rightarrow> (tracker, unit) prog" where
  "notify r ns e t = forE (getWatches t r ns) (deliver e) t"

text \<open>The loops that look for an object by namespace and name.\<close>

fun find_object :: "string \<times> string \<Rightarrow> nat \<Rightarrow> runtime_object list \<Rightarrow> goerror + nat option" where
  "find_object key i [] = Inr None"
| "find_object key i (x # xs) =
     (case meta_Accessor x of
        Inl e \<Rightarrow> Inl e
      | Inr k \<Rightarrow> if k = key then Inr (Some i) else find_object key (Suc i) xs)"

fun filterByNamespaceAndName :: "runtime_object list \<Rightarrow> string \<Rightarrow> string \<Rightarrow> goerror + runtime_object list" where
  "filterByNamespaceAndName [] ns name = Inr []"
| "filterByNamespaceAndName (x # xs) ns name =
     (case meta_Accessor x of
        Inl e \<Rightarrow> Inl e
      | Inr k \<Rightarrow>
          if ns \<noteq> [] \<and> fst k \<noteq> ns then filterByNamespaceAndName xs ns name
          else if name \<noteq> [] \<and> snd k \<noteq> name then filterByNamespaceAndName xs ns name
          else (case filterByNamespaceAndName xs ns name of Inl e \<Rightarrow> Inl e | Inr res \<Rightarrow> Inr (x # res)))"

definition bad_namespace :: goerror where
  "bad_namespace = ErrText ''request namespace does not match object namespace''"

definition already_exists :: goerror where
  "already_exists = ErrText ''already exists''"

text \<open>\<open>add\<close>, the body of \<open>Create\<close> and \<open>Update\<close>.\<close>

definition tracker_add :: "gvr \<Rightarrow> runtime_object \<Rightarrow> string \<Rightarrow> bool \<Rightarrow> (tracker, unit) prog" where
  "tracker_add r obj0 ns replaceExisting t =
     (case meta_Accessor obj0 of
        Inl e \<Rightarrow> (Err e, t)
      | Inr k0 \<Rightarrow>
          (let obj = (if fst k0 = [] then SetNamespace ns obj0 else obj0);
               k = (if fst k0 = [] then (ns, snd k0) else k0) in
           if ns \<noteq> fst k then (Err bad_namespace, t)
           else (case find_object k 0 (objects_at t r) of
                   Inl e \<Rightarrow> (Err e, t)
                 | Inr (Some i) \<Rightarrow>
                     if replaceExisting
                     then bindE (notify r ns (Modified obj))
                            (\<lambda>_ t'. (Ok (), t'\<lparr>tkObjects := (tkObjects t')(r \<mapsto> (objects_at t' r)[i := obj])\<rparr>)) t
                     else (Err already_exists, t)
                 | Inr None \<Rightarrow>
                     if replaceExisting then (Err (ErrNotFound (snd k)), t)
                     else notify r ns (Added obj)
                            (t\<lparr>tkObjects := (tkObjects t)(r \<mapsto> objects_at t r @ [obj])\<rparr>))))"

definition tracker_Create :: "gvr \<Rightarrow> runtime_object \<Rightarrow> string \<Rightarrow> (tracker, unit) prog" where
  "tracker_Create r obj ns = tracker_add r obj ns False"

definition tracker_Update :: "gvr \<Rightarrow> runtime_object \<Rightarrow> string \<Rightarrow> (tracker, unit) prog" where
  "tracker_Update r obj ns = tracker_add r obj ns True"

definition tracker_Delete :: "gvr \<Rightarrow> string \<Rightarrow> string \<Rightarrow> (tracker, unit) prog" where
  "tracker_Delete r ns name t =
     (case find_object (ns, name) 0 (objects_at t r) of
        Inl e \<Rightarrow> (Err e, t)
      | Inr None \<Rightarrow> (Err (ErrNotFound name), t)
      | Inr (Some i) \<Rightarrow>
          (let objs = objects_at t r in
           notify r ns (Deleted (objs ! i)) (t\<lparr>tkObjects := (tkObjects t)(r \<mapsto> take i objs @ drop (Suc i) objs)\<rparr>)))"

definition tracker_Get :: "gvr \<Rightarrow> string \<Rightarrow> string \<Rightarrow> tracker \<Rightarrow> goerror + runtime_object" where
  "tracker_Get r ns name t =
     (case tkObjects t r of
        None \<Rightarrow> Inl (ErrNotFound name)
      | Some objs \<Rightarrow>
          (case filterByNamespaceAndName objs ns name of
             Inl e \<Rightarrow> Inl e
           | Inr [] \<Rightarrow> Inl (ErrNotFound name)
           | Inr [x] \<Rightarrow> Inr x
           | Inr (x # y # zs) \<Rightarrow> Inl (ErrText ''more than one object matched'')))"

text \<open>\<open>meta.SetList\<close> of a list of resources, and \<open>List\<close>.\<close>

fun set_items :: "runtime_object list \<Rightarrow> goerror + egress_object list" where
  "set_items [] = Inr []"
| "set_items (x # xs) =
     (case x of
        ObjEgress e \<Rightarrow> (case set_items xs of Inl err \<Rightarrow> Inl err | Inr es \<Rightarrow> Inr (e # es))
      | _ \<Rightarrow> Inl (ErrText ''item: cannot assign or convert''))"

definition list_kind :: "gvk \<Rightarrow> gvk" where
  "list_kind k =
     \<lparr>gvkGroup = gvkGroup k, gvkVersion = (if gvkVersion k = [] then APIVersionInternal else gvkVersion k),
      gvkKind = gvkKind k @ ''List''\<rparr>"

definition tracker_List :: "gvr \<Rightarrow> gvk \<Rightarrow> string \<Rightarrow> tracker \<Rightarrow> goerror + runtime_object" where
  "tracker_List r k ns t =
     (case scheme_New (tkScheme t) (list_kind k) of
        Inl e \<Rightarrow> Inl e
      | Inr ty \<Rightarrow>
          if ty \<noteq> egress_type ''StaticEgressIPList'' then Inl (ErrText ''is not a list type of the group'')
          else (case tkObjects t r of
                  None \<Rightarrow> Inr (ObjEgressList [])
                | Some objs \<Rightarrow>
                    (case filterByNamespaceAndName objs ns [] of
                       Inl e \<Rightarrow> Inl e
                     | Inr res \<Rightarrow> (case set_items res of Inl e \<Rightarrow> Inl e | Inr es \<Rightarrow> Inr (ObjEgressList es)))))"

definition tracker_Watch :: "gvr \<Rightarrow> string \<Rightarrow> tracker \<Rightarrow> nat \<times> tracker" where
  "tracker_Watch r ns t =
     (let w = length (tkHeap t) in
      (w, t\<lparr>tkHeap := tkHeap t @ [\<lparr>fwResult = [], fwStopped = False\<rparr>],
            tkWatchers := (tkWatchers t)(r := (tkWatchers t r)(ns := tkWatchers t r ns @ [w]))\<rparr>))"

text \<open>\<open>Add\<close> of an object of any kind, for the objects a test starts with.\<close>

definition tracker_Add_one :: "runtime_object \<Rightarrow> (tracker, unit) prog" where
  "tracker_Add_one obj t =
     (case meta_Accessor obj of
        Inl e \<Rightarrow> (Err e, t)
      | Inr k \<Rightarrow>
          (case ObjectKinds (tkScheme t) (object_type obj) of
             Inl e \<Rightarrow> (Err e, t)
           | Inr (gvks, u) \<Rightarrow>
               if gvks = [] then (Err (ErrText ''no registered kinds''), t)
               else forE gvks (\<lambda>g. let r = fst (UnsafeGuessKindToResource g);
                                      r' = (if gvrVersion r = APIVersionInternal then r\<lparr>gvrVersion := []\<rparr> else r) in
                                  tracker_add r' obj (fst k) False) t))"

primrec tracker_Add :: "runtime_object \<Rightarrow> (tracker, unit) prog" where
  "tracker_Add (ObjEgress e) = tracker_Add_one (ObjEgress e)"
| "tracker_Add (ObjEgressList es) = forE es (\<lambda>e. tracker_Add_one (ObjEgress e))"
| "tracker_Add (ObjOther ty m) = tracker_Add_one (ObjOther ty m)"

section \<open>Actions and reactors\<close>

record select_options =
  loLabelSelector :: string
  loFieldSelector :: string
  loResourceVersion :: string

datatype fake_action =
    GetAction gvr string string
  | ListAction gvr gvk string select_options
  | CreateAction gvr string string runtime_object        \<comment> \<open>resource, subresource, namespace, object\<close>
  | UpdateAction gvr string string runtime_object
  | DeleteAction gvr string string
  | DeleteCollectionAction gvr string select_options
  | PatchAction gvr string string string string string   \<comment> \<open>resource, subresource, namespace, name, type, bytes\<close>
  | WatchAction gvr string select_options

primrec GetVerb :: "fake_action \<Rightarrow> string" where
  "GetVerb (GetAction r ns name) = ''get''"
| "GetVerb (ListAction r k ns opts) = ''list''"
| "GetVerb (CreateAction r sub ns obj) = ''create''"
| "GetVerb (UpdateAction r sub ns obj) = ''update''"
| "GetVerb (DeleteAction r ns name) = ''delete''"
| "GetVerb (DeleteCollectionAction r ns opts) = ''delete-collection''"
| "GetVerb (PatchAction r sub ns name pt data) = ''patch''"
| "GetVerb (WatchAction r ns opts) = ''watch''"

primrec GetResource :: "fake_action \<Rightarrow> gvr" where
  "GetResource (GetAction r ns name) = r"
| "GetResource (ListAction r k ns opts) = r"
| "GetResource (CreateAction r sub ns obj) = r"
| "GetResource (UpdateAction r sub ns obj) = r"
| "GetResource (DeleteAction r ns name) = r"
| "GetResource (DeleteCollectionAction r ns opts) = r"
| "GetResource (PatchAction r sub ns name pt data) = r"
| "GetResource (WatchAction r ns opts) = r"

type_synonym reaction = "bool \<times> runtime_object option \<times> goerror option"

text \<open>
  \<open>ObjectReaction\<close>. \<open>patch\<close> applies the bytes of a patch to an object: the JSON libraries
  behind the two supported kinds of patch.
\<close>

definition of_result :: "goerror + runtime_object \<Rightarrow> reaction" where
  "of_result x = (case x of Inl e \<Rightarrow> (True, None, Some e) | Inr obj \<Rightarrow> (True, Some obj, None))"

definition store_then_get ::
  "(tracker, unit) prog \<Rightarrow> gvr \<Rightarrow> string \<Rightarrow> string \<Rightarrow> (tracker, reaction) prog" where
  "store_then_get m r ns name t =
     (case m t of
        (Ok u, t') \<Rightarrow> (Ok (of_result (tracker_Get r ns name t')), t')
      | (Err e, t') \<Rightarrow> (Ok (True, None, Some e), t')
      | (Panic p, t') \<Rightarrow> (Panic p, t'))"

type_synonym patcher = "string \<Rightarrow> string \<Rightarrow> runtime_object \<Rightarrow> goerror + runtime_object"

definition supported_patches :: "string list" where
  "supported_patches = [''application/json-patch+json'', ''application/strategic-merge-patch+json'']"

primrec ObjectReaction :: "patcher \<Rightarrow> fake_action \<Rightarrow> (tracker, reaction) prog" where
  "ObjectReaction patch (ListAction r k ns opts) = (\<lambda>t. (Ok (of_result (tracker_List r k ns t)), t))"
| "ObjectReaction patch (GetAction r ns name) = (\<lambda>t. (Ok (of_result (tracker_Get r ns name t)), t))"
| "ObjectReaction patch (CreateAction r sub ns obj) =
     (case meta_Accessor obj of
        Inl e \<Rightarrow> returnE (True, None, Some e)
      | Inr k \<Rightarrow> store_then_get (if sub = [] then tracker_Create r obj ns else tracker_Update r obj ns) r ns (snd k))"
| "ObjectReaction patch (UpdateAction r sub ns obj) =
     (case meta_Accessor obj of
        Inl e \<Rightarrow> returnE (True, None, Some e)
      | Inr k \<Rightarrow> store_then_get (tracker_Update r obj ns) r ns (snd k))"
| "ObjectReaction patch (DeleteAction r ns name) =
     (\<lambda>t. case tracker_Delete r ns name t of
        (Ok u, t') \<Rightarrow> (Ok (True, None, None), t')
      | (Err e, t') \<Rightarrow> (Ok (True, None, Some e), t')
      | (Panic p, t') \<Rightarrow> (Panic p, t'))"
| "ObjectReaction patch (PatchAction r sub ns name pt data) =
     (\<lambda>t. case tracker_Get r ns name t of
        Inl e \<Rightarrow> (Ok (True, None, Some e), t)
      | Inr obj \<Rightarrow>
          if pt \<notin> set supported_patches then (Ok (True, None, Some (ErrText ''PatchType is not supported'')), t)
          else (case patch pt data obj of
                  Inl e \<Rightarrow> (Ok (True, None, Some e), t)
                | Inr obj' \<Rightarrow>
                    (case tracker_Update r obj' ns t of
                       (Ok u, t') \<Rightarrow> (Ok (True, Some obj', None), t')
                     | (Err e, t') \<Rightarrow> (Ok (True, None, Some e), t')
                     | (Panic p, t') \<Rightarrow> (Panic p, t'))))"
| "ObjectReaction patch (DeleteCollectionAction r ns opts) =
     returnE (False, None, Some (ErrText ''no reaction implemented''))"
| "ObjectReaction patch (WatchAction r ns opts) =
     returnE (False, None, Some (ErrText ''no reaction implemented''))"

text \<open>The recorder; its chains work on a state of type \<open>'w\<close>. \<open>SimpleReactor\<close> and \<open>SimpleWatchReactor\<close>.\<close>

record 'w reactor =
  rtVerb :: string
  rtResource :: string
  rtReaction :: "fake_action \<Rightarrow> ('w, reaction) prog"

record 'w watch_reactor =
  wtResource :: string
  wtReaction :: "fake_action \<Rightarrow> ('w, bool \<times> nat option \<times> goerror option) prog"

record 'w fake =
  fkActions :: "fake_action list"
  fkChain :: "'w reactor list"
  fkWatchChain :: "'w watch_reactor list"
  fkWorld :: 'w

definition reactor_Handles :: "'w reactor \<Rightarrow> fake_action \<Rightarrow> bool" where
  "reactor_Handles x a \<longleftrightarrow>
     (rtVerb x = ''*'' \<or> rtVerb x = GetVerb a) \<and> (rtResource x = ''*'' \<or> rtResource x = gvrResource (GetResource a))"

definition watch_reactor_Handles :: "'w watch_reactor \<Rightarrow> fake_action \<Rightarrow> bool" where
  "watch_reactor_Handles x a \<longleftrightarrow> wtResource x = ''*'' \<or> wtResource x = gvrResource (GetResource a)"

definition AddReactor :: "string \<Rightarrow> string \<Rightarrow> (fake_action \<Rightarrow> ('w, reaction) prog) \<Rightarrow> 'w fake \<Rightarrow> 'w fake" where
  "AddReactor verb resource react f = f\<lparr>fkChain := fkChain f @ [\<lparr>rtVerb = verb, rtResource = resource, rtReaction = react\<rparr>]\<rparr>"

definition PrependReactor :: "string \<Rightarrow> string \<Rightarrow> (fake_action \<Rightarrow> ('w, reaction) prog) \<Rightarrow> 'w fake \<Rightarrow> 'w fake" where
  "PrependReactor verb resource react f = f\<lparr>fkChain := \<lparr>rtVerb = verb, rtResource = resource, rtReaction = react\<rparr> # fkChain f\<rparr>"

definition AddWatchReactor ::
  "string \<Rightarrow> (fake_action \<Rightarrow> ('w, bool \<times> nat option \<times> goerror option) prog) \<Rightarrow> 'w fake \<Rightarrow> 'w fake" where
  "AddWatchReactor resource react f = f\<lparr>fkWatchChain := fkWatchChain f @ [\<lparr>wtResource = resource, wtReaction = react\<rparr>]\<rparr>"

fun try_chain :: "'w reactor list \<Rightarrow> fake_action \<Rightarrow> runtime_object \<Rightarrow> ('w, runtime_object option \<times> goerror option) prog" where
  "try_chain [] a dflt = returnE (Some dflt, None)"
| "try_chain (x # xs) a dflt =
     (if \<not> reactor_Handles x a then try_chain xs a dflt
      else bindE (rtReaction x a) (\<lambda>(handled, ret, err). if \<not> handled then try_chain xs a dflt else returnE (ret, err)))"

fun try_watch_chain :: "'w watch_reactor list \<Rightarrow> fake_action \<Rightarrow> ('w, nat option \<times> goerror option) prog" where
  "try_watch_chain [] a = returnE (None, Some (ErrText ''unhandled watch''))"
| "try_watch_chain (x # xs) a =
     (if \<not> watch_reactor_Handles x a then try_watch_chain xs a
      else bindE (wtReaction x a) (\<lambda>(handled, ret, err). if \<not> handled then try_watch_chain xs a else returnE (ret, err)))"

definition on_world :: "('w, 'a) prog \<Rightarrow> ('w fake, 'a) prog" where
  "on_world m f = (case m (fkWorld f) of (r, w') \<Rightarrow> (r, f\<lparr>fkWorld := w'\<rparr>))"

definition Invokes :: "fake_action \<Rightarrow> runtime_object \<Rightarrow> ('w fake, runtime_object option \<times> goerror option) prog" where
  "Invokes a dflt f =
     (let f' = f\<lparr>fkActions := fkActions f @ [a]\<rparr> in on_world (try_chain (fkChain f') a dflt) f')"

definition InvokesWatch :: "fake_action \<Rightarrow> ('w fake, nat option \<times> goerror option) prog" where
  "InvokesWatch a f =
     (let f' = f\<lparr>fkActions := fkActions f @ [a]\<rparr> in on_world (try_watch_chain (fkWatchChain f') a) f')"

section \<open>The generated fake client\<close>

definition staticegressipsResource :: gvr where
  "staticegressipsResource = \<lparr>gvrGroup = ''staticegressips.nirmata.io'', gvrVersion = ''v1alpha1'', gvrResource = ''staticegressips''\<rparr>"

definition staticegressipsKind :: gvk where
  "staticegressipsKind = \<lparr>gvkGroup = ''staticegressips.nirmata.io'', gvkVersion = ''v1alpha1'', gvkKind = ''StaticEgressIP''\<rparr>"

definition empty_egress :: egress_object where
  "empty_egress =
     \<lparr>sName = [], sNamespace = [], Spec = \<lparr>Rules = []\<rparr>, Status = \<lparr>GatewayNode = [], GatewayIP = []\<rparr>, sLabels = []\<rparr>"

text \<open>
  \<open>ExtractFromListOptions\<close>, which the constructors of actions with options call. The parsers of
  the two selector languages are parameters: what a label selector matches, and whether a
  field selector can be parsed.
\<close>

record selector_parsers =
  parseLabels :: "string \<Rightarrow> ((string \<times> string) list \<Rightarrow> bool) option"
  parseFields :: "string \<Rightarrow> bool"

definition ExtractFromListOptions :: "selector_parsers \<Rightarrow> select_options \<Rightarrow> ('s, (string \<times> string) list \<Rightarrow> bool) prog" where
  "ExtractFromListOptions sp opts =
     (case parseLabels sp (loLabelSelector opts) of
        None \<Rightarrow> panicE (PanicErr (ErrText ''invalid selector''))
      | Some matches \<Rightarrow>
          if parseFields sp (loFieldSelector opts) then returnE matches
          else panicE (PanicErr (ErrText ''invalid selector'')))"

text \<open>\<open>if obj == nil { return nil, err }; return obj.(*v1alpha1.StaticEgressIP), err\<close>.\<close>

definition as_egress :: "runtime_object option \<times> goerror option \<Rightarrow> ('s, egress_object option \<times> goerror option) prog" where
  "as_egress x =
     (case fst x of
        None \<Rightarrow> returnE (None, snd x)
      | Some (ObjEgress e) \<Rightarrow> returnE (Some e, snd x)
      | Some _ \<Rightarrow> panicE TypeAssertion)"

definition fake_Get :: "string \<Rightarrow> string \<Rightarrow> ('w fake, egress_object option \<times> goerror option) prog" where
  "fake_Get ns name = bindE (Invokes (GetAction staticegressipsResource ns name) (ObjEgress empty_egress)) as_egress"

definition fake_List ::
  "selector_parsers \<Rightarrow> string \<Rightarrow> select_options \<Rightarrow> ('w fake, egress_object list option \<times> goerror option) prog" where
  "fake_List sp ns opts =
     bindE (ExtractFromListOptions sp opts) (\<lambda>_.
     bindE (Invokes (ListAction staticegressipsResource staticegressipsKind ns opts) (ObjEgressList [])) (\<lambda>(obj, err).
       case obj of
         None \<Rightarrow> returnE (None, err)
       | Some x \<Rightarrow>
           bindE (ExtractFromListOptions sp opts) (\<lambda>matches.
             case x of
               ObjEgressList items \<Rightarrow> returnE (Some (filter (\<lambda>item. matches (sLabels item)) items), err)
             | _ \<Rightarrow> panicE TypeAssertion)))"

definition fake_Watch :: "selector_parsers \<Rightarrow> string \<Rightarrow> select_options \<Rightarrow> ('w fake, nat option \<times> goerror option) prog" where
  "fake_Watch sp ns opts =
     bindE (ExtractFromListOptions sp opts) (\<lambda>_. InvokesWatch (WatchAction staticegressipsResource ns opts))"

definition fake_Create :: "string \<Rightarrow> egress_object \<Rightarrow> ('w fake, egress_object option \<times> goerror option) prog" where
  "fake_Create ns e =
     bindE (Invokes (CreateAction staticegressipsResource [] ns (ObjEgress e)) (ObjEgress empty_egress)) as_egress"

definition fake_Update :: "string \<Rightarrow> egress_object \<Rightarrow> ('w fake, egress_object option \<times> goerror option) prog" where
  "fake_Update ns e =
     bindE (Invokes (UpdateAction staticegressipsResource [] ns (ObjEgress e)) (ObjEgress empty_egress)) as_egress"

definition fake_UpdateStatus :: "string \<Rightarrow> egress_object \<Rightarrow> ('w fake, egress_object option \<times> goerror option) prog" where
  "fake_UpdateStatus ns e =
     bindE (Invokes (UpdateAction staticegressipsResource ''status'' ns (ObjEgress e)) (ObjEgress empty_egress)) as_egress"

definition fake_Delete :: "string \<Rightarrow> string \<Rightarrow> ('w fake, goerror option) prog" where
  "fake_Delete ns name =
     bindE (Invokes (DeleteAction staticegressipsResource ns name) (ObjEgress empty_egress)) (\<lambda>(obj, err). returnE err)"

definition fake_DeleteCollection :: "selector_parsers \<Rightarrow> string \<Rightarrow> select_options \<Rightarrow> ('w fake, goerror option) prog" where
  "fake_DeleteCollection sp ns opts =
     bindE (ExtractFromListOptions sp opts) (\<lambda>_.
     bindE (Invokes (DeleteCollectionAction staticegressipsResource ns opts) (ObjEgressList [])) (\<lambda>(obj, err). returnE err))"

definition fake_Patch ::
  "string \<Rightarrow> string \<Rightarrow> string \<Rightarrow> string \<Rightarrow> string list \<Rightarrow> ('w fake, egress_object option \<times> goerror option) prog" where
  "fake_Patch ns name pt data subs =
     bindE (Invokes (PatchAction staticegressipsResource (path_Join subs) ns name pt data) (ObjEgress empty_egress)) as_egress"

section \<open>The fake clientset\<close>

definition simple_watch_reaction :: "fake_action \<Rightarrow> (tracker, bool \<times> nat option \<times> goerror option) prog" where
  "simple_watch_reaction a t =
     (let ns = (case a of
                  GetAction r ns name \<Rightarrow> ns | ListAction r k ns opts \<Rightarrow> ns | CreateAction r sub ns obj \<Rightarrow> ns
                | UpdateAction r sub ns obj \<Rightarrow> ns | DeleteAction r ns name \<Rightarrow> ns | DeleteCollectionAction r ns opts \<Rightarrow> ns
                | PatchAction r sub ns name pt data \<Rightarrow> ns | WatchAction r ns opts \<Rightarrow> ns);
          (w, t') = tracker_Watch (GetResource a) ns t in
      (Ok (True, Some w, None), t'))"

text \<open>\<open>NewSimpleClientset\<close>: an object that cannot be added is a panic.\<close>

definition simple_clientset :: "patcher \<Rightarrow> tracker \<Rightarrow> tracker fake" where
  "simple_clientset patch o' =
     AddWatchReactor ''*'' simple_watch_reaction
       (AddReactor ''*'' ''*'' (ObjectReaction patch) \<lparr>fkActions = [], fkChain = [], fkWatchChain = [], fkWorld = o'\<rparr>)"

definition NewSimpleClientset :: "patcher \<Rightarrow> runtime_object list \<Rightarrow> tracker fake outcome" where
  "NewSimpleClientset patch objects =
     (case forE objects tracker_Add (NewObjectTracker fake_scheme) of
        (Ok u, o') \<Rightarrow> Ok (simple_clientset patch o')
      | (Err e, o') \<Rightarrow> Panic (PanicErr e)
      | (Panic p, o') \<Rightarrow> Panic p)"

end
