(* ===== verification/FakeStore.thy ===== *)
theory FakeStore
  imports FakeClient
begin

text \<open>
  What the fake clientset promises to a test: its calls are those of a store from namespace and
  name to resources, and what a watcher receives, applied to what the store held when it was
  opened, is what the store holds now.
\<close>

section \<open>The tracker as a store\<close>

type_synonym egress_store = "(string \<times> string) \<Rightarrow> egress_object option"

definition keyed :: "egress_object list \<Rightarrow> egress_store" where
  "keyed es = map_of (map (\<lambda>e. (egress_key e, e)) es)"

primrec egress_items :: "runtime_object list \<Rightarrow> egress_object list" where
  "egress_items [] = []"
| "egress_items (x # xs) = (case x of ObjEgress e \<Rightarrow> e # egress_items xs | _ \<Rightarrow> egress_items xs)"

definition stored :: "tracker \<Rightarrow> egress_object list" where
  "stored t = egress_items (objects_at t staticegressipsResource)"

definition store_of :: "tracker \<Rightarrow> egress_store" where
  "store_of t = keyed (stored t)"

definition tracker_ok :: "tracker \<Rightarrow> bool" where
  "tracker_ok t \<longleftrightarrow>
     objects_at t staticegressipsResource = map ObjEgress (stored t) \<and> distinct (map egress_key (stored t))"

lemma egress_items_map [simp]: "egress_items (map ObjEgress es) = es"
  by (induction es) simp_all

lemma tracker_okI:
  assumes "objects_at t staticegressipsResource = map ObjEgress es" and "distinct (map egress_key es)"
  shows "tracker_ok t" and "stored t = es"
  using assms by (simp_all add: tracker_ok_def stored_def)

lemma keyed_Cons: "keyed (e # es) = (keyed es)(egress_key e \<mapsto> e)"
  by (simp add: keyed_def)

lemma keyed_key: "keyed es k = Some e \<Longrightarrow> egress_key e = k \<and> e \<in> set es"
  unfolding keyed_def by (drule map_of_SomeD) auto

lemma keyed_in: "distinct (map egress_key es) \<Longrightarrow> e \<in> set es \<Longrightarrow> keyed es (egress_key e) = Some e"
proof (induction es)
  case (Cons x xs)
  show ?case
  proof (cases "e = x")
    case False
    with Cons have "egress_key e \<noteq> egress_key x" by (metis distinct.simps(2) image_eqI list.set_map list.simps(9) set_ConsD)
    with False Cons show ?thesis by (simp add: keyed_Cons)
  qed (simp add: keyed_Cons)
qed simp

lemma keyed_None: "keyed es k = None \<longleftrightarrow> k \<notin> egress_key ` set es"
  by (auto simp: keyed_def map_of_eq_None_iff image_image)

lemma keyed_snoc: "k \<notin> egress_key ` set es \<Longrightarrow> egress_key e = k \<Longrightarrow> keyed (es @ [e]) = (keyed es)(k \<mapsto> e)"
  by (induction es) (auto simp: keyed_Cons keyed_def fun_upd_twist)

lemma keyed_update:
  assumes "distinct (map egress_key es)" and "i < length es" and "egress_key e = egress_key (es ! i)"
  shows "keyed (es[i := e]) = (keyed es)(egress_key e \<mapsto> e)" and "map egress_key (es[i := e]) = map egress_key es"
proof -
  show same: "map egress_key (es[i := e]) = map egress_key es"
    using assms(2,3) by (simp add: map_update list_update_same_conv)
  show "keyed (es[i := e]) = (keyed es)(egress_key e \<mapsto> e)"
    using assms
  proof (induction es arbitrary: i)
    case (Cons x xs)
    show ?case
    proof (cases i)
      case 0
      with Cons.prems show ?thesis by (simp add: keyed_Cons fun_eq_iff)
    next
      case (Suc j)
      with Cons.prems have ne: "egress_key x \<noteq> egress_key e" by auto
      have "keyed (xs[j := e]) = (keyed xs)(egress_key e \<mapsto> e)"
        by (rule Cons.IH) (use Cons.prems Suc in simp_all)
      then have "keyed (x # xs[j := e]) = (keyed xs)(egress_key e \<mapsto> e, egress_key x \<mapsto> x)" by (simp only: keyed_Cons)
      also have "\<dots> = (keyed (x # xs))(egress_key e \<mapsto> e)" using ne by (auto simp: keyed_Cons fun_eq_iff)
      finally show ?thesis using Suc by simp
    qed
  qed simp
qed

lemma keyed_remove:
  assumes "distinct (map egress_key es)" and "i < length es"
  shows "keyed (take i es @ drop (Suc i) es) = (keyed es)(egress_key (es ! i) := None)"
  using assms
proof (induction es arbitrary: i)
  case (Cons x xs)
  show ?case
  proof (cases i)
    case 0
    with Cons.prems have "keyed xs (egress_key x) = None" by (simp add: keyed_None)
    with 0 show ?thesis by (auto simp: keyed_Cons)
  next
    case (Suc j)
    with Cons.prems have ne: "egress_key x \<noteq> egress_key (xs ! j)" by auto
    have "keyed (take j xs @ drop (Suc j) xs) = (keyed xs)(egress_key (xs ! j) := None)"
      by (rule Cons.IH) (use Cons.prems Suc in simp_all)
    then have "keyed (x # take j xs @ drop (Suc j) xs) = (keyed xs)(egress_key (xs ! j) := None, egress_key x \<mapsto> x)"
      by (simp only: keyed_Cons)
    also have "\<dots> = (keyed (x # xs))(egress_key (xs ! j) := None)" using ne by (auto simp: keyed_Cons fun_eq_iff)
    finally show ?thesis using Suc by simp
  qed
qed simp

text \<open>The loops of the tracker on a list of resources.\<close>

lemma find_object_None: "k \<notin> egress_key ` set es \<Longrightarrow> find_object k i (map ObjEgress es) = Inr None"
  by (induction es arbitrary: i) auto

lemma find_object_Some:
  assumes "keyed es k = Some e"
  shows "\<exists>n < length es. find_object k i (map ObjEgress es) = Inr (Some (i + n)) \<and> es ! n = e"
  using assms
proof (induction es arbitrary: i)
  case (Cons x xs)
  show ?case
  proof (cases "egress_key x = k")
    case True
    with Cons.prems show ?thesis by (auto simp: keyed_Cons)
  next
    case False
    with Cons.prems have "keyed xs k = Some e" by (simp add: keyed_Cons)
    from Cons.IH [OF this, of "Suc i"] obtain n where "n < length xs"
      "find_object k (Suc i) (map ObjEgress xs) = Inr (Some (Suc i + n))" "xs ! n = e" by blast
    with False show ?thesis by (intro exI [of _ "Suc n"]) simp
  qed
qed (simp add: keyed_def)

definition selected :: "string \<Rightarrow> string \<Rightarrow> egress_object \<Rightarrow> bool" where
  "selected ns name e \<longleftrightarrow> (ns = [] \<or> sNamespace e = ns) \<and> (name = [] \<or> sName e = name)"

lemma filterByNamespaceAndName_run:
  "filterByNamespaceAndName (map ObjEgress es) ns name = Inr (map ObjEgress (filter (selected ns name) es))"
  by (induction es) (auto simp: selected_def egress_key_def)

lemma filter_selected:
  assumes "distinct (map egress_key es)" and "ns \<noteq> []" and "name \<noteq> []"
  shows "filter (selected ns name) es = (case keyed es (ns, name) of None \<Rightarrow> [] | Some e \<Rightarrow> [e])"
proof -
  have sel: "selected ns name e \<longleftrightarrow> egress_key e = (ns, name)" for e
    using assms(2,3) by (auto simp: selected_def egress_key_def)
  show ?thesis
    using assms(1)
  proof (induction es)
    case (Cons x xs)
    have "keyed xs (ns, name) = None" if "egress_key x = (ns, name)"
      using Cons.prems that by (simp add: keyed_None)
    with Cons show ?case by (simp add: keyed_Cons sel)
  qed (simp add: keyed_def)
qed

lemma set_items_run [simp]: "set_items (map ObjEgress es) = Inr es"
  by (induction es) simp_all

definition lookup :: "egress_store \<Rightarrow> string \<Rightarrow> string \<Rightarrow> egress_object option \<times> goerror option" where
  "lookup st ns name = (case st (ns, name) of None \<Rightarrow> (None, Some (ErrNotFound name)) | Some e \<Rightarrow> (Some e, None))"

lemma objects_at_None: "tkObjects t r = None \<Longrightarrow> objects_at t r = []"
  by (simp add: objects_at_def)

lemma tracker_Get_run:
  assumes "tracker_ok t" and "ns \<noteq> []" and "name \<noteq> []"
  shows "tracker_Get staticegressipsResource ns name t =
     (case store_of t (ns, name) of None \<Rightarrow> Inl (ErrNotFound name) | Some e \<Rightarrow> Inr (ObjEgress e))"
proof (cases "tkObjects t staticegressipsResource")
  case None
  then have "stored t = []" by (simp add: stored_def objects_at_def)
  with None show ?thesis by (simp add: tracker_Get_def store_of_def keyed_def)
next
  case (Some objs)
  then have "objs = map ObjEgress (stored t)" and d: "distinct (map egress_key (stored t))"
    using assms(1) by (simp_all add: tracker_ok_def objects_at_def)
  with Some show ?thesis
    by (simp add: tracker_Get_def filterByNamespaceAndName_run filter_selected [OF d assms(2,3)] store_of_def
        split: option.split)
qed

section \<open>Events\<close>

definition watch_ok :: "tracker \<Rightarrow> bool" where
  "watch_ok t \<longleftrightarrow>
     (\<forall>r ns. distinct (tkWatchers t r ns) \<and> (\<forall>w\<in>set (tkWatchers t r ns). w < length (tkHeap t))) \<and>
     (\<forall>r ns r' ns' w. w \<in> set (tkWatchers t r ns) \<longrightarrow> w \<in> set (tkWatchers t r' ns') \<longrightarrow> r = r' \<and> ns = ns')"

text \<open>Every watcher is stopped or has room for another event.\<close>

definition room :: "tracker \<Rightarrow> bool" where
  "room t \<longleftrightarrow> (\<forall>w < length (tkHeap t). fwStopped (tkHeap t ! w) \<or> length (fwResult (tkHeap t ! w)) < DefaultChanSize)"

definition received :: "watch_event \<Rightarrow> fake_watcher \<Rightarrow> fake_watcher" where
  "received e x = (if fwStopped x then x else x\<lparr>fwResult := fwResult x @ [e]\<rparr>)"

text \<open>What delivering an event to a list of watchers does.\<close>

definition delivered :: "watch_event \<Rightarrow> nat list \<Rightarrow> tracker \<Rightarrow> tracker \<Rightarrow> bool" where
  "delivered e ws t t' \<longleftrightarrow>
     (\<exists>h. t' = t\<lparr>tkHeap := h\<rparr> \<and> length h = length (tkHeap t) \<and>
          (\<forall>w. h ! w = (if w \<in> set ws then received e (tkHeap t ! w) else tkHeap t ! w)))"

lemma deliver_run:
  assumes "w < length (tkHeap t)"
  shows "deliver e w t = (Ok (), t\<lparr>tkHeap := (tkHeap t)[w := received e (tkHeap t ! w)]\<rparr>) \<or>
         (\<exists>p. deliver e w t = (Panic p, t) \<and> \<not> room t)"
  using assms by (auto simp: deliver_def received_def Let_def room_def)

lemma forE_deliver:
  assumes "distinct ws" and "\<forall>w\<in>set ws. w < length (tkHeap t)" and "forE ws (deliver e) t = (Ok (), t')"
  shows "delivered e ws t t'"
  using assms
proof (induction ws arbitrary: t)
  case Nil
  then show ?case by (auto simp: delivered_def intro!: exI [of _ "tkHeap t"])
next
  case (Cons w ws)
  let ?t = "t\<lparr>tkHeap := (tkHeap t)[w := received e (tkHeap t ! w)]\<rparr>"
  have w: "w < length (tkHeap t)" using Cons.prems by simp
  have one: "deliver e w t = (Ok (), ?t)" and rest: "forE ws (deliver e) ?t = (Ok (), t')"
    using deliver_run [OF w, of e] Cons.prems(3) by (auto simp: bindE_def)
  have "delivered e ws ?t t'" using Cons.IH [of ?t] Cons.prems rest by simp
  then obtain h where h: "t' = ?t\<lparr>tkHeap := h\<rparr>" "length h = length (tkHeap t)"
    "\<And>v. h ! v = (if v \<in> set ws then received e (tkHeap ?t ! v) else tkHeap ?t ! v)"
    by (auto simp: delivered_def)
  have "h ! v = (if v \<in> set (w # ws) then received e (tkHeap t ! v) else tkHeap t ! v)" for v
    using h(3) [of v] Cons.prems(1) w by (cases "v = w") auto
  with h show ?case by (auto simp: delivered_def intro!: exI [of _ h])
qed

lemma forE_deliver_room:
  assumes "distinct ws" and "\<forall>w\<in>set ws. w < length (tkHeap t)"
    and "\<forall>w\<in>set ws. fwStopped (tkHeap t ! w) \<or> length (fwResult (tkHeap t ! w)) < DefaultChanSize"
  shows "\<exists>t'. forE ws (deliver e) t = (Ok (), t')"
  using assms
proof (induction ws arbitrary: t)
  case (Cons w ws)
  let ?t = "t\<lparr>tkHeap := (tkHeap t)[w := received e (tkHeap t ! w)]\<rparr>"
  have one: "deliver e w t = (Ok (), ?t)"
    using Cons.prems by (auto simp: deliver_def received_def Let_def)
  have "\<exists>t'. forE ws (deliver e) ?t = (Ok (), t')"
    by (rule Cons.IH) (use Cons.prems in \<open>auto simp: nth_list_update\<close>)
  with one show ?case by (auto simp: bindE_def)
qed simp

lemma getWatches_ok:
  assumes "watch_ok t"
  shows "distinct (getWatches t r ns)" and "\<forall>w\<in>set (getWatches t r ns). w < length (tkHeap t)"
proof -
  have "distinct (tkWatchers t r n)" and "w \<in> set (tkWatchers t r n) \<Longrightarrow> w < length (tkHeap t)" for n w
    using assms unfolding watch_ok_def by blast+
  moreover have "set (tkWatchers t r ns) \<inter> set (tkWatchers t r []) = {}" if "ns \<noteq> []"
    using assms that unfolding watch_ok_def by blast
  ultimately show "distinct (getWatches t r ns)" and "\<forall>w\<in>set (getWatches t r ns). w < length (tkHeap t)"
    by (auto simp: getWatches_def)
qed

lemma notify_run:
  assumes "watch_ok t" and "notify r ns e t = (Ok (), t')"
  shows "delivered e (getWatches t r ns) t t'"
  using assms(2) unfolding notify_def by (rule forE_deliver [OF getWatches_ok [OF assms(1)]])

lemma notify_room:
  assumes "watch_ok t" and "room t"
  shows "\<exists>t'. notify r ns e t = (Ok (), t')"
  unfolding notify_def
  by (rule forE_deliver_room [OF getWatches_ok [OF assms(1)]])
    (use assms(2) getWatches_ok(2) [OF assms(1)] in \<open>auto simp: room_def\<close>)

lemma deliver_never_fails: "forE ws (deliver e) t \<noteq> (Err x, t')"
proof (induction ws arbitrary: t)
  case (Cons w ws)
  have "deliver e w t \<noteq> (Err x, t')" for t t' by (auto simp: deliver_def Let_def)
  with Cons show ?case by (auto simp: bindE_def split: prod.splits outcome.splits)
qed simp

lemma deliveredD:
  assumes "delivered e ws t t'"
  shows "tkObjects t' = tkObjects t" "tkWatchers t' = tkWatchers t" "tkScheme t' = tkScheme t"
    and "length (tkHeap t') = length (tkHeap t)"
    and "w \<in> set ws \<Longrightarrow> tkHeap t' ! w = received e (tkHeap t ! w)"
    and "w \<notin> set ws \<Longrightarrow> tkHeap t' ! w = tkHeap t ! w"
  using assms by (auto simp: delivered_def)

section \<open>Changes of the store\<close>

fun apply_event :: "watch_event \<Rightarrow> egress_store \<Rightarrow> egress_store" where
  "apply_event (Added (ObjEgress e)) st = st(egress_key e \<mapsto> e)"
| "apply_event (Modified (ObjEgress e)) st = st(egress_key e \<mapsto> e)"
| "apply_event (Deleted (ObjEgress e)) st = st(egress_key e := None)"
| "apply_event _ st = st"

text \<open>A change is one event of a resource in the namespace of the call, sent to the watchers of that namespace.\<close>

definition event_of :: "watch_event \<Rightarrow> egress_object \<Rightarrow> bool" where
  "event_of ev e \<longleftrightarrow> ev = Added (ObjEgress e) \<or> ev = Modified (ObjEgress e) \<or> ev = Deleted (ObjEgress e)"

definition commits :: "string \<Rightarrow> watch_event \<Rightarrow> tracker \<Rightarrow> tracker \<Rightarrow> bool" where
  "commits ns ev t t' \<longleftrightarrow>
     tracker_ok t' \<and> store_of t' = apply_event ev (store_of t) \<and> (\<exists>e. event_of ev e \<and> sNamespace e = ns) \<and>
     tkScheme t' = tkScheme t \<and> tkWatchers t' = tkWatchers t \<and> length (tkHeap t') = length (tkHeap t) \<and>
     (\<forall>w. tkHeap t' ! w =
        (if w \<in> set (getWatches t staticegressipsResource ns) then received ev (tkHeap t ! w) else tkHeap t ! w))"

definition fake_ok :: "tracker \<Rightarrow> bool" where
  "fake_ok t \<longleftrightarrow> tracker_ok t \<and> watch_ok t"

lemma commits_ok: "fake_ok t \<Longrightarrow> commits ns ev t t' \<Longrightarrow> fake_ok t'"
  by (simp add: fake_ok_def watch_ok_def commits_def)

abbreviation set_objects :: "runtime_object list \<Rightarrow> tracker \<Rightarrow> tracker" where
  "set_objects l t \<equiv> t\<lparr>tkObjects := (tkObjects t)(staticegressipsResource \<mapsto> l)\<rparr>"

lemma set_objects_simps [simp]:
  "objects_at (set_objects l t) staticegressipsResource = l" "watch_ok (set_objects l t) = watch_ok t"
  "room (set_objects l t) = room t" "getWatches (set_objects l t) r ns = getWatches t r ns"
  by (simp_all add: objects_at_def watch_ok_def room_def getWatches_def)

lemma delivered_set_objects: "delivered e ws t t' \<Longrightarrow> delivered e ws (set_objects l t) (set_objects l t')"
proof -
  assume "delivered e ws t t'"
  then obtain h where "t' = t\<lparr>tkHeap := h\<rparr>" "length h = length (tkHeap t)"
    "\<forall>w. h ! w = (if w \<in> set ws then received e (tkHeap t ! w) else tkHeap t ! w)"
    unfolding delivered_def by blast
  then show ?thesis unfolding delivered_def by (intro exI [of _ h]) simp
qed

text \<open>Storing the objects and telling the watchers, in either order.\<close>

lemma commitsI:
  assumes del: "delivered ev (getWatches t staticegressipsResource ns) t1 t2"
    and t1: "tkHeap t1 = tkHeap t" "tkWatchers t1 = tkWatchers t" "tkScheme t1 = tkScheme t"
    and objs: "objects_at t2 staticegressipsResource = map ObjEgress es" "distinct (map egress_key es)"
    and st: "keyed es = apply_event ev (store_of t)" and ev: "event_of ev e" "sNamespace e = ns"
  shows "commits ns ev t t2"
proof -
  have "store_of t2 = apply_event ev (store_of t)" using tracker_okI(2) [OF objs] st by (simp add: store_of_def)
  then show ?thesis
    using tracker_okI(1) [OF objs] deliveredD [OF del] t1 ev unfolding commits_def by auto
qed

definition placed :: "string \<Rightarrow> egress_object \<Rightarrow> egress_object" where
  "placed ns e = (if sNamespace e = [] then e\<lparr>sNamespace := ns\<rparr> else e)"

lemma placed_simps [simp]:
  "sName (placed ns e) = sName e" "sLabels (placed ns e) = sLabels e"
  by (simp_all add: placed_def)

lemma tracker_add_egress:
  "tracker_add staticegressipsResource (ObjEgress e) ns rep t =
     (if ns \<noteq> sNamespace (placed ns e) then (Err bad_namespace, t)
      else (case find_object (egress_key (placed ns e)) 0 (objects_at t staticegressipsResource) of
              Inl x \<Rightarrow> (Err x, t)
            | Inr (Some i) \<Rightarrow>
                if rep
                then bindE (notify staticegressipsResource ns (Modified (ObjEgress (placed ns e))))
                       (\<lambda>_ t'. (Ok (), set_objects ((objects_at t' staticegressipsResource)[i := ObjEgress (placed ns e)]) t')) t
                else (Err already_exists, t)
            | Inr None \<Rightarrow>
                if rep then (Err (ErrNotFound (sName e)), t)
                else notify staticegressipsResource ns (Added (ObjEgress (placed ns e)))
                       (set_objects (objects_at t staticegressipsResource @ [ObjEgress (placed ns e)]) t)))"
  by (cases "sNamespace e = []")
    (simp_all add: tracker_add_def placed_def egress_key_def Let_def split: sum.split option.split)

text \<open>What \<open>add\<close> should do: refuse with an error, or enter the object.\<close>

definition spec_add :: "bool \<Rightarrow> string \<Rightarrow> egress_object \<Rightarrow> egress_store \<Rightarrow> goerror option" where
  "spec_add rep ns e st =
     (if ns \<noteq> sNamespace (placed ns e) then Some bad_namespace
      else if st (egress_key (placed ns e)) = None then (if rep then Some (ErrNotFound (sName e)) else None)
      else (if rep then None else Some already_exists))"

lemma tracker_add_refused:
  assumes "tracker_ok t" and "spec_add rep ns e (store_of t) = Some err"
  shows "tracker_add staticegressipsResource (ObjEgress e) ns rep t = (Err err, t)"
proof (cases "ns \<noteq> sNamespace (placed ns e)")
  case False
  note same = False
  have objs: "objects_at t staticegressipsResource = map ObjEgress (stored t)" using assms(1) by (simp add: tracker_ok_def)
  show ?thesis
  proof (cases "store_of t (egress_key (placed ns e))")
    case None
    then have "find_object (egress_key (placed ns e)) 0 (map ObjEgress (stored t)) = Inr None"
      by (intro find_object_None) (simp add: store_of_def keyed_None)
    with None same assms(2) show ?thesis by (simp add: tracker_add_egress objs spec_add_def split: if_splits)
  next
    case (Some old)
    then obtain n where "find_object (egress_key (placed ns e)) 0 (map ObjEgress (stored t)) = Inr (Some n)"
      using find_object_Some [of "stored t" "egress_key (placed ns e)" old 0] by (auto simp: store_of_def)
    with Some same assms(2) show ?thesis by (simp add: tracker_add_egress objs spec_add_def split: if_splits)
  qed
qed (use assms in \<open>auto simp: tracker_add_egress spec_add_def\<close>)

text \<open>A change went through, or a watcher that is not read was full.\<close>

definition went_through :: "string \<Rightarrow> watch_event \<Rightarrow> tracker \<Rightarrow> unit outcome \<times> tracker \<Rightarrow> bool" where
  "went_through ns ev t res \<longleftrightarrow>
     (case fst res of Ok u \<Rightarrow> commits ns ev t (snd res) | Err x \<Rightarrow> False | Panic p \<Rightarrow> \<not> room t)"

lemma notify_cases:
  assumes "watch_ok t"
  obtains (done') t' where "notify r ns e t = (Ok (), t')" "delivered e (getWatches t r ns) t t'"
  | (full) p t' where "notify r ns e t = (Panic p, t')" "\<not> room t"
proof (cases "notify r ns e t")
  case (Pair x t')
  show ?thesis
  proof (cases x)
    case (Ok u)
    with Pair that(1) notify_run [OF assms] show ?thesis by simp
  next
    case (Err y)
    with Pair deliver_never_fails show ?thesis by (metis notify_def)
  next
    case (Panic p)
    with Pair notify_room [OF assms, of r ns e] that(2) show ?thesis by fastforce
  qed
qed

lemma tracker_add_new:
  assumes "fake_ok t" and "spec_add False ns e (store_of t) = None"
  shows "went_through ns (Added (ObjEgress (placed ns e))) t (tracker_add staticegressipsResource (ObjEgress e) ns False t)"
proof -
  let ?R = staticegressipsResource and ?e = "placed ns e" and ?es = "stored t"
  have objs: "objects_at t ?R = map ObjEgress ?es" and dist: "distinct (map egress_key ?es)" and w: "watch_ok t"
    using assms(1) by (simp_all add: fake_ok_def tracker_ok_def)
  have ns: "ns = sNamespace ?e" and free: "store_of t (egress_key ?e) = None"
    using assms(2) by (auto simp: spec_add_def split: if_splits)
  then have new: "egress_key ?e \<notin> egress_key ` set ?es" by (simp add: store_of_def keyed_None)
  let ?t = "set_objects (map ObjEgress (?es @ [?e])) t"
  have run: "tracker_add ?R (ObjEgress e) ns False t = notify ?R ns (Added (ObjEgress ?e)) ?t"
    using ns new by (simp add: tracker_add_egress objs find_object_None)
  have "watch_ok ?t" using w by simp
  then show ?thesis
  proof (cases rule: notify_cases [of ?t ?R ns "Added (ObjEgress ?e)"])
    case (done' t')
    have "commits ns (Added (ObjEgress ?e)) t t'"
    proof (rule commitsI)
      show "delivered (Added (ObjEgress ?e)) (getWatches t ?R ns) ?t t'" using done'(2) by simp
      show "objects_at t' ?R = map ObjEgress (?es @ [?e])"
        using deliveredD(1) [OF done'(2)] by (simp add: objects_at_def)
      show "keyed (?es @ [?e]) = apply_event (Added (ObjEgress ?e)) (store_of t)"
        using keyed_snoc [OF new refl] by (simp add: store_of_def)
    qed (use dist new ns in \<open>auto simp: event_of_def\<close>)
    with run done'(1) show ?thesis by (simp add: went_through_def)
  next
    case (full p t')
    with run show ?thesis by (simp add: went_through_def)
  qed
qed

lemma tracker_add_replace:
  assumes "fake_ok t" and "spec_add True ns e (store_of t) = None"
  shows "went_through ns (Modified (ObjEgress (placed ns e))) t (tracker_add staticegressipsResource (ObjEgress e) ns True t)"
proof -
  let ?R = staticegressipsResource and ?e = "placed ns e" and ?es = "stored t"
  have objs: "objects_at t ?R = map ObjEgress ?es" and dist: "distinct (map egress_key ?es)" and w: "watch_ok t"
    using assms(1) by (simp_all add: fake_ok_def tracker_ok_def)
  have ns: "ns = sNamespace ?e" and taken: "store_of t (egress_key ?e) \<noteq> None"
    using assms(2) by (auto simp: spec_add_def split: if_splits)
  then obtain old where old: "keyed ?es (egress_key ?e) = Some old" by (auto simp: store_of_def)
  obtain i where i: "i < length ?es" "?es ! i = old"
    and find: "find_object (egress_key ?e) 0 (map ObjEgress ?es) = Inr (Some i)"
    using find_object_Some [OF old, of 0] by auto
  have key: "egress_key ?e = egress_key (?es ! i)" using keyed_key [OF old] i(2) by simp
  have run: "tracker_add ?R (ObjEgress e) ns True t =
      bindE (notify ?R ns (Modified (ObjEgress ?e)))
        (\<lambda>_ t'. (Ok (), set_objects ((objects_at t' ?R)[i := ObjEgress ?e]) t')) t"
    using ns find by (simp add: tracker_add_egress objs)
  show ?thesis
    using w
  proof (cases rule: notify_cases [of t ?R ns "Modified (ObjEgress ?e)"])
    case (done' t')
    let ?t = "set_objects (map ObjEgress (?es[i := ?e])) t'"
    have at: "objects_at t' ?R = map ObjEgress ?es" using deliveredD(1) [OF done'(2)] objs by (simp add: objects_at_def)
    have "commits ns (Modified (ObjEgress ?e)) t ?t"
    proof (rule commitsI)
      show "delivered (Modified (ObjEgress ?e)) (getWatches t ?R ns) (set_objects (map ObjEgress (?es[i := ?e])) t) ?t"
        by (rule delivered_set_objects [OF done'(2)])
      show "keyed (?es[i := ?e]) = apply_event (Modified (ObjEgress ?e)) (store_of t)"
        using keyed_update(1) [OF dist i(1) key] by (simp add: store_of_def)
      show "distinct (map egress_key (?es[i := ?e]))" using keyed_update(2) [OF dist i(1) key] dist by simp
    qed (use ns in \<open>auto simp: event_of_def\<close>)
    with run done'(1) at show ?thesis by (simp add: went_through_def bindE_def map_update)
  next
    case (full p t')
    with run show ?thesis by (simp add: went_through_def bindE_def)
  qed
qed

lemma tracker_Delete_missing:
  assumes "tracker_ok t" and "store_of t (ns, name) = None"
  shows "tracker_Delete staticegressipsResource ns name t = (Err (ErrNotFound name), t)"
  using assms find_object_None [of "(ns, name)" "stored t" 0]
  by (simp add: tracker_Delete_def tracker_ok_def store_of_def keyed_None)

lemma tracker_Delete_found:
  assumes "fake_ok t" and "store_of t (ns, name) = Some e"
  shows "went_through ns (Deleted (ObjEgress e)) t (tracker_Delete staticegressipsResource ns name t)"
proof -
  let ?R = staticegressipsResource and ?es = "stored t"
  have objs: "objects_at t ?R = map ObjEgress ?es" and dist: "distinct (map egress_key ?es)" and w: "watch_ok t"
    using assms(1) by (simp_all add: fake_ok_def tracker_ok_def)
  have e: "keyed ?es (ns, name) = Some e" using assms(2) by (simp add: store_of_def)
  obtain i where i: "i < length ?es" "?es ! i = e"
    and find: "find_object (ns, name) 0 (map ObjEgress ?es) = Inr (Some i)"
    using find_object_Some [OF e, of 0] by auto
  let ?rest = "take i ?es @ drop (Suc i) ?es" and ?ev = "Deleted (ObjEgress e)"
  let ?t = "set_objects (map ObjEgress ?rest) t"
  have run: "tracker_Delete ?R ns name t = notify ?R ns ?ev ?t"
    using find i by (simp add: tracker_Delete_def objs take_map drop_map Let_def)
  have "watch_ok ?t" using w by simp
  then show ?thesis
  proof (cases rule: notify_cases [of ?t ?R ns ?ev])
    case (done' t')
    have "commits ns ?ev t t'"
    proof (rule commitsI)
      show "delivered ?ev (getWatches t ?R ns) ?t t'" using done'(2) by simp
      show "objects_at t' ?R = map ObjEgress ?rest" using deliveredD(1) [OF done'(2)] by (simp add: objects_at_def)
      show "keyed ?rest = apply_event ?ev (store_of t)" using keyed_remove [OF dist i(1)] i(2) by (simp add: store_of_def)
      show "distinct (map egress_key ?rest)"
        using dist by (subst (asm) id_take_nth_drop [OF i(1)]) simp
      show "sNamespace e = ns" using keyed_key [OF e] by (simp add: egress_key_def)
    qed (auto simp: event_of_def)
    with run done'(1) show ?thesis by (simp add: went_through_def)
  next
    case (full p t')
    with run show ?thesis by (simp add: went_through_def)
  qed
qed

section \<open>Calls\<close>

datatype fake_call =
    CallGet string
  | CallList select_options
  | CallCreate egress_object
  | CallUpdate egress_object
  | CallUpdateStatus egress_object
  | CallDelete string
  | CallDeleteCollection select_options
  | CallPatch string string string "string list"     \<comment> \<open>name, type, bytes, subresources\<close>

datatype fake_reply =
    RepObject "egress_object option" "goerror option"
  | RepList "egress_object list option" "goerror option"
  | RepError "goerror option"

primrec fake_do :: "selector_parsers \<Rightarrow> string \<Rightarrow> fake_call \<Rightarrow> ('w fake, fake_reply) prog" where
  "fake_do sp ns (CallGet name) = bindE (fake_Get ns name) (\<lambda>(x, err). returnE (RepObject x err))"
| "fake_do sp ns (CallList opts) = bindE (fake_List sp ns opts) (\<lambda>(x, err). returnE (RepList x err))"
| "fake_do sp ns (CallCreate e) = bindE (fake_Create ns e) (\<lambda>(x, err). returnE (RepObject x err))"
| "fake_do sp ns (CallUpdate e) = bindE (fake_Update ns e) (\<lambda>(x, err). returnE (RepObject x err))"
| "fake_do sp ns (CallUpdateStatus e) = bindE (fake_UpdateStatus ns e) (\<lambda>(x, err). returnE (RepObject x err))"
| "fake_do sp ns (CallDelete name) = bindE (fake_Delete ns name) (\<lambda>err. returnE (RepError err))"
| "fake_do sp ns (CallDeleteCollection opts) = bindE (fake_DeleteCollection sp ns opts) (\<lambda>err. returnE (RepError err))"
| "fake_do sp ns (CallPatch name pt data subs) = bindE (fake_Patch ns name pt data subs) (\<lambda>(x, err). returnE (RepObject x err))"

text \<open>The action that a call records.\<close>

primrec action_of :: "string \<Rightarrow> fake_call \<Rightarrow> fake_action" where
  "action_of ns (CallGet name) = GetAction staticegressipsResource ns name"
| "action_of ns (CallList opts) = ListAction staticegressipsResource staticegressipsKind ns opts"
| "action_of ns (CallCreate e) = CreateAction staticegressipsResource [] ns (ObjEgress e)"
| "action_of ns (CallUpdate e) = UpdateAction staticegressipsResource [] ns (ObjEgress e)"
| "action_of ns (CallUpdateStatus e) = UpdateAction staticegressipsResource ''status'' ns (ObjEgress e)"
| "action_of ns (CallDelete name) = DeleteAction staticegressipsResource ns name"
| "action_of ns (CallDeleteCollection opts) = DeleteCollectionAction staticegressipsResource ns opts"
| "action_of ns (CallPatch name pt data subs) = PatchAction staticegressipsResource (path_Join subs) ns name pt data"

text \<open>
  The store as a test expects it: \<open>store_serves\<close> relates a call to its reply and the store after it.
  \<open>DeleteCollection\<close> has no reaction, so it succeeds and deletes nothing, and a list looks at
  the label selector only.
\<close>

definition spec_put :: "bool \<Rightarrow> string \<Rightarrow> egress_object \<Rightarrow> egress_store \<Rightarrow> fake_reply \<Rightarrow> egress_store \<Rightarrow> bool" where
  "spec_put rep ns e st reply st' \<longleftrightarrow>
     (case spec_add rep ns e st of
        Some err \<Rightarrow> reply = RepObject None (Some err) \<and> st' = st
      | None \<Rightarrow> reply = RepObject (Some (placed ns e)) None \<and> st' = st(egress_key (placed ns e) \<mapsto> placed ns e))"

definition spec_patch ::
  "patcher \<Rightarrow> string \<Rightarrow> string \<Rightarrow> string \<Rightarrow> string \<Rightarrow> egress_store \<Rightarrow> fake_reply \<Rightarrow> egress_store \<Rightarrow> bool" where
  "spec_patch patch ns name pt data st reply st' \<longleftrightarrow>
     (case st (ns, name) of
        None \<Rightarrow> reply = RepObject None (Some (ErrNotFound name)) \<and> st' = st
      | Some e \<Rightarrow>
          if pt \<notin> set supported_patches
          then reply = RepObject None (Some (ErrText ''PatchType is not supported'')) \<and> st' = st
          else (case patch pt data (ObjEgress e) of
                  Inl err \<Rightarrow> reply = RepObject None (Some err) \<and> st' = st
                | Inr (ObjEgress e') \<Rightarrow>
                    (case spec_add True ns e' st of
                       Some err \<Rightarrow> reply = RepObject None (Some err) \<and> st' = st
                     | None \<Rightarrow> reply = RepObject (Some e') None \<and> st' = st(egress_key (placed ns e') \<mapsto> placed ns e'))
                | Inr _ \<Rightarrow> False))"

definition spec_list :: "selector_parsers \<Rightarrow> string \<Rightarrow> select_options \<Rightarrow> egress_store \<Rightarrow> egress_object list \<Rightarrow> bool" where
  "spec_list sp ns opts st es \<longleftrightarrow>
     distinct es \<and>
     set es = {e. st (egress_key e) = Some e \<and> (ns = [] \<or> sNamespace e = ns) \<and>
                  (\<exists>matches. parseLabels sp (loLabelSelector opts) = Some matches \<and> matches (sLabels e))}"

primrec store_serves ::
  "selector_parsers \<Rightarrow> patcher \<Rightarrow> string \<Rightarrow> fake_call \<Rightarrow> egress_store \<Rightarrow> fake_reply \<Rightarrow> egress_store \<Rightarrow> bool" where
  "store_serves sp patch ns (CallGet name) st reply st' \<longleftrightarrow>
     (case lookup st ns name of (x, err) \<Rightarrow> reply = RepObject x err) \<and> st' = st"
| "store_serves sp patch ns (CallList opts) st reply st' \<longleftrightarrow>
     (\<exists>es. reply = RepList (Some es) None \<and> spec_list sp ns opts st es) \<and> st' = st"
| "store_serves sp patch ns (CallCreate e) st reply st' \<longleftrightarrow> spec_put False ns e st reply st'"
| "store_serves sp patch ns (CallUpdate e) st reply st' \<longleftrightarrow> spec_put True ns e st reply st'"
| "store_serves sp patch ns (CallUpdateStatus e) st reply st' \<longleftrightarrow> spec_put True ns e st reply st'"
| "store_serves sp patch ns (CallDelete name) st reply st' \<longleftrightarrow>
     reply = RepError (snd (lookup st ns name)) \<and> st' = st((ns, name) := None)"
| "store_serves sp patch ns (CallDeleteCollection opts) st reply st' \<longleftrightarrow> reply = RepError None \<and> st' = st"
| "store_serves sp patch ns (CallPatch name pt data subs) st reply st' \<longleftrightarrow> spec_patch patch ns name pt data st reply st'"

text \<open>
  The calls for which it is so: a lookup by an empty namespace or name matches everything, and
  options that cannot be parsed are a panic.
\<close>

primrec well_named :: "string \<Rightarrow> fake_call \<Rightarrow> bool" where
  "well_named ns (CallGet name) \<longleftrightarrow> ns \<noteq> [] \<and> name \<noteq> []"
| "well_named ns (CallList opts) \<longleftrightarrow> True"
| "well_named ns (CallCreate e) \<longleftrightarrow> ns \<noteq> [] \<and> sName e \<noteq> []"
| "well_named ns (CallUpdate e) \<longleftrightarrow> ns \<noteq> [] \<and> sName e \<noteq> []"
| "well_named ns (CallUpdateStatus e) \<longleftrightarrow> ns \<noteq> [] \<and> sName e \<noteq> []"
| "well_named ns (CallDelete name) \<longleftrightarrow> True"
| "well_named ns (CallDeleteCollection opts) \<longleftrightarrow> True"
| "well_named ns (CallPatch name pt data subs) \<longleftrightarrow> ns \<noteq> [] \<and> name \<noteq> []"

primrec options_parse :: "selector_parsers \<Rightarrow> fake_call \<Rightarrow> bool" where
  "options_parse sp (CallGet name) \<longleftrightarrow> True"
| "options_parse sp (CallList opts) \<longleftrightarrow> parseLabels sp (loLabelSelector opts) \<noteq> None \<and> parseFields sp (loFieldSelector opts)"
| "options_parse sp (CallCreate e) \<longleftrightarrow> True"
| "options_parse sp (CallUpdate e) \<longleftrightarrow> True"
| "options_parse sp (CallUpdateStatus e) \<longleftrightarrow> True"
| "options_parse sp (CallDelete name) \<longleftrightarrow> True"
| "options_parse sp (CallDeleteCollection opts) \<longleftrightarrow> parseLabels sp (loLabelSelector opts) \<noteq> None \<and> parseFields sp (loFieldSelector opts)"
| "options_parse sp (CallPatch name pt data subs) \<longleftrightarrow> True"

text \<open>A patch is decoded into the object it patches, which keeps its Go type.\<close>

definition patch_typed :: "patcher \<Rightarrow> bool" where
  "patch_typed patch \<longleftrightarrow> (\<forall>pt data e x. patch pt data (ObjEgress e) = Inr x \<longrightarrow> (\<exists>e'. x = ObjEgress e'))"

text \<open>The clientset as \<open>NewSimpleClientset\<close> makes it, after any calls.\<close>

definition simple_fake :: "patcher \<Rightarrow> tracker fake \<Rightarrow> bool" where
  "simple_fake patch f \<longleftrightarrow>
     fkChain f = fkChain (simple_clientset patch (fkWorld f)) \<and>
     fkWatchChain f = fkWatchChain (simple_clientset patch (fkWorld f)) \<and>
     scheme_New (tkScheme (fkWorld f)) (list_kind staticegressipsKind) = Inr (egress_type ''StaticEgressIPList'') \<and>
     fake_ok (fkWorld f)"

definition fake_store :: "tracker fake \<Rightarrow> egress_store" where
  "fake_store f = store_of (fkWorld f)"

lemma Invokes_simple:
  assumes "simple_fake patch f"
  shows "Invokes a d f =
     (case ObjectReaction patch a (fkWorld f) of
        (Ok (handled, ret, err), w) \<Rightarrow>
          (Ok (if handled then (ret, err) else (Some d, None)), f\<lparr>fkActions := fkActions f @ [a], fkWorld := w\<rparr>)
      | (Err e, w) \<Rightarrow> (Err e, f\<lparr>fkActions := fkActions f @ [a], fkWorld := w\<rparr>)
      | (Panic p, w) \<Rightarrow> (Panic p, f\<lparr>fkActions := fkActions f @ [a], fkWorld := w\<rparr>))"
  using assms
  by (simp add: simple_fake_def simple_clientset_def AddReactor_def AddWatchReactor_def Invokes_def on_world_def
      reactor_Handles_def bindE_def Let_def split: prod.split outcome.split)

lemma simple_fake_keep:
  assumes "simple_fake patch f" and "fake_ok w" and "tkScheme w = tkScheme (fkWorld f)"
  shows "simple_fake patch (f\<lparr>fkActions := l, fkWorld := w\<rparr>)"
  using assms by (simp add: simple_fake_def simple_clientset_def AddReactor_def AddWatchReactor_def)

text \<open>The reactions of the tracker to the calls that write.\<close>

lemma store_then_get_add:
  assumes "fake_ok t"
  shows "store_then_get (tracker_add staticegressipsResource (ObjEgress e) ns rep) staticegressipsResource ns name t =
           (Ok (True, None, spec_add rep ns e (store_of t)), t) \<and> spec_add rep ns e (store_of t) \<noteq> None
       \<or> spec_add rep ns e (store_of t) = None \<and>
         (\<exists>ev t'. store_then_get (tracker_add staticegressipsResource (ObjEgress e) ns rep) staticegressipsResource ns name t =
              (Ok (of_result (tracker_Get staticegressipsResource ns name t')), t') \<and>
            commits ns ev t t' \<and> apply_event ev (store_of t) = (store_of t)(egress_key (placed ns e) \<mapsto> placed ns e))
       \<or> \<not> room t \<and>
         (\<exists>p t'. store_then_get (tracker_add staticegressipsResource (ObjEgress e) ns rep) staticegressipsResource ns name t =
            (Panic p, t'))"
    (is "?refused \<or> ?changed \<or> ?full")
proof (cases "spec_add rep ns e (store_of t)")
  case (Some err)
  then have "tracker_add staticegressipsResource (ObjEgress e) ns rep t = (Err err, t)"
    using tracker_add_refused assms by (simp add: fake_ok_def)
  with Some show ?thesis by (simp add: store_then_get_def)
next
  case None
  obtain ev where ev: "went_through ns ev t (tracker_add staticegressipsResource (ObjEgress e) ns rep t)"
    and app: "apply_event ev (store_of t) = (store_of t)(egress_key (placed ns e) \<mapsto> placed ns e)"
  proof (cases rep)
    case True
    with None show ?thesis
      using that [of "Modified (ObjEgress (placed ns e))"] tracker_add_replace [OF assms, of ns e] by simp
  next
    case False
    with None show ?thesis
      using that [of "Added (ObjEgress (placed ns e))"] tracker_add_new [OF assms, of ns e] by simp
  qed
  obtain r t' where run: "tracker_add staticegressipsResource (ObjEgress e) ns rep t = (r, t')" by fastforce
  show ?thesis
  proof (cases r)
    case (Ok u)
    with run ev app None have ?changed by (auto simp: went_through_def store_then_get_def)
    then show ?thesis by blast
  next
    case (Err x)
    with run ev show ?thesis by (simp add: went_through_def)
  next
    case (Panic p)
    with run ev have ?full by (auto simp: went_through_def store_then_get_def)
    then show ?thesis by blast
  qed
qed

lemma tracker_Delete_cases:
  assumes "fake_ok t"
  shows "store_of t (ns, name) = None \<and> tracker_Delete staticegressipsResource ns name t = (Err (ErrNotFound name), t)
       \<or> store_of t (ns, name) \<noteq> None \<and>
         (\<exists>ev t'. tracker_Delete staticegressipsResource ns name t = (Ok (), t') \<and> commits ns ev t t' \<and>
            apply_event ev (store_of t) = (store_of t)((ns, name) := None))
       \<or> \<not> room t \<and> (\<exists>p t'. tracker_Delete staticegressipsResource ns name t = (Panic p, t'))"
proof (cases "store_of t (ns, name)")
  case None
  then show ?thesis using tracker_Delete_missing assms by (simp add: fake_ok_def)
next
  case (Some e)
  then have key: "egress_key e = (ns, name)" using keyed_key by (simp add: store_of_def)
  obtain r t' where run: "tracker_Delete staticegressipsResource ns name t = (r, t')" by fastforce
  have went: "went_through ns (Deleted (ObjEgress e)) t (r, t')"
    using tracker_Delete_found [OF assms Some] run by simp
  show ?thesis
  proof (cases r)
    case (Ok u)
    with went run Some key show ?thesis by (auto simp: went_through_def)
  next
    case (Panic p)
    with went run show ?thesis by (auto simp: went_through_def)
  qed (use went in \<open>simp add: went_through_def\<close>)
qed

text \<open>What the tracker does under a call: nothing, a change with its event, or a panic for lack of room.\<close>

definition reacts :: "string \<Rightarrow> tracker \<Rightarrow> 'r outcome \<times> tracker \<Rightarrow> bool" where
  "reacts ns t res \<longleftrightarrow>
     (case fst res of
        Ok r \<Rightarrow> snd res = t \<or> (\<exists>ev. commits ns ev t (snd res))
      | Err e \<Rightarrow> False
      | Panic p \<Rightarrow> \<not> room t)"

lemma store_then_get_reacts:
  assumes "fake_ok t"
  shows "reacts ns t (store_then_get (tracker_add staticegressipsResource (ObjEgress e) ns rep) staticegressipsResource ns name t)"
  using store_then_get_add [OF assms, of e ns rep name] by (elim disjE conjE exE) (auto simp: reacts_def)

lemma tracker_Get_egress:
  assumes "tracker_ok t" and "tracker_Get staticegressipsResource ns name t = Inr x"
  shows "\<exists>e. x = ObjEgress e"
proof -
  obtain objs where o: "tkObjects t staticegressipsResource = Some objs"
    using assms(2) by (auto simp: tracker_Get_def split: option.splits)
  then have objs: "objs = map ObjEgress (stored t)" using assms(1) by (simp add: tracker_ok_def objects_at_def)
  show ?thesis
    using assms(2) by (auto simp: tracker_Get_def o objs filterByNamespaceAndName_run split: list.splits)
qed

lemma reaction_reacts:
  assumes "fake_ok t" and "patch_typed patch"
  shows "reacts ns t (ObjectReaction patch (action_of ns c) t)"
proof (cases c)
  case (CallDelete name)
  then show ?thesis
    using tracker_Delete_cases [OF assms(1), of ns name] by (auto simp: reacts_def)
next
  case (CallPatch name pt data subs)
  show ?thesis
  proof (cases "tracker_Get staticegressipsResource ns name t")
    case (Inr x)
    then obtain e where x: "x = ObjEgress e" using tracker_Get_egress assms(1) unfolding fake_ok_def by blast
    show ?thesis
    proof (cases "pt \<in> set supported_patches")
      case True
      show ?thesis
      proof (cases "patch pt data x")
        case (Inr y)
        then obtain e' where y: "y = ObjEgress e'" using assms(2) x unfolding patch_typed_def by blast
        have "reacts ns t (store_then_get (tracker_add staticegressipsResource (ObjEgress e') ns True) staticegressipsResource ns name t)"
          by (rule store_then_get_reacts [OF assms(1)])
        then show ?thesis
          using CallPatch True Inr y \<open>tracker_Get staticegressipsResource ns name t = Inr x\<close>
          by (auto simp: reacts_def store_then_get_def tracker_Update_def split: prod.splits outcome.splits)
      qed (use CallPatch Inr True in \<open>simp add: reacts_def\<close>)
    qed (use CallPatch Inr in \<open>simp add: reacts_def\<close>)
  qed (use CallPatch in \<open>simp add: reacts_def\<close>)
qed (use store_then_get_reacts [OF assms(1)] in
    \<open>simp_all add: tracker_Create_def tracker_Update_def, simp_all add: reacts_def egress_key_def\<close>)

section \<open>The refinement\<close>

lemma tracker_List_run:
  assumes "tracker_ok t" and "scheme_New (tkScheme t) (list_kind staticegressipsKind) = Inr (egress_type ''StaticEgressIPList'')"
  shows "tracker_List staticegressipsResource staticegressipsKind ns t =
     Inr (ObjEgressList (filter (selected ns []) (stored t)))"
proof (cases "tkObjects t staticegressipsResource")
  case None
  then have "stored t = []" by (simp add: stored_def objects_at_def)
  with None assms(2) show ?thesis by (simp add: tracker_List_def)
next
  case (Some objs)
  then have "objs = map ObjEgress (stored t)" using assms(1) by (simp add: tracker_ok_def objects_at_def)
  with Some assms(2) show ?thesis by (simp add: tracker_List_def filterByNamespaceAndName_run)
qed

lemma spec_list_stored:
  assumes "tracker_ok t" and "parseLabels sp (loLabelSelector opts) = Some matches"
  shows "spec_list sp ns opts (store_of t) (filter (\<lambda>item. matches (sLabels item)) (filter (selected ns []) (stored t)))"
proof -
  have d: "distinct (map egress_key (stored t))" using assms(1) by (simp add: tracker_ok_def)
  have "store_of t (egress_key e) = Some e \<longleftrightarrow> e \<in> set (stored t)" for e
    unfolding store_of_def using keyed_in [OF d] keyed_key by blast
  then show ?thesis
    using d assms(2) by (auto simp: spec_list_def selected_def distinct_map)
qed

text \<open>A call that leaves the tracker alone, and one that changes it.\<close>

lemma call_unchanged:
  assumes "simple_fake patch f" and "f' = f\<lparr>fkActions := l, fkWorld := fkWorld f\<rparr>"
  shows "simple_fake patch f'" and "fake_store f' = fake_store f" and "fkActions f' = l"
  using assms simple_fake_keep [OF assms(1), of "fkWorld f" l] by (simp_all add: fake_store_def simple_fake_def)

lemma call_changed:
  assumes "simple_fake patch f" and "commits ns ev (fkWorld f) w" and "f' = f\<lparr>fkActions := l, fkWorld := w\<rparr>"
  shows "simple_fake patch f'" and "fake_store f' = apply_event ev (fake_store f)" and "fkActions f' = l"
  using assms simple_fake_keep [OF assms(1), of w l] commits_ok [of "fkWorld f" ns ev w]
  by (simp_all add: fake_store_def simple_fake_def commits_def)

text \<open>The three calls that put an object.\<close>

lemma placed_key: "ns = sNamespace (placed ns e) \<Longrightarrow> egress_key (placed ns e) = (ns, sName e)"
  by (simp add: egress_key_def)

lemma put_refines:
  assumes f: "simple_fake patch f" and room: "room (fkWorld f)" and named: "ns \<noteq> []" "sName e \<noteq> []"
    and react: "ObjectReaction patch a (fkWorld f) =
      store_then_get (tracker_add staticegressipsResource (ObjEgress e) ns rep) staticegressipsResource ns (sName e) (fkWorld f)"
  shows "\<exists>x err f'. bindE (Invokes a d) as_egress f = (Ok (x, err), f') \<and> simple_fake patch f' \<and>
     fkActions f' = fkActions f @ [a] \<and> spec_put rep ns e (fake_store f) (RepObject x err) (fake_store f')"
proof -
  let ?t = "fkWorld f" and ?l = "fkActions f @ [a]"
  have ok: "fake_ok ?t" using f by (simp add: simple_fake_def)
  show ?thesis
    using store_then_get_add [OF ok, of e ns rep "sName e"]
  proof (elim disjE conjE exE)
    assume run: "store_then_get (tracker_add staticegressipsResource (ObjEgress e) ns rep) staticegressipsResource ns (sName e) ?t =
        (Ok (True, None, spec_add rep ns e (store_of ?t)), ?t)" and err: "spec_add rep ns e (store_of ?t) \<noteq> None"
    let ?f = "f\<lparr>fkActions := ?l, fkWorld := ?t\<rparr>"
    have "bindE (Invokes a d) as_egress f = (Ok (None, spec_add rep ns e (store_of ?t)), ?f)"
      using Invokes_simple [OF f, of a d] react run by (simp add: bindE_def as_egress_def)
    moreover have "spec_put rep ns e (fake_store f) (RepObject None (spec_add rep ns e (store_of ?t))) (fake_store ?f)"
      using err by (auto simp: spec_put_def fake_store_def)
    ultimately show ?thesis using call_unchanged [OF f, of ?f ?l] by blast
  next
    fix ev t'
    assume new: "spec_add rep ns e (store_of ?t) = None" and c: "commits ns ev ?t t'"
      and run: "store_then_get (tracker_add staticegressipsResource (ObjEgress e) ns rep) staticegressipsResource ns (sName e) ?t =
        (Ok (of_result (tracker_Get staticegressipsResource ns (sName e) t')), t')"
      and app: "apply_event ev (store_of ?t) = (store_of ?t)(egress_key (placed ns e) \<mapsto> placed ns e)"
    let ?f = "f\<lparr>fkActions := ?l, fkWorld := t'\<rparr>"
    have "ns = sNamespace (placed ns e)" using new by (auto simp: spec_add_def split: if_splits)
    then have "store_of t' (ns, sName e) = Some (placed ns e)" using c app placed_key by (simp add: commits_def)
    then have "tracker_Get staticegressipsResource ns (sName e) t' = Inr (ObjEgress (placed ns e))"
      using tracker_Get_run [of t' ns "sName e"] c named by (simp add: commits_def)
    then have "bindE (Invokes a d) as_egress f = (Ok (Some (placed ns e), None), ?f)"
      using Invokes_simple [OF f, of a d] react run by (simp add: bindE_def as_egress_def of_result_def)
    moreover have "spec_put rep ns e (fake_store f) (RepObject (Some (placed ns e)) None) (fake_store ?f)"
      using new app c by (simp add: spec_put_def fake_store_def commits_def)
    ultimately show ?thesis using call_changed(1,3) [OF f c, of ?f ?l] by blast
  qed (use room in simp)
qed

text \<open>The calls that only look, and the two that remove or patch.\<close>

lemma returns_unchanged:
  assumes f: "simple_fake patch f"
    and run: "fake_do sp ns c f = (Ok reply, f\<lparr>fkActions := fkActions f @ [action_of ns c], fkWorld := fkWorld f\<rparr>)"
    and "store_serves sp patch ns c (fake_store f) reply (fake_store f)"
  shows "\<exists>reply f'. fake_do sp ns c f = (Ok reply, f') \<and> simple_fake patch f' \<and>
     fkActions f' = fkActions f @ [action_of ns c] \<and> store_serves sp patch ns c (fake_store f) reply (fake_store f')"
  using call_unchanged [OF f refl] run assms(3) by metis

lemma returns_changed:
  assumes f: "simple_fake patch f" and c: "commits ns ev (fkWorld f) w"
    and run: "fake_do sp ns c f = (Ok reply, f\<lparr>fkActions := fkActions f @ [action_of ns c], fkWorld := w\<rparr>)"
    and "store_serves sp patch ns c (fake_store f) reply (apply_event ev (fake_store f))"
  shows "\<exists>reply f'. fake_do sp ns c f = (Ok reply, f') \<and> simple_fake patch f' \<and>
     fkActions f' = fkActions f @ [action_of ns c] \<and> store_serves sp patch ns c (fake_store f) reply (fake_store f')"
  using call_changed [OF f c refl] run assms(4) by metis

lemma returns_put:
  assumes "simple_fake patch f" and "room (fkWorld f)" and "ns \<noteq> []" "sName e \<noteq> []"
    and "ObjectReaction patch (action_of ns c) (fkWorld f) =
      store_then_get (tracker_add staticegressipsResource (ObjEgress e) ns rep) staticegressipsResource ns (sName e) (fkWorld f)"
    and call: "fake_do sp ns c f = bindE (bindE (Invokes (action_of ns c) d) as_egress) (\<lambda>(x, err). returnE (RepObject x err)) f"
    and spec: "\<And>st reply st'. store_serves sp patch ns c st reply st' = spec_put rep ns e st reply st'"
  shows "\<exists>reply f'. fake_do sp ns c f = (Ok reply, f') \<and> simple_fake patch f' \<and>
     fkActions f' = fkActions f @ [action_of ns c] \<and> store_serves sp patch ns c (fake_store f) reply (fake_store f')"
proof -
  obtain x err f' where "bindE (Invokes (action_of ns c) d) as_egress f = (Ok (x, err), f')" "simple_fake patch f'"
    "fkActions f' = fkActions f @ [action_of ns c]" "spec_put rep ns e (fake_store f) (RepObject x err) (fake_store f')"
    using put_refines [OF assms(1-5)] by blast
  with call spec show ?thesis by (auto simp: bindE_Ok)
qed

lemma lookup_reaction:
  assumes "fake_ok t" and "ns \<noteq> []" and "name \<noteq> []"
  shows "tracker_Get staticegressipsResource ns name t =
     (case store_of t (ns, name) of None \<Rightarrow> Inl (ErrNotFound name) | Some e \<Rightarrow> Inr (ObjEgress e))"
  using tracker_Get_run assms by (simp add: fake_ok_def)

lemma get_refines:
  assumes f: "simple_fake patch f" and n: "ns \<noteq> []" "name \<noteq> []"
  shows "\<exists>reply f'. fake_do sp ns (CallGet name) f = (Ok reply, f') \<and> simple_fake patch f' \<and>
     fkActions f' = fkActions f @ [action_of ns (CallGet name)] \<and>
     store_serves sp patch ns (CallGet name) (fake_store f) reply (fake_store f')"
proof -
  have ok: "fake_ok (fkWorld f)" using f by (simp add: simple_fake_def)
  show ?thesis
    by (rule returns_unchanged [OF f, where reply = "RepObject (fst (lookup (fake_store f) ns name)) (snd (lookup (fake_store f) ns name))"])
      (auto simp: fake_Get_def bindE_def Invokes_simple [OF f] lookup_reaction [OF ok n] of_result_def as_egress_def
        lookup_def fake_store_def split: option.split)
qed

lemma list_refines:
  assumes f: "simple_fake patch f" and p: "options_parse sp (CallList opts)"
  shows "\<exists>reply f'. fake_do sp ns (CallList opts) f = (Ok reply, f') \<and> simple_fake patch f' \<and>
     fkActions f' = fkActions f @ [action_of ns (CallList opts)] \<and>
     store_serves sp patch ns (CallList opts) (fake_store f) reply (fake_store f')"
proof -
  have t: "tracker_ok (fkWorld f)"
    and s: "scheme_New (tkScheme (fkWorld f)) (list_kind staticegressipsKind) = Inr (egress_type ''StaticEgressIPList'')"
    using f by (simp_all add: simple_fake_def fake_ok_def)
  obtain matches where m: "parseLabels sp (loLabelSelector opts) = Some matches" "parseFields sp (loFieldSelector opts)"
    using p by auto
  let ?es = "filter (\<lambda>item. matches (sLabels item)) (filter (selected ns []) (stored (fkWorld f)))"
  show ?thesis
  proof (rule returns_unchanged [OF f, where reply = "RepList (Some ?es) None"])
    show "fake_do sp ns (CallList opts) f =
        (Ok (RepList (Some ?es) None), f\<lparr>fkActions := fkActions f @ [action_of ns (CallList opts)], fkWorld := fkWorld f\<rparr>)"
      by (simp add: fake_List_def ExtractFromListOptions_def m bindE_def Invokes_simple [OF f] tracker_List_run [OF t s]
          of_result_def)
    show "store_serves sp patch ns (CallList opts) (fake_store f) (RepList (Some ?es) None) (fake_store f)"
      using spec_list_stored [OF t m(1)] by (simp add: fake_store_def)
  qed
qed

lemma delete_refines:
  assumes f: "simple_fake patch f" and room: "room (fkWorld f)"
  shows "\<exists>reply f'. fake_do sp ns (CallDelete name) f = (Ok reply, f') \<and> simple_fake patch f' \<and>
     fkActions f' = fkActions f @ [action_of ns (CallDelete name)] \<and>
     store_serves sp patch ns (CallDelete name) (fake_store f) reply (fake_store f')"
proof -
  have ok: "fake_ok (fkWorld f)" using f by (simp add: simple_fake_def)
  show ?thesis
    using tracker_Delete_cases [OF ok, of ns name]
  proof (elim disjE conjE exE)
    assume "store_of (fkWorld f) (ns, name) = None"
      and "tracker_Delete staticegressipsResource ns name (fkWorld f) = (Err (ErrNotFound name), fkWorld f)"
    then show ?thesis
      by (intro returns_unchanged [OF f, where reply = "RepError (Some (ErrNotFound name))"])
        (auto simp: fake_Delete_def bindE_def Invokes_simple [OF f] lookup_def fake_store_def)
  next
    fix ev t'
    assume a: "store_of (fkWorld f) (ns, name) \<noteq> None" "commits ns ev (fkWorld f) t'"
      "tracker_Delete staticegressipsResource ns name (fkWorld f) = (Ok (), t')"
      "apply_event ev (store_of (fkWorld f)) = (store_of (fkWorld f))((ns, name) := None)"
    then show ?thesis
      by (intro returns_changed [OF f a(2), where reply = "RepError None"])
        (auto simp: fake_Delete_def bindE_def Invokes_simple [OF f] lookup_def fake_store_def)
  qed (use room in simp)
qed

lemma delete_collection_refines:
  assumes f: "simple_fake patch f" and p: "options_parse sp (CallDeleteCollection opts)"
  shows "\<exists>reply f'. fake_do sp ns (CallDeleteCollection opts) f = (Ok reply, f') \<and> simple_fake patch f' \<and>
     fkActions f' = fkActions f @ [action_of ns (CallDeleteCollection opts)] \<and>
     store_serves sp patch ns (CallDeleteCollection opts) (fake_store f) reply (fake_store f')"
  by (rule returns_unchanged [OF f, where reply = "RepError None"])
    (use p in \<open>auto simp: fake_DeleteCollection_def ExtractFromListOptions_def bindE_def Invokes_simple [OF f]\<close>)

lemma patch_refines:
  assumes f: "simple_fake patch f" and room: "room (fkWorld f)" and typed: "patch_typed patch" and n: "ns \<noteq> []" "name \<noteq> []"
  shows "\<exists>reply f'. fake_do sp ns (CallPatch name pt data subs) f = (Ok reply, f') \<and> simple_fake patch f' \<and>
     fkActions f' = fkActions f @ [action_of ns (CallPatch name pt data subs)] \<and>
     store_serves sp patch ns (CallPatch name pt data subs) (fake_store f) reply (fake_store f')"
proof -
  let ?t = "fkWorld f" and ?c = "CallPatch name pt data subs"
  have ok: "fake_ok ?t" using f by (simp add: simple_fake_def)
  note simps = fake_Patch_def bindE_def Invokes_simple [OF f] lookup_reaction [OF ok n] as_egress_def spec_patch_def fake_store_def
  show ?thesis
  proof (cases "store_of ?t (ns, name)")
    case None
    then show ?thesis
      by (intro returns_unchanged [OF f, where reply = "RepObject None (Some (ErrNotFound name))"]) (auto simp: simps)
  next
    case (Some e)
    note e = Some
    show ?thesis
    proof (cases "pt \<in> set supported_patches")
      case False
      with e show ?thesis
        by (intro returns_unchanged [OF f, where reply = "RepObject None (Some (ErrText ''PatchType is not supported''))"])
          (auto simp: simps)
    next
      case True
      note pt = True
      show ?thesis
      proof (cases "patch pt data (ObjEgress e)")
        case (Inl x)
        with e pt show ?thesis
          by (intro returns_unchanged [OF f, where reply = "RepObject None (Some x)"]) (auto simp: simps)
      next
        case (Inr y)
        then obtain e' where y: "patch pt data (ObjEgress e) = Inr (ObjEgress e')"
          using typed unfolding patch_typed_def by blast
        show ?thesis
        proof (cases "spec_add True ns e' (store_of ?t)")
          case (Some err)
          then have "tracker_Update staticegressipsResource (ObjEgress e') ns ?t = (Err err, ?t)"
            using tracker_add_refused ok by (simp add: fake_ok_def tracker_Update_def)
          with e pt y Some show ?thesis
            by (intro returns_unchanged [OF f, where reply = "RepObject None (Some err)"]) (auto simp: simps)
        next
          case None
          let ?ev = "Modified (ObjEgress (placed ns e'))"
          have went: "went_through ns ?ev ?t (tracker_Update staticegressipsResource (ObjEgress e') ns ?t)"
            using tracker_add_replace [OF ok None] by (simp add: tracker_Update_def)
          then obtain w where up: "tracker_Update staticegressipsResource (ObjEgress e') ns ?t = (Ok (), w)"
            and c: "commits ns ?ev ?t w"
            using room by (auto simp: went_through_def split: outcome.splits) (metis prod.collapse)
          show ?thesis
            by (rule returns_changed [OF f c, where reply = "RepObject (Some e') None"]) (auto simp: simps e pt y None up)
        qed
      qed
    qed
  qed
qed

section \<open>Watching\<close>

text \<open>What a test does over time: calls, new watchers, reading an event, stopping a watcher.\<close>

datatype fake_op =
    OpCall string fake_call
  | OpWatch string select_options
  | OpReceive nat
  | OpStop nat

type_synonym watch_log = "nat \<Rightarrow> watch_event list"

definition set_watcher :: "nat \<Rightarrow> fake_watcher \<Rightarrow> tracker fake \<Rightarrow> tracker fake" where
  "set_watcher w x f = f\<lparr>fkWorld := (fkWorld f)\<lparr>tkHeap := (tkHeap (fkWorld f))[w := x]\<rparr>\<rparr>"

primrec fake_step :: "selector_parsers \<Rightarrow> fake_op \<Rightarrow> (tracker fake \<times> watch_log, unit) prog" where
  "fake_step sp (OpCall ns c) = (\<lambda>(f, log).
     case fake_do sp ns c f of
       (Ok reply, f') \<Rightarrow> (Ok (), f', log)
     | (Err e, f') \<Rightarrow> (Err e, f', log)
     | (Panic p, f') \<Rightarrow> (Panic p, f', log))"
| "fake_step sp (OpWatch ns opts) = (\<lambda>(f, log).
     case fake_Watch sp ns opts f of
       (Ok reply, f') \<Rightarrow> (Ok (), f', log)
     | (Err e, f') \<Rightarrow> (Err e, f', log)
     | (Panic p, f') \<Rightarrow> (Panic p, f', log))"
| "fake_step sp (OpReceive w) = (\<lambda>(f, log).
     let x = tkHeap (fkWorld f) ! w in
     if w < length (tkHeap (fkWorld f)) \<and> fwResult x \<noteq> []
     then (Ok (), set_watcher w (x\<lparr>fwResult := tl (fwResult x)\<rparr>) f, log(w := log w @ [hd (fwResult x)]))
     else (Ok (), f, log))"
| "fake_step sp (OpStop w) = (\<lambda>(f, log).
     (Ok (), set_watcher w ((tkHeap (fkWorld f) ! w)\<lparr>fwStopped := True\<rparr>) f, log))"

definition fake_run :: "selector_parsers \<Rightarrow> fake_op list \<Rightarrow> (tracker fake \<times> watch_log, unit) prog" where
  "fake_run sp ops = forE ops (fake_step sp)"

definition seen_from :: "string \<Rightarrow> egress_store \<Rightarrow> egress_store" where
  "seen_from ns st = (\<lambda>k. if ns = [] \<or> fst k = ns then st k else None)"

lemma apply_event_inside:
  assumes "event_of ev e" and "ns = [] \<or> sNamespace e = ns"
  shows "apply_event ev (seen_from ns st) = seen_from ns (apply_event ev st)"
  using assms by (auto simp: event_of_def seen_from_def egress_key_def fun_eq_iff)

lemma apply_event_outside:
  assumes "event_of ev e" and "ns \<noteq> []" and "sNamespace e \<noteq> ns"
  shows "seen_from ns (apply_event ev st) = seen_from ns st"
  using assms by (auto simp: event_of_def seen_from_def egress_key_def fun_eq_iff)

text \<open>What a call that returned did to the tracker.\<close>

interpretation same: step_order "(=) :: 's \<Rightarrow> 's \<Rightarrow> bool"
  by unfold_locales simp_all

lemma bindE_same_tail:
  assumes "bindE m g s = (Ok y, s')" and "\<And>x. moves (=) (g x)"
  shows "\<exists>x. m s = (Ok x, s')"
  using assms(1) movesD [OF assms(2)] by (auto elim!: bindE_OkE)

lemma bindE_same_head:
  assumes "bindE m g s = (Ok y, s')" and "moves (=) m"
  shows "\<exists>x. g x s = (Ok y, s')"
  using assms(1) movesD [OF assms(2)] by (auto elim!: bindE_OkE)

lemma moves_same_as_egress: "moves (=) (as_egress x)"
  by (simp add: as_egress_def same.moves_rules split: option.split runtime_object.split)

lemma moves_same_Extract: "moves (=) (ExtractFromListOptions sp opts)"
  by (simp add: ExtractFromListOptions_def same.moves_rules split: option.split)

lemma moves_same_reply: "moves (=) (case x of (a, b) \<Rightarrow> returnE (g a b))"
  by (simp add: same.moves_rules split: prod.split)

lemma object_call_invokes:
  assumes "bindE (bindE (Invokes a d) as_egress) (\<lambda>(x, err). returnE (RepObject x err)) f = (Ok reply, f')"
  shows "\<exists>x. Invokes a d f = (Ok x, f')"
proof -
  obtain y where "bindE (Invokes a d) as_egress f = (Ok y, f')"
    using bindE_same_tail [OF assms moves_same_reply] by blast
  then show ?thesis by (rule bindE_same_tail) (rule moves_same_as_egress)
qed

lemma moves_same_list_tail:
  "moves (=) (case obj of
       None \<Rightarrow> returnE (None, err)
     | Some x \<Rightarrow>
         bindE (ExtractFromListOptions sp opts) (\<lambda>matches.
           case x of
             ObjEgressList items \<Rightarrow> returnE (Some (filter (\<lambda>item. matches (sLabels item)) items), err)
           | _ \<Rightarrow> panicE TypeAssertion))"
  by (auto split: option.split runtime_object.split intro!: same.moves_rules moves_same_Extract)

lemma list_call_invokes:
  assumes "fake_List sp ns opts f = (Ok y, f')"
  shows "\<exists>x. Invokes (ListAction staticegressipsResource staticegressipsKind ns opts) (ObjEgressList []) f = (Ok x, f')"
proof -
  from bindE_same_head [OF assms [unfolded fake_List_def] moves_same_Extract] show ?thesis
    by (auto dest!: bindE_same_tail intro!: moves_same_list_tail split: prod.splits)
qed

lemma fake_do_invokes:
  assumes "fake_do sp ns c f = (Ok reply, f')"
  shows "\<exists>x d. Invokes (action_of ns c) d f = (Ok x, f')"
proof (cases c)
  case (CallList opts)
  obtain y where "fake_List sp ns opts f = (Ok y, f')"
    using bindE_same_tail [OF assms [unfolded CallList fake_do.simps] moves_same_reply] by (rule exE)
  from list_call_invokes [OF this] show ?thesis unfolding CallList action_of.simps by blast
next
  case (CallDelete name)
  obtain y where "fake_Delete ns name f = (Ok y, f')"
    using bindE_same_tail [OF assms [unfolded CallDelete fake_do.simps] same.moves_returnE] by (rule exE)
  from bindE_same_tail [OF this [unfolded fake_Delete_def] moves_same_reply]
  show ?thesis unfolding CallDelete action_of.simps by blast
next
  case (CallDeleteCollection opts)
  obtain y where "fake_DeleteCollection sp ns opts f = (Ok y, f')"
    using bindE_same_tail [OF assms [unfolded CallDeleteCollection fake_do.simps] same.moves_returnE] by (rule exE)
  from bindE_same_head [OF this [unfolded fake_DeleteCollection_def] moves_same_Extract]
  obtain z where "bindE (Invokes (DeleteCollectionAction staticegressipsResource ns opts) (ObjEgressList [])) (\<lambda>(obj, err). returnE err) f = (Ok z, f')"
    by blast
  from bindE_same_tail [OF this moves_same_reply] show ?thesis unfolding CallDeleteCollection action_of.simps by blast
next
  case (CallGet name)
  from object_call_invokes [OF assms [unfolded CallGet fake_do.simps fake_Get_def]]
  show ?thesis unfolding CallGet action_of.simps by blast
next
  case (CallCreate e)
  from object_call_invokes [OF assms [unfolded CallCreate fake_do.simps fake_Create_def]]
  show ?thesis unfolding CallCreate action_of.simps by blast
next
  case (CallUpdate e)
  from object_call_invokes [OF assms [unfolded CallUpdate fake_do.simps fake_Update_def]]
  show ?thesis unfolding CallUpdate action_of.simps by blast
next
  case (CallUpdateStatus e)
  from object_call_invokes [OF assms [unfolded CallUpdateStatus fake_do.simps fake_UpdateStatus_def]]
  show ?thesis unfolding CallUpdateStatus action_of.simps by blast
next
  case (CallPatch name pt data subs)
  from object_call_invokes [OF assms [unfolded CallPatch fake_do.simps fake_Patch_def]]
  show ?thesis unfolding CallPatch action_of.simps by blast
qed

lemma fake_do_reaction:
  assumes "simple_fake patch f" and "fake_do sp ns c f = (Ok reply, f')"
  shows "\<exists>r w. ObjectReaction patch (action_of ns c) (fkWorld f) = (Ok r, w) \<and>
           f' = f\<lparr>fkActions := fkActions f @ [action_of ns c], fkWorld := w\<rparr>"
proof -
  obtain x d where inv: "Invokes (action_of ns c) d f = (Ok x, f')" using fake_do_invokes [OF assms(2)] by blast
  obtain r w where run: "ObjectReaction patch (action_of ns c) (fkWorld f) = (r, w)" by fastforce
  show ?thesis
    using inv run by (cases r) (auto simp: Invokes_simple [OF assms(1)] case_prod_unfold)
qed

lemma fake_do_effect:
  assumes "simple_fake patch f" and "patch_typed patch" and "fake_do sp ns c f = (Ok reply, f')"
  shows "simple_fake patch f'" and "fkWorld f' = fkWorld f \<or> (\<exists>ev. commits ns ev (fkWorld f) (fkWorld f'))"
proof -
  obtain r w where run: "ObjectReaction patch (action_of ns c) (fkWorld f) = (Ok r, w)"
    and f': "f' = f\<lparr>fkActions := fkActions f @ [action_of ns c], fkWorld := w\<rparr>"
    using fake_do_reaction [OF assms(1,3)] by blast
  have "fake_ok (fkWorld f)" using assms(1) by (simp add: simple_fake_def)
  from reaction_reacts [OF this assms(2), of ns c] run have "w = fkWorld f \<or> (\<exists>ev. commits ns ev (fkWorld f) w)"
    by (simp add: reacts_def)
  then show "simple_fake patch f'" and "fkWorld f' = fkWorld f \<or> (\<exists>ev. commits ns ev (fkWorld f) (fkWorld f'))"
    using call_unchanged(1) [OF assms(1)] call_changed(1) [OF assms(1)] f' by auto
qed

text \<open>The invariant of one watcher: what was read and what waits, replayed, gives the store.\<close>

definition watch_state :: "fake_watcher \<Rightarrow> watch_event list \<Rightarrow> egress_store \<Rightarrow> egress_store" where
  "watch_state x read st = fold apply_event (read @ fwResult x) st"

definition follows :: "patcher \<Rightarrow> string \<Rightarrow> nat \<Rightarrow> egress_store \<Rightarrow> tracker fake \<times> watch_log \<Rightarrow> bool" where
  "follows patch ns w st0 = (\<lambda>(f, log).
     simple_fake patch f \<and> w \<in> set (tkWatchers (fkWorld f) staticegressipsResource ns) \<and>
     \<not> fwStopped (tkHeap (fkWorld f) ! w) \<and>
     watch_state (tkHeap (fkWorld f) ! w) (log w) st0 = seen_from ns (fake_store f))"

lemma simple_fake_watch_ok: "simple_fake patch f \<Longrightarrow> watch_ok (fkWorld f)"
  by (simp add: simple_fake_def fake_ok_def)

lemma follows_commit:
  assumes "follows patch ns w st0 (f, log)" and c: "commits ns' ev (fkWorld f) (fkWorld f')" and "simple_fake patch f'"
  shows "follows patch ns w st0 (f', log)"
proof -
  let ?t = "fkWorld f" and ?t' = "fkWorld f'" and ?R = staticegressipsResource
  have w: "w \<in> set (tkWatchers ?t ?R ns)" and live: "\<not> fwStopped (tkHeap ?t ! w)" and f: "simple_fake patch f"
    and st: "watch_state (tkHeap ?t ! w) (log w) st0 = seen_from ns (fake_store f)"
    using assms(1) by (simp_all add: follows_def)
  obtain e where e: "event_of ev e" "sNamespace e = ns'" and new: "fake_store f' = apply_event ev (fake_store f)"
    and heap: "tkHeap ?t' ! w = (if w \<in> set (getWatches ?t ?R ns') then received ev (tkHeap ?t ! w) else tkHeap ?t ! w)"
    and same: "tkWatchers ?t' = tkWatchers ?t"
    using c by (auto simp: commits_def fake_store_def)
  have once: "ns' = ns" if "w \<in> set (tkWatchers ?t ?R ns')"
    using simple_fake_watch_ok [OF f] w that unfolding watch_ok_def by blast
  have told: "w \<in> set (getWatches ?t ?R ns') \<longleftrightarrow> ns = [] \<or> ns' = ns"
  proof (cases "ns = []")
    case False
    have "w \<notin> set (tkWatchers ?t ?R [])"
      using simple_fake_watch_ok [OF f] w False unfolding watch_ok_def by blast
    with w once False show ?thesis by (auto simp: getWatches_def)
  qed (use w in \<open>auto simp: getWatches_def\<close>)
  have "watch_state (tkHeap ?t' ! w) (log w) st0 = seen_from ns (fake_store f') \<and> \<not> fwStopped (tkHeap ?t' ! w)"
  proof (cases "ns = [] \<or> ns' = ns")
    case True
    then have "tkHeap ?t' ! w = received ev (tkHeap ?t ! w)" using heap told by simp
    moreover have "apply_event ev (seen_from ns (fake_store f)) = seen_from ns (apply_event ev (fake_store f))"
      using apply_event_inside [OF e(1)] e(2) True by auto
    ultimately show ?thesis using live st new by (simp add: received_def watch_state_def)
  next
    case False
    then have "tkHeap ?t' ! w = tkHeap ?t ! w" using heap told by simp
    moreover have "seen_from ns (apply_event ev (fake_store f)) = seen_from ns (fake_store f)"
      using apply_event_outside [OF e(1)] e(2) False by auto
    ultimately show ?thesis using live st new by simp
  qed
  with assms(3) w same show ?thesis by (simp add: follows_def)
qed

lemma InvokesWatch_simple:
  assumes "simple_fake patch f"
  shows "InvokesWatch (WatchAction staticegressipsResource ns opts) f =
     (Ok (Some (length (tkHeap (fkWorld f))), None),
      f\<lparr>fkActions := fkActions f @ [WatchAction staticegressipsResource ns opts],
        fkWorld := snd (tracker_Watch staticegressipsResource ns (fkWorld f))\<rparr>)"
  using assms
  by (simp add: simple_fake_def simple_clientset_def AddReactor_def AddWatchReactor_def InvokesWatch_def on_world_def
      watch_reactor_Handles_def bindE_def Let_def simple_watch_reaction_def tracker_Watch_def)

lemma fake_Watch_Ok:
  assumes "simple_fake patch f" and "fake_Watch sp ns opts f = (Ok x, f')"
  shows "x = (Some (length (tkHeap (fkWorld f))), None)"
    and "f' = f\<lparr>fkActions := fkActions f @ [WatchAction staticegressipsResource ns opts],
                fkWorld := snd (tracker_Watch staticegressipsResource ns (fkWorld f))\<rparr>"
  using assms(2) InvokesWatch_simple [OF assms(1), of ns opts]
  by (auto simp: fake_Watch_def ExtractFromListOptions_def bindE_def panicE_def split: option.splits if_splits)

lemma watch_ok_Watch:
  assumes "watch_ok t" shows "watch_ok (snd (tracker_Watch r ns t))"
proof -
  let ?w = "length (tkHeap t)" and ?t = "snd (tracker_Watch r ns t)"
  have lt: "w \<in> set (tkWatchers t r' ns') \<Longrightarrow> w < ?w" for w r' ns' using assms unfolding watch_ok_def by blast
  have set: "set (tkWatchers ?t r' ns') = set (tkWatchers t r' ns') \<union> (if r' = r \<and> ns' = ns then {?w} else {})"
    and dis: "distinct (tkWatchers t r' ns') \<Longrightarrow> distinct (tkWatchers ?t r' ns')" for r' ns'
    using lt [of ?w r ns] by (auto simp: tracker_Watch_def Let_def)
  have len: "length (tkHeap ?t) = Suc ?w" by (simp add: tracker_Watch_def Let_def)
  show ?thesis
    unfolding watch_ok_def
  proof (intro conjI allI ballI impI)
    show "distinct (tkWatchers ?t r' ns')" for r' ns' using assms dis unfolding watch_ok_def by blast
    show "w < length (tkHeap ?t)" if "w \<in> set (tkWatchers ?t r' ns')" for w r' ns'
      using that lt [of w r' ns'] by (auto simp: set len split: if_splits)
    fix r1 n1 r2 n2 w
    assume "w \<in> set (tkWatchers ?t r1 n1)" and "w \<in> set (tkWatchers ?t r2 n2)"
    then have "(w \<in> set (tkWatchers t r1 n1) \<or> w = ?w \<and> r1 = r \<and> n1 = ns)"
      "(w \<in> set (tkWatchers t r2 n2) \<or> w = ?w \<and> r2 = r \<and> n2 = ns)"
      by (auto simp: set split: if_splits)
    then show "r1 = r2" and "n1 = n2"
      using lt [of w r1 n1] lt [of w r2 n2] assms unfolding watch_ok_def by blast+
  qed
qed

lemma simple_fake_Watch:
  assumes "simple_fake patch f"
  shows "simple_fake patch (f\<lparr>fkActions := l, fkWorld := snd (tracker_Watch r ns (fkWorld f))\<rparr>)"
proof (rule simple_fake_keep [OF assms])
  have "tracker_ok (fkWorld f)" using assms by (simp add: simple_fake_def fake_ok_def)
  then show "fake_ok (snd (tracker_Watch r ns (fkWorld f)))"
    using watch_ok_Watch [OF simple_fake_watch_ok [OF assms]]
    by (simp add: fake_ok_def tracker_ok_def stored_def objects_at_def tracker_Watch_def Let_def)
qed (simp add: tracker_Watch_def Let_def)

lemma fake_store_Watch: "fake_store (f\<lparr>fkActions := l, fkWorld := snd (tracker_Watch r ns (fkWorld f))\<rparr>) = fake_store f"
  by (simp add: fake_store_def store_of_def stored_def objects_at_def tracker_Watch_def Let_def)

lemma set_watcher_keeps:
  "simple_fake patch f \<Longrightarrow> simple_fake patch (set_watcher w x f)" "fake_store (set_watcher w x f) = fake_store f"
  "tkWatchers (fkWorld (set_watcher w x f)) = tkWatchers (fkWorld f)"
  by (simp_all add: set_watcher_def simple_fake_def simple_clientset_def AddReactor_def AddWatchReactor_def fake_ok_def
      tracker_ok_def stored_def objects_at_def watch_ok_def fake_store_def store_of_def)

lemma watch_state_receive:
  "fwResult x \<noteq> [] \<Longrightarrow>
   watch_state (x\<lparr>fwResult := tl (fwResult x)\<rparr>) (read @ [hd (fwResult x)]) st = watch_state x read st"
  by (cases "fwResult x") (simp_all add: watch_state_def)

lemma follows_step:
  assumes fol: "follows patch ns w st0 (f, log)" and typed: "patch_typed patch"
    and step: "fake_step sp op (f, log) = (Ok (), f', log')" and alive: "op \<noteq> OpStop w"
  shows "follows patch ns w st0 (f', log')"
proof (cases op)
  case (OpCall ns' c)
  then obtain reply where do: "fake_do sp ns' c f = (Ok reply, f')" and log: "log' = log"
    using step by (auto split: prod.splits outcome.splits)
  have f: "simple_fake patch f" using fol by (simp add: follows_def)
  note eff = fake_do_effect [OF f typed do]
  show ?thesis
  proof (cases "fkWorld f' = fkWorld f")
    case True
    with fol log eff(1) show ?thesis by (simp add: follows_def fake_store_def)
  next
    case False
    then obtain ev where "commits ns' ev (fkWorld f) (fkWorld f')" using eff(2) by blast
    from follows_commit [OF fol this eff(1)] log show ?thesis by simp
  qed
next
  case (OpWatch ns' opts)
  then obtain x where run: "fake_Watch sp ns' opts f = (Ok x, f')" and log: "log' = log"
    using step by (auto split: prod.splits outcome.splits)
  have f: "simple_fake patch f" and w: "w \<in> set (tkWatchers (fkWorld f) staticegressipsResource ns)"
    using fol by (simp_all add: follows_def)
  have "w < length (tkHeap (fkWorld f))" using simple_fake_watch_ok [OF f] w unfolding watch_ok_def by blast
  then have "tkHeap (snd (tracker_Watch staticegressipsResource ns' (fkWorld f))) ! w = tkHeap (fkWorld f) ! w"
    and "w \<in> set (tkWatchers (snd (tracker_Watch staticegressipsResource ns' (fkWorld f))) staticegressipsResource ns)"
    using w by (auto simp: tracker_Watch_def Let_def nth_append)
  moreover have "fkWorld f' = snd (tracker_Watch staticegressipsResource ns' (fkWorld f))"
    using fake_Watch_Ok(2) [OF f run] by simp
  moreover have "simple_fake patch f'" and "fake_store f' = fake_store f"
    unfolding fake_Watch_Ok(2) [OF f run] by (rule simple_fake_Watch [OF f], rule fake_store_Watch)
  ultimately show ?thesis using fol log by (simp add: follows_def)
next
  case (OpReceive v)
  show ?thesis
  proof (cases "v < length (tkHeap (fkWorld f)) \<and> fwResult (tkHeap (fkWorld f) ! v) \<noteq> []")
    case True
    then have f': "f' = set_watcher v ((tkHeap (fkWorld f) ! v)\<lparr>fwResult := tl (fwResult (tkHeap (fkWorld f) ! v))\<rparr>) f"
      and log: "log' = log(v := log v @ [hd (fwResult (tkHeap (fkWorld f) ! v))])"
      using step OpReceive by (simp_all add: Let_def)
    show ?thesis
    proof (cases "v = w")
      case True
      with fol f' log \<open>v < _ \<and> _\<close> show ?thesis
        by (simp add: follows_def set_watcher_keeps) (simp add: set_watcher_def watch_state_receive)
    next
      case False
      with fol f' log show ?thesis
        by (simp add: follows_def set_watcher_keeps) (simp add: set_watcher_def)
    qed
  next
    case False
    with fol step OpReceive show ?thesis by (auto simp: Let_def split: if_splits)
  qed
next
  case (OpStop v)
  then have "f' = set_watcher v ((tkHeap (fkWorld f) ! v)\<lparr>fwStopped := True\<rparr>) f" and "log' = log" and "v \<noteq> w"
    using step alive by auto
  with fol show ?thesis by (simp add: follows_def set_watcher_keeps) (simp add: set_watcher_def)
qed

lemma follows_run:
  assumes "follows patch ns w st0 s" and "patch_typed patch" and "fake_run sp ops s = (Ok (), s')" and "OpStop w \<notin> set ops"
  shows "follows patch ns w st0 s'"
  using assms
proof (induction ops arbitrary: s)
  case (Cons op ops)
  obtain u s1 where step: "fake_step sp op s = (Ok u, s1)" and rest: "fake_run sp ops s1 = (Ok (), s')"
    using Cons.prems(3) by (auto simp: fake_run_def elim: bindE_OkE)
  have "follows patch ns w st0 s1"
    using follows_step [of patch ns w st0 "fst s" "snd s" sp op "fst s1" "snd s1"] Cons.prems step by auto
  then show ?case using Cons rest by simp
qed (simp add: fake_run_def)

section \<open>The clientset a test starts with\<close>

lemma fake_scheme_list: "scheme_New fake_scheme (list_kind staticegressipsKind) = Inr (egress_type ''StaticEgressIPList'')"
proof -
  have "list_kind staticegressipsKind = WithKind SchemeGroupVersion ''StaticEgressIPList''"
    by (simp add: list_kind_def staticegressipsKind_def WithKind_def SchemeGroupVersion_def GroupName_def)
  then show ?thesis using clientset_scheme_complete(3) by (simp add: fake_scheme_same)
qed

lemma tracker_Add_one_run:
  assumes "tkScheme t = fake_scheme"
  shows "tracker_Add_one (ObjEgress e) t = tracker_add staticegressipsResource (ObjEgress e) (sNamespace e) False t"
proof -
  have "WithResource SchemeGroupVersion ''staticegressips'' = staticegressipsResource"
    by (simp add: WithResource_def SchemeGroupVersion_def GroupName_def staticegressipsResource_def)
  moreover have "gvrVersion staticegressipsResource \<noteq> APIVersionInternal"
    by (simp add: staticegressipsResource_def APIVersionInternal_def)
  ultimately show ?thesis
    using assms
    by (simp add: tracker_Add_one_def fake_scheme_same ObjectKinds_egress guess_egress egress_key_def Let_def bindE_def
        split: prod.split outcome.split)
qed

definition seeded :: "egress_object list \<Rightarrow> tracker \<Rightarrow> bool" where
  "seeded es t \<longleftrightarrow> tkScheme t = fake_scheme \<and> fake_ok t \<and> room t \<and> store_of t = keyed es"

lemma placed_own [simp]: "placed (sNamespace e) e = e"
  by (simp add: placed_def)

lemma seed_one:
  assumes "seeded es t" and "tkHeap t = []" and "egress_key e \<notin> egress_key ` set es"
  shows "\<exists>t'. tracker_Add_one (ObjEgress e) t = (Ok (), t') \<and> seeded (es @ [e]) t' \<and> tkHeap t' = []"
proof -
  let ?ev = "Added (ObjEgress e)"
  have ok: "fake_ok t" and st: "store_of t = keyed es" and sch: "tkScheme t = fake_scheme" and room: "room t"
    using assms(1) by (simp_all add: seeded_def)
  have "spec_add False (sNamespace e) e (store_of t) = None" using assms(3) by (simp add: spec_add_def st keyed_None)
  from tracker_add_new [OF ok this] room
  obtain t' where run: "tracker_add staticegressipsResource (ObjEgress e) (sNamespace e) False t = (Ok (), t')"
    and c: "commits (sNamespace e) ?ev t t'"
    by (auto simp: went_through_def split: outcome.splits) (metis prod.collapse)
  have "tkHeap t' = []" using c assms(2) by (simp add: commits_def)
  moreover have "store_of t' = keyed (es @ [e])" using c keyed_snoc [OF assms(3) refl] st by (simp add: commits_def)
  ultimately have "seeded (es @ [e]) t'"
    using commits_ok [OF ok c] c sch by (simp add: seeded_def commits_def room_def)
  with run \<open>tkHeap t' = []\<close> show ?thesis by (simp add: tracker_Add_one_run [OF sch])
qed

lemma seed_all:
  assumes "seeded es0 t" and "tkHeap t = []" and "distinct (map egress_key (es0 @ es))"
  shows "\<exists>t'. forE (map ObjEgress es) tracker_Add t = (Ok (), t') \<and> seeded (es0 @ es) t'"
  using assms
proof (induction es arbitrary: es0 t)
  case (Cons e es)
  have "egress_key e \<notin> egress_key ` set es0" using Cons.prems(3) by auto
  from seed_one [OF Cons.prems(1,2) this] obtain t1 where
    "tracker_Add_one (ObjEgress e) t = (Ok (), t1)" "seeded (es0 @ [e]) t1" "tkHeap t1 = []" by blast
  with Cons.IH [of "es0 @ [e]" t1] Cons.prems(3) show ?case by (auto simp: bindE_def)
qed auto

lemma seeded_nothing: "seeded [] (NewObjectTracker fake_scheme)"
  by (simp add: seeded_def NewObjectTracker_def fake_ok_def tracker_ok_def stored_def objects_at_def watch_ok_def room_def
      store_of_def)

text \<open>The objects a test passes are what the clients find.\<close>

lemma NewSimpleClientset_seeds:
  assumes "distinct (map egress_key es)"
  shows "\<exists>f. NewSimpleClientset patch (map ObjEgress es) = Ok f \<and> simple_fake patch f \<and> room (fkWorld f) \<and>
           fkActions f = [] \<and> fake_store f = keyed es"
proof -
  obtain t where "forE (map ObjEgress es) tracker_Add (NewObjectTracker fake_scheme) = (Ok (), t)" "seeded es t"
    using seed_all [OF seeded_nothing, of es] assms by (auto simp: NewObjectTracker_def)
  then show ?thesis
    using fake_scheme_list
    by (simp add: NewSimpleClientset_def seeded_def simple_fake_def simple_clientset_def AddReactor_def AddWatchReactor_def
        fake_store_def)
qed

section \<open>The two promises\<close>

definition example_egress :: egress_object where
  "example_egress = empty_egress\<lparr>sName := ''web'', sNamespace := ''shop''\<rparr>"

text \<open>A patch that clears the rules, and selectors that select everything.\<close>

definition example_patch :: patcher where
  "example_patch pt data x =
     (case x of ObjEgress e \<Rightarrow> Inr (ObjEgress (e\<lparr>Spec := \<lparr>Rules = []\<rparr>\<rparr>)) | _ \<Rightarrow> Inl (ErrText ''not patched''))"

definition example_selectors :: selector_parsers where
  "example_selectors = \<lparr>parseLabels = (\<lambda>_. Some (\<lambda>_. True)), parseFields = (\<lambda>_. True)\<rparr>"

definition example_options :: select_options where
  "example_options = \<lparr>loLabelSelector = [], loFieldSelector = [], loResourceVersion = []\<rparr>"

lemma example_patch_typed: "patch_typed example_patch"
  by (simp add: patch_typed_def example_patch_def)

definition example_start :: "tracker fake" where
  "example_start = simple_clientset example_patch (NewObjectTracker fake_scheme)"

lemma example_start_simple:
  "simple_fake example_patch example_start" "room (fkWorld example_start)" "fake_store example_start = Map.empty"
  using seeded_nothing fake_scheme_list
  by (simp_all add: example_start_def simple_fake_def simple_clientset_def AddReactor_def AddWatchReactor_def seeded_def
      fake_store_def keyed_def)

text \<open>
  C21 (fake_client_refines). On a fake clientset that was made by \<open>NewSimpleClientset\<close>, whatever
  has been called on it, a call with a non-empty namespace and name returns, without a panic, what
  a store from namespace and name to resources returns, leaves that store behind, and is
  recorded as the last action; it needs options that can be parsed, a patch that keeps the type,
  and room in the watchers.
\<close>

theorem fake_client_refines:
  assumes "simple_fake patch f" and "room (fkWorld f)" and "patch_typed patch"
    and "well_named ns c" and "options_parse sp c"
  shows "\<exists>reply f'. fake_do sp ns c f = (Ok reply, f') \<and> simple_fake patch f' \<and>
     fkActions f' = fkActions f @ [action_of ns c] \<and> store_serves sp patch ns c (fake_store f) reply (fake_store f')"
proof (cases c)
  case (CallCreate e)
  show ?thesis
    unfolding CallCreate
    by (rule returns_put [OF assms(1,2), where rep = False and d = "ObjEgress empty_egress"])
      (use assms(4) CallCreate in \<open>auto simp: egress_key_def tracker_Create_def fake_Create_def\<close>)
next
  case (CallUpdate e)
  show ?thesis
    unfolding CallUpdate
    by (rule returns_put [OF assms(1,2), where rep = True and d = "ObjEgress empty_egress"])
      (use assms(4) CallUpdate in \<open>auto simp: egress_key_def tracker_Update_def fake_Update_def\<close>)
next
  case (CallUpdateStatus e)
  show ?thesis
    unfolding CallUpdateStatus
    by (rule returns_put [OF assms(1,2), where rep = True and d = "ObjEgress empty_egress"])
      (use assms(4) CallUpdateStatus in \<open>auto simp: egress_key_def tracker_Update_def fake_UpdateStatus_def\<close>)
qed (use assms get_refines [OF assms(1)] list_refines [OF assms(1)] delete_refines [OF assms(1,2)]
      delete_collection_refines [OF assms(1)] patch_refines [OF assms(1-3)] in \<open>simp_all del: fake_do.simps store_serves.simps action_of.simps\<close>)

lemma fake_client_refines_witness:
  "\<exists>f'. fake_do example_selectors ''shop'' (CallCreate example_egress) example_start =
          (Ok (RepObject (Some example_egress) None), f') \<and>
        fake_store f' (''shop'', ''web'') = Some example_egress"
proof -
  have "well_named ''shop'' (CallCreate example_egress)" and "options_parse example_selectors (CallCreate example_egress)"
    by (simp_all add: example_egress_def empty_egress_def)
  from fake_client_refines [OF example_start_simple(1,2) example_patch_typed this]
  show ?thesis
    by (auto simp: spec_put_def spec_add_def example_start_simple(3) placed_def example_egress_def empty_egress_def
        egress_key_def)
qed

text \<open>
  C22 (watch_replays). A watcher that was opened on a fake clientset and is not stopped, whatever
  calls in any namespaces, other watchers and reads go on: the events it has delivered and
  holds, applied to what the store had of its namespace when it was opened, give what the store
  has of it now. So no change that matters for the present store is missed.
\<close>

theorem watch_replays:
  assumes "simple_fake patch f" and "patch_typed patch"
    and "fake_Watch sp ns opts f = (Ok (Some w, None), f1)"
    and "fake_run sp ops (f1, \<lambda>_. []) = (Ok (), f2, log)" and "OpStop w \<notin> set ops"
  shows "fold apply_event (log w @ fwResult (tkHeap (fkWorld f2) ! w)) (seen_from ns (fake_store f)) =
     seen_from ns (fake_store f2)"
proof -
  have w: "w = length (tkHeap (fkWorld f))" using fake_Watch_Ok(1) [OF assms(1,3)] by simp
  have "simple_fake patch f1" and "fake_store f1 = fake_store f"
    unfolding fake_Watch_Ok(2) [OF assms(1,3)] by (rule simple_fake_Watch [OF assms(1)], rule fake_store_Watch)
  moreover have "tkHeap (fkWorld f1) ! w = \<lparr>fwResult = [], fwStopped = False\<rparr>"
    and "w \<in> set (tkWatchers (fkWorld f1) staticegressipsResource ns)"
    unfolding fake_Watch_Ok(2) [OF assms(1,3)] using w by (simp_all add: tracker_Watch_def Let_def)
  ultimately have "follows patch ns w (seen_from ns (fake_store f)) (f1, \<lambda>_. [])"
    by (simp add: follows_def watch_state_def)
  from follows_run [OF this assms(2,4,5)] show ?thesis by (simp add: follows_def watch_state_def)
qed

lemma watch_replays_witness:
  "\<exists>f1 f2 log. fake_Watch example_selectors ''shop'' example_options example_start = (Ok (Some 0, None), f1) \<and>
     fake_run example_selectors [OpCall ''shop'' (CallCreate example_egress), OpReceive 0] (f1, \<lambda>_. []) = (Ok (), f2, log) \<and>
     log 0 = [Added (ObjEgress example_egress)] \<and>
     fold apply_event (log 0 @ fwResult (tkHeap (fkWorld f2) ! 0)) (seen_from ''shop'' (fake_store example_start)) =
       seen_from ''shop'' (fake_store f2)"
proof -
  obtain f1 where w: "fake_Watch example_selectors ''shop'' example_options example_start = (Ok (Some 0, None), f1)"
    and f1: "f1 = example_start\<lparr>fkActions := [WatchAction staticegressipsResource ''shop'' example_options],
        fkWorld := snd (tracker_Watch staticegressipsResource ''shop'' (NewObjectTracker fake_scheme))\<rparr>"
    by (simp add: fake_Watch_def ExtractFromListOptions_def example_selectors_def bindE_def
        InvokesWatch_simple [OF example_start_simple(1)])
      (simp add: example_start_def simple_clientset_def AddReactor_def AddWatchReactor_def NewObjectTracker_def)
  have f1s: "simple_fake example_patch f1"
    using fake_Watch_Ok(2) [OF example_start_simple(1) w] simple_fake_Watch [OF example_start_simple(1)] by simp
  have fresh: "placed ''shop'' example_egress = example_egress" "egress_key example_egress = (''shop'', ''web'')"
    "sNamespace example_egress = ''shop''"
    by (simp_all add: placed_def example_egress_def empty_egress_def egress_key_def)
  obtain f2 log where r: "fake_run example_selectors [OpCall ''shop'' (CallCreate example_egress), OpReceive 0] (f1, \<lambda>_. []) =
      (Ok (), f2, log)" and l: "log 0 = [Added (ObjEgress example_egress)]"
    by (simp add: fake_run_def bindE_def fake_Create_def Invokes_simple [OF f1s] tracker_Create_def tracker_add_egress fresh)
      (simp add: f1 NewObjectTracker_def tracker_Watch_def objects_at_def notify_def getWatches_def deliver_def
        DefaultChanSize_def bindE_def store_then_get_def tracker_Get_def fresh Let_def of_result_def as_egress_def
        set_watcher_def tracker_add_egress)
  have "OpStop 0 \<notin> set [OpCall ''shop'' (CallCreate example_egress), OpReceive 0]" by simp
  from watch_replays [OF example_start_simple(1) example_patch_typed w r this] w r l show ?thesis by blast
qed

end
