(* ===== verification/Killed.thy ===== *)
theory Killed
  imports Program
begin

text \<open>
  An agent that is killed at any call. The world is extended by the number of calls the process
  has left; when it is used up, nothing that the process would still do reaches the node. What
  its calls would answer then is of no importance, since it is dead: commands fail, and the
  queries for a version answer as before. A command that is cut off with the process is one
  that was not started, or that was the last.
\<close>

section \<open>A host on which the process dies\<close>

definition killed_result :: exec_result where
  "killed_result = \<lparr>xStdout = [], xStderr = [], xStatus = NotStarted ''killed''\<rparr>"

definition asks_version :: "string list \<Rightarrow> bool" where
  "asks_version argv \<longleftrightarrow> tl argv = [''--version'']"

text \<open>A call with an effect: it takes place and leaves one call less, or the process is dead.\<close>

definition mortal_call :: "('w \<Rightarrow> 'a \<times> 'w) \<Rightarrow> ('w \<Rightarrow> 'a) \<Rightarrow> 'w \<times> nat \<Rightarrow> 'a \<times> ('w \<times> nat)" where
  "mortal_call f dead x =
     (case x of (w, n) \<Rightarrow> (case n of 0 \<Rightarrow> (dead w, w, 0) | Suc m \<Rightarrow> (case f w of (r, w') \<Rightarrow> (r, w', m))))"

definition mortal_host :: "'w host \<Rightarrow> ('w \<times> nat) host" where
  "mortal_host h =
     \<lparr>hExec = (\<lambda>argv. mortal_call (hExec h argv)
         (\<lambda>w. if asks_version argv then fst (hExec h argv w) else killed_result)),
      hLookPath = (\<lambda>f x. hLookPath h f (fst x)),
      hReadFile = (\<lambda>f x. hReadFile h f (fst x)),
      hOpenAppend = (\<lambda>f x. hOpenAppend h f (fst x)),
      hAppend = (\<lambda>f s. mortal_call (hAppend h f s) (\<lambda>_. False)),
      hWriteFile = (\<lambda>f s. mortal_call (hWriteFile h f s) (\<lambda>_. False)),
      hGetenv = (\<lambda>s x. hGetenv h s (fst x)),
      hHostname = (\<lambda>x. hHostname h (fst x)),
      hXtOpen = mortal_call (hXtOpen h) (\<lambda>_. Some ''killed''),
      hXtFlock = mortal_call (hXtFlock h) (\<lambda>_. FlockErr ''killed''),
      hXtClose = (\<lambda>x. snd (mortal_call (\<lambda>w. ((), hXtClose h w)) (\<lambda>_. ()) x)),
      hInterfaces = (\<lambda>x. hInterfaces h (fst x)),
      hIfAddrs = (\<lambda>i x. hIfAddrs h i (fst x)),
      hRouteGet = (\<lambda>ip x. hRouteGet h ip (fst x)),
      hLinkByName = (\<lambda>s x. hLinkByName h s (fst x)),
      hAddrAdd = (\<lambda>l a. mortal_call (hAddrAdd h l a) (\<lambda>_. Some (ErrText ''killed''))),
      hAddrDel = (\<lambda>l a. mortal_call (hAddrDel h l a) (\<lambda>_. Some (ErrText ''killed''))),
      hNodeGet = (\<lambda>s x. hNodeGet h s (fst x)),
      hNodeList = (\<lambda>x. hNodeList h (fst x)),
      hEgressUpdate = (\<lambda>s sip. mortal_call (hEgressUpdate h s sip) (\<lambda>_. Some (ErrText ''killed'')))\<rparr>"

text \<open>The environment of a mortal agent; its caches are those of the same world.\<close>

definition mortal :: "('w, 'd, 'o, 'r) cluster_env \<Rightarrow> ('w \<times> nat, 'd, 'o, 'r) cluster_env" where
  "mortal env =
     \<lparr>evHost = mortal_host (evHost env), evConfig = evConfig env, evKube = evKube env, evServer = evServer env,
      evDiscovery = evDiscovery env, evAgent = evAgent env, evStore = (\<lambda>x. evStore env (fst x)),
      evEndpoints = (\<lambda>x. evEndpoints env (fst x)), evSynced = (\<lambda>x. evSynced env (fst x)), evOrder = evOrder env\<rparr>"

section \<open>It is still a documented host\<close>

lemma mortal_call_alive [simp]: "mortal_call f dead (w, Suc n) = (fst (f w), snd (f w), n)"
  by (simp add: mortal_call_def case_prod_unfold)

lemma mortal_call_dead [simp]: "mortal_call f dead (w, 0) = (dead w, w, 0)"
  by (simp add: mortal_call_def)

lemma mortal_call_quiet:
  assumes "\<And>w. v (snd (f w)) = v w"
  shows "v (fst (snd (mortal_call f dead x))) = v (fst x)"
  using assms by (cases x; cases "snd x") (simp_all add: mortal_call_def case_prod_unfold)

lemma version_undocumented: "asks_version argv \<Longrightarrow> lx_step t argv lx = None"
  unfolding asks_version_def
  by (cases argv) (auto simp: lx_step_def iptables_cmd_def iptables_args_def strip_wait_def ipset_cmd_def ip_cmd_def)

lemma killed_fault: "fault t argv killed_result"
  by (simp add: fault_def killed_result_def)

lemma mortal_commands:
  assumes "commands_documented h t v"
  shows "commands_documented (mortal_host h) t (v \<circ> fst)"
  unfolding commands_documented_def
proof (intro allI impI)
  fix argv and x :: "'a \<times> nat" and n out lx'
  assume step: "lx_step t argv ((v \<circ> fst) x) = Some (n, out, lx')"
  obtain w k where x: "x = (w, k)" by (cases x)
  have nv: "\<not> asks_version argv" using step version_undocumented by (metis option.distinct(1))
  show "case hExec (mortal_host h) argv x of (r, w') \<Rightarrow>
      xStatus r = Exited n \<and> (n = 0 \<longrightarrow> xStdout r = out) \<and> (v \<circ> fst) w' = lx' \<or>
      fault t argv r \<and> (v \<circ> fst) w' = (v \<circ> fst) x"
  proof (cases k)
    case 0
    with x nv show ?thesis by (simp add: mortal_host_def killed_fault)
  next
    case (Suc m)
    then show ?thesis
      using assms step x unfolding commands_documented_def by (fastforce simp: mortal_host_def case_prod_unfold)
  qed
qed

lemma mortal_quiet:
  assumes "others_quiet h t v"
  shows "others_quiet (mortal_host h) t (v \<circ> fst)"
  using assms unfolding others_quiet_def
  by (auto simp: mortal_host_def mortal_call_quiet)

lemma mortal_documented: "documented h t v \<Longrightarrow> documented (mortal_host h) t (v \<circ> fst)"
  by (simp add: documented_def mortal_commands mortal_quiet)

lemma mortal_modern:
  assumes "iptables_modern h t" shows "iptables_modern (mortal_host h) t"
proof -
  have "case hExec (mortal_host h) [tIptables t, ''--version''] x of
      (r, _) \<Rightarrow> cmd_error r = None \<and>
        (\<exists>a b c m. extractIptablesVersion (xStdout r) = Some (a, b, c, m) \<and> Rel 1 4 20 \<le> Rel a b c)" for x
    using assms
    by (cases x; cases "snd x") (auto simp: iptables_modern_def mortal_host_def asks_version_def case_prod_unfold)
  then show ?thesis using assms by (simp add: iptables_modern_def mortal_host_def)
qed

lemma mortal_store: "store_rules (mortal env) = store_rules env"
  by (auto simp: store_rules_def mortal_def)

section \<open>Lives that end at any call\<close>

text \<open>
  Each life may make its own number of calls. What happens to the node between two lives is of
  others, and does not touch what the agent looks after.
\<close>

inductive killed_lives ::
  "('w, 'd, 'o, 'r) cluster_env \<Rightarrow> ('w \<Rightarrow> linux) \<Rightarrow> 'w \<Rightarrow> agent_event list \<Rightarrow> bool \<Rightarrow> 'w \<Rightarrow> bool"
  for env :: "('w, 'd, 'o, 'r) cluster_env" and v :: "'w \<Rightarrow> linux" where
  no_life: "killed_lives env v w [] False w"
| next_life: "agent_life (mortal env) (v \<circ> fst) (w, n) es b (w1, m) \<Longrightarrow> v w2 = v w1 \<Longrightarrow> killed_lives env v w2 es' b' w3 \<Longrightarrow>
     killed_lives env v w (es @ es') (b \<or> b') w3"

lemma killed_life_safe:
  assumes "documented (evHost env) t v" and "iptables_modern (evHost env) t"
    and "agent_life (mortal env) (v \<circ> fst) (w, n) es b (w', m)" and "node_wf (v w)"
  shows "life_moves (withdrawn_by es) (start_rules \<union> store_rules env) (v w) (v w') \<and> (b \<longrightarrow> start_rules \<subseteq> all_rules (v w'))"
proof -
  have h: "evHost (mortal env) = mortal_host (evHost env)" by (simp add: mortal_def)
  show ?thesis
    using life_safe [OF _ _ assms(3), unfolded h mortal_store, OF mortal_documented [OF assms(1)] mortal_modern [OF assms(2)]]
      assms(4) by simp
qed

lemma killed_lives_move:
  assumes "documented (evHost env) t v" and "iptables_modern (evHost env) t"
    and "killed_lives env v w es b w'" and "node_wf (v w)"
  shows "life_moves (withdrawn_by es) (start_rules \<union> store_rules env) (v w) (v w') \<and> (b \<longrightarrow> start_rules \<subseteq> all_rules (v w'))"
  using assms(3,4)
proof induction
  case (next_life w n es b w1 m w2 es' b' w3)
  note l = killed_life_safe [OF assms(1,2) next_life(1,5)]
  have "node_wf (v w2)" using l next_life(2,5) by (simp add: life_moves_def)
  from lives_step [OF l next_life(2) next_life.IH [OF this] next_life(5)] show ?case by simp
qed (simp add: life_moves_refl)

text \<open>A process that is started has some life: \<open>main\<close> fails, or \<open>Run\<close> does, or it comes to its workers.\<close>

lemma life_exists: "\<exists>b w'. agent_life env v w [] b w'"
proof -
  obtain r ms where w: "controller_wiring env (new_process w) = (r, ms)" by (rule prod.exhaust)
  show ?thesis
  proof (cases "\<exists>wd. r = Ok wd")
    case True
    then obtain wd where wd: "controller_wiring env (new_process w) = (Ok wd, ms)" using w by blast
    obtain r p where run: "controller_Run (evHost env) (\<lambda>w. evSynced env w (wdSynced wd)) (wdController wd) (msNode ms) = (r, p)"
      by (rule prod.exhaust)
    let ?st = "\<lparr>agProc = msNode ms, agQueue = rq_New\<rparr>"
    show ?thesis
    proof (cases "\<exists>c. r = Ok c")
      case True
      then obtain c where c: "r = Ok c" by blast
      have "agent_life env v w ([] @ []) True (os (agProc (?st\<lparr>agProc := p\<rparr>)))"
        by (rule agent_life.works [OF wd _ agent_run.stop _ agent_run.stop]) (simp_all add: run c)
      then show ?thesis by (auto intro: exI [of _ True])
    next
      case False
      have "agent_life env v w [] False (os p)"
        by (rule agent_life.dies_in_Run [OF wd _ agent_run.stop]) (use run False in simp_all)
      then show ?thesis by blast
    qed
  next
    case False
    then have "agent_life env v w [] False (os (msNode ms))" by (intro agent_life.not_wired [OF w]) simp
    then show ?thesis by blast
  qed
qed

end
