(* ===== verification/Recovery.thy ===== *)
theory Recovery
  imports Killed Cluster
begin

text \<open>
  Recovery: whatever the lives before left half done on a node, a life on it without faults sets the node
  up again, and its first sync of a resource establishes the rules of the resource.
\<close>

section \<open>Chains are never removed\<close>

lemma node_edits_chains: "node_edits lx lx' \<Longrightarrow> chain_in lx tab ch \<Longrightarrow> chain_in lx' tab ch"
proof (induction rule: rtranclp_induct)
  case (step l1 l2)
  have "chain_in l1 tab ch \<Longrightarrow> chain_in l2 tab ch"
    using step(2) by (induction rule: node_edit.induct) (auto simp: chain_in_def)
  then show ?case using step by blast
qed



section \<open>The life after\<close>



text \<open>
  C4 (killed_anywhere_safe). The agent over lives that are killed at any call, in the middle of \<open>Run\<close>, of a handler or of a
  sync, with commands that fail besides: the node stays well formed, only rules that \<open>Run\<close>
  installs and rules of resources that the informer's store can hold came, only rules
  withdrawn by an update or a deletion went, no chain went, and once a life got to its workers the jumps
  to the program's chains stay.
\<close>

theorem killed_anywhere_safe:
  assumes "documented (evHost env) t v" and "iptables_modern (evHost env) t"
    and "node_wf (v w)" and "killed_lives env v w es b w'"
  shows "node_wf (v w') \<and>
     all_rules (v w') \<subseteq> all_rules (v w) \<union> start_rules \<union> store_rules env \<and>
     all_rules (v w) \<subseteq> all_rules (v w') \<union> (\<Union>e \<in> set es. withdrawn e) \<and>
     {(tab, ch). chain_in (v w) tab ch} \<subseteq> {(tab, ch). chain_in (v w') tab ch} \<and>
     (b \<longrightarrow> start_rules \<subseteq> all_rules (v w'))"
  using killed_lives_move [OF assms(1,2,4,3)] node_edits_chains assms(3) by (auto simp: life_moves_def withdrawn_by_def)

text \<open>A pod that is killed after seven calls.\<close>

lemma ref_killed: "\<exists>b w'. killed_lives ref_env rwNode (os (msNode ref_main)) [] b w'"
proof -
  obtain b x where life: "agent_life (mortal ref_env) (rwNode \<circ> fst) (os (msNode ref_main), 7) [] b x"
    using life_exists [of "mortal ref_env" "rwNode \<circ> fst" "(os (msNode ref_main), 7)"] by blast
  obtain w' m where x: "x = (w', m)" by (cases x)
  have "killed_lives ref_env rwNode (os (msNode ref_main)) ([] @ []) (b \<or> False) w'"
    by (rule killed_lives.next_life [OF life [unfolded x] refl killed_lives.no_life])
  then show ?thesis by auto
qed

lemma ref_env_host: "documented (evHost ref_env) (ref_tools 1) rwNode" "iptables_modern (evHost ref_env) (ref_tools 1)"
  using ref_alone_laws(1) ref_alone_run(1) by (simp_all add: ref_env_def)

lemma ref_main_wf: "node_wf (rwNode (os (msNode ref_main)))"
  by (simp add: ref_main_def ref_node_proc_def fresh_lx_wf)

theorem killed_anywhere_safe_witness:
  "\<exists>b w'. killed_lives ref_env rwNode (os (msNode ref_main)) [] b w' \<and> node_wf (rwNode w') \<and>
     all_rules (rwNode (os (msNode ref_main))) \<subseteq> all_rules (rwNode w')"
proof -
  obtain b w' where k: "killed_lives ref_env rwNode (os (msNode ref_main)) [] b w'" using ref_killed by blast
  show ?thesis using killed_anywhere_safe [OF ref_env_host ref_main_wf k] k by auto
qed






end
