(* ===== verification/Spec2Isabelle.thy ===== *)
theory Spec2Isabelle
  imports Agent DeepCopy Leaders Commands Program Rounds Cluster ManagerMain FakeStore Killed Recovery
begin

text \<open>
  \<^bold>\<open>A verification development for kube-static-egress-ip.\<close>

  The program gives the traffic of the pods behind a service a fixed source address. A
  StaticEgressIP resource lists rules (service, egress address, destination). A manager
  (\<open>pkg/ha\<close>) writes a gateway node into the status of every resource. An agent on every
  node (\<open>pkg/controller\<close>) reads the status: on the gateway it installs SNAT rules
  (\<open>pkg/gateway\<close>), on all other nodes it marks the packets of the pods and routes them
  through a GRE tunnel to the gateway (\<open>pkg/director\<close>). Both work by running \<open>iptables\<close>,
  \<open>ipset\<close> and \<open>ip\<close>.

  \<^bold>\<open>The machine.\<close> Prelude has the programs: a state transformer that returns \<open>Ok\<close>, a Go
  error or a panic (\<open>bindE\<close>, \<open>catchE\<close>, \<open>wrapE\<close> for \<open>errors.New(msg + err.Error())\<close>, \<open>logE\<close>
  for errors that are only logged), and the orders by which frames are proved
  (\<open>step_order\<close>). Host has the world as a record of system calls, which are parameters.
  LinuxNode has the observable part of a node (chains and rules, sets, links, tunnels,
  routes, policy rules) and what the commands of the program do to it, from their manual
  pages. Nothing else is assumed of a host than \<open>documented\<close>: a command either does this and
  answers its status, or fails and changes nothing. \<open>reliable\<close> leaves the failures out.
  NodeContract states this as a locale, RuleOps derives from it that calls and sequences of
  calls implement functions on nodes, and RefNode is a host that satisfies it, on which the
  locales are interpreted and the examples run.

  \<^bold>\<open>Theories and sources.\<close>
  \<^item> ApiTypes: \<open>pkg/apis/egressip/v1alpha1/types.go\<close>; DeepCopy: \<open>zz_generated.deepcopy.go\<close> beside
    it, over an explicit heap, since what matters is what a copy does not share.
  \<^item> GoNet: the parts of Go's \<open>net\<close> that are used (addresses, CIDRs, printing); the loop of
    the IPv6 parser has fuel 8, the number of its groups.
  \<^item> Semver, Iptables, GoIpset: the vendored go-semver, go-iptables and go-ipset, and
    \<open>pkg/ipset/ipsets.go\<close>; Versions: their version tests as thresholds of a linear order.
  \<^item> NodeUtils: \<open>pkg/utils/node.go\<close>.
  \<^item> Gateway, StaticIP: \<open>pkg/gateway/gateway.go\<close> and \<open>staticIP.go\<close>.
  \<^item> Director: \<open>pkg/director/director.go\<close>.
  \<^item> GatewayManager: \<open>chooseGatewayNode\<close> and the loop of \<open>pkg/ha/gateway_manager.go\<close>, with the
    pointers it collects in an explicit store.
  \<^item> Election: the elector and the ConfigMap lock of client-go's \<open>tools/leaderelection\<close> as \<open>Run\<close>
    of \<open>pkg/ha\<close> configures them; Managers: any number of managers, their requests, crashes,
    restarts and the passing of time as a transition system; Leases: its invariant; Leaders:
    who leads, and an executable form of the steps in which runs are evaluated.
  \<^item> GoHash: SHA-256 and base32 as parameters, and the names of rules.
  \<^item> WorkQueue, RateQueue: \<open>queue.go\<close>, \<open>default_rate_limiters.go\<close>, \<open>delaying_queue.go\<close> and
    \<open>rate_limiting_queue.go\<close> of client-go's workqueue; Workers: the goroutines that share it.
  \<^item> Controller: \<open>pkg/controller/controller.go\<close> from \<open>NewEgressIPController\<close> to the handlers,
    with the listers of \<open>pkg/client/listers\<close> over indexers that are functions of the world.
  \<^item> Frames, OpFrames, ControllerFrames: what each operation can change at most, however it
    ends. Sync: dispatch, errors and frames of a sync. Roles: what a sync establishes.
    Startup: what \<open>Run\<close> establishes. Handlers: updates and deletions. Agent: all of it as one
    transition system. Rounds: the loop of a worker, bounded by the answers of the clock; a
    worker that shuts down needs one round more than there are keys.
  \<^item> Informers: \<open>pkg/client/informers\<close> and the \<open>List\<close> of the listers; RestClient:
    \<open>pkg/client/clientset\<close> with the request builder of client-go's \<open>rest\<close>, up to what is sent.
  \<^item> Scheme: \<open>register.go\<close> of the API package and of both clientsets, over the type maps of
    apimachinery's \<open>runtime.Scheme\<close>; FakeClient: \<open>pkg/client/clientset/versioned/fake\<close> and its typed
    client, over the recorder and the object tracker of client-go's \<open>testing\<close>; FakeStore: the
    fake clientset as a store, and its watchers.
  \<^item> Commands: \<open>pkg/signals\<close> and both programs of \<open>cmd\<close>, which wire the parts together;
    ManagerMain: the gateway manager to its election; Program: the agent from \<open>main\<close> over its
    crashes to the next \<open>main\<close>; Cluster: from the choice of the manager to the rules on all nodes;
    Killed: the agent whose process is killed at any call, as the same agent on a host on which
    nothing happens any more after so many calls; Recovery: what the next process makes of the
    node it left.

  \<^bold>\<open>What is proved.\<close> For the gateway and the director: refinement of every operation to a
  function on nodes, on success exactly the promised sets, rules and tunnels and the route
  unless the destination is already listed, and success on nodes without faults whose chains
  are there and whose listings the substring tests read rightly; idempotence, the round trip of adding and clearing, and
  where the clean-up gets stuck. For the manager: which node is chosen and when it is kept,
  that one manager leads, and how a leader ends: the release on the stop signal lets a second
  loop start beside the first. For the queue: exclusion of workers, no lost updates, progress, draining after shutdown,
  delays. For the agent: dispatch, frames under faults, correctness of both roles, what is
  withdrawn on updates and deletions, errors and retries, crashes, and an invariant of all
  runs. For the programs as a whole: the caches are filled by the informers that the syncs
  read, requests reach the address of their resource, signals stop the program, the node stays
  sound over all lives of the agent, also when they are killed at any call. Where iptables
  answers exit status 1 for a chain that exists, a process that is started on what they left
  comes to its workers (with another status it never does), and its syncs establish the rules;
  the choice of the manager ends in one gateway and in directors whose tunnels and routes lead
  to it. Both need listings of links and routes that do not mislead the substring tests of the
  code: a route over the tunnel to an earlier gateway is kept by it, and then the destination
  does not reach the new one, which \<open>listings_clear\<close> and \<open>endpoints_reached\<close> exclude. For the generated clients: kinds and types match in every scheme,
  and the fake clientset that tests use is a store whose watchers miss nothing. Properties that show a deviation of the code from its purpose or
  its comments are named in the findings.

  \<^bold>\<open>Interfaces.\<close> \<open>step_order\<close> (frames), \<open>node_contract\<close> and \<open>reliable_node\<close> (the node),
  \<open>key_queue\<close> and \<open>delayed_queue\<close> (the queue); each is interpreted on the definitions of the
  model.

  \<^bold>\<open>Simplifications.\<close> Strings are byte lists. A sync or a handler is one step of Agent, so
  the commands of syncs of different resources do not interleave there, while Workers lets
  the queue operations interleave freely. In Killed the process may end between any two commands
  of such a step; a command that is cut off itself counts as one that was not started or that ended. The clock and the token bucket enter as the
  numbers they answer. The heap of the waiting loop is a sorted list; which of two entries
  with the same instant comes first is not specified by the code. Messages of errors keep
  their first part, and log output is left out. The capacity of the channel of delayed adds
  is unbounded. An iptables is assumed that knows \<open>-C\<close> and \<open>--wait\<close> wherever \<open>ipt_ready\<close> is a
  hypothesis (1.4.20, as \<open>run_prepares\<close> shows); the fallbacks are defined but not reasoned
  about.

  \<^bold>\<open>Not modelled.\<close> Conversion functions and defaulters of a scheme, the parsers of selectors and the
  application of patches in the fake client, its discovery and its proxies; the flags of \<open>cmd\<close>, in whose place the
  configuration they lead to is given; the reflectors that fill the caches, which are
  functions of the world, and the answers of the API server;
  \<open>handleObject\<close>, which is registered nowhere and only logs; \<open>List\<close>, \<open>Stats\<close> and \<open>ParseStat\<close>
  of go-iptables, \<open>Test\<close> and \<open>List\<close> of go-ipset and \<open>Bump\<close> and \<open>Sort\<close> of go-semver, which the
  program does not call; the token bucket and the metrics of the work queue.
\<close>

end
